(* ===== verification/GoStrings.thy ===== *)
theory GoStrings
  imports Prelude
begin

text \<open>
  The part of Go's string library the source uses.  A Go string and a byte slice are both
  a \<open>string\<close> here, one \<open>char\<close> per byte; \<open>length\<close> therefore counts bytes, as
  \<open>len\<close> does.  UTF-8 is decoded as \<open>utf8.DecodeRuneInString\<close> does it: an invalid
  byte is the rune U+FFFD of width 1.
\<close>

section \<open>Bytes and runes\<close>

definition byte :: "char \<Rightarrow> nat" where
  "byte c = of_char c"

definition chr :: "nat \<Rightarrow> char" where
  "chr n = char_of n"

lemma byte_less [simp]: "byte c < 256"
  by (simp add: byte_def)

lemma byte_chr [simp]: "n < 256 \<Longrightarrow> byte (chr n) = n"
  by (simp add: byte_def chr_def)

lemma chr_byte [simp]: "chr (byte c) = c"
  by (simp add: byte_def chr_def)

lemma byte_inject [simp]: "byte c = byte d \<longleftrightarrow> c = d"
  by (metis chr_byte)

text \<open>\<open>utf8.RuneError\<close>.\<close>

definition rune_error :: nat where
  "rune_error = 0xFFFD"

definition cont :: "char \<Rightarrow> bool" where
  "cont c = (0x80 \<le> byte c \<and> byte c \<le> 0xBF)"

text \<open>The range of the second byte depends on the first one, as in the table of
  \<open>unicode/utf8\<close>: no overlong form, no surrogate, nothing above U+10FFFF.\<close>

definition second_ok :: "nat \<Rightarrow> char \<Rightarrow> bool" where
  "second_ok b0 c =
     (if b0 = 0xE0 then 0xA0 \<le> byte c \<and> byte c \<le> 0xBF
      else if b0 = 0xED then 0x80 \<le> byte c \<and> byte c \<le> 0x9F
      else if b0 = 0xF0 then 0x90 \<le> byte c \<and> byte c \<le> 0xBF
      else if b0 = 0xF4 then 0x80 \<le> byte c \<and> byte c \<le> 0x8F
      else cont c)"

definition decode_rune2 :: "nat \<Rightarrow> string \<Rightarrow> nat \<times> nat" where
  "decode_rune2 b0 cs =
     (case cs of
        c1 # _ \<Rightarrow> if cont c1 then ((b0 - 0xC0) * 64 + (byte c1 - 0x80), 2) else (rune_error, 1)
      | [] \<Rightarrow> (rune_error, 1))"

definition decode_rune3 :: "nat \<Rightarrow> string \<Rightarrow> nat \<times> nat" where
  "decode_rune3 b0 cs =
     (case cs of
        c1 # c2 # _ \<Rightarrow>
          if second_ok b0 c1 \<and> cont c2
          then ((b0 - 0xE0) * 4096 + (byte c1 - 0x80) * 64 + (byte c2 - 0x80), 3)
          else (rune_error, 1)
      | _ \<Rightarrow> (rune_error, 1))"

definition decode_rune4 :: "nat \<Rightarrow> string \<Rightarrow> nat \<times> nat" where
  "decode_rune4 b0 cs =
     (case cs of
        c1 # c2 # c3 # _ \<Rightarrow>
          if second_ok b0 c1 \<and> cont c2 \<and> cont c3
          then ((b0 - 0xF0) * 262144 + (byte c1 - 0x80) * 4096
                + (byte c2 - 0x80) * 64 + (byte c3 - 0x80), 4)
          else (rune_error, 1)
      | _ \<Rightarrow> (rune_error, 1))"

fun decode_rune :: "string \<Rightarrow> nat \<times> nat" where
  "decode_rune [] = (rune_error, 0)"
| "decode_rune (c0 # cs) =
     (let b0 = byte c0 in
      if b0 < 0x80 then (b0, 1)
      else if 0xC2 \<le> b0 \<and> b0 \<le> 0xDF then decode_rune2 b0 cs
      else if 0xE0 \<le> b0 \<and> b0 \<le> 0xEF then decode_rune3 b0 cs
      else if 0xF0 \<le> b0 \<and> b0 \<le> 0xF4 then decode_rune4 b0 cs
      else (rune_error, 1))"

lemma decode_rune_width_pos: "s \<noteq> [] \<Longrightarrow> 0 < snd (decode_rune s)"
  by (cases s)
    (auto simp: decode_rune2_def decode_rune3_def decode_rune4_def Let_def split: list.splits)

lemma decode_rune_width_le: "snd (decode_rune s) \<le> length s"
  by (cases s)
    (auto simp: decode_rune2_def decode_rune3_def decode_rune4_def Let_def split: list.splits)

lemma decode_rune_ascii [simp]: "byte c < 0x80 \<Longrightarrow> decode_rune (c # cs) = (byte c, 1)"
  by simp

lemma decode_rune_width_ascii:
  assumes "fst (decode_rune (c # cs)) < 0x80"
  shows "snd (decode_rune (c # cs)) = 1 \<and> byte c = fst (decode_rune (c # cs))"
proof -
  have three: "a * 4096 + (b - 128) * 64 + d \<ge> 128" if "a = 0 \<longrightarrow> 160 \<le> b" for a b d :: nat
    using that by (cases "a = 0") auto
  have four: "a * 262144 + (b - 128) * 4096 + d + e \<ge> 128" if "a = 0 \<longrightarrow> 144 \<le> b" for a b d e :: nat
    using that by (cases "a = 0") auto
  show ?thesis
    using assms three[of "byte c - 224"] four[of "byte c - 240"]
    by (auto simp: Let_def decode_rune2_def decode_rune3_def decode_rune4_def rune_error_def
          second_ok_def not_less[symmetric] split: list.splits if_splits)
qed

text \<open>\<open>for _, r := range s\<close>: the runes of a string, each with the bytes it was read from.\<close>

function runes :: "string \<Rightarrow> (nat \<times> string) list" where
  "runes [] = []"
| "runes (c # cs) =
     (let (r, w) = decode_rune (c # cs) in (r, take w (c # cs)) # runes (drop w (c # cs)))"
  by pat_completeness auto
termination
proof (relation "measure length", goal_cases)
  case 1
  show ?case by simp
next
  case (2 c cs x r w)
  then have "0 < w" using decode_rune_width_pos[of "c # cs"] by (metis list.distinct(1) snd_conv)
  then show ?case by simp
qed

declare runes.simps(2) [simp del]

lemma runes_ascii [simp]: "byte c < 0x80 \<Longrightarrow> runes (c # cs) = (byte c, [c]) # runes cs"
  by (simp add: runes.simps(2))

lemma concat_runes: "concat (map snd (runes s)) = s"
proof (induction s rule: runes.induct)
  case 1
  show ?case by simp
next
  case (2 c cs)
  obtain r w where rw: "decode_rune (c # cs) = (r, w)" by force
  have "concat (map snd (runes (drop w (c # cs)))) = drop w (c # cs)"
    using "2.IH"[OF _ refl] rw by auto
  then show ?case using rw by (simp add: runes.simps(2) del: decode_rune.simps)
qed

text \<open>\<open>utf8.ValidString\<close>.\<close>

definition invalid_step :: "nat \<times> string \<Rightarrow> bool" where
  "invalid_step rb = (fst rb = rune_error \<and> length (snd rb) = 1)"

definition valid_utf8 :: "string \<Rightarrow> bool" where
  "valid_utf8 s = list_all (\<lambda>rb. \<not> invalid_step rb) (runes s)"

lemma valid_utf8_Nil [simp]: "valid_utf8 []"
  by (simp add: valid_utf8_def)

lemma valid_utf8_ascii [simp]: "byte c < 0x80 \<Longrightarrow> valid_utf8 (c # cs) = valid_utf8 cs"
  by (simp add: valid_utf8_def invalid_step_def rune_error_def)

text \<open>\<open>unicode.IsSpace\<close> and \<open>unicode.IsControl\<close>.\<close>

definition is_space :: "nat \<Rightarrow> bool" where
  "is_space r =
     (r \<in> {0x09, 0x0A, 0x0B, 0x0C, 0x0D, 0x20, 0x85, 0xA0, 0x1680, 0x2028, 0x2029, 0x202F, 0x205F, 0x3000}
      \<or> 0x2000 \<le> r \<and> r \<le> 0x200A)"

definition is_control :: "nat \<Rightarrow> bool" where
  "is_control r = (r < 0x20 \<or> 0x7F \<le> r \<and> r < 0xA0)"

definition has_control :: "string \<Rightarrow> bool" where
  "has_control s = list_ex (\<lambda>rb. is_control (fst rb)) (runes s)"

text \<open>\<open>strings.TrimSpace\<close> and \<open>bytes.TrimSpace\<close>: whole runes are dropped at both ends.\<close>

definition trim_space :: "string \<Rightarrow> string" where
  "trim_space s =
     (let sp = (\<lambda>rb. is_space (fst rb)) in
      concat (map snd (rev (dropWhile sp (rev (dropWhile sp (runes s)))))))"

lemma trim_space_Nil [simp]: "trim_space [] = []"
  by (simp add: trim_space_def)


section \<open>Case, prefixes, searching\<close>

text \<open>
  \<open>strings.ToLower\<close> and \<open>strings.ToUpper\<close>.  Outside ASCII only the runes that fold
  into ASCII are mapped (U+0130 and U+212A down, U+0131 and U+017F up); the other runes
  are left as they are, which no comparison of the source with an ASCII text can tell.
  \<open>strings.ToLower\<close> also rewrites an invalid byte to the encoding of U+FFFD.
\<close>

definition lower_rune :: "nat \<Rightarrow> nat" where
  "lower_rune r =
     (if 65 \<le> r \<and> r \<le> 90 then r + 32 else if r = 0x130 then 105 else if r = 0x212A then 107 else r)"

definition upper_rune :: "nat \<Rightarrow> nat" where
  "upper_rune r =
     (if 97 \<le> r \<and> r \<le> 122 then r - 32 else if r = 0x131 then 73 else if r = 0x17F then 83 else r)"

definition encode_rune :: "nat \<Rightarrow> string" where
  "encode_rune r =
     (if r < 0x80 then [chr r]
      else if r < 0x800 then [chr (0xC0 + r div 64), chr (0x80 + r mod 64)]
      else if 0xD800 \<le> r \<and> r \<le> 0xDFFF \<or> 0x110000 \<le> r
      then [chr 0xEF, chr 0xBF, chr 0xBD]
      else if r < 0x10000
      then [chr (0xE0 + r div 4096), chr (0x80 + r div 64 mod 64), chr (0x80 + r mod 64)]
      else [chr (0xF0 + r div 262144), chr (0x80 + r div 4096 mod 64),
            chr (0x80 + r div 64 mod 64), chr (0x80 + r mod 64)])"

definition map_runes :: "(nat \<Rightarrow> nat) \<Rightarrow> string \<Rightarrow> string" where
  "map_runes f s = concat (map (\<lambda>rb. encode_rune (f (fst rb))) (runes s))"

definition to_lower :: "string \<Rightarrow> string" where
  "to_lower = map_runes lower_rune"

definition to_upper :: "string \<Rightarrow> string" where
  "to_upper = map_runes upper_rune"

text \<open>\<open>strings.EqualFold\<close> against the classes of simple folding that meet ASCII.\<close>

definition fold_rune :: "nat \<Rightarrow> nat" where
  "fold_rune r = (if r = 0x212A then 107 else if r = 0x17F then 115
                  else if 65 \<le> r \<and> r \<le> 90 then r + 32 else r)"

definition equal_fold :: "string \<Rightarrow> string \<Rightarrow> bool" where
  "equal_fold s t = (map (\<lambda>rb. fold_rune (fst rb)) (runes s) = map (\<lambda>rb. fold_rune (fst rb)) (runes t))"

lemma equal_fold_refl [simp]: "equal_fold s s"
  by (simp add: equal_fold_def)

lemma equal_fold_sym: "equal_fold s t \<Longrightarrow> equal_fold t s"
  by (simp add: equal_fold_def)

lemma equal_fold_trans: "equal_fold s t \<Longrightarrow> equal_fold t u \<Longrightarrow> equal_fold s u"
  by (simp add: equal_fold_def)

fun has_prefix :: "string \<Rightarrow> string \<Rightarrow> bool" where
  "has_prefix s [] = True"
| "has_prefix [] (p # ps) = False"
| "has_prefix (c # cs) (p # ps) = (c = p \<and> has_prefix cs ps)"

lemma has_prefix_iff: "has_prefix s p \<longleftrightarrow> prefix p s"
  by (induction s p rule: has_prefix.induct) auto

definition trim_prefix :: "string \<Rightarrow> string \<Rightarrow> string" where
  "trim_prefix s p = (if has_prefix s p then drop (length p) s else s)"

text \<open>\<open>strings.Contains\<close>.\<close>

fun contains :: "string \<Rightarrow> string \<Rightarrow> bool" where
  "contains [] t = (t = [])"
| "contains (c # cs) t = (has_prefix (c # cs) t \<or> contains cs t)"

lemma contains_iff: "contains s t \<longleftrightarrow> sublist t s"
  by (induction s) (auto simp: has_prefix_iff sublist_Cons_right)

text \<open>\<open>strings.ReplaceAll\<close> for a non-empty search string: leftmost matches, without
  overlap.  The source never passes an empty one.\<close>

function replace_all :: "string \<Rightarrow> string \<Rightarrow> string \<Rightarrow> string" where
  "replace_all old new [] = []"
| "replace_all old new (c # cs) =
     (if old \<noteq> [] \<and> has_prefix (c # cs) old
      then new @ replace_all old new (drop (length old) (c # cs))
      else c # replace_all old new cs)"
  by pat_completeness auto
termination
  by (relation "measure (\<lambda>(old, new, s). length s)") auto

text \<open>\<open>strings.Split\<close> on one byte, \<open>strings.Join\<close>, \<open>strings.Trim\<close> for one byte.\<close>

fun split_on :: "char \<Rightarrow> string \<Rightarrow> string list" where
  "split_on d [] = [[]]"
| "split_on d (c # cs) =
     (if c = d then [] # split_on d cs
      else (case split_on d cs of [] \<Rightarrow> [[c]] | p # ps \<Rightarrow> (c # p) # ps))"

fun join :: "string \<Rightarrow> string list \<Rightarrow> string" where
  "join sep [] = []"
| "join sep [p] = p"
| "join sep (p # q # ps) = p @ sep @ join sep (q # ps)"

definition trim_left_byte :: "char \<Rightarrow> string \<Rightarrow> string" where
  "trim_left_byte d s = dropWhile (\<lambda>c. c = d) s"

definition trim_right_byte :: "char \<Rightarrow> string \<Rightarrow> string" where
  "trim_right_byte d s = rev (dropWhile (\<lambda>c. c = d) (rev s))"

lemma split_on_nonempty [simp]: "split_on d s \<noteq> []"
  by (induction s) (auto split: list.splits)

lemma split_on_no_sep: "p \<in> set (split_on d s) \<Longrightarrow> d \<notin> set p"
proof (induction s arbitrary: p)
  case Nil
  then show ?case by simp
next
  case (Cons c cs)
  then show ?case by (cases "split_on d cs") (auto split: if_splits)
qed

lemma split_on_none: "d \<notin> set s \<Longrightarrow> split_on d s = [s]"
  by (induction s) auto

lemma split_on_append: "d \<notin> set s \<Longrightarrow> split_on d (s @ d # t) = s # split_on d t"
  by (induction s) auto

lemma join_split: "join [d] (split_on d s) = s"
proof (induction s)
  case Nil
  then show ?case by simp
next
  case (Cons c cs)
  obtain p ps where sp: "split_on d cs = p # ps"
    by (meson neq_Nil_conv split_on_nonempty)
  with Cons show ?case by (cases ps) auto
qed

section \<open>Decimal numbers\<close>

definition digit :: "nat \<Rightarrow> char" where
  "digit d = chr (48 + d)"

definition is_digit :: "char \<Rightarrow> bool" where
  "is_digit c = (48 \<le> byte c \<and> byte c \<le> 57)"

text \<open>\<open>strconv.Itoa\<close>.\<close>

fun show_nat :: "nat \<Rightarrow> string" where
  "show_nat n = (if n < 10 then [digit n] else show_nat (n div 10) @ [digit (n mod 10)])"

declare show_nat.simps [simp del]

definition itoa :: "int \<Rightarrow> string" where
  "itoa n = (if n < 0 then CHR ''-'' # show_nat (nat (- n)) else show_nat (nat n))"

definition read_nat :: "string \<Rightarrow> nat" where
  "read_nat s = foldl (\<lambda>a c. 10 * a + (byte c - 48)) 0 s"

text \<open>\<open>strconv.Atoi\<close> and \<open>strconv.ParseInt(s, 10, 64)\<close>: an optional sign, decimal digits
  only, and an error outside the 64-bit range.\<close>

definition atoi :: "string \<Rightarrow> int option" where
  "atoi s =
     (let (neg, ds) = (case s of
          [] \<Rightarrow> (False, [])
        | c # cs \<Rightarrow> if c = CHR ''-'' then (True, cs) else if c = CHR ''+'' then (False, cs) else (False, s))
      in if ds = [] \<or> \<not> list_all is_digit ds then None
         else let n = int (read_nat ds) in
           if neg then (if n \<le> 2 ^ 63 then Some (- n) else None)
           else (if n < 2 ^ 63 then Some n else None))"

lemma is_digit_digit [simp]: "d < 10 \<Longrightarrow> is_digit (digit d)"
  by (simp add: is_digit_def digit_def)

lemma byte_digit [simp]: "d < 10 \<Longrightarrow> byte (digit d) = 48 + d"
  by (simp add: digit_def)

lemma show_nat_digits: "list_all is_digit (show_nat n)"
proof (induction n rule: show_nat.induct)
  case (1 n)
  then show ?case by (subst show_nat.simps) auto
qed

lemma show_nat_nonempty [simp]: "show_nat n \<noteq> []"
  by (subst show_nat.simps) simp

lemma read_nat_snoc: "read_nat (s @ [c]) = 10 * read_nat s + (byte c - 48)"
  by (simp add: read_nat_def)

lemma read_show_nat [simp]: "read_nat (show_nat n) = n"
proof (induction n rule: show_nat.induct)
  case (1 n)
  show ?case
  proof (cases "n < 10")
    case True
    then show ?thesis by (simp add: show_nat.simps[of n] read_nat_def)
  next
    case False
    with 1 show ?thesis by (simp add: show_nat.simps[of n] read_nat_snoc)
  qed
qed

lemma show_nat_inject [simp]: "show_nat m = show_nat n \<longleftrightarrow> m = n"
  by (metis read_show_nat)

lemma show_nat_no_char: "\<not> is_digit c \<Longrightarrow> c \<notin> set (show_nat n)"
  using show_nat_digits[of n] by (auto simp: list_all_iff)

lemma show_nat_hd: "show_nat n = c # cs \<Longrightarrow> is_digit c"
  using show_nat_digits[of n] by auto

lemma not_digit_sign [simp]: "\<not> is_digit CHR ''-''" "\<not> is_digit CHR ''+''" "\<not> is_digit CHR ''.''"
  "\<not> is_digit CHR '':''" "\<not> is_digit CHR ''v''"
  by (simp_all add: is_digit_def byte_def)

lemma atoi_show_nat: "int n < 2 ^ 63 \<Longrightarrow> atoi (show_nat n) = Some (int n)"
proof -
  assume n: "int n < 2 ^ 63"
  obtain c cs where s: "show_nat n = c # cs" by (meson neq_Nil_conv show_nat_nonempty)
  then have d: "is_digit c" by (rule show_nat_hd)
  then have "c \<noteq> CHR ''-''" "c \<noteq> CHR ''+''" by auto
  then show ?thesis
    using n show_nat_digits[of n] read_show_nat[of n] unfolding atoi_def s by simp
qed

section \<open>ASCII texts\<close>

definition ascii :: "string \<Rightarrow> bool" where
  "ascii s = list_all (\<lambda>c. byte c < 0x80) s"

lemma ascii_simps [simp]:
  "ascii []" "ascii (c # s) = (byte c < 0x80 \<and> ascii s)" "ascii (s @ t) = (ascii s \<and> ascii t)"
  by (simp_all add: ascii_def)

lemma runes_of_ascii: "ascii s \<Longrightarrow> runes s = map (\<lambda>c. (byte c, [c])) s"
  by (induction s) auto

lemma concat_singletons [simp]: "concat (map (\<lambda>c. [c]) s) = s"
  by (induction s) auto

lemma to_lower_ascii_id:
  assumes "ascii s" "\<forall>c \<in> set s. \<not> (65 \<le> byte c \<and> byte c \<le> 90)"
  shows "to_lower s = s"
proof -
  have "map (\<lambda>rb. encode_rune (lower_rune (fst rb))) (runes s) = map (\<lambda>c. [c]) s"
    using assms by (auto simp: runes_of_ascii lower_rune_def encode_rune_def ascii_def list_all_iff)
  then show ?thesis by (simp add: to_lower_def map_runes_def)
qed

lemma dropWhile_id: "(xs \<noteq> [] \<Longrightarrow> \<not> P (hd xs)) \<Longrightarrow> dropWhile P xs = xs"
  by (cases xs) auto

text \<open>No space at either end: nothing is trimmed.\<close>

lemma trim_space_ascii_id:
  assumes "ascii s" "s \<noteq> [] \<Longrightarrow> \<not> is_space (byte (hd s))" "s \<noteq> [] \<Longrightarrow> \<not> is_space (byte (last s))"
  shows "trim_space s = s"
proof (cases "s = []")
  case True
  then show ?thesis by simp
next
  case False
  let ?rs = "map (\<lambda>c. (byte c, [c])) s"
  have 1: "dropWhile (\<lambda>rb. is_space (fst rb)) ?rs = ?rs"
    using assms(2) False by (intro dropWhile_id) (simp add: hd_map)
  have 2: "dropWhile (\<lambda>rb. is_space (fst rb)) (rev ?rs) = rev ?rs"
    using assms(3) False by (intro dropWhile_id) (simp add: hd_map hd_rev rev_map)
  show ?thesis
    by (simp add: trim_space_def runes_of_ascii[OF assms(1)] 1 2 o_def)
qed

lemma is_digit_ascii: "is_digit c \<Longrightarrow> byte c < 0x80 \<and> \<not> is_space (byte c) \<and> \<not> (65 \<le> byte c \<and> byte c \<le> 90)"
  by (auto simp: is_digit_def is_space_def)

lemma show_nat_chars: "c \<in> set (show_nat n) \<Longrightarrow> is_digit c"
  using show_nat_digits[of n] by (simp add: list_all_iff)

lemma ascii_show_nat [simp]: "ascii (show_nat n)"
  using show_nat_chars is_digit_ascii by (simp add: ascii_def list_all_iff)

end
