(* ===== verification/GoErrors.thy ===== *)
theory GoErrors
  imports GoStrings
begin

text \<open>
  The error values of \<open>flinksqlgateway/errors.go\<close> with \<open>errors.Is\<close> and \<open>errors.As\<close>.
  A sentinel variable is a constructor of \<open>sentinel\<close>; each typed error is a constructor
  of \<open>goerr\<close> with the fields of its struct in the source's order; \<open>Errorf\<close> is an error
  of \<open>fmt.Errorf\<close>, kept as its format and its operands.
\<close>

section \<open>Data\<close>

datatype sentinel =
    ErrSessionNotFound | ErrSessionExpired | ErrOperationNotFound | ErrOperationFailed
  | ErrResultLimit | ErrUnsupportedAPI | ErrInvalidFlinkVersion | ErrUnsupportedFlinkVersion
  | ErrNoCompatibleAPIVersion | ErrExplicitAPIVersionUnsupportedByServer
  | ErrExplicitAPIVersionUnsupportedByProfile | ErrUnsupportedCapability
  | ErrCompatibilityDetection | ErrResponseTooLarge | ErrUnsafeNextResultURI
  | ErrExecutionOutcomeUnknown | ErrConfigurationOutcomeUnknown
  | ErrMaterializedTableRefreshOutcomeUnknown | ErrScriptDeploymentOutcomeUnknown
  | ErrSessionSetupVerification | ErrClientClosed | ErrSessionClosed
  | ContextCanceled | ContextDeadlineExceeded

text \<open>\<open>RequestPhase\<close>; \<open>PhaseUnset\<close> is the zero value, the empty string.\<close>

datatype request_phase =
    PhaseUnset | RequestNotSent | RequestPossiblySent | ResponseHeaderMissing
  | ResponseBodyIncomplete | ResponseReceived

text \<open>\<open>SessionSetupStepKind\<close>; \<open>StepUnset\<close> is the zero value.\<close>

datatype step_kind =
    StepUnset | SessionSetupCatalog | SessionSetupDatabase | SessionSetupTable
  | SessionSetupUseCatalog | SessionSetupUseDatabase

record sql_ident =
  Catalog :: string
  Database :: string
  Object :: string

definition no_identifier :: sql_ident where
  "no_identifier = \<lparr>Catalog = [], Database = [], Object = []\<rparr>"

text \<open>An operand of \<open>fmt.Errorf\<close>: a text, an error under \<open>%w\<close> (wrapped) or under \<open>%v\<close>.\<close>

datatype goerr =
    Sentinel sentinel
  | Errorf string "fmt_arg list"
  | CompatibilityError "goerr option" string string string string "goerr option"
  | ExecutionOutcomeUnknownError string string string request_phase "goerr option"
  | MaterializedTableRefreshOutcomeUnknownError string string string request_phase "goerr option"
  | ScriptDeploymentOutcomeUnknownError string string string request_phase "goerr option"
  | ConfigurationOutcomeUnknownError string int step_kind request_phase "goerr option"
  | SessionSetupError "goerr option" "goerr option" string int step_kind sql_ident bool
  | APIError string string int string string bool request_phase "goerr option"
  | ExecutionError "goerr option" "goerr option" "goerr option" string string string
  | ResultLimitError string int int
  | SanitizedTransportError string goerr bool bool
  | SetupVerificationError "goerr option" step_kind sql_ident
  | RecipeReplayError "goerr option" "goerr option" string int
and fmt_arg = ArgText string | ArgWrap goerr | ArgVal goerr

section \<open>\<open>Unwrap\<close>, \<open>errors.Is\<close>, \<open>errors.As\<close>\<close>

text \<open>\<open>ErrNoCompatibleAPIVersion\<close> and its kin are \<open>fmt.Errorf("%w: ...", ErrUnsupportedAPI)\<close>.\<close>

definition sentinel_is :: "sentinel \<Rightarrow> sentinel \<Rightarrow> bool" where
  "sentinel_is s t =
     (s = t \<or> t = ErrUnsupportedAPI \<and>
        s \<in> {ErrNoCompatibleAPIVersion, ErrExplicitAPIVersionUnsupportedByServer,
             ErrExplicitAPIVersionUnsupportedByProfile, ErrUnsupportedCapability})"

fun wrapped_args :: "fmt_arg list \<Rightarrow> goerr list" where
  "wrapped_args [] = []"
| "wrapped_args (ArgWrap e # as) = e # wrapped_args as"
| "wrapped_args (_ # as) = wrapped_args as"

fun opt_list :: "'a option \<Rightarrow> 'a list" where
  "opt_list None = []"
| "opt_list (Some x) = [x]"

lemma set_opt_list [simp]: "set (opt_list z) = set_option z"
  by (cases z) auto

fun unwrap :: "goerr \<Rightarrow> goerr list" where
  "unwrap (Sentinel s) = []"
| "unwrap (Errorf f as) = wrapped_args as"
| "unwrap (CompatibilityError k op fv rl av c) = opt_list k @ opt_list c"
| "unwrap (ExecutionOutcomeUnknownError s m e p c) = opt_list c"
| "unwrap (MaterializedTableRefreshOutcomeUnknownError s m e p c) = opt_list c"
| "unwrap (ScriptDeploymentOutcomeUnknownError s m e p c) = opt_list c"
| "unwrap (ConfigurationOutcomeUnknownError s i k p c) = opt_list c"
| "unwrap (SessionSetupError c cl s i k t u) = opt_list c @ opt_list cl"
| "unwrap (APIError m e st cd ms rt p c) = opt_list c"
| "unwrap (ExecutionError c ca cl s oh j) = opt_list c @ opt_list ca @ opt_list cl"
| "unwrap (ResultLimitError k l r) = []"
| "unwrap (SanitizedTransportError m c t te) = []"
| "unwrap (SetupVerificationError c k t) = opt_list c"
| "unwrap (RecipeReplayError c cl s i) = opt_list c @ opt_list cl"

text \<open>The errors \<open>errors.Is\<close> visits below one: what \<open>Unwrap\<close> gives and, for the sanitised
  transport error, the hidden cause its own \<open>Is\<close> method consults.\<close>

definition is_children :: "goerr \<Rightarrow> goerr list" where
  "is_children e = (case e of SanitizedTransportError m c t te \<Rightarrow> [c] | _ \<Rightarrow> unwrap e)"

fun matches_here :: "goerr \<Rightarrow> sentinel \<Rightarrow> bool" where
  "matches_here (Sentinel s) t = sentinel_is s t"
| "matches_here (ExecutionOutcomeUnknownError _ _ _ _ _) t = (t = ErrExecutionOutcomeUnknown)"
| "matches_here (MaterializedTableRefreshOutcomeUnknownError _ _ _ _ _) t =
     (t = ErrMaterializedTableRefreshOutcomeUnknown)"
| "matches_here (ScriptDeploymentOutcomeUnknownError _ _ _ _ _) t = (t = ErrScriptDeploymentOutcomeUnknown)"
| "matches_here (ConfigurationOutcomeUnknownError _ _ _ _ _) t = (t = ErrConfigurationOutcomeUnknown)"
| "matches_here (ResultLimitError _ _ _) t = (t = ErrResultLimit)"
| "matches_here (SetupVerificationError _ _ _) t = (t = ErrSessionSetupVerification)"
| "matches_here _ t = False"

lemma size_wrapped_args: "x \<in> set (wrapped_args as) \<Longrightarrow> size x < size_list size as"
  by (induction as rule: wrapped_args.induct) auto

lemma size_unwrap: "x \<in> set (unwrap e) \<Longrightarrow> size x < size e"
  by (cases e) (auto intro: less_SucI size_wrapped_args split: option.splits)

lemma size_is_children: "x \<in> set (is_children e) \<Longrightarrow> size x < size e"
  using size_unwrap[of x e] by (cases e) (auto simp: is_children_def)

function err_is :: "goerr \<Rightarrow> sentinel \<Rightarrow> bool" where
  "err_is e t = (matches_here e t \<or> list_ex (\<lambda>x. err_is x t) (is_children e))"
  by pat_completeness auto
termination
  by (relation "measure (\<lambda>(e, t). size e)") (auto simp: size_is_children)

declare err_is.simps [simp del]

text \<open>The tree of an error in the order \<open>errors.As\<close> searches it.\<close>

function err_chain :: "goerr \<Rightarrow> goerr list" where
  "err_chain e = e # concat (map err_chain (unwrap e))"
  by pat_completeness auto
termination
  by (relation "measure size") (auto simp: size_unwrap)

declare err_chain.simps [simp del]

definition is_APIError :: "goerr \<Rightarrow> bool" where
  "is_APIError e = (case e of APIError m en st cd ms rt p c \<Rightarrow> True | _ \<Rightarrow> False)"

definition is_config_unknown :: "goerr \<Rightarrow> bool" where
  "is_config_unknown e = (case e of ConfigurationOutcomeUnknownError s i k p c \<Rightarrow> True | _ \<Rightarrow> False)"

definition is_setup_error :: "goerr \<Rightarrow> bool" where
  "is_setup_error e = (case e of SessionSetupError c cl s i k t u \<Rightarrow> True | _ \<Rightarrow> False)"

definition as_api_error :: "goerr \<Rightarrow> goerr option" where
  "as_api_error e = List.find is_APIError (err_chain e)"

definition as_config_unknown :: "goerr \<Rightarrow> goerr option" where
  "as_config_unknown e = List.find is_config_unknown (err_chain e)"

definition as_setup_error :: "goerr \<Rightarrow> goerr option" where
  "as_setup_error e = List.find is_setup_error (err_chain e)"

text \<open>\<open>isContextError\<close> of transport.go.\<close>

definition isContextError :: "goerr \<Rightarrow> bool" where
  "isContextError e = (err_is e ContextCanceled \<or> err_is e ContextDeadlineExceeded)"

definition err_is_opt :: "goerr option \<Rightarrow> sentinel \<Rightarrow> bool" where
  "err_is_opt z t = (case z of None \<Rightarrow> False | Some e \<Rightarrow> err_is e t)"

lemma err_is_opt_simps [simp]: "err_is_opt None t = False" "err_is_opt (Some e) t = err_is e t"
  by (simp_all add: err_is_opt_def)

lemma list_ex_opt_list [simp]: "list_ex (\<lambda>x. err_is x t) (opt_list z) = err_is_opt z t"
  by (cases z) auto

text \<open>\<open>errors.Is\<close> on every shape of error.\<close>

lemma err_is_simps [simp]:
  "err_is (Sentinel sn) t = sentinel_is sn t"
  "err_is (Errorf f as) t = list_ex (\<lambda>x. err_is x t) (wrapped_args as)"
  "err_is (CompatibilityError k op fv rl av c) t = (err_is_opt k t \<or> err_is_opt c t)"
  "err_is (ExecutionOutcomeUnknownError s m e p c) t = (t = ErrExecutionOutcomeUnknown \<or> err_is_opt c t)"
  "err_is (MaterializedTableRefreshOutcomeUnknownError s m e p c) t =
     (t = ErrMaterializedTableRefreshOutcomeUnknown \<or> err_is_opt c t)"
  "err_is (ScriptDeploymentOutcomeUnknownError s m e p c) t =
     (t = ErrScriptDeploymentOutcomeUnknown \<or> err_is_opt c t)"
  "err_is (ConfigurationOutcomeUnknownError s i kd p c) t =
     (t = ErrConfigurationOutcomeUnknown \<or> err_is_opt c t)"
  "err_is (SessionSetupError c cl s i kd tg u) t = (err_is_opt c t \<or> err_is_opt cl t)"
  "err_is (APIError m e st cd ms rt p c) t = err_is_opt c t"
  "err_is (ExecutionError c ca cl s oh j) t = (err_is_opt c t \<or> err_is_opt ca t \<or> err_is_opt cl t)"
  "err_is (ResultLimitError ks l r) t = (t = ErrResultLimit)"
  "err_is (SanitizedTransportError ms x to te) t = err_is x t"
  "err_is (SetupVerificationError c kd tg) t = (t = ErrSessionSetupVerification \<or> err_is_opt c t)"
  "err_is (RecipeReplayError c cl s i) t = (err_is_opt c t \<or> err_is_opt cl t)"
  by (subst err_is.simps; simp add: is_children_def)+

lemma err_chain_simps [simp]:
  "err_chain (Sentinel sn) = [Sentinel sn]"
  "err_chain (APIError m en st cd ms rt p c) =
     APIError m en st cd ms rt p c # concat (map err_chain (opt_list c))"
  "err_chain (ConfigurationOutcomeUnknownError s i kd p c) =
     ConfigurationOutcomeUnknownError s i kd p c # concat (map err_chain (opt_list c))"
  "err_chain (SessionSetupError c cl s i kd tg u) =
     SessionSetupError c cl s i kd tg u # concat (map err_chain (opt_list c @ opt_list cl))"
  "err_chain (SanitizedTransportError ms x to te) = [SanitizedTransportError ms x to te]"
  "err_chain (ResultLimitError ks l r) = [ResultLimitError ks l r]"
  "err_chain (Errorf f as) = Errorf f as # concat (map err_chain (wrapped_args as))"
  by (subst err_chain.simps; simp)+

lemma as_api_error_APIError [simp]:
  "as_api_error (APIError m e st cd ms rt p c) = Some (APIError m e st cd ms rt p c)"
  by (simp add: as_api_error_def is_APIError_def)

lemma as_api_error_is: "as_api_error e = Some a \<Longrightarrow> is_APIError a"
  by (auto simp: as_api_error_def find_Some_iff)

lemma as_setup_error_SessionSetupError [simp]:
  "as_setup_error (SessionSetupError c cl s i kd tg u) = Some (SessionSetupError c cl s i kd tg u)"
  by (simp add: as_setup_error_def is_setup_error_def)

lemma sentinel_is_refl [simp]: "sentinel_is s s"
  by (simp add: sentinel_is_def)

end
