(* ===== verification/Security.thy ===== *)
theory Security
  imports GoErrors
begin

text \<open>
  \<open>flinksqlgateway/security.go\<close>, the SQL quoting of \<open>metadata.go\<close> and
  \<open>session_setup_compile.go\<close>, and the masking of handles in paths
  (\<open>sanitizeEndpointPath\<close> of \<open>transport.go\<close>, \<open>operationRoute\<close> of \<open>operation.go\<close>).
\<close>

section \<open>Opaque handles and URIs\<close>

definition maxHandleBytes :: nat where
  "maxHandleBytes = 4096"

definition validateOpaqueHandle :: "string \<Rightarrow> string \<Rightarrow> goerr option" where
  "validateOpaqueHandle kind handle =
     (if trim_space handle = [] then Some (Errorf ''flinksqlgateway: %s handle is required'' [ArgText kind])
      else if length handle > maxHandleBytes
      then Some (Errorf ''flinksqlgateway: %s handle exceeds %d bytes''
             [ArgText kind, ArgText (show_nat maxHandleBytes)])
      else if \<not> valid_utf8 handle
      then Some (Errorf ''flinksqlgateway: %s handle is not valid UTF-8'' [ArgText kind])
      else if has_control handle
      then Some (Errorf ''flinksqlgateway: %s handle contains a control character'' [ArgText kind])
      else None)"

definition validateSessionHandle :: "string \<Rightarrow> goerr option" where
  "validateSessionHandle handle = validateOpaqueHandle ''session'' handle"

definition validateOperationHandle :: "string \<Rightarrow> goerr option" where
  "validateOperationHandle handle = validateOpaqueHandle ''operation'' handle"

definition validateMaterializedTableIdentifier :: "string \<Rightarrow> goerr option" where
  "validateMaterializedTableIdentifier ident =
     (if trim_space ident = []
      then Some (Errorf ''flinksqlgateway: materialized table identifier is required'' [])
      else if length ident > maxHandleBytes
      then Some (Errorf ''flinksqlgateway: materialized table identifier exceeds %d bytes''
             [ArgText (show_nat maxHandleBytes)])
      else if \<not> valid_utf8 ident
      then Some (Errorf ''flinksqlgateway: materialized table identifier is not valid UTF-8'' [])
      else if has_control ident
      then Some (Errorf ''flinksqlgateway: materialized table identifier contains a control character'' [])
      else None)"

definition validateScriptURI :: "string \<Rightarrow> goerr option" where
  "validateScriptURI value =
     (if trim_space value = [] then Some (Errorf ''flinksqlgateway: script URI is required'' [])
      else if \<not> valid_utf8 value
      then Some (Errorf ''flinksqlgateway: script URI is not valid UTF-8'' [])
      else if has_control value
      then Some (Errorf ''flinksqlgateway: script URI contains a control character'' [])
      else None)"

definition safe_handle :: "string \<Rightarrow> bool" where
  "safe_handle h = (trim_space h \<noteq> [] \<and> length h \<le> 4096 \<and> valid_utf8 h \<and> \<not> has_control h)"

lemma validateOpaqueHandle_None_iff: "validateOpaqueHandle k h = None \<longleftrightarrow> safe_handle h"
  by (simp add: validateOpaqueHandle_def safe_handle_def maxHandleBytes_def not_less)

lemma validateSessionHandle_None_iff [simp]: "validateSessionHandle h = None \<longleftrightarrow> safe_handle h"
  by (simp add: validateSessionHandle_def validateOpaqueHandle_None_iff)

lemma validateOperationHandle_None_iff [simp]: "validateOperationHandle h = None \<longleftrightarrow> safe_handle h"
  by (simp add: validateOperationHandle_def validateOpaqueHandle_None_iff)

lemma validateMaterializedTableIdentifier_None_iff:
  "validateMaterializedTableIdentifier h = None \<longleftrightarrow> safe_handle h"
  by (simp add: validateMaterializedTableIdentifier_def safe_handle_def maxHandleBytes_def not_less)

lemma safe_handle_nonempty: "safe_handle h \<Longrightarrow> h \<noteq> []"
  by (auto simp: safe_handle_def)

subsection \<open>The origin of a paging URI\<close>

text \<open>\<open>url.URL\<close>.  The parser \<open>url.Parse\<close> and the merge of the two paths are arguments of
  the definitions; the rest of \<open>URL.ResolveReference\<close> is written out.\<close>

record go_url =
  Scheme :: string
  Opaque :: string
  User :: "string option"
  Host :: string
  Path :: string
  ForceQuery :: bool
  RawQuery :: string
  Fragment :: string

definition ResolveReference :: "(string \<Rightarrow> string \<Rightarrow> string) \<Rightarrow> go_url \<Rightarrow> go_url \<Rightarrow> go_url" where
  "ResolveReference resolve_path u ref =
     (let url = ref\<lparr>Scheme := (if Scheme ref = [] then Scheme u else Scheme ref)\<rparr> in
      if Scheme ref \<noteq> [] \<or> Host ref \<noteq> [] \<or> User ref \<noteq> None
      then url\<lparr>Path := resolve_path (Path ref) []\<rparr>
      else if Opaque ref \<noteq> [] then url\<lparr>User := None, Host := [], Path := []\<rparr>
      else
        (let url = (if Path ref = [] \<and> \<not> ForceQuery ref \<and> RawQuery ref = []
                    then url\<lparr>RawQuery := RawQuery u,
                             Fragment := (if Fragment ref = [] then Fragment u else Fragment ref)\<rparr>
                    else url) in
         if Path ref = [] \<and> Opaque u \<noteq> []
         then url\<lparr>Opaque := Opaque u, User := None, Host := [], Path := []\<rparr>
         else url\<lparr>Host := Host u, User := User u, Path := resolve_path (Path u) (Path ref)\<rparr>))"

definition validateNextResultURI ::
  "(string \<Rightarrow> (goerr, go_url) result) \<Rightarrow> (string \<Rightarrow> string \<Rightarrow> string) \<Rightarrow> go_url \<Rightarrow> string
    \<Rightarrow> (goerr, go_url) result" where
  "validateNextResultURI parse resolve_path baseURL value =
     (case parse value of
        Inl err \<Rightarrow> Inl (Errorf ''%w: parse: %v'' [ArgWrap (Sentinel ErrUnsafeNextResultURI), ArgVal err])
      | Inr ref \<Rightarrow>
          if User ref \<noteq> None \<or> Fragment ref \<noteq> []
          then Inl (Errorf ''%w: user information and fragments are not allowed''
                 [ArgWrap (Sentinel ErrUnsafeNextResultURI)])
          else
            (let base = baseURL\<lparr>Path := trim_right_byte CHR ''/'' (Path baseURL) @ ''/''\<rparr>;
                 resolved = ResolveReference resolve_path base ref in
             if Scheme resolved \<noteq> ''http'' \<and> Scheme resolved \<noteq> ''https''
             then Inl (Errorf ''%w: scheme %q''
                    [ArgWrap (Sentinel ErrUnsafeNextResultURI), ArgText (Scheme resolved)])
             else if \<not> equal_fold (Scheme resolved) (Scheme baseURL)
                   \<or> \<not> equal_fold (Host resolved) (Host baseURL)
             then Inl (Errorf ''%w: origin %s''
                    [ArgWrap (Sentinel ErrUnsafeNextResultURI), ArgText (Host resolved)])
             else Inr resolved))"

text \<open>What \<open>Config.normalize\<close> leaves of a base URL.\<close>

definition base_url_ok :: "go_url \<Rightarrow> bool" where
  "base_url_ok u = ((Scheme u = ''http'' \<or> Scheme u = ''https'') \<and> Host u \<noteq> [] \<and> User u = None
     \<and> RawQuery u = [] \<and> Fragment u = [])"

lemma ResolveReference_user:
  "User ref = None \<Longrightarrow> User u = None \<Longrightarrow> User (ResolveReference rp u ref) = None"
  by (simp add: ResolveReference_def Let_def)

lemma ResolveReference_fragment:
  "Fragment ref = [] \<Longrightarrow> Fragment u = [] \<Longrightarrow> Fragment (ResolveReference rp u ref) = []"
  by (simp add: ResolveReference_def Let_def)

lemma validateNextResultURI_Inl:
  "validateNextResultURI parse rp b v = Inl e \<Longrightarrow> err_is e ErrUnsafeNextResultURI"
  by (auto simp: validateNextResultURI_def Let_def split: sum.splits if_splits)

section \<open>Escaped path segments\<close>

definition hex_digit :: "nat \<Rightarrow> char" where
  "hex_digit n = (if n < 10 then chr (48 + n) else chr (55 + n))"

definition is_hex :: "char \<Rightarrow> bool" where
  "is_hex c = (is_digit c \<or> 65 \<le> byte c \<and> byte c \<le> 70 \<or> 97 \<le> byte c \<and> byte c \<le> 102)"

definition unhex :: "char \<Rightarrow> nat" where
  "unhex c = (if is_digit c then byte c - 48 else if byte c \<le> 70 then byte c - 55 else byte c - 87)"

text \<open>The bytes \<open>url.PathEscape\<close> leaves alone.\<close>

definition path_unreserved :: "char \<Rightarrow> bool" where
  "path_unreserved c =
     (is_digit c \<or> 65 \<le> byte c \<and> byte c \<le> 90 \<or> 97 \<le> byte c \<and> byte c \<le> 122
      \<or> c \<in> set ''-_.~$&+=:@'')"

definition pathSegment :: "string \<Rightarrow> string" where
  "pathSegment s = concat (map (\<lambda>c. if path_unreserved c then [c]
     else [CHR ''%'', hex_digit (byte c div 16), hex_digit (byte c mod 16)]) s)"

text \<open>\<open>url.PathUnescape\<close>.\<close>

fun path_unescape :: "string \<Rightarrow> string option" where
  "path_unescape [] = Some []"
| "path_unescape (c # cs) =
     (if c = CHR ''%''
      then (case cs of
              a # b # ds \<Rightarrow>
                if is_hex a \<and> is_hex b
                then map_option (\<lambda>t. chr (16 * unhex a + unhex b) # t) (path_unescape ds)
                else None
            | _ \<Rightarrow> None)
      else map_option (\<lambda>t. c # t) (path_unescape cs))"

lemma hex_digit_facts:
  assumes "n < 16"
  shows "is_hex (hex_digit n)" "unhex (hex_digit n) = n" "hex_digit n \<noteq> CHR ''/''" "hex_digit n \<noteq> CHR ''%''"
proof -
  have b: "byte (hex_digit n) = (if n < 10 then 48 + n else 55 + n)"
    using assms by (simp add: hex_digit_def)
  then show "is_hex (hex_digit n)" "unhex (hex_digit n) = n"
    using assms by (auto simp: is_hex_def unhex_def is_digit_def)
  show "hex_digit n \<noteq> CHR ''/''"
  proof
    assume "hex_digit n = CHR ''/''"
    then have "byte (hex_digit n) = 47" by (simp add: byte_def)
    with b show False by (simp split: if_splits)
  qed
  show "hex_digit n \<noteq> CHR ''%''"
  proof
    assume "hex_digit n = CHR ''%''"
    then have "byte (hex_digit n) = 37" by (simp add: byte_def)
    with b show False by (simp split: if_splits)
  qed
qed

lemma byte_hex_split: "chr (16 * (byte c div 16) + byte c mod 16) = c"
  by (metis chr_byte mult.commute div_mult_mod_eq)

lemma pathSegment_Cons:
  "pathSegment (c # s) = (if path_unreserved c then [c]
     else [CHR ''%'', hex_digit (byte c div 16), hex_digit (byte c mod 16)]) @ pathSegment s"
  by (simp add: pathSegment_def)

lemma not_unreserved: "\<not> path_unreserved CHR ''/''" "\<not> path_unreserved CHR ''%''"
  by (simp_all add: path_unreserved_def is_digit_def byte_def)

lemma byte_div_16 [simp]: "byte c div 16 < 16"
  using byte_less[of c] by linarith

lemma path_unescape_pathSegment [simp]: "path_unescape (pathSegment s) = Some s"
proof (induction s)
  case Nil
  then show ?case by (simp add: pathSegment_def)
next
  case (Cons c s)
  then show ?case
    using not_unreserved hex_digit_facts[of "byte c div 16"] hex_digit_facts[of "byte c mod 16"]
    by (auto simp: pathSegment_Cons byte_hex_split)
qed

lemma pathSegment_no_slash: "CHR ''/'' \<notin> set (pathSegment s)"
proof (induction s)
  case Nil
  then show ?case by (simp add: pathSegment_def)
next
  case (Cons c s)
  then show ?case
    using not_unreserved hex_digit_facts[of "byte c div 16"] hex_digit_facts[of "byte c mod 16"]
    by (auto simp: pathSegment_Cons)
qed

lemma pathSegment_inject: "pathSegment s = pathSegment t \<Longrightarrow> s = t"
  by (metis option.inject path_unescape_pathSegment)

definition operationRoute :: "string \<Rightarrow> string \<Rightarrow> string" where
  "operationRoute sessionHandle operationHandle =
     ''/sessions/'' @ pathSegment sessionHandle @ ''/operations/'' @ pathSegment operationHandle"

lemma split_operationRoute:
  "split_on CHR ''/'' (operationRoute s t) =
     [[], ''sessions'', pathSegment s, ''operations'', pathSegment t]"
proof -
  have "operationRoute s t =
    [] @ CHR ''/'' # ''sessions'' @ CHR ''/'' # pathSegment s @ CHR ''/'' # ''operations'' @ CHR ''/'' # pathSegment t"
    by (simp add: operationRoute_def)
  then show ?thesis
    using pathSegment_no_slash[of s] pathSegment_no_slash[of t]
    by (simp only: split_on_append split_on_none) (simp add: split_on_append split_on_none)
qed

section \<open>Masking\<close>

definition MaskHandle :: "string \<Rightarrow> string" where
  "MaskHandle handle =
     (if length handle \<le> 8 then ''********''
      else take 4 handle @ ''...'' @ drop (length handle - 4) handle)"

text \<open>The loop of \<open>sanitizeEndpointPath\<close>: the part before decides, and it has been
  masked already when it followed a marker itself.\<close>

fun mask_parts :: "string \<Rightarrow> string list \<Rightarrow> string list" where
  "mask_parts prev [] = []"
| "mask_parts prev (p # ps) =
     (let q = (if prev \<noteq> ''sessions'' \<and> prev \<noteq> ''operations'' then p
               else (case path_unescape p of None \<Rightarrow> ''********'' | Some h \<Rightarrow> MaskHandle h))
      in q # mask_parts q ps)"

definition sanitizeEndpointPath :: "string \<Rightarrow> string" where
  "sanitizeEndpointPath endpointPath =
     (case split_on CHR ''/'' endpointPath of
        [] \<Rightarrow> []
      | p # ps \<Rightarrow> join ''/'' (p # mask_parts p ps))"

lemma MaskHandle_not_marker: "MaskHandle h \<noteq> ''sessions'' \<and> MaskHandle h \<noteq> ''operations''"
proof (cases "length h \<le> 8")
  case True
  then show ?thesis by (simp add: MaskHandle_def)
next
  case False
  then have "length (MaskHandle h) = 11" by (simp add: MaskHandle_def)
  then show ?thesis by auto
qed

lemma MaskHandle_length: "length (MaskHandle h) = (if length h \<le> 8 then 8 else 11)"
  by (simp add: MaskHandle_def)

section \<open>SQL quoting\<close>

text \<open>
  A quoted SQL token doubles the quote character inside.  \<open>scan_quoted\<close> is the reading of
  such a token: the text up to the first undoubled quote, and the rest of the input.
\<close>

fun scan_body :: "char \<Rightarrow> string \<Rightarrow> (string \<times> string) option" where
  "scan_body q [] = None"
| "scan_body q (c # cs) =
     (if c \<noteq> q then map_option (\<lambda>(t, r). (c # t, r)) (scan_body q cs)
      else (case cs of
              d # ds \<Rightarrow> if d = q then map_option (\<lambda>(t, r). (q # t, r)) (scan_body q ds) else Some ([], cs)
            | [] \<Rightarrow> Some ([], [])))"

definition scan_quoted :: "char \<Rightarrow> string \<Rightarrow> (string \<times> string) option" where
  "scan_quoted q s = (case s of [] \<Rightarrow> None | c # cs \<Rightarrow> if c = q then scan_body q cs else None)"

definition double_quote :: "char \<Rightarrow> string \<Rightarrow> string" where
  "double_quote q s = concat (map (\<lambda>c. if c = q then [q, q] else [c]) s)"

lemma replace_all_double: "replace_all [q] [q, q] s = double_quote q s"
  by (induction s) (auto simp: double_quote_def)

lemma scan_body_double:
  "(\<forall>c r'. rest = c # r' \<longrightarrow> c \<noteq> q) \<Longrightarrow> scan_body q (double_quote q s @ q # rest) = Some (s, rest)"
proof (induction s)
  case Nil
  then show ?case by (cases rest) (auto simp: double_quote_def)
next
  case (Cons c s)
  then show ?case by (auto simp: double_quote_def)
qed

locale quoting =
  fixes q :: char and quote :: "string \<Rightarrow> string"
  assumes quote_eq: "quote s = q # replace_all [q] [q, q] s @ [q]"
begin

lemma scan_quote:
  "(\<forall>c r'. rest = c # r' \<longrightarrow> c \<noteq> q) \<Longrightarrow> scan_quoted q (quote s @ rest) = Some (s, rest)"
  by (simp add: quote_eq scan_quoted_def replace_all_double scan_body_double)

lemma quote_inject: "quote s = quote t \<Longrightarrow> s = t"
  using scan_quote[of "[]" s] scan_quote[of "[]" t] by simp

lemma quote_prefix_free:
  assumes "quote s @ r = quote t @ r'" "\<forall>c z. r = c # z \<longrightarrow> c \<noteq> q" "\<forall>c z. r' = c # z \<longrightarrow> c \<noteq> q"
  shows "s = t \<and> r = r'"
proof -
  have "scan_quoted q (quote s @ r) = Some (s, r)" by (rule scan_quote[OF assms(2)])
  moreover have "scan_quoted q (quote t @ r') = Some (t, r')" by (rule scan_quote[OF assms(3)])
  ultimately have "Some (s, r) = Some (t, r')" unfolding assms(1) by (rule trans[OF sym])
  then show ?thesis by simp
qed

lemma quote_ends: "hd (quote s) = q" "last (quote s) = q"
  by (simp_all add: quote_eq)

end

definition QuoteIdentifier :: "string \<Rightarrow> (goerr, string) result" where
  "QuoteIdentifier ident =
     (if trim_space ident = [] then Inl (Errorf ''flinksqlgateway: identifier is required'' [])
      else Inr (''`'' @ replace_all ''`'' ''``'' ident @ ''`''))"

definition quote_ident :: "string \<Rightarrow> string" where
  "quote_ident ident = ''`'' @ replace_all ''`'' ''``'' ident @ ''`''"

definition quoteStringLiteral :: "string \<Rightarrow> string" where
  "quoteStringLiteral value = [CHR 0x27] @ replace_all [CHR 0x27] [CHR 0x27, CHR 0x27] value @ [CHR 0x27]"

interpretation ident_quoting: quoting "CHR ''`''" quote_ident
  by unfold_locales (simp add: quote_ident_def)

interpretation literal_quoting: quoting "CHR 0x27" quoteStringLiteral
  by unfold_locales (simp add: quoteStringLiteral_def)

lemma QuoteIdentifier_Inr: "QuoteIdentifier s = Inr t \<Longrightarrow> t = quote_ident s"
  by (simp add: QuoteIdentifier_def quote_ident_def split: if_splits)

lemma QuoteIdentifier_ok: "trim_space s \<noteq> [] \<Longrightarrow> QuoteIdentifier s = Inr (quote_ident s)"
  by (simp add: QuoteIdentifier_def quote_ident_def)

section \<open>Properties\<close>

text \<open>C10: a paging URI the client follows has the origin of the configured base URL, carries no
  user information and no fragment, and every refusal is an \<open>ErrUnsafeNextResultURI\<close>; this holds
  for any URL parser and any rule for merging the two paths.\<close>

theorem validateNextResultURI_same_origin:
  assumes "base_url_ok base"
  shows "case validateNextResultURI parse resolve_path base v of
      Inl e \<Rightarrow> err_is e ErrUnsafeNextResultURI
    | Inr u \<Rightarrow> equal_fold (Scheme u) (Scheme base) \<and> equal_fold (Host u) (Host base)
        \<and> Scheme u \<in> {''http'', ''https''} \<and> User u = None \<and> Fragment u = []"
proof (cases "validateNextResultURI parse resolve_path base v")
  case (Inl e)
  then show ?thesis using validateNextResultURI_Inl by simp
next
  case (Inr u)
  then obtain ref where ref: "User ref = None" "Fragment ref = []"
    and u: "u = ResolveReference resolve_path (base\<lparr>Path := trim_right_byte CHR ''/'' (Path base) @ ''/''\<rparr>) ref"
    by (auto simp: validateNextResultURI_def Let_def split: sum.splits if_splits)
  have "User u = None" "Fragment u = []"
    unfolding u using ref assms
    by (simp_all add: ResolveReference_user ResolveReference_fragment base_url_ok_def)
  then show ?thesis
    using Inr by (auto simp: validateNextResultURI_def Let_def split: sum.splits if_splits)
qed

theorem validateNextResultURI_same_origin_witness:
  "\<exists>base u. base_url_ok base \<and> Host u = ''gw'' \<and>
     validateNextResultURI (\<lambda>s. Inr (base\<lparr>Scheme := [], Host := [], Path := s\<rparr>)) (\<lambda>b r. b @ r) base ''r/1'' = Inr u
     \<and> equal_fold (Host u) (Host base)"
proof -
  define base where "base = \<lparr>Scheme = ''http'', Opaque = [], User = None, Host = ''gw'', Path = [],
    ForceQuery = False, RawQuery = [], Fragment = []\<rparr>"
  have ok: "base_url_ok base" by (simp add: base_def base_url_ok_def)
  define u where "u = base\<lparr>Path := ''/r/1''\<rparr>"
  have u: "validateNextResultURI (\<lambda>s. Inr (base\<lparr>Scheme := [], Host := [], Path := s\<rparr>)) (\<lambda>b r. b @ r) base ''r/1'' = Inr u"
    by (simp add: validateNextResultURI_def base_def ResolveReference_def trim_right_byte_def u_def)
  show ?thesis
    using validateNextResultURI_same_origin[OF ok, of "\<lambda>s. Inr (base\<lparr>Scheme := [], Host := [], Path := s\<rparr>)"
        "\<lambda>b r. b @ r" "''r/1''"] ok u
    by (intro exI[of _ base] exI[of _ u]) (simp add: u_def base_def)
qed

text \<open>Whatever bytes the two opaque handles hold, the route of an operation has exactly five
  segments, and the handles are read back from the third and the fifth: no handle can add a
  segment or escape its own.\<close>

theorem operationRoute_segments:
  "map path_unescape (split_on CHR ''/'' (operationRoute s t)) =
     [Some [], Some ''sessions'', Some s, Some ''operations'', Some t]"
  by (simp add: split_operationRoute)

text \<open>In the path an error or an observer sees, both handles of an operation route are
  masked: at most the first and last four bytes of a long handle and nothing of a short one.\<close>

theorem sanitizeEndpointPath_operation:
  "sanitizeEndpointPath (operationRoute s t) = ''/sessions/'' @ MaskHandle s @ ''/operations/'' @ MaskHandle t"
  using MaskHandle_not_marker[of s]
  by (simp add: sanitizeEndpointPath_def split_operationRoute)

text \<open>C16: a quoted identifier is one SQL token: read up to its closing backtick it gives back
  exactly the name, and whatever follows it is left untouched, so no name can inject SQL; only
  blank names are refused.\<close>

theorem QuoteIdentifier_token:
  assumes "trim_space name \<noteq> []" "rest = [] \<or> hd rest \<noteq> CHR ''`''"
  shows "\<exists>t. QuoteIdentifier name = Inr t \<and> scan_quoted CHR ''`'' (t @ rest) = Some (name, rest)"
proof -
  have "\<forall>c r'. rest = c # r' \<longrightarrow> c \<noteq> CHR ''`''" using assms(2) by auto
  then show ?thesis using QuoteIdentifier_ok[OF assms(1)] ident_quoting.scan_quote by blast
qed

theorem QuoteIdentifier_token_witness:
  "\<exists>t. QuoteIdentifier ''a`;DROP`'' = Inr t \<and> scan_quoted CHR ''`'' (t @ '' (x)'') = Some (''a`;DROP`'', '' (x)'')"
proof -
  have "trim_space ''a`;DROP`'' \<noteq> []" by (simp add: trim_space_def byte_def is_space_def)
  then show ?thesis using QuoteIdentifier_token[of "''a`;DROP`''" "'' (x)''"] by simp
qed

end
