(* ===== verification/Messages.thy ===== *)
theory Messages
  imports Security
begin

text \<open>
  The two filters of \<open>flinksqlgateway/transport.go\<close> every server text passes before it
  reaches an error value or an observer: \<open>sanitizeServerMessage\<close> (one line, bounded,
  valid UTF-8) and \<open>redactServerMessage\<close> (no secret fragment survives).
\<close>

section \<open>Concatenating decoded runes\<close>

text \<open>A step of the decoder that is not the error step reads the same bytes in any context.\<close>

definition step_ok :: "nat \<times> string \<Rightarrow> bool" where
  "step_ok rb = (\<not> invalid_step rb \<and> snd rb \<noteq> [] \<and>
     (\<exists>s. rb = (fst (decode_rune s), take (snd (decode_rune s)) s)))"

lemma decode_rune2_context:
  "decode_rune2 b cs = (rune_error, 1) \<or>
     snd (decode_rune2 b cs) = 2 \<and> (\<forall>t. decode_rune2 b (take 1 cs @ t) = decode_rune2 b cs)
     \<and> (\<forall>c \<in> set (take 1 cs). 128 \<le> byte c)"
  by (cases cs) (auto simp: decode_rune2_def cont_def)

lemma second_ok_high: "second_ok b c \<Longrightarrow> 128 \<le> byte c"
  by (auto simp: second_ok_def cont_def split: if_splits)

lemma cont_high: "cont c \<Longrightarrow> 128 \<le> byte c"
  by (simp add: cont_def)

lemma decode_rune3_context:
  "decode_rune3 b cs = (rune_error, 1) \<or>
     snd (decode_rune3 b cs) = 3 \<and> (\<forall>t. decode_rune3 b (take 2 cs @ t) = decode_rune3 b cs)
     \<and> (\<forall>c \<in> set (take 2 cs). 128 \<le> byte c)"
proof (cases "\<exists>c1 c2 ds. cs = c1 # c2 # ds")
  case True
  then obtain c1 c2 ds where cs: "cs = c1 # c2 # ds" by blast
  show ?thesis
    by (cases "second_ok b c1 \<and> cont c2")
      (auto simp: cs decode_rune3_def dest: second_ok_high cont_high)
next
  case False
  then show ?thesis by (auto simp: decode_rune3_def split: list.splits)
qed

lemma decode_rune4_context:
  "decode_rune4 b cs = (rune_error, 1) \<or>
     snd (decode_rune4 b cs) = 4 \<and> (\<forall>t. decode_rune4 b (take 3 cs @ t) = decode_rune4 b cs)
     \<and> (\<forall>c \<in> set (take 3 cs). 128 \<le> byte c)"
proof (cases "\<exists>c1 c2 c3 ds. cs = c1 # c2 # c3 # ds")
  case True
  then obtain c1 c2 c3 ds where cs: "cs = c1 # c2 # c3 # ds" by blast
  show ?thesis
    by (cases "second_ok b c1 \<and> cont c2 \<and> cont c3")
      (auto simp: cs decode_rune4_def dest: second_ok_high cont_high)
next
  case False
  then show ?thesis by (auto simp: decode_rune4_def split: list.splits)
qed

text \<open>What the decoder reads: one byte, or a whole rune of bytes above ASCII.\<close>

lemma decode_rune_context_cases:
  assumes "s \<noteq> []"
  shows "decode_rune s = (rune_error, 1) \<or>
    (\<forall>t. decode_rune (take (snd (decode_rune s)) s @ t) = decode_rune s) \<and>
    (snd (decode_rune s) = 1 \<or> (\<forall>c \<in> set (take (snd (decode_rune s)) s). 128 \<le> byte c))"
proof -
  from assms obtain c0 cs where s: "s = c0 # cs" by (cases s) auto
  let ?b = "byte c0"
  consider "?b < 0x80" | "0xC2 \<le> ?b" "?b \<le> 0xDF" | "0xE0 \<le> ?b" "?b \<le> 0xEF"
    | "0xF0 \<le> ?b" "?b \<le> 0xF4"
    | "\<not> ?b < 0x80" "\<not> (0xC2 \<le> ?b \<and> ?b \<le> 0xDF)" "\<not> (0xE0 \<le> ?b \<and> ?b \<le> 0xEF)" "\<not> (0xF0 \<le> ?b \<and> ?b \<le> 0xF4)"
    by blast
  then show ?thesis
  proof cases
    case 1
    then show ?thesis by (simp add: s)
  next
    case 2
    then have eq: "decode_rune (c0 # ds) = decode_rune2 ?b ds" for ds by simp
    show ?thesis using decode_rune2_context[of ?b cs] 2 by (auto simp: s eq simp del: decode_rune.simps)
  next
    case 3
    then have eq: "decode_rune (c0 # ds) = decode_rune3 ?b ds" for ds by simp
    show ?thesis using decode_rune3_context[of ?b cs] 3 by (auto simp: s eq simp del: decode_rune.simps)
  next
    case 4
    then have eq: "decode_rune (c0 # ds) = decode_rune4 ?b ds" for ds by simp
    show ?thesis using decode_rune4_context[of ?b cs] 4 by (auto simp: s eq simp del: decode_rune.simps)
  next
    case 5
    then have "decode_rune (c0 # cs) = (rune_error, 1)" unfolding decode_rune.simps Let_def by presburger
    then show ?thesis unfolding s by blast
  qed
qed

lemma decode_rune_context:
  assumes "s \<noteq> []" "\<not> (fst (decode_rune s) = rune_error \<and> snd (decode_rune s) = 1)"
  shows "decode_rune (take (snd (decode_rune s)) s @ t) = decode_rune s"
  using decode_rune_context_cases[OF assms(1)] assms(2) by auto

lemma runes_unfold:
  "s \<noteq> [] \<Longrightarrow> runes s =
     (fst (decode_rune s), take (snd (decode_rune s)) s) # runes (drop (snd (decode_rune s)) s)"
  by (cases s) (simp_all add: runes.simps(2) case_prod_beta Let_def del: decode_rune.simps)

lemma step_ok_context:
  assumes "step_ok rb"
  shows "runes (snd rb @ t) = rb # runes t"
proof -
  from assms obtain s where rb: "rb = (fst (decode_rune s), take (snd (decode_rune s)) s)"
    and ne: "snd rb \<noteq> []" and ok: "\<not> invalid_step rb" by (auto simp: step_ok_def)
  from rb ne have s: "s \<noteq> []" by auto
  have len: "length (take (snd (decode_rune s)) s) = snd (decode_rune s)"
    using decode_rune_width_le[of s] by simp
  have "\<not> (fst (decode_rune s) = rune_error \<and> snd (decode_rune s) = 1)"
    using ok len by (auto simp: rb invalid_step_def)
  then have "decode_rune (snd rb @ t) = decode_rune s"
    using decode_rune_context[OF s] rb by simp
  moreover have "snd (decode_rune s) = length (snd rb)" "fst rb = fst (decode_rune s)"
    using len by (simp_all add: rb)
  moreover have "runes (snd rb @ t) = (fst (decode_rune (snd rb @ t)),
      take (snd (decode_rune (snd rb @ t))) (snd rb @ t))
      # runes (drop (snd (decode_rune (snd rb @ t))) (snd rb @ t))"
    by (rule runes_unfold) (simp add: ne)
  ultimately show ?thesis by (cases rb) simp
qed

lemma runes_step_ok: "rb \<in> set (runes s) \<Longrightarrow> \<not> invalid_step rb \<Longrightarrow> step_ok rb"
proof (induction s rule: length_induct)
  case (1 s)
  show ?case
  proof (cases "s = []")
    case True
    with 1 show ?thesis by simp
  next
    case False
    then have w: "0 < snd (decode_rune s)" by (rule decode_rune_width_pos)
    from False 1(2) consider
        (here) "rb = (fst (decode_rune s), take (snd (decode_rune s)) s)"
      | (rest) "rb \<in> set (runes (drop (snd (decode_rune s)) s))"
      by (auto simp: runes_unfold)
    then show ?thesis
    proof cases
      case here
      then show ?thesis using 1(3) False w by (auto simp: step_ok_def)
    next
      case rest
      then show ?thesis using 1(1)[rule_format, of "drop (snd (decode_rune s)) s"] 1(3) False w by simp
    qed
  qed
qed

lemma runes_concat: "list_all step_ok rs \<Longrightarrow> runes (concat (map snd rs) @ t) = rs @ runes t"
  by (induction rs) (auto simp: step_ok_context)

lemma runes_concat_Nil: "list_all step_ok rs \<Longrightarrow> runes (concat (map snd rs)) = rs"
  using runes_concat[of rs "[]"] by simp

lemma valid_utf8_steps: "valid_utf8 s \<Longrightarrow> list_all step_ok (runes s)"
  using runes_step_ok by (auto simp: valid_utf8_def list_all_iff)

lemma valid_utf8_concat: "list_all step_ok rs \<Longrightarrow> valid_utf8 (concat (map snd rs))"
  by (auto simp: valid_utf8_def runes_concat_Nil list_all_iff step_ok_def)

lemma valid_utf8_append: "valid_utf8 s \<Longrightarrow> valid_utf8 (s @ t) = valid_utf8 t"
proof -
  assume "valid_utf8 s"
  then have "runes (s @ t) = runes s @ runes t"
    using runes_concat[OF valid_utf8_steps, of s t] by (simp add: concat_runes)
  then show ?thesis using \<open>valid_utf8 s\<close> by (simp add: valid_utf8_def)
qed

lemma list_all_dropWhile: "list_all P xs \<Longrightarrow> list_all P (dropWhile Q xs)"
  by (auto simp: list_all_iff dest: set_dropWhileD)

lemma valid_utf8_trim_space: "valid_utf8 s \<Longrightarrow> valid_utf8 (trim_space s)"
  unfolding trim_space_def Let_def
  by (rule valid_utf8_concat) (simp add: list_all_dropWhile valid_utf8_steps)

lemma step_ok_bytes:
  assumes "step_ok rb"
  shows "(\<exists>c. snd rb = [c]) \<or> (\<forall>c \<in> set (snd rb). 128 \<le> byte c)"
proof -
  from assms obtain s where rb: "rb = (fst (decode_rune s), take (snd (decode_rune s)) s)"
    and ne: "snd rb \<noteq> []" by (auto simp: step_ok_def)
  then have s: "s \<noteq> []" by auto
  have "\<not> decode_rune s = (rune_error, 1)"
    using assms s unfolding rb step_ok_def invalid_step_def by (cases s) auto
  with decode_rune_context_cases[OF s] have
    "snd (decode_rune s) = 1 \<or> (\<forall>c \<in> set (snd rb). 128 \<le> byte c)" by (auto simp: rb)
  then show ?thesis using s by (cases s) (auto simp: rb)
qed

text \<open>Cutting a valid text before an ASCII byte leaves it valid.\<close>

lemma takeWhile_steps:
  assumes "\<And>c. 128 \<le> byte c \<Longrightarrow> P c" "list_all step_ok rs"
  shows "takeWhile P (concat (map snd rs)) =
    concat (map snd (takeWhile (\<lambda>rb. \<forall>c \<in> set (snd rb). P c) rs))"
  using assms(2)
proof (induction rs)
  case Nil
  then show ?case by simp
next
  case (Cons rb rs)
  show ?case
  proof (cases "\<forall>c \<in> set (snd rb). P c")
    case True
    then show ?thesis using Cons by simp
  next
    case False
    then obtain c where "snd rb = [c]" using step_ok_bytes[of rb] Cons.prems assms(1) by auto
    with False show ?thesis by simp
  qed
qed

lemma valid_utf8_takeWhile:
  assumes "\<And>c. 128 \<le> byte c \<Longrightarrow> P c" "valid_utf8 s"
  shows "valid_utf8 (takeWhile P s)"
proof -
  have "takeWhile P s = concat (map snd (takeWhile (\<lambda>rb. \<forall>c \<in> set (snd rb). P c) (runes s)))"
    using takeWhile_steps[OF assms(1) valid_utf8_steps[OF assms(2)]] by (simp add: concat_runes)
  moreover have "list_all step_ok (takeWhile (\<lambda>rb. \<forall>c \<in> set (snd rb). P c) (runes s))"
    using valid_utf8_steps[OF assms(2)] by (auto simp: list_all_iff dest: set_takeWhileD)
  ultimately show ?thesis by (simp add: valid_utf8_concat)
qed

section \<open>\<open>sanitizeServerMessage\<close>\<close>

definition maxExposedErrorBytes :: nat where
  "maxExposedErrorBytes = 512"

definition replacement_char :: string where
  "replacement_char = [chr 0xEF, chr 0xBF, chr 0xBD]"

text \<open>\<open>strings.ToValidUTF8\<close>: a run of invalid bytes becomes one replacement.\<close>

fun to_valid_loop :: "bool \<Rightarrow> (nat \<times> string) list \<Rightarrow> string" where
  "to_valid_loop prev [] = []"
| "to_valid_loop prev (rb # rs) =
     (if invalid_step rb then (if prev then [] else replacement_char) @ to_valid_loop True rs
      else snd rb @ to_valid_loop False rs)"

definition to_valid_utf8 :: "string \<Rightarrow> string" where
  "to_valid_utf8 s = to_valid_loop False (runes s)"

text \<open>The loop \<open>for limit > 0 && !utf8.ValidString(message[:limit])\<close>.\<close>

fun valid_limit :: "string \<Rightarrow> nat \<Rightarrow> nat" where
  "valid_limit message 0 = 0"
| "valid_limit message (Suc limit) =
     (if \<not> valid_utf8 (take (Suc limit) message) then valid_limit message limit else Suc limit)"

definition sanitizeServerMessage :: "string \<Rightarrow> string" where
  "sanitizeServerMessage message =
     (let trimmed = trim_space (to_valid_utf8 message);
          line = takeWhile (\<lambda>c. c \<noteq> chr 13 \<and> c \<noteq> chr 10) trimmed in
      if length line > maxExposedErrorBytes
      then take (valid_limit line maxExposedErrorBytes) line @ ''...''
      else line)"

lemma valid_limit_le: "valid_limit m n \<le> n"
  by (induction n) auto

lemma valid_limit_valid: "valid_utf8 (take (valid_limit m n) m)"
  by (induction n) auto

lemma valid_replacement: "valid_utf8 replacement_char"
  by (simp add: replacement_char_def valid_utf8_def runes.simps(2) decode_rune3_def second_ok_def
      cont_def invalid_step_def rune_error_def)

lemma valid_utf8_to_valid_loop:
  "(\<And>rb. rb \<in> set rs \<Longrightarrow> \<not> invalid_step rb \<Longrightarrow> step_ok rb) \<Longrightarrow> valid_utf8 (to_valid_loop prev rs)"
proof (induction rs arbitrary: prev)
  case Nil
  then show ?case by simp
next
  case (Cons rb rs)
  have tl: "valid_utf8 (to_valid_loop p rs)" for p using Cons by simp
  show ?case
  proof (cases "invalid_step rb")
    case True
    then show ?thesis using tl by (simp add: valid_utf8_append valid_replacement)
  next
    case False
    then have "valid_utf8 (snd rb)" using valid_utf8_concat[of "[rb]"] Cons.prems by simp
    then show ?thesis using tl False by (simp add: valid_utf8_append)
  qed
qed

lemma valid_utf8_to_valid: "valid_utf8 (to_valid_utf8 s)"
  unfolding to_valid_utf8_def by (rule valid_utf8_to_valid_loop) (rule runes_step_ok)

text \<open>The first line of a valid text, cut to 512 bytes.\<close>

lemma exposed_line_safe:
  assumes "valid_utf8 t"
  defines "line \<equiv> takeWhile (\<lambda>c. c \<noteq> chr 13 \<and> c \<noteq> chr 10) t"
  defines "shown \<equiv> (if length line > 512 then take (valid_limit line 512) line @ ''...'' else line)"
  shows "valid_utf8 shown \<and> length shown \<le> 515 \<and> chr 10 \<notin> set shown \<and> chr 13 \<notin> set shown"
proof -
  have valid: "valid_utf8 line" unfolding line_def by (rule valid_utf8_takeWhile) (auto simp: assms(1))
  have "chr 10 \<notin> set line \<and> chr 13 \<notin> set line"
    unfolding line_def by (auto dest: set_takeWhileD)
  moreover have "chr 10 \<notin> set ''...'' \<and> chr 13 \<notin> set ''...''" by (simp add: chr_def char_of_def)
  moreover have "valid_utf8 (take (valid_limit line 512) line @ ''...'')"
    by (simp add: valid_utf8_append[OF valid_limit_valid] byte_def)
  ultimately show ?thesis
    using valid valid_limit_le[of line 512] by (auto simp: shown_def dest: in_set_takeD)
qed

text \<open>C12: whatever the server sends, the text that may be exposed is valid UTF-8, a single
  line, and at most 512 bytes and an ellipsis long.\<close>

theorem sanitizeServerMessage_safe:
  "valid_utf8 (sanitizeServerMessage m) \<and> length (sanitizeServerMessage m) \<le> 515
   \<and> chr 10 \<notin> set (sanitizeServerMessage m) \<and> chr 13 \<notin> set (sanitizeServerMessage m)"
  unfolding sanitizeServerMessage_def Let_def maxExposedErrorBytes_def
  by (rule exposed_line_safe) (simp add: valid_utf8_trim_space valid_utf8_to_valid)

section \<open>\<open>redactServerMessage\<close>\<close>

record serverMessageRedaction =
  fragments :: "string list"
  redactAll :: bool

abbreviation "stars \<equiv> ''********''"

text \<open>The loop that drops empty fragments and repetitions.\<close>

fun distinct_fragments :: "string list \<Rightarrow> string list \<Rightarrow> string list" where
  "distinct_fragments seen [] = []"
| "distinct_fragments seen (f # fs) =
     (if f = [] \<or> f \<in> set seen then distinct_fragments seen fs
      else f # distinct_fragments (f # seen) fs)"

definition redactServerMessage :: "string \<Rightarrow> serverMessageRedaction \<Rightarrow> string" where
  "redactServerMessage message redaction =
     (if message = [] then []
      else if redactAll redaction then stars
      else foldl (\<lambda>m f. replace_all f stars m) message
             (rev (sort_key length (rev (distinct_fragments [] (fragments redaction))))))"

lemma set_distinct_fragments: "set (distinct_fragments seen fs) = {f \<in> set fs. f \<noteq> [] \<and> f \<notin> set seen}"
  by (induction fs arbitrary: seen) auto

text \<open>Replacing by stars creates no new occurrence of a star-free text, and removes the
  replaced one.\<close>

lemma sublist_star:
  assumes "CHR ''*'' \<notin> set f" "sublist f (replicate n CHR ''*'' @ s)" "f \<noteq> []"
  shows "sublist f s"
  using assms(2)
proof (induction n)
  case 0
  then show ?case by simp
next
  case (Suc n)
  then have "prefix f (CHR ''*'' # replicate n CHR ''*'' @ s) \<or> sublist f (replicate n CHR ''*'' @ s)"
    by (simp add: sublist_Cons_right)
  then show ?case using Suc.IH assms by (cases f) auto
qed

lemma stars_replicate: "stars = replicate 8 CHR ''*''"
  by (simp add: numeral_eq_Suc)

lemma prefix_replace:
  assumes "prefix f (replace_all old stars s)" "CHR ''*'' \<notin> set f"
  shows "prefix f s"
  using assms
proof (induction old stars s arbitrary: f rule: replace_all.induct)
  case (1 old)
  then show ?case by simp
next
  case (2 old c cs)
  show ?case
  proof (cases "old \<noteq> [] \<and> has_prefix (c # cs) old")
    case True
    then show ?thesis using 2(3,4) by (cases f) auto
  next
    case False
    then show ?thesis using 2(2)[OF False] 2(3,4) by (cases f) (auto simp del: replace_all.simps(1) has_prefix.simps)
  qed
qed

lemma sublist_replace:
  assumes "sublist f (replace_all old stars s)" "CHR ''*'' \<notin> set f" "f \<noteq> []"
  shows "sublist f s"
  using assms
proof (induction old stars s arbitrary: f rule: replace_all.induct)
  case (1 old)
  then show ?case by simp
next
  case (2 old c cs)
  show ?case
  proof (cases "old \<noteq> [] \<and> has_prefix (c # cs) old")
    case True
    then have "sublist f (stars @ replace_all old stars (drop (length old) (c # cs)))"
      using 2(3) by simp
    then have "sublist f (replace_all old stars (drop (length old) (c # cs)))"
      using sublist_star[OF 2(4) _ 2(5)] unfolding stars_replicate by blast
    then have "sublist f (drop (length old) (c # cs))" using 2(1)[OF True] 2(4,5) by blast
    then show ?thesis by (meson sublist_drop sublist_order.order.trans)
  next
    case False
    then have "sublist f (c # replace_all old stars cs)" using 2(3) by (simp only: replace_all.simps(2) if_False)
    then consider (pre) "prefix f (c # replace_all old stars cs)" | (later) "sublist f (replace_all old stars cs)"
      by (auto simp: sublist_Cons_right)
    then show ?thesis
    proof cases
      case pre
      have "prefix f (c # cs)"
      proof (rule prefix_replace[of f old])
        show "prefix f (replace_all old stars (c # cs))"
          using pre False by (simp only: replace_all.simps(2) if_False)
      qed (rule 2(4))
      then show ?thesis by simp
    next
      case later
      then show ?thesis using 2(2)[OF False _ 2(4,5)] later by (simp add: sublist_Cons_right)
    qed
  qed
qed

lemma replace_removes:
  assumes "CHR ''*'' \<notin> set f" "f \<noteq> []"
  shows "\<not> sublist f (replace_all f stars s)"
proof (induction s rule: length_induct)
  case (1 s)
  show ?case
  proof (cases s)
    case Nil
    then show ?thesis using assms by simp
  next
    case (Cons c cs)
    show ?thesis
    proof (cases "has_prefix (c # cs) f")
      case True
      then have "replace_all f stars s = stars @ replace_all f stars (drop (length f) (c # cs))"
        using assms Cons by simp
      moreover have "\<not> sublist f (replace_all f stars (drop (length f) (c # cs)))"
        using 1 Cons assms(2) by (cases f) auto
      ultimately show ?thesis
        using sublist_star[OF assms(1) _ assms(2)] unfolding stars_replicate by metis
    next
      case False
      then have eq: "replace_all f stars s = c # replace_all f stars cs" using Cons by simp
      have "\<not> prefix f (replace_all f stars s)"
        using prefix_replace[OF _ assms(1), of f s] False Cons by (auto simp: has_prefix_iff)
      moreover have "\<not> sublist f (replace_all f stars cs)" using 1 Cons by simp
      ultimately show ?thesis unfolding eq by (simp add: sublist_Cons_right)
    qed
  qed
qed

lemma foldl_replace_keeps_out:
  assumes "CHR ''*'' \<notin> set f" "f \<noteq> []" "\<not> sublist f m"
  shows "\<not> sublist f (foldl (\<lambda>m f. replace_all f stars m) m fs)"
  using assms(3)
  by (induction fs arbitrary: m) (use sublist_replace[OF _ assms(1,2)] in auto)

lemma foldl_replace_removes:
  assumes "CHR ''*'' \<notin> set f" "f \<noteq> []" "f \<in> set fs"
  shows "\<not> sublist f (foldl (\<lambda>m f. replace_all f stars m) m fs)"
  using assms(3)
proof (induction fs arbitrary: m)
  case Nil
  then show ?case by simp
next
  case (Cons g fs)
  show ?case
  proof (cases "g = f")
    case True
    then show ?thesis
      using foldl_replace_keeps_out[OF assms(1,2) replace_removes[OF assms(1,2)]] by simp
  next
    case False
    then show ?thesis using Cons by simp
  qed
qed

text \<open>C11: no secret fragment of a request (its SQL, a header value, its query string) that
  has no star of its own survives in a server message, whatever the other fragments are and
  however they overlap; with \<open>redactAll\<close> nothing of the message survives.\<close>

theorem redactServerMessage_removes:
  assumes "f \<in> set (fragments r)" "f \<noteq> []" "CHR ''*'' \<notin> set f"
  shows "\<not> contains (redactServerMessage m r) f"
proof (cases "m = [] \<or> redactAll r")
  case True
  then show ?thesis
    using assms sublist_star[OF assms(3) _ assms(2), of 8 "[]"]
    by (auto simp: redactServerMessage_def contains_iff stars_replicate)
next
  case False
  have "f \<in> set (rev (sort_key length (rev (distinct_fragments [] (fragments r)))))"
    using assms by (simp add: set_distinct_fragments)
  from foldl_replace_removes[OF assms(3,2) this, of m] False show ?thesis
    by (simp add: redactServerMessage_def contains_iff)
qed

theorem redactServerMessage_removes_witness:
  "\<not> contains (redactServerMessage ''at pw=abc and abcd''
      \<lparr>fragments = [''abc'', ''abcd''], redactAll = False\<rparr>) ''abc''"
  using redactServerMessage_removes[of "''abc''" "\<lparr>fragments = [''abc'', ''abcd''], redactAll = False\<rparr>"]
  by simp

end
