(* ===== verification/Setup_Compile.thy ===== *)
theory Setup_Compile
  imports Security Messages "HOL-Library.List_Lexorder" "HOL-Library.Char_ord"
begin

text \<open>
  \<open>flinksqlgateway/session_setup_compile.go\<close> with the plan types of \<open>session_setup.go\<close>: a declarative plan of
  catalogs, databases, tables and the current scope becomes the list of SQL statements to run.  A Go map is
  an association list in the order the loop visits it.  What \<open>unicode.ToLower\<close>, \<open>IsLetter\<close> and \<open>IsDigit\<close> do
  beyond ASCII is an argument.
\<close>

section \<open>Plans and steps\<close>

record catalog_setup =
  csName :: string
  csIfNotExists :: bool
  csOptions :: "(string \<times> string) list"
  csSensitiveKeys :: "string list"

record database_setup =
  dsCatalog :: string
  dsName :: string
  dsIfNotExists :: bool
  dsOptions :: "(string \<times> string) list"

record table_setup =
  tsTarget :: sql_ident
  tsStatement :: string
  tsIfNotExists :: bool
  tsVerify :: bool
  tsSensitive :: bool

record setup_plan =
  Catalogs :: "catalog_setup list"
  Databases :: "database_setup list"
  Tables :: "table_setup list"
  CurrentCatalog :: string
  CurrentDatabase :: string

record setup_step =
  stepIndex :: nat
  stepKind :: step_kind
  stepTarget :: sql_ident

record compiled_step = setup_step +
  csStatement :: string
  csVerify :: bool
  sensitiveValues :: "string list"
  stepRedactAll :: bool

record unicode =
  uLower :: "nat \<Rightarrow> nat"
  uAlnum :: "nat \<Rightarrow> bool"

section \<open>Identifiers\<close>

definition maxSessionSetupIdentifierBytes :: nat where
  "maxSessionSetupIdentifierBytes = 1024"

definition validateSessionSetupIdentifier :: "string \<Rightarrow> string \<Rightarrow> goerr option" where
  "validateSessionSetupIdentifier kind value =
     (if trim_space value = [] then Some (Errorf ''%s identifier is required'' [ArgText kind])
      else if length value > maxSessionSetupIdentifierBytes
      then Some (Errorf ''%s identifier exceeds %d bytes'' [ArgText kind, ArgText (show_nat maxSessionSetupIdentifierBytes)])
      else if \<not> valid_utf8 value then Some (Errorf ''%s identifier is not valid UTF-8'' [ArgText kind])
      else if has_control value then Some (Errorf ''%s identifier contains a control character'' [ArgText kind])
      else None)"

fun qualified_parts :: "(string \<times> string) list \<Rightarrow> (goerr, string list) result" where
  "qualified_parts [] = Inr []"
| "qualified_parts ((kind, value) # parts) =
     (if value = [] then qualified_parts parts
      else case validateSessionSetupIdentifier kind value of
        Some err \<Rightarrow> Inl err
      | None \<Rightarrow> and_then (qualified_parts parts) (\<lambda>qs. Inr ((case QuoteIdentifier value of Inr q \<Rightarrow> q | Inl _ \<Rightarrow> []) # qs)))"

definition qualifiedSessionSetupTarget :: "sql_ident \<Rightarrow> (goerr, string) result" where
  "qualifiedSessionSetupTarget target =
     and_then (qualified_parts [(''catalog'', Catalog target), (''database'', Database target), (''object'', Object target)])
       (\<lambda>parts. Inr (join ''.'' parts))"

definition formatSessionSetupTarget :: "sql_ident \<Rightarrow> string" where
  "formatSessionSetupTarget target = (case qualifiedSessionSetupTarget target of Inl err \<Rightarrow> [] | Inr formatted \<Rightarrow> formatted)"

section \<open>Options\<close>

text \<open>\<open>strings.ToLower\<close>.\<close>

definition lower_with :: "unicode \<Rightarrow> string \<Rightarrow> string" where
  "lower_with u = map_runes (\<lambda>r. if r < 0x80 then lower_rune r else uLower u r)"

definition letter_or_digit :: "unicode \<Rightarrow> nat \<Rightarrow> bool" where
  "letter_or_digit u r =
     (if r < 0x80 then 48 \<le> r \<and> r \<le> 57 \<or> 65 \<le> r \<and> r \<le> 90 \<or> 97 \<le> r \<and> r \<le> 122 else uAlnum u r)"

definition normalizeSensitiveSessionSetupKey :: "unicode \<Rightarrow> string \<Rightarrow> string" where
  "normalizeSensitiveSessionSetupKey u key =
     concat (map (\<lambda>rb. encode_rune (fst rb)) (filter (\<lambda>rb. letter_or_digit u (fst rb)) (runes (lower_with u key))))"

definition sensitive_markers :: "string list" where
  "sensitive_markers = [''password'', ''secret'', ''token'', ''accesskey'', ''secretkey'']"

definition isSensitiveSessionSetupKey :: "unicode \<Rightarrow> string \<Rightarrow> string list \<Rightarrow> bool" where
  "isSensitiveSessionSetupKey u key custom =
     (let normalized = normalizeSensitiveSessionSetupKey u key in
      list_ex (\<lambda>m. contains normalized m) sensitive_markers \<or> list_ex (\<lambda>m. m \<noteq> [] \<and> contains normalized m) custom)"

fun compileSensitiveKeys :: "unicode \<Rightarrow> string list \<Rightarrow> (goerr, string list) result" where
  "compileSensitiveKeys u [] = Inr []"
| "compileSensitiveKeys u (key # keys) =
     (if trim_space key = [] then Inl (Errorf ''SensitiveKeys must not contain an empty key'' [])
      else (let normalized = normalizeSensitiveSessionSetupKey u key in
        if normalized = [] then Inl (Errorf ''SensitiveKeys contains an invalid key'' [])
        else and_then (compileSensitiveKeys u keys) (\<lambda>rest. Inr (normalized # rest))))"

definition appendSensitiveValueVariants :: "string list \<Rightarrow> string \<Rightarrow> string list" where
  "appendSensitiveValueVariants values value =
     (if value = [] then values
      else (let escaped = replace_all [CHR 0x27] [CHR 0x27, CHR 0x27] value in
        values @ [value] @ (if escaped \<noteq> value then [escaped] else [])))"

fun check_options :: "(string \<times> string) list \<Rightarrow> goerr option" where
  "check_options [] = None"
| "check_options ((key, value) # options) =
     (if trim_space key = [] then Some (Errorf ''option key is required'' [])
      else if \<not> valid_utf8 key then Some (Errorf ''option key is not valid UTF-8'' [])
      else if \<not> valid_utf8 value then Some (Errorf ''option %q value is not valid UTF-8'' [ArgText key])
      else check_options options)"

definition option_clause :: "string \<times> string \<Rightarrow> string" where
  "option_clause kv = quoteStringLiteral (fst kv) @ '' = '' @ quoteStringLiteral (snd kv)"

definition sensitive_values :: "unicode \<Rightarrow> string list \<Rightarrow> (string \<times> string) list \<Rightarrow> string list" where
  "sensitive_values u custom options =
     foldl (\<lambda>values kv. if isSensitiveSessionSetupKey u (fst kv) custom then appendSensitiveValueVariants values (snd kv) else values)
       [] options"

definition compileSessionSetupOptions ::
  "unicode \<Rightarrow> (string \<times> string) list \<Rightarrow> string list \<Rightarrow> (goerr, string \<times> string list) result" where
  "compileSessionSetupOptions u options custom =
     (if options = [] then Inr ([], [])
      else case check_options options of
        Some err \<Rightarrow> Inl err
      | None \<Rightarrow> (let sorted = sort_key fst options in
          Inr (join '', '' (map option_clause sorted), sensitive_values u custom sorted)))"

section \<open>Statements\<close>

text \<open>\<open>appendCompiledSessionSetupStep\<close>.\<close>

definition compiled_at :: "nat \<Rightarrow> step_kind \<Rightarrow> sql_ident \<Rightarrow> string \<Rightarrow> bool \<Rightarrow> string list \<Rightarrow> bool \<Rightarrow> compiled_step" where
  "compiled_at index kind target statement verify secrets all =
     \<lparr>stepIndex = index, stepKind = kind, stepTarget = target, csStatement = statement, csVerify = verify,
      sensitiveValues = secrets, stepRedactAll = all\<rparr>"

definition appendCompiledSessionSetupStep ::
  "compiled_step list \<Rightarrow> step_kind \<Rightarrow> sql_ident \<Rightarrow> string \<Rightarrow> bool \<Rightarrow> string list \<Rightarrow> bool \<Rightarrow> compiled_step list" where
  "appendCompiledSessionSetupStep steps kind target statement verify secrets all =
     steps @ [compiled_at (length steps) kind target statement verify secrets all]"

definition at_index :: "string \<Rightarrow> nat \<Rightarrow> goerr \<Rightarrow> goerr" where
  "at_index what index err = Errorf (''flinksqlgateway: '' @ what @ '' setup %d: %w'') [ArgText (show_nat index), ArgWrap err]"

definition if_not_exists :: "bool \<Rightarrow> string" where
  "if_not_exists b = (if b then ''IF NOT EXISTS '' else [])"

definition catalog_target :: "string \<Rightarrow> sql_ident" where
  "catalog_target name = \<lparr>Catalog = name, Database = [], Object = []\<rparr>"

definition database_target :: "string \<Rightarrow> string \<Rightarrow> sql_ident" where
  "database_target catalog name = \<lparr>Catalog = catalog, Database = name, Object = []\<rparr>"

definition catalog_statement :: "catalog_setup \<Rightarrow> string \<Rightarrow> string" where
  "catalog_statement c options =
     ''CREATE CATALOG '' @ if_not_exists (csIfNotExists c) @ quote_ident (csName c) @ '' WITH ('' @ options @ '')''"

definition database_statement :: "database_setup \<Rightarrow> string \<Rightarrow> string" where
  "database_statement d options =
     ''CREATE DATABASE '' @ if_not_exists (dsIfNotExists d) @
     formatSessionSetupTarget (database_target (dsCatalog d) (dsName d)) @
     (if options \<noteq> [] then '' WITH ('' @ options @ '')'' else [])"

definition table_statement :: "table_setup \<Rightarrow> string" where
  "table_statement t =
     ''CREATE TABLE '' @ if_not_exists (tsIfNotExists t) @ formatSessionSetupTarget (tsTarget t) @ '' '' @
     trim_space (tsStatement t)"

definition fail_at :: "string \<Rightarrow> nat \<Rightarrow> goerr option \<Rightarrow> (goerr, unit) result" where
  "fail_at what index x = (case x of None \<Rightarrow> Inr () | Some err \<Rightarrow> Inl (at_index what index err))"

fun compile_catalogs :: "unicode \<Rightarrow> nat \<Rightarrow> string list \<Rightarrow> compiled_step list \<Rightarrow> catalog_setup list \<Rightarrow> (goerr, compiled_step list) result" where
  "compile_catalogs u i seen steps [] = Inr steps"
| "compile_catalogs u i seen steps (c # cs) =
     and_then (fail_at ''catalog'' i (validateSessionSetupIdentifier ''catalog'' (csName c))) (\<lambda>_.
      if csName c \<in> set seen then Inl (Errorf ''flinksqlgateway: duplicate catalog setup %q'' [ArgText (csName c)])
      else if csOptions c = [] then Inl (Errorf ''flinksqlgateway: catalog setup %d requires at least one option'' [ArgText (show_nat i)])
      else case compileSensitiveKeys u (csSensitiveKeys c) of Inl err \<Rightarrow> Inl (at_index ''catalog'' i err) | Inr custom \<Rightarrow>
       (case compileSessionSetupOptions u (csOptions c) custom of Inl err \<Rightarrow> Inl (at_index ''catalog'' i err) | Inr (options, secrets) \<Rightarrow>
        compile_catalogs u (Suc i) (csName c # seen)
          (appendCompiledSessionSetupStep steps SessionSetupCatalog (catalog_target (csName c))
            (catalog_statement c options)
            False secrets False) cs))"

definition database_key :: "database_setup \<Rightarrow> string" where
  "database_key d = dsCatalog d @ [CHR 0x00] @ dsName d"

fun compile_databases :: "unicode \<Rightarrow> nat \<Rightarrow> string list \<Rightarrow> compiled_step list \<Rightarrow> database_setup list \<Rightarrow> (goerr, compiled_step list) result" where
  "compile_databases u i seen steps [] = Inr steps"
| "compile_databases u i seen steps (d # ds) =
     and_then (fail_at ''database'' i (validateSessionSetupIdentifier ''database catalog'' (dsCatalog d))) (\<lambda>_.
     and_then (fail_at ''database'' i (validateSessionSetupIdentifier ''database'' (dsName d))) (\<lambda>_.
      let target = database_target (dsCatalog d) (dsName d) in
      if database_key d \<in> set seen
      then Inl (Errorf ''flinksqlgateway: duplicate database setup %s'' [ArgText (formatSessionSetupTarget target)])
      else case compileSessionSetupOptions u (dsOptions d) [] of Inl err \<Rightarrow> Inl (at_index ''database'' i err) | Inr (options, secrets) \<Rightarrow>
        compile_databases u (Suc i) (database_key d # seen)
          (appendCompiledSessionSetupStep steps SessionSetupDatabase target
            (database_statement d options)
            False secrets False) ds))"

text \<open>\<open>strings.Fields\<close> up to its first field.\<close>

definition first_field :: "string \<Rightarrow> string" where
  "first_field s = concat (map snd (takeWhile (\<lambda>rb. \<not> is_space (fst rb)) (dropWhile (\<lambda>rb. is_space (fst rb)) (runes s))))"

definition definition_words :: "string list" where
  "definition_words = [''COMMENT'', ''PARTITIONED'', ''DISTRIBUTED'', ''WITH'', ''LIKE'', ''AS'']"

definition check_definition :: "string \<Rightarrow> goerr option" where
  "check_definition statement =
     (let text = trim_space statement in
      if text = [] then Some (Errorf ''table definition statement is required'' [])
      else if \<not> valid_utf8 text then Some (Errorf ''table definition statement is not valid UTF-8'' [])
      else if hd text = CHR ''('' then None
      else if first_field text = [] then Some (Errorf ''table definition statement is required'' [])
      else if to_upper (first_field text) \<in> set definition_words then None
      else Some (Errorf ''table Statement must be a definition after the fully qualified target, not a complete SQL statement'' []))"

definition validateTableSetup :: "table_setup \<Rightarrow> goerr option" where
  "validateTableSetup t =
     (case validateSessionSetupIdentifier ''table catalog'' (Catalog (tsTarget t)) of Some err \<Rightarrow> Some err | None \<Rightarrow>
      (case validateSessionSetupIdentifier ''table database'' (Database (tsTarget t)) of Some err \<Rightarrow> Some err | None \<Rightarrow>
      (case validateSessionSetupIdentifier ''table name'' (Object (tsTarget t)) of Some err \<Rightarrow> Some err | None \<Rightarrow>
       check_definition (tsStatement t))))"

definition table_key :: "sql_ident \<Rightarrow> string" where
  "table_key t = Catalog t @ [CHR 0x00] @ Database t @ [CHR 0x00] @ Object t"

fun compile_tables :: "nat \<Rightarrow> string list \<Rightarrow> compiled_step list \<Rightarrow> table_setup list \<Rightarrow> (goerr, compiled_step list) result" where
  "compile_tables i seen steps [] = Inr steps"
| "compile_tables i seen steps (t # ts) =
     and_then (fail_at ''table'' i (validateTableSetup t)) (\<lambda>_.
      if table_key (tsTarget t) \<in> set seen
      then Inl (Errorf ''flinksqlgateway: duplicate table setup %s'' [ArgText (formatSessionSetupTarget (tsTarget t))])
      else compile_tables (Suc i) (table_key (tsTarget t) # seen)
          (appendCompiledSessionSetupStep steps SessionSetupTable (tsTarget t)
            (table_statement t)
            (tsVerify t) [] (tsSensitive t)) ts)"

definition compile_scope :: "setup_plan \<Rightarrow> compiled_step list \<Rightarrow> (goerr, compiled_step list) result" where
  "compile_scope plan steps =
     (if CurrentDatabase plan \<noteq> [] \<and> CurrentCatalog plan = []
      then Inl (Errorf ''flinksqlgateway: CurrentCatalog is required when CurrentDatabase is set'' [])
      else
        and_then
          (if CurrentCatalog plan = [] then Inr steps
           else case validateSessionSetupIdentifier ''current catalog'' (CurrentCatalog plan) of
             Some err \<Rightarrow> Inl err
           | None \<Rightarrow> Inr (appendCompiledSessionSetupStep steps SessionSetupUseCatalog (catalog_target (CurrentCatalog plan))
               (''USE CATALOG '' @ quote_ident (CurrentCatalog plan)) False [] False))
          (\<lambda>steps1.
           if CurrentDatabase plan = [] then Inr steps1
           else case validateSessionSetupIdentifier ''current database'' (CurrentDatabase plan) of
             Some err \<Rightarrow> Inl err
           | None \<Rightarrow> Inr (appendCompiledSessionSetupStep steps1 SessionSetupUseDatabase
               (database_target (CurrentCatalog plan) (CurrentDatabase plan))
               (''USE '' @ quote_ident (CurrentDatabase plan)) False [] False)))"

definition compileSessionSetupPlan :: "unicode \<Rightarrow> setup_plan \<Rightarrow> (goerr, compiled_step list) result" where
  "compileSessionSetupPlan u plan =
     (if Catalogs plan = [] \<and> Databases plan = [] \<and> Tables plan = [] \<and> CurrentCatalog plan = [] \<and> CurrentDatabase plan = []
      then Inl (Errorf ''flinksqlgateway: session setup plan must not be empty'' [])
      else
        and_then (compile_catalogs u 0 [] [] (Catalogs plan)) (\<lambda>s1.
        and_then (compile_databases u 0 [] s1 (Databases plan)) (\<lambda>s2.
        and_then (compile_tables 0 [] s2 (Tables plan)) (\<lambda>s3.
          compile_scope plan s3))))"

definition CompileSessionSetup :: "unicode \<Rightarrow> setup_plan \<Rightarrow> (goerr, setup_step list) result" where
  "CompileSessionSetup u plan = map_sum id (map setup_step.truncate) (compileSessionSetupPlan u plan)"


section \<open>The shape of a compiled plan\<close>

definition step_key :: "compiled_step \<Rightarrow> step_kind \<times> sql_ident" where
  "step_key s = (stepKind s, stepTarget s)"

definition catalog_keys :: "catalog_setup list \<Rightarrow> (step_kind \<times> sql_ident) list" where
  "catalog_keys cs = map (\<lambda>c. (SessionSetupCatalog, catalog_target (csName c))) cs"

definition database_keys :: "database_setup list \<Rightarrow> (step_kind \<times> sql_ident) list" where
  "database_keys ds = map (\<lambda>d. (SessionSetupDatabase, database_target (dsCatalog d) (dsName d))) ds"

definition table_keys :: "table_setup list \<Rightarrow> (step_kind \<times> sql_ident) list" where
  "table_keys ts = map (\<lambda>t. (SessionSetupTable, tsTarget t)) ts"

definition scope_keys :: "setup_plan \<Rightarrow> (step_kind \<times> sql_ident) list" where
  "scope_keys plan =
     (if CurrentCatalog plan = [] then [] else [(SessionSetupUseCatalog, catalog_target (CurrentCatalog plan))]) @
     (if CurrentDatabase plan = [] then []
      else [(SessionSetupUseDatabase, database_target (CurrentCatalog plan) (CurrentDatabase plan))])"

definition plan_keys :: "setup_plan \<Rightarrow> (step_kind \<times> sql_ident) list" where
  "plan_keys plan =
     catalog_keys (Catalogs plan) @ database_keys (Databases plan) @ table_keys (Tables plan) @ scope_keys plan"

definition numbered :: "compiled_step list \<Rightarrow> bool" where
  "numbered steps = (map stepIndex steps = [0..<length steps])"

lemma step_key_compiled [simp]: "step_key (compiled_at i k t s v ss a) = (k, t)"
  by (simp add: step_key_def compiled_at_def)

lemma numbered_append [simp]: "numbered steps \<Longrightarrow> numbered (appendCompiledSessionSetupStep steps k t s v ss a)"
  by (simp add: numbered_def appendCompiledSessionSetupStep_def compiled_at_def)

lemma step_key_append [simp]:
  "map step_key (appendCompiledSessionSetupStep steps k t s v ss a) = map step_key steps @ [(k, t)]"
  by (simp add: appendCompiledSessionSetupStep_def)

lemma fail_at_Inr [simp]: "fail_at what i x = Inr y \<longleftrightarrow> x = None"
  by (simp add: fail_at_def split: option.splits)

lemma compile_catalogs_shape:
  "compile_catalogs u i seen steps cs = Inr out \<Longrightarrow>
    (numbered steps \<longrightarrow> numbered out) \<and> map step_key out = map step_key steps @ catalog_keys cs \<and>
    distinct (map csName cs) \<and> set (map csName cs) \<inter> set seen = {}"
proof (induction cs arbitrary: i seen steps)
  case Nil
  then show ?case by (simp add: catalog_keys_def)
next
  case (Cons c cs)
  from Cons.prems obtain stmt secrets where
    "csName c \<notin> set seen"
    "compile_catalogs u (Suc i) (csName c # seen)
       (appendCompiledSessionSetupStep steps SessionSetupCatalog (catalog_target (csName c)) stmt False secrets False) cs = Inr out"
    by (simp add: and_then_Inr_iff split: if_splits sum.splits prod.splits) blast
  with Cons.IH[OF this(2)] show ?case by (auto simp: catalog_keys_def)
qed

lemma compile_databases_shape:
  "compile_databases u i seen steps ds = Inr out \<Longrightarrow>
    (numbered steps \<longrightarrow> numbered out) \<and> map step_key out = map step_key steps @ database_keys ds \<and>
    distinct (map database_key ds) \<and> set (map database_key ds) \<inter> set seen = {}"
proof (induction ds arbitrary: i seen steps)
  case Nil
  then show ?case by (simp add: database_keys_def)
next
  case (Cons d ds)
  from Cons.prems obtain stmt secrets where
    "database_key d \<notin> set seen"
    "compile_databases u (Suc i) (database_key d # seen)
       (appendCompiledSessionSetupStep steps SessionSetupDatabase (database_target (dsCatalog d) (dsName d)) stmt False secrets False)
       ds = Inr out"
    by (simp add: and_then_Inr_iff Let_def split: if_splits sum.splits prod.splits) blast
  with Cons.IH[OF this(2)] show ?case by (auto simp: database_keys_def)
qed

lemma compile_tables_shape:
  "compile_tables i seen steps ts = Inr out \<Longrightarrow>
    (numbered steps \<longrightarrow> numbered out) \<and> map step_key out = map step_key steps @ table_keys ts \<and>
    distinct (map (\<lambda>t. table_key (tsTarget t)) ts) \<and> set (map (\<lambda>t. table_key (tsTarget t)) ts) \<inter> set seen = {}"
proof (induction ts arbitrary: i seen steps)
  case Nil
  then show ?case by (simp add: table_keys_def)
next
  case (Cons t ts)
  from Cons.prems obtain stmt where
    "table_key (tsTarget t) \<notin> set seen"
    "compile_tables (Suc i) (table_key (tsTarget t) # seen)
       (appendCompiledSessionSetupStep steps SessionSetupTable (tsTarget t) stmt (tsVerify t) [] (tsSensitive t)) ts = Inr out"
    by (simp add: and_then_Inr_iff split: if_splits) blast
  with Cons.IH[OF this(2)] show ?case by (auto simp: table_keys_def)
qed

lemma compile_scope_shape:
  "compile_scope plan steps = Inr out \<Longrightarrow>
    (numbered steps \<longrightarrow> numbered out) \<and> map step_key out = map step_key steps @ scope_keys plan"
  unfolding compile_scope_def and_then_Inr_iff
  by (cases "CurrentCatalog plan = []"; cases "CurrentDatabase plan = []")
    (auto simp del: append.simps simp: scope_keys_def split: option.splits if_splits)

lemma compileSessionSetupPlan_Inr:
  assumes "compileSessionSetupPlan u plan = Inr out"
  obtains s1 s2 s3 where "compile_catalogs u 0 [] [] (Catalogs plan) = Inr s1"
    "compile_databases u 0 [] s1 (Databases plan) = Inr s2"
    "compile_tables 0 [] s2 (Tables plan) = Inr s3" "compile_scope plan s3 = Inr out"
  using assms by (auto simp: compileSessionSetupPlan_def and_then_Inr_iff split: if_splits)

lemma distinct_keys: "distinct (map f xs) \<Longrightarrow> (\<And>x y. g x = g y \<Longrightarrow> f x = f y) \<Longrightarrow> distinct (map g xs)"
  unfolding distinct_map inj_on_def by blast

lemma distinct_catalog_keys: "distinct (map csName cs) \<Longrightarrow> distinct (catalog_keys cs)"
  unfolding catalog_keys_def by (erule distinct_keys) (simp add: catalog_target_def)

lemma distinct_database_keys: "distinct (map database_key ds) \<Longrightarrow> distinct (database_keys ds)"
  unfolding database_keys_def by (erule distinct_keys) (simp add: database_target_def database_key_def)

lemma distinct_table_keys: "distinct (map (\<lambda>t. table_key (tsTarget t)) ts) \<Longrightarrow> distinct (table_keys ts)"
  unfolding table_keys_def by (erule distinct_keys) simp

text \<open>A compiled plan runs every declared catalog, then every database, then every table, each list in
  its declared order, and only then selects the current catalog and database; the steps are numbered by their
  position, and no object is created twice.\<close>

theorem compile_order:
  assumes "compileSessionSetupPlan u plan = Inr steps"
  shows "map stepIndex steps = [0..<length steps] \<and>
    map (\<lambda>s. (stepKind s, stepTarget s)) steps = plan_keys plan \<and> distinct (plan_keys plan)"
proof -
  from assms obtain s1 s2 s3 where s: "compile_catalogs u 0 [] [] (Catalogs plan) = Inr s1"
    "compile_databases u 0 [] s1 (Databases plan) = Inr s2"
    "compile_tables 0 [] s2 (Tables plan) = Inr s3" "compile_scope plan s3 = Inr steps"
    by (rule compileSessionSetupPlan_Inr)
  note shapes = compile_catalogs_shape[OF s(1)] compile_databases_shape[OF s(2)]
    compile_tables_shape[OF s(3)] compile_scope_shape[OF s(4)]
  have "numbered steps" using shapes by (simp add: numbered_def)
  moreover have "map step_key steps = plan_keys plan" using shapes by (simp add: plan_keys_def)
  moreover have "distinct (plan_keys plan)"
    using shapes distinct_catalog_keys[of "Catalogs plan"] distinct_database_keys[of "Databases plan"]
      distinct_table_keys[of "Tables plan"]
    by (auto simp: plan_keys_def scope_keys_def catalog_keys_def database_keys_def table_keys_def)
  ultimately show ?thesis unfolding numbered_def step_key_def[abs_def] by blast
qed

section \<open>Reading the options back\<close>

text \<open>The reading of a \<open>WITH\<close> list: pairs of quoted literals.\<close>

fun read_options :: "nat \<Rightarrow> string \<Rightarrow> (string \<times> string) list option" where
  "read_options 0 s = None"
| "read_options (Suc n) s =
     (case scan_quoted CHR 0x27 s of
        None \<Rightarrow> None
      | Some (key, r) \<Rightarrow>
          if take 3 r \<noteq> '' = '' then None
          else (case scan_quoted CHR 0x27 (drop 3 r) of
            None \<Rightarrow> None
          | Some (value, r') \<Rightarrow>
              if r' = [] then Some [(key, value)]
              else if take 2 r' = '', '' then map_option ((#) (key, value)) (read_options n (drop 2 r')) else None))"

lemma scan_clause:
  assumes "\<forall>c r. rest = c # r \<longrightarrow> c \<noteq> CHR 0x27"
  shows "scan_quoted CHR 0x27 (option_clause kv @ rest) = Some (fst kv, '' = '' @ quoteStringLiteral (snd kv) @ rest)"
    and "scan_quoted CHR 0x27 (quoteStringLiteral (snd kv) @ rest) = Some (snd kv, rest)"
  using literal_quoting.scan_quote[of "'' = '' @ quoteStringLiteral (snd kv) @ rest" "fst kv"]
    literal_quoting.scan_quote[OF assms, of "snd kv"]
  by (simp_all add: option_clause_def)

lemma read_options_join:
  "kvs \<noteq> [] \<Longrightarrow> read_options (length kvs) (join '', '' (map option_clause kvs)) = Some kvs"
proof (induction kvs)
  case Nil
  then show ?case by simp
next
  case (Cons kv kvs)
  show ?case
  proof (cases kvs)
    case Nil
    then show ?thesis using scan_clause[of "[]" kv] by simp
  next
    case (Cons kv' rest)
    let ?tail = "join '', '' (map option_clause kvs)"
    have "join '', '' (map option_clause (kv # kvs)) = option_clause kv @ '', '' @ ?tail"
      using Cons by simp
    moreover have "scan_quoted CHR 0x27 (option_clause kv @ '', '' @ ?tail)
        = Some (fst kv, '' = '' @ quoteStringLiteral (snd kv) @ '', '' @ ?tail)"
      "scan_quoted CHR 0x27 (quoteStringLiteral (snd kv) @ '', '' @ ?tail) = Some (snd kv, '', '' @ ?tail)"
      by (rule scan_clause, simp)+
    ultimately show ?thesis using Cons.IH Cons by simp
  qed
qed

lemma sensitive_values_fold:
  "set (foldl (\<lambda>values kv. if P (fst kv) then appendSensitiveValueVariants values (snd kv) else values) acc kvs) =
    set acc \<union> (\<Union>kv \<in> {kv \<in> set kvs. P (fst kv) \<and> snd kv \<noteq> []}. {snd kv, double_quote CHR 0x27 (snd kv)})"
proof (induction kvs arbitrary: acc)
  case Nil
  then show ?case by simp
next
  case (Cons kv kvs)
  have "set (appendSensitiveValueVariants acc (snd kv)) =
      set acc \<union> (if snd kv = [] then {} else {snd kv, double_quote CHR 0x27 (snd kv)})"
    by (auto simp: appendSensitiveValueVariants_def replace_all_double Let_def)
  then show ?case unfolding foldl.simps by (auto simp: Cons.IH)
qed

lemma compileSessionSetupOptions_Inr:
  assumes "compileSessionSetupOptions u options custom = Inr (stmt, secrets)" "options \<noteq> []"
  shows "stmt = join '', '' (map option_clause (sort_key fst options)) \<and>
    secrets = sensitive_values u custom (sort_key fst options)"
  using assms by (auto simp: compileSessionSetupOptions_def Let_def split: option.splits)

text \<open>C32: the options of a compiled statement read back as exactly the declared options, in key order,
  whatever quotes their keys and values hold; and the secrets of the step are exactly the non-empty values of
  its sensitive keys, each as it is declared and as it stands quoted in the statement.\<close>

theorem options_roundtrip:
  assumes "compileSessionSetupOptions u options custom = Inr (stmt, secrets)" "options \<noteq> []"
  shows "read_options (length options) stmt = Some (sort_key fst options) \<and>
    set secrets = (\<Union>(key, value) \<in> {(key, value) \<in> set options. isSensitiveSessionSetupKey u key custom \<and> value \<noteq> []}.
      {value, replace_all [CHR 0x27] [CHR 0x27, CHR 0x27] value})"
proof
  note out = compileSessionSetupOptions_Inr[OF assms]
  have "sort_key fst options \<noteq> []" using assms(2) by (metis length_0_conv length_sort)
  then show "read_options (length options) stmt = Some (sort_key fst options)"
    using out read_options_join[of "sort_key fst options"] by simp
  show "set secrets = (\<Union>(key, value) \<in> {(key, value) \<in> set options. isSensitiveSessionSetupKey u key custom \<and> value \<noteq> []}.
      {value, replace_all [CHR 0x27] [CHR 0x27, CHR 0x27] value})"
    unfolding conjunct2[OF out] sensitive_values_def
    by (subst sensitive_values_fold) (auto simp: replace_all_double)
qed

section \<open>Witnesses\<close>

definition plain_unicode :: unicode where
  "plain_unicode = \<lparr>uLower = (\<lambda>r. r), uAlnum = (\<lambda>_. False)\<rparr>"

definition example_options_list :: "(string \<times> string) list" where
  "example_options_list = [(''type'', ''jdbc''), (''password'', ''o'' @ [CHR 0x27] @ ''k'')]"

definition example_plan :: setup_plan where
  "example_plan = \<lparr>Catalogs = [\<lparr>csName = ''c'', csIfNotExists = True, csOptions = example_options_list, csSensitiveKeys = []\<rparr>],
     Databases = [\<lparr>dsCatalog = ''c'', dsName = ''d'', dsIfNotExists = False, dsOptions = []\<rparr>],
     Tables = [], CurrentCatalog = ''c'', CurrentDatabase = ''d''\<rparr>"

lemmas setup_texts = runes_of_ascii ascii_def byte_def has_control_def is_control_def valid_utf8_def invalid_step_def
  rune_error_def trim_space_def is_space_def

lemma example_identifiers:
  "validateSessionSetupIdentifier k ''c'' = None" "validateSessionSetupIdentifier k ''d'' = None"
  by (simp_all add: validateSessionSetupIdentifier_def maxSessionSetupIdentifierBytes_def setup_texts)

lemma example_check: "check_options example_options_list = None"
  by (simp add: example_options_list_def setup_texts)

lemma example_nonempty: "example_options_list \<noteq> []"
  by (simp add: example_options_list_def)

lemma example_compiles: "\<exists>steps. compileSessionSetupPlan plain_unicode example_plan = Inr steps"
  by (simp add: compileSessionSetupPlan_def example_plan_def example_identifiers fail_at_def Let_def
      compileSessionSetupOptions_def example_check example_nonempty compile_scope_def)

lemma normalize_lower:
  assumes "\<forall>c \<in> set s. 97 \<le> byte c \<and> byte c \<le> 122"
  shows "normalizeSensitiveSessionSetupKey u s = s"
proof -
  have a: "ascii s" using assms by (auto simp: ascii_def list_all_iff)
  have "map (\<lambda>rb. encode_rune (if fst rb < 0x80 then lower_rune (fst rb) else uLower u (fst rb))) (runes s) = map (\<lambda>c. [c]) s"
    using assms by (auto simp: runes_of_ascii[OF a] lower_rune_def encode_rune_def)
  then have "lower_with u s = s" by (simp add: lower_with_def map_runes_def)
  moreover have "map (\<lambda>rb. encode_rune (fst rb)) (filter (\<lambda>rb. letter_or_digit u (fst rb)) (runes s)) = map (\<lambda>c. [c]) s"
    using assms by (simp add: runes_of_ascii[OF a] filter_map o_def letter_or_digit_def)
      (induction s; auto simp: encode_rune_def letter_or_digit_def)
  ultimately show ?thesis by (simp add: normalizeSensitiveSessionSetupKey_def)
qed

theorem compile_order_witness:
  "\<exists>steps. compileSessionSetupPlan plain_unicode example_plan = Inr steps \<and>
    map (\<lambda>s. (stepKind s, stepTarget s)) steps = plan_keys example_plan \<and> length (plan_keys example_plan) = 4"
proof -
  obtain steps where c: "compileSessionSetupPlan plain_unicode example_plan = Inr steps" using example_compiles by blast
  have "length (plan_keys example_plan) = 4"
    by (simp add: plan_keys_def example_plan_def catalog_keys_def database_keys_def table_keys_def scope_keys_def)
  with c compile_order[OF c] show ?thesis by blast
qed

theorem options_roundtrip_witness:
  "\<exists>stmt secrets. compileSessionSetupOptions plain_unicode example_options_list [] = Inr (stmt, secrets) \<and>
    read_options 2 stmt = Some [(''password'', ''o'' @ [CHR 0x27] @ ''k''), (''type'', ''jdbc'')] \<and>
    ''o'' @ [CHR 0x27] @ ''k'' \<in> set secrets"
proof -
  obtain stmt secrets where c: "compileSessionSetupOptions plain_unicode example_options_list [] = Inr (stmt, secrets)"
    by (simp add: compileSessionSetupOptions_def example_check example_nonempty Let_def)
  have order: "sort_key fst example_options_list = [(''password'', ''o'' @ [CHR 0x27] @ ''k''), (''type'', ''jdbc'')]"
    by (simp add: example_options_list_def less_eq_char_def less_char_def)
  have "isSensitiveSessionSetupKey plain_unicode ''password'' []"
    by (simp add: isSensitiveSessionSetupKey_def sensitive_markers_def normalize_lower byte_def)
  then have "''o'' @ [CHR 0x27] @ ''k'' \<in> set secrets"
    using options_roundtrip[OF c example_nonempty] by (auto simp: example_options_list_def)
  moreover have "length example_options_list = 2" by (simp add: example_options_list_def)
  then have "read_options 2 stmt = Some (sort_key fst example_options_list)"
    using options_roundtrip[OF c example_nonempty] by metis
  ultimately show ?thesis using c unfolding order by blast
qed

end
