(* ===== verification/Config.thy ===== *)
theory Config
  imports Messages
begin

text \<open>
  \<open>flinksqlgateway/config.go\<close>: the defaults and checks of \<open>Config.normalize\<close>, the redirect
  policy it installs, and the normalisation of modes, policies and API versions.  A
  \<open>time.Duration\<close> is an \<open>int\<close> of nanoseconds.
\<close>

abbreviation "DefaultAPIVersion \<equiv> ''v3''"
abbreviation "CompatibilityAuto \<equiv> ''auto''"
abbreviation "CompatibilityFlink120 \<equiv> ''flink-1.20''"
abbreviation "CompatibilityFlink20 \<equiv> ''flink-2.0''"
abbreviation "CompatibilityFlink21 \<equiv> ''flink-2.1''"
abbreviation "CompatibilityFlink22 \<equiv> ''flink-2.2''"
abbreviation "CompatibilityFlink23 \<equiv> ''flink-2.3''"
abbreviation "APIVersionStable \<equiv> ''stable''"
abbreviation "APIVersionHighest \<equiv> ''highest''"
abbreviation "APIVersionExplicit \<equiv> ''explicit''"
abbreviation "RowFormatJSON \<equiv> ''JSON''"
abbreviation "RowFormatPlainText \<equiv> ''PLAIN_TEXT''"

definition millisecond :: int where "millisecond = 1000000"
definition second :: int where "second = 1000000000"

definition defaultRequestTimeout :: int where "defaultRequestTimeout = 10 * second"
definition defaultExecutionTimeout :: int where "defaultExecutionTimeout = 30 * second"
definition defaultPollInterval :: int where "defaultPollInterval = 250 * millisecond"
definition defaultMaxPollInterval :: int where "defaultMaxPollInterval = 3 * second"
definition defaultHeartbeatInterval :: int where "defaultHeartbeatInterval = 30 * second"
definition defaultMaxResultRows :: int where "defaultMaxResultRows = 1000"
definition defaultMaxResponseBytes :: int where "defaultMaxResponseBytes = 8 * 1048576"
definition defaultMaxPolls :: int where "defaultMaxPolls = 10000"
definition defaultStreamBuffer :: int where "defaultStreamBuffer = 16"
definition defaultObserverTimeout :: int where "defaultObserverTimeout = 100 * millisecond"
definition defaultObserverInFlight :: int where "defaultObserverInFlight = 16"
definition defaultUserAgent :: string where "defaultUserAgent = ''flink-sql-go/0.2.0''"

lemmas default_defs =
  millisecond_def second_def defaultRequestTimeout_def defaultExecutionTimeout_def
  defaultPollInterval_def defaultMaxPollInterval_def defaultHeartbeatInterval_def
  defaultMaxResultRows_def defaultMaxResponseBytes_def defaultMaxPolls_def
  defaultStreamBuffer_def defaultObserverTimeout_def defaultObserverInFlight_def

record config =
  BaseURL :: string
  CompatibilityMode :: string
  APIVersionPolicy :: string
  APIVersion :: string
  RequestTimeout :: int
  ExecutionTimeout :: int
  PollInterval :: int
  MaxPollInterval :: int
  HeartbeatInterval :: int
  MaxResultRows :: int
  MaxResponseBytes :: int
  DefaultRowFormat :: string
  UserAgent :: string
  Headers :: "(string \<times> string) list"
  CancelOnContextDone :: bool
  MaxPolls :: int
  StreamBuffer :: int
  ObserverTimeout :: int
  ObserverMaxInFlight :: int

text \<open>\<open>RowFormat.valid\<close>.\<close>

definition row_format_valid :: "string \<Rightarrow> bool" where
  "row_format_valid f = (f = RowFormatJSON \<or> f = RowFormatPlainText)"

definition normalizeCompatibilityMode :: "string \<Rightarrow> (goerr, string) result" where
  "normalizeCompatibilityMode value =
     (let mode = to_lower (trim_space value) in
      if mode = [] then Inr CompatibilityAuto
      else if mode \<in> {CompatibilityAuto, CompatibilityFlink120, CompatibilityFlink20,
                      CompatibilityFlink21, CompatibilityFlink22, CompatibilityFlink23}
      then Inr mode
      else Inl (Errorf ''flinksqlgateway: unsupported CompatibilityMode %q'' [ArgText value]))"

definition normalizeAPIVersionPolicy :: "string \<Rightarrow> bool \<Rightarrow> (goerr, string) result" where
  "normalizeAPIVersionPolicy value hasAPIVersion =
     (let policy = to_lower (trim_space value) in
      if policy = [] then (if hasAPIVersion then Inr APIVersionExplicit else Inr APIVersionStable)
      else if policy \<in> {APIVersionStable, APIVersionHighest, APIVersionExplicit} then Inr policy
      else Inl (Errorf ''flinksqlgateway: unsupported APIVersionPolicy %q'' [ArgText value]))"

definition normalizeVersion :: "string \<Rightarrow> (goerr, string) result" where
  "normalizeVersion value =
     (let v = to_lower (trim_space value) in
      if v = [] then Inr DefaultAPIVersion
      else
        (let w = trim_prefix v ''v'' in
         case atoi w of
           None \<Rightarrow> Inl (Errorf ''flinksqlgateway: invalid API version %q'' [ArgText w])
         | Some n \<Rightarrow>
             if n < 1 then Inl (Errorf ''flinksqlgateway: invalid API version %q'' [ArgText w])
             else Inr (''v'' @ itoa n)))"

text \<open>\<open>n, _ := strconv.Atoi(...)\<close>: a syntax error leaves 0.  The source calls it on
  normalised versions only, so the saturated value of a range error does not occur.\<close>

definition apiVersionNumber :: "string \<Rightarrow> int" where
  "apiVersionNumber version =
     (case atoi (trim_prefix (to_lower version) ''v'') of None \<Rightarrow> 0 | Some n \<Rightarrow> n)"

definition config_error :: "string \<Rightarrow> goerr" where
  "config_error m = Errorf m []"

text \<open>The fields that are zero take their default.\<close>

definition fill_defaults :: "config \<Rightarrow> config" where
  "fill_defaults cfg = cfg\<lparr>
     RequestTimeout := (if RequestTimeout cfg = 0 then defaultRequestTimeout else RequestTimeout cfg),
     ExecutionTimeout := (if ExecutionTimeout cfg = 0 then defaultExecutionTimeout else ExecutionTimeout cfg),
     PollInterval := (if PollInterval cfg = 0 then defaultPollInterval else PollInterval cfg),
     MaxPollInterval := (if MaxPollInterval cfg = 0 then defaultMaxPollInterval else MaxPollInterval cfg),
     HeartbeatInterval := (if HeartbeatInterval cfg = 0 then defaultHeartbeatInterval else HeartbeatInterval cfg),
     MaxResultRows := (if MaxResultRows cfg = 0 then defaultMaxResultRows else MaxResultRows cfg),
     MaxResponseBytes := (if MaxResponseBytes cfg = 0 then defaultMaxResponseBytes else MaxResponseBytes cfg),
     MaxPolls := (if MaxPolls cfg = 0 then defaultMaxPolls else MaxPolls cfg),
     StreamBuffer := (if StreamBuffer cfg = 0 then defaultStreamBuffer else StreamBuffer cfg),
     ObserverTimeout := (if ObserverTimeout cfg = 0 then defaultObserverTimeout else ObserverTimeout cfg),
     ObserverMaxInFlight := (if ObserverMaxInFlight cfg = 0 then defaultObserverInFlight else ObserverMaxInFlight cfg),
     DefaultRowFormat := (if DefaultRowFormat cfg = [] then RowFormatJSON else DefaultRowFormat cfg),
     UserAgent := (if UserAgent cfg = [] then defaultUserAgent else UserAgent cfg)\<rparr>"

definition check_limits :: "config \<Rightarrow> goerr option" where
  "check_limits cfg =
     (if RequestTimeout cfg < 0 \<or> ExecutionTimeout cfg < 0 \<or> PollInterval cfg \<le> 0
         \<or> MaxPollInterval cfg \<le> 0 \<or> HeartbeatInterval cfg \<le> 0 \<or> ObserverTimeout cfg < 0
      then Some (config_error ''flinksqlgateway: timeouts and intervals must be positive'')
      else if MaxPollInterval cfg < PollInterval cfg
      then Some (config_error ''flinksqlgateway: MaxPollInterval must be at least PollInterval'')
      else if MaxResultRows cfg < 0 \<or> MaxResponseBytes cfg \<le> 0 \<or> MaxPolls cfg \<le> 0
         \<or> StreamBuffer cfg \<le> 0 \<or> ObserverMaxInFlight cfg \<le> 0
      then Some (config_error ''flinksqlgateway: result, response, poll, and stream limits must be positive'')
      else if \<not> row_format_valid (DefaultRowFormat cfg)
      then Some (Errorf ''flinksqlgateway: unsupported default row format %q'' [ArgText (DefaultRowFormat cfg)])
      else if list_ex (\<lambda>kv. equal_fold (fst kv) ''Host'') (Headers cfg)
      then Some (config_error ''flinksqlgateway: Host must not be supplied through Headers'')
      else None)"

text \<open>The checks on the parsed base URL.\<close>

definition check_base :: "go_url \<Rightarrow> (goerr, go_url) result" where
  "check_base base =
     (if (Scheme base \<noteq> ''http'' \<and> Scheme base \<noteq> ''https'') \<or> Host base = []
      then Inl (config_error ''flinksqlgateway: BaseURL must be an http or https URL with a host'')
      else if User base \<noteq> None
      then Inl (config_error ''flinksqlgateway: BaseURL must not contain user information'')
      else if RawQuery base \<noteq> [] \<or> Fragment base \<noteq> []
      then Inl (config_error ''flinksqlgateway: BaseURL must not contain a query or fragment'')
      else Inr (base\<lparr>Path := trim_right_byte CHR ''/'' (Path base)\<rparr>))"

definition normalize ::
  "(string \<Rightarrow> (goerr, go_url) result) \<Rightarrow> config \<Rightarrow> (goerr, config \<times> go_url) result" where
  "normalize parse cfg =
     (if trim_space (BaseURL cfg) = [] then Inl (config_error ''flinksqlgateway: BaseURL is required'')
      else case parse (trim_space (BaseURL cfg)) of
        Inl err \<Rightarrow> Inl (Errorf ''flinksqlgateway: parse BaseURL: %w'' [ArgWrap err])
      | Inr parsed \<Rightarrow>
          and_then (check_base parsed) (\<lambda>base.
          and_then (normalizeCompatibilityMode (CompatibilityMode cfg)) (\<lambda>mode.
          (let rawAPIVersion = trim_space (APIVersion cfg) in
          and_then (normalizeAPIVersionPolicy (APIVersionPolicy cfg) (rawAPIVersion \<noteq> [])) (\<lambda>policy.
            if policy = APIVersionExplicit \<and> rawAPIVersion = []
            then Inl (config_error ''flinksqlgateway: APIVersion is required for explicit policy'')
            else if policy \<noteq> APIVersionExplicit \<and> rawAPIVersion \<noteq> []
            then Inl (config_error ''flinksqlgateway: APIVersion may only be set with explicit policy'')
            else
              and_then (normalizeVersion rawAPIVersion) (\<lambda>version.
                (let filled = fill_defaults (cfg\<lparr>CompatibilityMode := mode,
                                APIVersionPolicy := policy, APIVersion := version\<rparr>) in
                 case check_limits filled of
                   Some err \<Rightarrow> Inl err
                 | None \<Rightarrow> Inr (filled, base))))))))"

text \<open>The \<open>CheckRedirect\<close> closure: the origin first, then the caller's own policy.\<close>

definition checkRedirect ::
  "go_url \<Rightarrow> (go_url \<Rightarrow> nat \<Rightarrow> goerr option) option \<Rightarrow> go_url \<Rightarrow> nat \<Rightarrow> goerr option" where
  "checkRedirect base originalRedirect req via =
     (if \<not> equal_fold (Host req) (Host base) \<or> \<not> equal_fold (Scheme req) (Scheme base)
      then Some (Sentinel ErrUnsafeNextResultURI)
      else case originalRedirect of
        Some f \<Rightarrow> f req via
      | None \<Rightarrow> if via \<ge> 10 then Some (config_error ''flinksqlgateway: stopped after 10 redirects'') else None)"

section \<open>What a normalised configuration satisfies\<close>

definition modes :: "string set" where
  "modes = {CompatibilityAuto, CompatibilityFlink120, CompatibilityFlink20,
            CompatibilityFlink21, CompatibilityFlink22, CompatibilityFlink23}"

definition version_normal :: "string \<Rightarrow> bool" where
  "version_normal v = (\<exists>n \<ge> 1. v = ''v'' @ itoa n \<and> n < 2 ^ 63)"

definition config_ok :: "config \<Rightarrow> bool" where
  "config_ok c =
     (CompatibilityMode c \<in> modes
      \<and> APIVersionPolicy c \<in> {APIVersionStable, APIVersionHighest, APIVersionExplicit}
      \<and> version_normal (APIVersion c)
      \<and> (APIVersionPolicy c \<noteq> APIVersionExplicit \<longrightarrow> APIVersion c = DefaultAPIVersion)
      \<and> 0 < RequestTimeout c \<and> 0 < ExecutionTimeout c \<and> 0 < PollInterval c
      \<and> PollInterval c \<le> MaxPollInterval c \<and> 0 < HeartbeatInterval c
      \<and> 0 < MaxResultRows c \<and> 0 < MaxResponseBytes c \<and> 0 < MaxPolls c \<and> 0 < StreamBuffer c
      \<and> 0 < ObserverTimeout c \<and> 0 < ObserverMaxInFlight c
      \<and> row_format_valid (DefaultRowFormat c)
      \<and> (\<forall>kv \<in> set (Headers c). \<not> equal_fold (fst kv) ''Host''))"

lemma normalizeCompatibilityMode_mem: "normalizeCompatibilityMode v = Inr m \<Longrightarrow> m \<in> modes"
  by (auto simp: normalizeCompatibilityMode_def modes_def Let_def split: if_splits)

lemma normalizeAPIVersionPolicy_mem:
  "normalizeAPIVersionPolicy v h = Inr p \<Longrightarrow> p \<in> {APIVersionStable, APIVersionHighest, APIVersionExplicit}"
  by (auto simp: normalizeAPIVersionPolicy_def Let_def split: if_splits)

lemma atoi_bound: "atoi s = Some n \<Longrightarrow> n < 2 ^ 63"
  unfolding atoi_def Let_def
  by (cases s) (auto split: if_splits)

lemma itoa_3: "itoa 3 = ''3''"
  by code_simp

lemma version_normal_default: "version_normal DefaultAPIVersion"
  by (auto simp: version_normal_def itoa_3 intro!: exI[of _ 3])

lemma normalizeVersion_Inr:
  assumes "normalizeVersion v = Inr w" "to_lower (trim_space v) \<noteq> []"
  shows "\<exists>n \<ge> 1. atoi (trim_prefix (to_lower (trim_space v)) ''v'') = Some n \<and> w = ''v'' @ itoa n"
  using assms by (auto simp: normalizeVersion_def Let_def split: if_splits option.splits)

lemma normalizeVersion_normal:
  assumes "normalizeVersion v = Inr w"
  shows "version_normal w"
proof (cases "to_lower (trim_space v) = []")
  case True
  with assms have "w = DefaultAPIVersion" by (simp add: normalizeVersion_def)
  then show ?thesis using version_normal_default by simp
next
  case False
  from normalizeVersion_Inr[OF assms False] obtain n where
    "n \<ge> 1" "atoi (trim_prefix (to_lower (trim_space v)) ''v'') = Some n" "w = ''v'' @ itoa n" by blast
  then show ?thesis unfolding version_normal_def using atoi_bound by blast
qed

lemma normalizeVersion_empty: "normalizeVersion [] = Inr DefaultAPIVersion"
  by (simp add: normalizeVersion_def to_lower_def map_runes_def)

lemma check_base_ok: "check_base b = Inr u \<Longrightarrow> base_url_ok u"
  by (auto simp: check_base_def base_url_ok_def split: if_splits)


text \<open>No field that has a default is zero afterwards, and the checks exclude the rest.\<close>

lemma fill_defaults_nonzero:
  "RequestTimeout (fill_defaults c) \<noteq> 0" "ExecutionTimeout (fill_defaults c) \<noteq> 0"
  "MaxResultRows (fill_defaults c) \<noteq> 0" "ObserverTimeout (fill_defaults c) \<noteq> 0"
  by (simp_all add: fill_defaults_def default_defs)

lemma check_limits_None:
  assumes "check_limits c = None"
  shows "0 \<le> RequestTimeout c" "0 \<le> ExecutionTimeout c" "0 < PollInterval c"
    "PollInterval c \<le> MaxPollInterval c" "0 < HeartbeatInterval c" "0 \<le> MaxResultRows c"
    "0 < MaxResponseBytes c" "0 < MaxPolls c" "0 < StreamBuffer c" "0 \<le> ObserverTimeout c"
    "0 < ObserverMaxInFlight c" "row_format_valid (DefaultRowFormat c)"
    "\<forall>kv \<in> set (Headers c). \<not> equal_fold (fst kv) ''Host''"
  using assms by (simp_all add: check_limits_def list_ex_iff not_less not_le split: if_splits)

lemma normalize_config_ok:
  assumes "normalize parse cfg = Inr (c, b)"
  shows "config_ok c \<and> base_url_ok b"
proof -
  obtain u mode policy version where
    base: "check_base u = Inr b" and
    mode: "normalizeCompatibilityMode (CompatibilityMode cfg) = Inr mode" and
    policy: "normalizeAPIVersionPolicy (APIVersionPolicy cfg) (trim_space (APIVersion cfg) \<noteq> []) = Inr policy" and
    explicit: "\<not> (policy \<noteq> APIVersionExplicit \<and> trim_space (APIVersion cfg) \<noteq> [])" and
    version: "normalizeVersion (trim_space (APIVersion cfg)) = Inr version" and
    limits: "check_limits (fill_defaults (cfg\<lparr>CompatibilityMode := mode, APIVersionPolicy := policy, APIVersion := version\<rparr>)) = None" and
    c: "c = fill_defaults (cfg\<lparr>CompatibilityMode := mode, APIVersionPolicy := policy, APIVersion := version\<rparr>)"
    using assms
    by (auto simp: normalize_def and_then_Inr_iff Let_def split: if_splits sum.splits option.splits)
  have "policy \<noteq> APIVersionExplicit \<longrightarrow> version = DefaultAPIVersion"
    using explicit version by (auto simp: normalizeVersion_empty)
  moreover have "CompatibilityMode c = mode" "APIVersionPolicy c = policy" "APIVersion c = version"
    by (simp_all add: c fill_defaults_def)
  ultimately show ?thesis
    using check_limits_None[OF limits, folded c] check_base_ok[OF base]
      fill_defaults_nonzero[of "cfg\<lparr>CompatibilityMode := mode, APIVersionPolicy := policy, APIVersion := version\<rparr>", folded c]
      normalizeCompatibilityMode_mem[OF mode] normalizeAPIVersionPolicy_mem[OF policy]
      normalizeVersion_normal[OF version]
    by (simp add: config_ok_def less_le)
qed

text \<open>Whatever the caller supplies, a configuration that passes \<open>normalize\<close> is complete and
  in range: a registered mode, a known policy, a normal API version (the default one unless the
  policy is explicit), positive timeouts and limits, ordered poll intervals, a valid row format,
  no \<open>Host\<close> header, and a base URL without credentials, query or fragment.\<close>

theorem normalize_complete:
  assumes "normalize parse cfg = Inr (c, b)"
  shows "config_ok c \<and> base_url_ok b"
  by (rule normalize_config_ok[OF assms])

theorem normalize_complete_witness:
  "\<exists>cfg c b. normalize (\<lambda>s. Inr \<lparr>Scheme = ''http'', Opaque = [], User = None, Host = s, Path = ''/'',
      ForceQuery = False, RawQuery = [], Fragment = []\<rparr>) cfg = Inr (c, b) \<and> config_ok c \<and> base_url_ok b"
proof -
  define cfg :: config where "cfg = \<lparr>BaseURL = ''g'', CompatibilityMode = [],
    APIVersionPolicy = [], APIVersion = [], RequestTimeout = 0, ExecutionTimeout = 0,
    PollInterval = 0, MaxPollInterval = 0, HeartbeatInterval = 0, MaxResultRows = 0, MaxResponseBytes = 0,
    DefaultRowFormat = [], UserAgent = [], Headers = [], CancelOnContextDone = False,
    MaxPolls = 0, StreamBuffer = 0, ObserverTimeout = 0, ObserverMaxInFlight = 0\<rparr>"
  have "\<exists>c b. normalize (\<lambda>s. Inr \<lparr>Scheme = ''http'', Opaque = [], User = None, Host = s, Path = ''/'',
      ForceQuery = False, RawQuery = [], Fragment = []\<rparr>) cfg = Inr (c, b)"
    by (simp add: cfg_def normalize_def trim_space_def byte_def is_space_def check_base_def
        normalizeCompatibilityMode_def normalizeAPIVersionPolicy_def normalizeVersion_def to_lower_def
        map_runes_def fill_defaults_def default_defs check_limits_def row_format_valid_def)
  then obtain c b where "normalize (\<lambda>s. Inr \<lparr>Scheme = ''http'', Opaque = [], User = None, Host = s, Path = ''/'',
      ForceQuery = False, RawQuery = [], Fragment = []\<rparr>) cfg = Inr (c, b)" by blast
  with normalize_complete[OF this] show ?thesis by blast
qed

end
