(* ===== verification/Compatibility.thy ===== *)
theory Compatibility
  imports Config
begin

text \<open>
  \<open>flinksqlgateway/compatibility.go\<close> and \<open>capability.go\<close>: the registry of release
  profiles, the parsing of a Flink version, the choice of a REST API version and the
  capabilities that follow, and the lazy, cached detection \<open>CheckAPIVersion\<close> of
  \<open>client.go\<close>.  The two metadata requests are arguments: \<open>info\<close> is what \<open>GetInfo\<close>
  returns, \<open>adv\<close> what the \<open>/api_versions\<close> request returns.
\<close>

section \<open>Registry\<close>

datatype release_status =
  ReleasePlanned | ReleaseExperimental | ReleaseSupported | ReleaseMaintenance | ReleaseUnsupported

datatype detection_source = DetectionSourceUnset | DetectionSourceAuto | DetectionSourceConfigured

abbreviation "Flink120 \<equiv> ''1.20''"
abbreviation "Flink20 \<equiv> ''2.0''"
abbreviation "Flink21 \<equiv> ''2.1''"
abbreviation "Flink22 \<equiv> ''2.2''"
abbreviation "Flink23 \<equiv> ''2.3''"

record capabilities =
  capAPIVersion :: string
  SupportedAPIVersions :: "string list"
  capDefaultAPIVersion :: string
  ConfigureSession :: bool
  CompleteStatement :: bool
  RowFormat :: bool
  MaterializedTable :: bool
  DeployScript :: bool
  WireExecutionTimeout :: bool

record compatibilityProfile =
  releaseLine :: string
  status :: release_status
  testedVersions :: "string list"
  apiVersions :: "string list"
  stableAPIVersion :: string
  prof_capabilities :: capabilities

record compatibilityInfo =
  FlinkVersion :: string
  ReleaseLine :: string
  infoAPIVersion :: string
  Capabilities :: capabilities
  DetectionSource :: detection_source

definition no_capabilities :: capabilities where
  "no_capabilities = \<lparr>capAPIVersion = [], SupportedAPIVersions = [], capDefaultAPIVersion = [],
     ConfigureSession = False, CompleteStatement = False, RowFormat = False,
     MaterializedTable = False, DeployScript = False, WireExecutionTimeout = False\<rparr>"

definition no_compatibility :: compatibilityInfo where
  "no_compatibility = \<lparr>FlinkVersion = [], ReleaseLine = [], infoAPIVersion = [],
     Capabilities = no_capabilities, DetectionSource = DetectionSourceUnset\<rparr>"

definition newCompatibilityProfile ::
  "string \<Rightarrow> release_status \<Rightarrow> string list \<Rightarrow> string list \<Rightarrow> string
    \<Rightarrow> bool \<Rightarrow> bool \<Rightarrow> bool \<Rightarrow> bool \<Rightarrow> bool \<Rightarrow> bool \<Rightarrow> compatibilityProfile" where
  "newCompatibilityProfile line st tested versions stableVersion configureSession completeStatement
      rowFormat materializedTable deployScript wireExecutionTimeout =
     \<lparr>releaseLine = line, status = st, testedVersions = tested, apiVersions = versions,
      stableAPIVersion = stableVersion,
      prof_capabilities = \<lparr>capAPIVersion = [], SupportedAPIVersions = versions,
        capDefaultAPIVersion = stableVersion, ConfigureSession = configureSession,
        CompleteStatement = completeStatement, RowFormat = rowFormat,
        MaterializedTable = materializedTable, DeployScript = deployScript,
        WireExecutionTimeout = wireExecutionTimeout\<rparr>\<rparr>"

definition compatibilityProfiles :: "compatibilityProfile list" where
  "compatibilityProfiles =
    [newCompatibilityProfile Flink120 ReleaseMaintenance [''1.20.4''] [''v1'', ''v2'', ''v3''] ''v3''
       True True True True False False,
     newCompatibilityProfile Flink20 ReleaseExperimental [] [''v1'', ''v2'', ''v3'', ''v4''] ''v3''
       True True True True True True,
     newCompatibilityProfile Flink21 ReleaseExperimental [] [''v1'', ''v2'', ''v3'', ''v4''] ''v3''
       True True True True True True,
     newCompatibilityProfile Flink22 ReleaseExperimental [] [''v1'', ''v2'', ''v3'', ''v4''] ''v3''
       True True True True True True,
     newCompatibilityProfile Flink23 ReleaseExperimental [] [''v1'', ''v2'', ''v3'', ''v4''] ''v3''
       True True True True True True]"

definition sqlGatewayProtocolCapabilities :: "string \<Rightarrow> capabilities option" where
  "sqlGatewayProtocolCapabilities =
     [''v1'' \<mapsto> no_capabilities\<lparr>WireExecutionTimeout := True\<rparr>,
      ''v2'' \<mapsto> no_capabilities\<lparr>ConfigureSession := True, CompleteStatement := True,
                  RowFormat := True, WireExecutionTimeout := True\<rparr>,
      ''v3'' \<mapsto> no_capabilities\<lparr>ConfigureSession := True, CompleteStatement := True,
                  RowFormat := True, MaterializedTable := True, WireExecutionTimeout := True\<rparr>,
      ''v4'' \<mapsto> no_capabilities\<lparr>ConfigureSession := True, CompleteStatement := True,
                  RowFormat := True, DeployScript := True, WireExecutionTimeout := True\<rparr>]"

definition releaseStatusSelectable :: "release_status \<Rightarrow> bool" where
  "releaseStatusSelectable st = (st \<in> {ReleaseExperimental, ReleaseSupported, ReleaseMaintenance})"

definition newCompatibilityError ::
  "sentinel \<Rightarrow> string \<Rightarrow> string \<Rightarrow> string \<Rightarrow> string \<Rightarrow> goerr option \<Rightarrow> goerr" where
  "newCompatibilityError kind operation flinkVersion line apiVersion cause =
     CompatibilityError (Some (Sentinel kind)) operation (sanitizeServerMessage flinkVersion) line apiVersion cause"

definition profileForReleaseLine :: "string \<Rightarrow> (goerr, compatibilityProfile) result" where
  "profileForReleaseLine line =
     (case List.find (\<lambda>p. releaseLine p = line) compatibilityProfiles of
        Some profile \<Rightarrow>
          if \<not> releaseStatusSelectable (status profile)
          then Inl (newCompatibilityError ErrUnsupportedFlinkVersion ''select compatibility profile'' [] line [] None)
          else Inr profile
      | None \<Rightarrow> Inl (newCompatibilityError ErrUnsupportedFlinkVersion ''select compatibility profile'' [] line [] None))"

definition releaseLineForMode :: "string \<Rightarrow> (goerr, string) result" where
  "releaseLineForMode mode =
     (if mode = CompatibilityFlink120 then Inr Flink120
      else if mode = CompatibilityFlink20 then Inr Flink20
      else if mode = CompatibilityFlink21 then Inr Flink21
      else if mode = CompatibilityFlink22 then Inr Flink22
      else if mode = CompatibilityFlink23 then Inr Flink23
      else Inl (Errorf ''flinksqlgateway: unsupported CompatibilityMode %q'' [ArgText mode]))"

definition profileForModeOrDefault :: "string \<Rightarrow> (goerr, compatibilityProfile) result" where
  "profileForModeOrDefault mode =
     (if mode = [] \<or> mode = CompatibilityAuto then profileForReleaseLine Flink120
      else and_then (releaseLineForMode mode) profileForReleaseLine)"

definition containsVersion :: "string list \<Rightarrow> string \<Rightarrow> bool" where
  "containsVersion versions target = list_ex (\<lambda>v. v = target) versions"

definition disableProtocolCapabilities :: "capabilities \<Rightarrow> capabilities" where
  "disableProtocolCapabilities c = c\<lparr>ConfigureSession := False, CompleteStatement := False,
     RowFormat := False, MaterializedTable := False, DeployScript := False,
     WireExecutionTimeout := False\<rparr>"

definition capabilitiesForProfile :: "compatibilityProfile \<Rightarrow> string \<Rightarrow> capabilities" where
  "capabilitiesForProfile profile apiVersion =
     (let result = (prof_capabilities profile)\<lparr>capAPIVersion := apiVersion\<rparr> in
      if \<not> containsVersion (apiVersions profile) apiVersion then disableProtocolCapabilities result
      else case sqlGatewayProtocolCapabilities apiVersion of
        None \<Rightarrow> disableProtocolCapabilities result
      | Some protocol \<Rightarrow>
          result\<lparr>ConfigureSession := ConfigureSession result \<and> ConfigureSession protocol,
            CompleteStatement := CompleteStatement result \<and> CompleteStatement protocol,
            RowFormat := RowFormat result \<and> RowFormat protocol,
            MaterializedTable := MaterializedTable result \<and> MaterializedTable protocol,
            DeployScript := DeployScript result \<and> DeployScript protocol,
            WireExecutionTimeout := WireExecutionTimeout result \<and> WireExecutionTimeout protocol\<rparr>)"

section \<open>Choosing the API version\<close>

text \<open>The set of versions the server advertises: those that normalise.\<close>

definition serverSet :: "string list \<Rightarrow> string list" where
  "serverSet advertised =
     concat (map (\<lambda>v. case normalizeVersion v of Inl _ \<Rightarrow> [] | Inr n \<Rightarrow> [n]) advertised)"

definition selectAPIVersion ::
  "compatibilityProfile \<Rightarrow> string list \<Rightarrow> string \<Rightarrow> string \<Rightarrow> (goerr, string) result" where
  "selectAPIVersion profile advertised policy explicit =
     (let server = serverSet advertised in
      if policy = APIVersionExplicit
      then
        if explicit \<notin> set (apiVersions profile)
        then Inl (newCompatibilityError ErrExplicitAPIVersionUnsupportedByProfile
               ''select explicit API version'' [] (releaseLine profile) explicit None)
        else if explicit \<notin> set server
        then Inl (newCompatibilityError ErrExplicitAPIVersionUnsupportedByServer
               ''select explicit API version'' [] (releaseLine profile) explicit None)
        else Inr explicit
      else
        (let common = sort_key apiVersionNumber (filter (\<lambda>v. v \<in> set server) (apiVersions profile)) in
         if common = []
         then Inl (newCompatibilityError ErrNoCompatibleAPIVersion ''select API version'' []
                (releaseLine profile) [] None)
         else if policy = APIVersionHighest then Inr (last common)
         else case List.find (\<lambda>v. apiVersionNumber v \<le> apiVersionNumber (stableAPIVersion profile)) (rev common) of
             Some v \<Rightarrow> Inr v
           | None \<Rightarrow> Inl (newCompatibilityError ErrNoCompatibleAPIVersion ''select stable API version'' []
                (releaseLine profile) [] None)))"

section \<open>Parsing a Flink version\<close>

definition versionNumber :: "string \<Rightarrow> (goerr, int) result" where
  "versionNumber part =
     (if part = [] then Inl (Errorf ''missing numeric component'' [])
      else if \<not> list_all is_digit part then Inl (Errorf ''invalid numeric component'' [])
      else case atoi part of None \<Rightarrow> Inl (Errorf ''value out of range'' []) | Some n \<Rightarrow> Inr n)"

text \<open>The loop of \<open>validateVersionSuffix\<close> after its first character.  It is written over
  bytes: every byte of a rune outside ASCII is rejected as the rune itself is.\<close>

fun suffix_loop :: "bool \<Rightarrow> bool \<Rightarrow> string \<Rightarrow> bool" where
  "suffix_loop previousSeparator plusSeen [] = (\<not> previousSeparator)"
| "suffix_loop previousSeparator plusSeen (c # cs) =
     (if c = CHR ''+'' then \<not> (plusSeen \<or> previousSeparator) \<and> suffix_loop True True cs
      else if c = CHR ''.'' then \<not> previousSeparator \<and> suffix_loop True plusSeen cs
      else if c = CHR ''-'' \<or> is_digit c \<or> 97 \<le> byte c \<and> byte c \<le> 122
      then suffix_loop False plusSeen cs
      else False)"

definition validateVersionSuffix :: "string \<Rightarrow> goerr option" where
  "validateVersionSuffix ext =
     (if length ext < 2 then Some (Errorf ''empty version suffix'' [])
      else if hd ext = CHR ''-'' \<or> hd ext = CHR ''+''
      then (if suffix_loop True (hd ext = CHR ''+'') (tl ext) then None
            else Some (Errorf ''invalid version suffix'' []))
      else (if suffix_loop True False ext then None else Some (Errorf ''invalid version suffix'' [])))"

definition parse_error :: "string \<Rightarrow> goerr option \<Rightarrow> goerr" where
  "parse_error original cause =
     newCompatibilityError ErrInvalidFlinkVersion ''parse Flink version'' original [] [] cause"

definition parse_core :: "string \<Rightarrow> string \<Rightarrow> bool \<Rightarrow> (goerr, string) result" where
  "parse_core original core hasSuffix =
     (let parts = split_on CHR ''.'' core in
      if length parts < 2 \<or> 3 < length parts then Inl (parse_error original None)
      else if hasSuffix \<and> length parts \<noteq> 3
      then Inl (parse_error original (Some (Errorf ''version suffix requires a patch component'' [])))
      else case versionNumber (parts ! 0) of
        Inl err \<Rightarrow> Inl (parse_error original (Some err))
      | Inr major \<Rightarrow>
          (case versionNumber (parts ! 1) of
            Inl err \<Rightarrow> Inl (parse_error original (Some err))
          | Inr minor \<Rightarrow>
              (case (if 3 \<le> length parts then versionNumber (parts ! 2) else Inr 0) of
                Inl err \<Rightarrow> Inl (parse_error original (Some err))
              | Inr _ \<Rightarrow> Inr (itoa major @ ''.'' @ itoa minor))))"

definition parseFlinkReleaseLine :: "string \<Rightarrow> (goerr, string) result" where
  "parseFlinkReleaseLine value =
     (let original = trim_space value;
          version = trim_prefix (to_lower original) ''v'';
          core = takeWhile (\<lambda>c. c \<noteq> CHR ''-'' \<and> c \<noteq> CHR ''+'') version;
          ext = drop (length core) version in
      if ext = [] then parse_core original version False
      else case validateVersionSuffix ext of
        Some err \<Rightarrow> Inl (parse_error original (Some err))
      | None \<Rightarrow> parse_core original core True)"

section \<open>Detection and its cache\<close>

text \<open>\<open>getAPIVersions\<close>: what normalises is normalised, the rest is kept.\<close>

definition getAPIVersions :: "string list \<Rightarrow> string list" where
  "getAPIVersions versions = map (\<lambda>v. case normalizeVersion v of Inr n \<Rightarrow> n | Inl _ \<Rightarrow> v) versions"

definition chooseProfile ::
  "config \<Rightarrow> (goerr, string) result \<Rightarrow> (goerr, string \<times> compatibilityProfile \<times> detection_source) result" where
  "chooseProfile cfg info =
     (if CompatibilityMode cfg = CompatibilityAuto
      then case info of
          Inl err \<Rightarrow> Inl (newCompatibilityError ErrCompatibilityDetection ''GET /info'' [] [] [] (Some err))
        | Inr version \<Rightarrow>
            and_then (parseFlinkReleaseLine version) (\<lambda>line.
            and_then (profileForReleaseLine line) (\<lambda>profile.
              Inr (trim_space version, profile, DetectionSourceAuto)))
      else
        and_then (releaseLineForMode (CompatibilityMode cfg)) (\<lambda>line.
        and_then (profileForReleaseLine line) (\<lambda>profile.
          Inr ([], profile, DetectionSourceConfigured))))"

definition resolveCompatibility ::
  "config \<Rightarrow> (goerr, string) result \<Rightarrow> (goerr, string list) result \<Rightarrow> (goerr, compatibilityInfo) result" where
  "resolveCompatibility cfg info adv =
     and_then (chooseProfile cfg info) (\<lambda>(flinkVersion, profile, source).
       case adv of
         Inl err \<Rightarrow> Inl (newCompatibilityError ErrCompatibilityDetection ''GET /api_versions''
                flinkVersion (releaseLine profile) [] (Some err))
       | Inr versions \<Rightarrow>
           and_then (selectAPIVersion profile (getAPIVersions versions) (APIVersionPolicy cfg) (APIVersion cfg))
             (\<lambda>selected. Inr \<lparr>FlinkVersion = flinkVersion, ReleaseLine = releaseLine profile,
                infoAPIVersion = selected, Capabilities = capabilitiesForProfile profile selected,
                DetectionSource = source\<rparr>))"

definition configuredCompatibility ::
  "config \<Rightarrow> (goerr, compatibilityInfo option) result" where
  "configuredCompatibility cfg =
     (if CompatibilityMode cfg = CompatibilityAuto \<or> APIVersionPolicy cfg \<noteq> APIVersionExplicit
      then Inr None
      else and_then (profileForModeOrDefault (CompatibilityMode cfg)) (\<lambda>profile.
        if \<not> containsVersion (apiVersions profile) (APIVersion cfg)
        then Inl (newCompatibilityError ErrExplicitAPIVersionUnsupportedByProfile
               ''select explicit API version'' [] (releaseLine profile) (APIVersion cfg) None)
        else Inr (Some \<lparr>FlinkVersion = [], ReleaseLine = releaseLine profile,
               infoAPIVersion = APIVersion cfg,
               Capabilities = capabilitiesForProfile profile (APIVersion cfg),
               DetectionSource = DetectionSourceConfigured\<rparr>)))"

text \<open>The version fields of \<open>GatewayClient\<close>.\<close>

record version_state =
  versionChecked :: bool
  versionErr :: "goerr option"
  compatibility :: compatibilityInfo

definition version_init :: version_state where
  "version_init = \<lparr>versionChecked = False, versionErr = None, compatibility = no_compatibility\<rparr>"

text \<open>\<open>CheckAPIVersion\<close> for one caller at a time: the answer and the new cache.\<close>

definition CheckAPIVersion ::
  "config \<Rightarrow> (goerr, string) result \<Rightarrow> (goerr, string list) result \<Rightarrow> version_state
    \<Rightarrow> goerr option \<times> version_state" where
  "CheckAPIVersion cfg info adv st =
     (case configuredCompatibility cfg of
        Inl err \<Rightarrow>
          (let st = (if \<not> versionChecked st then st\<lparr>versionChecked := True, versionErr := Some err\<rparr> else st)
           in (versionErr st, st))
      | Inr _ \<Rightarrow>
          if versionChecked st then (versionErr st, st)
          else
            (case resolveCompatibility cfg info adv of
               Inl err \<Rightarrow>
                 (Some err, if \<not> err_is err ErrCompatibilityDetection
                            then st\<lparr>versionChecked := True, versionErr := Some err\<rparr> else st)
             | Inr c \<Rightarrow> (None, st\<lparr>compatibility := c, versionChecked := True\<rparr>)))"

definition compatibilitySnapshot :: "config \<Rightarrow> version_state \<Rightarrow> compatibilityInfo" where
  "compatibilitySnapshot cfg st =
     (if infoAPIVersion (compatibility st) \<noteq> [] then compatibility st
      else case profileForModeOrDefault (CompatibilityMode cfg) of
        Inl _ \<Rightarrow> no_compatibility\<lparr>infoAPIVersion := APIVersion cfg\<rparr>
      | Inr profile \<Rightarrow> \<lparr>FlinkVersion = [], ReleaseLine = releaseLine profile,
          infoAPIVersion = APIVersion cfg,
          Capabilities = capabilitiesForProfile profile (APIVersion cfg),
          DetectionSource = DetectionSourceConfigured\<rparr>)"

definition selectedAPIVersion :: "config \<Rightarrow> version_state \<Rightarrow> string" where
  "selectedAPIVersion cfg st =
     (if infoAPIVersion (compatibility st) \<noteq> [] then infoAPIVersion (compatibility st) else APIVersion cfg)"

definition selectedCapabilities :: "config \<Rightarrow> version_state \<Rightarrow> capabilities" where
  "selectedCapabilities cfg st = Capabilities (compatibilitySnapshot cfg st)"

definition unsupported_capability :: "string \<Rightarrow> compatibilityInfo \<Rightarrow> goerr" where
  "unsupported_capability operation c =
     newCompatibilityError ErrUnsupportedCapability operation (FlinkVersion c) (ReleaseLine c)
       (infoAPIVersion c) None"

definition compatibilityForCapability ::
  "config \<Rightarrow> (goerr, string) result \<Rightarrow> (goerr, string list) result \<Rightarrow> version_state
    \<Rightarrow> string \<Rightarrow> (capabilities \<Rightarrow> bool) \<Rightarrow> (goerr, compatibilityInfo) result \<times> version_state" where
  "compatibilityForCapability cfg info adv st operation supported =
     (case configuredCompatibility cfg of
        Inl err \<Rightarrow> (Inl err, st)
      | Inr configured \<Rightarrow>
          (case configured of
             Some c \<Rightarrow>
               if \<not> supported (Capabilities c) then (Inl (unsupported_capability operation c), st)
               else
                 (case CheckAPIVersion cfg info adv st of
                    (Some err, st') \<Rightarrow> (Inl err, st')
                  | (None, st') \<Rightarrow>
                      (let snap = compatibilitySnapshot cfg st' in
                       if \<not> supported (Capabilities snap)
                       then (Inl (unsupported_capability operation snap), st') else (Inr snap, st')))
           | None \<Rightarrow>
               (case CheckAPIVersion cfg info adv st of
                  (Some err, st') \<Rightarrow> (Inl err, st')
                | (None, st') \<Rightarrow>
                    (let snap = compatibilitySnapshot cfg st' in
                     if \<not> supported (Capabilities snap)
                     then (Inl (unsupported_capability operation snap), st') else (Inr snap, st')))))"

definition capabilitiesForVersion :: "string \<Rightarrow> capabilities" where
  "capabilitiesForVersion version =
     (case profileForReleaseLine Flink120 of
        Inl _ \<Rightarrow> no_capabilities\<lparr>capAPIVersion := version\<rparr>
      | Inr profile \<Rightarrow> capabilitiesForProfile profile version)"

section \<open>The public registry\<close>

record SupportedFlinkRelease =
  relReleaseLine :: string
  relStatus :: release_status
  TestedVersions :: "string list"
  RESTAPIVersions :: "string list"
  StableAPIVersion :: string
  relCapabilities :: capabilities

definition public_release :: "compatibilityProfile \<Rightarrow> SupportedFlinkRelease" where
  "public_release p = \<lparr>relReleaseLine = releaseLine p, relStatus = status p,
     TestedVersions = testedVersions p, RESTAPIVersions = apiVersions p,
     StableAPIVersion = stableAPIVersion p, relCapabilities = prof_capabilities p\<rparr>"

definition SupportedFlinkVersions :: "SupportedFlinkRelease list" where
  "SupportedFlinkVersions = map public_release compatibilityProfiles"

text \<open>\<open>GetBuildInfo\<close> lists the release lines of the registry.\<close>

definition SupportedFlinkReleaseLines :: "string list" where
  "SupportedFlinkReleaseLines = map relReleaseLine SupportedFlinkVersions"

section \<open>API version selection\<close>

lemma atoi_no_minus: "atoi s = Some n \<Longrightarrow> n < 2 ^ 63"
  by (rule atoi_bound)

lemma normal_version_char: "1 \<le> n \<Longrightarrow> n < 2 ^ 63 \<Longrightarrow>
  trim_space (''v'' @ itoa n) = ''v'' @ itoa n \<and> to_lower (''v'' @ itoa n) = ''v'' @ itoa n"
proof -
  assume n: "1 \<le> n" "n < (2::int) ^ 63"
  let ?s = "show_nat (nat n)"
  have it: "itoa n = ?s" using n by (simp add: itoa_def)
  have d: "\<forall>c \<in> set ?s. is_digit c" using show_nat_chars by blast
  have a: "ascii (''v'' @ ?s)" by (simp add: byte_def)
  have l: "is_digit (last (''v'' @ ?s))" using d by simp
  have "trim_space (''v'' @ ?s) = ''v'' @ ?s"
    using a l is_digit_ascii by (intro trim_space_ascii_id) (auto simp: is_space_def byte_def)
  moreover have "to_lower (''v'' @ ?s) = ''v'' @ ?s"
  proof (rule to_lower_ascii_id[OF a], rule ballI)
    fix c assume "c \<in> set (''v'' @ ?s)"
    then consider "c = CHR ''v''" | "is_digit c" using d by auto
    then show "\<not> (65 \<le> byte c \<and> byte c \<le> 90)"
      by cases (simp_all add: byte_def is_digit_def)
  qed
  ultimately show ?thesis by (simp add: it)
qed

lemma atoi_itoa: "0 \<le> n \<Longrightarrow> n < 2 ^ 63 \<Longrightarrow> atoi (itoa n) = Some n"
  using atoi_show_nat[of "nat n"] by (simp add: itoa_def)

lemma trim_prefix_v [simp]: "trim_prefix (CHR ''v'' # s) ''v'' = s"
  by (simp add: trim_prefix_def)

text \<open>A normalised version is a fixed point, and its number is the one it prints.\<close>

lemma normalizeVersion_normal_id: "version_normal v \<Longrightarrow> normalizeVersion v = Inr v"
proof -
  assume "version_normal v"
  then obtain n where n: "1 \<le> n" "n < 2 ^ 63" "v = ''v'' @ itoa n" by (auto simp: version_normal_def)
  then show ?thesis
    using normal_version_char[OF n(1,2)] atoi_itoa[of n] by (simp add: normalizeVersion_def)
qed

lemma apiVersionNumber_normal:
  "1 \<le> n \<Longrightarrow> n < 2 ^ 63 \<Longrightarrow> apiVersionNumber (''v'' @ itoa n) = n"
  using normal_version_char[of n] atoi_itoa[of n] by (simp add: apiVersionNumber_def)

lemma serverSet_iff: "v \<in> set (serverSet adv) \<longleftrightarrow> (\<exists>a \<in> set adv. normalizeVersion a = Inr v)"
  by (force simp: serverSet_def split: sum.splits)

lemma normalizeVersion_known [simp]:
  "normalizeVersion ''v1'' = Inr ''v1''" "normalizeVersion ''v2'' = Inr ''v2''"
  "normalizeVersion ''v3'' = Inr ''v3''" "normalizeVersion ''v4'' = Inr ''v4''"
proof -
  have it: "itoa 1 = ''1''" "itoa 2 = ''2''" "itoa 3 = ''3''" "itoa 4 = ''4''" by code_simp+
  have "version_normal (''v'' @ itoa n)" if "1 \<le> n" "n < 2 ^ 63" for n
    using that unfolding version_normal_def by blast
  from this[of 1] this[of 2] this[of 3] this[of 4]
  have "version_normal ''v1''" "version_normal ''v2''" "version_normal ''v3''" "version_normal ''v4''"
    by (simp_all add: it)
  then show "normalizeVersion ''v1'' = Inr ''v1''" "normalizeVersion ''v2'' = Inr ''v2''"
    "normalizeVersion ''v3'' = Inr ''v3''" "normalizeVersion ''v4'' = Inr ''v4''"
    by (simp_all add: normalizeVersion_normal_id)
qed

lemma apiVersionNumber_known [simp]:
  "apiVersionNumber ''v1'' = 1" "apiVersionNumber ''v2'' = 2" "apiVersionNumber ''v3'' = 3"
  "apiVersionNumber ''v4'' = 4"
proof -
  have it: "itoa 1 = ''1''" "itoa 2 = ''2''" "itoa 3 = ''3''" "itoa 4 = ''4''" by code_simp+
  show "apiVersionNumber ''v1'' = 1" "apiVersionNumber ''v2'' = 2" "apiVersionNumber ''v3'' = 3"
    "apiVersionNumber ''v4'' = 4"
    using apiVersionNumber_normal[of 1] apiVersionNumber_normal[of 2] apiVersionNumber_normal[of 3]
      apiVersionNumber_normal[of 4] by (simp_all add: it)
qed

lemma serverSet_getAPIVersions: "set (serverSet (getAPIVersions adv)) = set (serverSet adv)"
proof -
  let ?n = "\<lambda>a. case normalizeVersion a of Inr n \<Rightarrow> n | Inl _ \<Rightarrow> a"
  have n: "normalizeVersion (?n a) = normalizeVersion a" for a
    by (cases "normalizeVersion a") (auto dest: normalizeVersion_normal simp: normalizeVersion_normal_id)
  have "v \<in> set (serverSet (getAPIVersions adv)) \<longleftrightarrow> (\<exists>a \<in> set adv. normalizeVersion (?n a) = Inr v)" for v
    unfolding serverSet_iff getAPIVersions_def set_map bex_simps(7) ..
  then show ?thesis by (simp only: n set_eq_iff serverSet_iff simp_thms)
qed

text \<open>The versions a policy chooses from.\<close>

definition candidate :: "compatibilityProfile \<Rightarrow> string list \<Rightarrow> string \<Rightarrow> string \<Rightarrow> string \<Rightarrow> bool" where
  "candidate p adv policy explicit v =
     (v \<in> set (apiVersions p) \<and> v \<in> set (serverSet adv)
      \<and> (policy = APIVersionExplicit \<longrightarrow> v = explicit)
      \<and> (policy \<noteq> APIVersionExplicit \<and> policy \<noteq> APIVersionHighest \<longrightarrow>
           apiVersionNumber v \<le> apiVersionNumber (stableAPIVersion p)))"

lemma find_rev_sorted:
  assumes "List.find Q (rev xs) = Some v" "sorted (map k xs)"
  shows "v \<in> set xs \<and> Q v \<and> (\<forall>w \<in> set xs. Q w \<longrightarrow> k w \<le> (k v :: int))"
  using assms
proof (induction xs rule: rev_induct)
  case Nil
  then show ?case by simp
next
  case (snoc x xs)
  then show ?case by (auto simp: sorted_append split: if_splits)
qed

lemma last_sorted:
  "xs \<noteq> [] \<Longrightarrow> sorted (map k xs) \<Longrightarrow> w \<in> set xs \<Longrightarrow> k w \<le> (k (last xs) :: int)"
  by (induction xs rule: rev_induct) (auto simp: sorted_append)

lemma selectAPIVersion_other:
  assumes "policy \<noteq> APIVersionExplicit"
  shows "selectAPIVersion p adv policy explicit =
    (let common = sort_key apiVersionNumber (filter (\<lambda>v. v \<in> set (serverSet adv)) (apiVersions p)) in
         if common = []
         then Inl (newCompatibilityError ErrNoCompatibleAPIVersion ''select API version'' []
                (releaseLine p) [] None)
         else if policy = APIVersionHighest then Inr (last common)
         else case List.find (\<lambda>v. apiVersionNumber v \<le> apiVersionNumber (stableAPIVersion p)) (rev common) of
             Some v \<Rightarrow> Inr v
           | None \<Rightarrow> Inl (newCompatibilityError ErrNoCompatibleAPIVersion ''select stable API version'' []
                (releaseLine p) [] None))"
  using assms by (simp add: selectAPIVersion_def)

lemma common_version:
  "v \<in> set (sort_key apiVersionNumber (filter (\<lambda>v. v \<in> set (serverSet adv)) (apiVersions p)))
     \<longleftrightarrow> v \<in> set (apiVersions p) \<and> v \<in> set (serverSet adv)"
  by auto

lemma select_best:
  assumes "selectAPIVersion p adv policy explicit = Inr v"
  shows "candidate p adv policy explicit v
    \<and> (\<forall>w. candidate p adv policy explicit w \<longrightarrow> apiVersionNumber w \<le> apiVersionNumber v)"
proof (cases "policy = APIVersionExplicit")
  case True
  then show ?thesis using assms by (auto simp: selectAPIVersion_def candidate_def Let_def split: if_splits)
next
  case False
  define common where
    "common = sort_key apiVersionNumber (filter (\<lambda>v. v \<in> set (serverSet adv)) (apiVersions p))"
  have mem: "w \<in> set common \<longleftrightarrow> w \<in> set (apiVersions p) \<and> w \<in> set (serverSet adv)" for w
    by (simp add: common_def)
  have sorted: "sorted (map apiVersionNumber common)" by (simp add: common_def)
  have ne: "common \<noteq> []" and sel: "(if policy = APIVersionHighest then Inr (last common)
      else case List.find (\<lambda>v. apiVersionNumber v \<le> apiVersionNumber (stableAPIVersion p)) (rev common) of
         Some v \<Rightarrow> Inr v
       | None \<Rightarrow> Inl (newCompatibilityError ErrNoCompatibleAPIVersion ''select stable API version'' []
                (releaseLine p) [] None)) = Inr v"
    using assms unfolding selectAPIVersion_other[OF False] Let_def common_def[symmetric]
    by (simp_all split: if_splits)
  show ?thesis
  proof (cases "policy = APIVersionHighest")
    case True
    then show ?thesis
      using sel ne mem last_in_set[OF ne] last_sorted[OF ne sorted] False
      by (auto simp: candidate_def)
  next
    case other: False
    then have "List.find (\<lambda>v. apiVersionNumber v \<le> apiVersionNumber (stableAPIVersion p)) (rev common) = Some v"
      using sel by (simp split: option.splits)
    from find_rev_sorted[OF this sorted] show ?thesis
      using mem other False by (auto simp: candidate_def)
  qed
qed

text \<open>C9: the selected version is supported by both sides, obeys the policy, and is the
  greatest such version.\<close>

theorem selectAPIVersion_best:
  assumes "selectAPIVersion p adv policy explicit = Inr v"
  shows "candidate p adv policy explicit v
    \<and> (\<forall>w. candidate p adv policy explicit w \<longrightarrow> apiVersionNumber w \<le> apiVersionNumber v)"
  by (rule select_best[OF assms])

theorem selectAPIVersion_best_witness:
  "candidate (compatibilityProfiles ! 1) [''v1'', ''v4'', ''v3''] ''stable'' [] ''v3''"
proof -
  have "selectAPIVersion (compatibilityProfiles ! 1) [''v1'', ''v4'', ''v3''] ''stable'' [] = Inr ''v3''"
    by (simp add: selectAPIVersion_def compatibilityProfiles_def newCompatibilityProfile_def serverSet_def)
  from selectAPIVersion_best[OF this] show ?thesis by blast
qed

text \<open>Selection fails only when no version satisfies both sides and the policy, and
  every such failure is an \<open>ErrUnsupportedAPI\<close>.\<close>

theorem selectAPIVersion_error:
  assumes "selectAPIVersion p adv policy explicit = Inl e"
  shows "(\<forall>w. \<not> candidate p adv policy explicit w) \<and> err_is e ErrUnsupportedAPI"
proof (cases "policy = APIVersionExplicit")
  case True
  then show ?thesis
    using assms
    by (auto simp: selectAPIVersion_def candidate_def Let_def newCompatibilityError_def sentinel_is_def
        split: if_splits)
next
  case False
  define common where
    "common = sort_key apiVersionNumber (filter (\<lambda>v. v \<in> set (serverSet adv)) (apiVersions p))"
  have mem: "w \<in> set common \<longleftrightarrow> w \<in> set (apiVersions p) \<and> w \<in> set (serverSet adv)" for w
    by (simp add: common_def)
  consider (none) "common = []" | (stable) "policy \<noteq> APIVersionHighest"
     "List.find (\<lambda>v. apiVersionNumber v \<le> apiVersionNumber (stableAPIVersion p)) (rev common) = None"
    using assms unfolding selectAPIVersion_other[OF False] Let_def common_def[symmetric]
    by (auto split: if_splits option.splits)
  then have "\<forall>w. \<not> candidate p adv policy explicit w"
  proof cases
    case none
    then show ?thesis using mem by (auto simp: candidate_def)
  next
    case stable
    then show ?thesis using mem False by (auto simp: candidate_def find_None_iff)
  qed
  moreover have "err_is e ErrUnsupportedAPI"
    using assms unfolding selectAPIVersion_other[OF False]
    by (auto simp: Let_def newCompatibilityError_def sentinel_is_def split: if_splits option.splits)
  ultimately show ?thesis by simp
qed

theorem selectAPIVersion_error_witness:
  "\<not> candidate (compatibilityProfiles ! 0) [''v4''] ''highest'' [] ''v4''"
proof -
  have "selectAPIVersion (compatibilityProfiles ! 0) [''v4''] ''highest'' [] =
      Inl (newCompatibilityError ErrNoCompatibleAPIVersion ''select API version'' [] ''1.20'' [] None)"
    by (simp add: selectAPIVersion_def compatibilityProfiles_def newCompatibilityProfile_def serverSet_def)
  from selectAPIVersion_error[OF this] show ?thesis by blast
qed

section \<open>Capabilities\<close>

definition protocol_features :: "(capabilities \<Rightarrow> bool) list" where
  "protocol_features =
     [ConfigureSession, CompleteStatement, RowFormat, MaterializedTable, DeployScript, WireExecutionTimeout]"

text \<open>A capability is on only when the release profile has it, the selected version is
  one of the profile's, and the protocol version defines it; so materialized tables and script
  deployment are never both on.\<close>

theorem capabilities_sound:
  "capAPIVersion (capabilitiesForProfile p v) = v
   \<and> list_all (\<lambda>feature. feature (capabilitiesForProfile p v) =
        (feature (prof_capabilities p) \<and> v \<in> set (apiVersions p)
         \<and> (case sqlGatewayProtocolCapabilities v of None \<Rightarrow> False | Some proto \<Rightarrow> feature proto)))
        protocol_features
   \<and> \<not> (MaterializedTable (capabilitiesForProfile p v) \<and> DeployScript (capabilitiesForProfile p v))"
proof -
  have "\<not> (MaterializedTable proto \<and> DeployScript proto)"
    if "sqlGatewayProtocolCapabilities v = Some proto" for proto
    using that by (auto simp: sqlGatewayProtocolCapabilities_def no_capabilities_def split: if_splits)
  note excl = this
  have mem: "containsVersion vs x = (x \<in> set vs)" for vs x
    by (auto simp: containsVersion_def list_ex_iff)
  note defs = capabilitiesForProfile_def mem protocol_features_def disableProtocolCapabilities_def Let_def
  consider "v \<notin> set (apiVersions p)" | "sqlGatewayProtocolCapabilities v = None"
    | proto where "v \<in> set (apiVersions p)" "sqlGatewayProtocolCapabilities v = Some proto" by blast
  then show ?thesis
  proof cases
    case 1
    then show ?thesis by (simp add: defs)
  next
    case 2
    then show ?thesis by (simp add: defs)
  next
    case (3 proto)
    then show ?thesis using excl[of proto] by (simp add: defs)
  qed
qed

text \<open>The registry: its release lines are distinct and selectable, the stable version of a
  profile is one of its versions, and every version is normal.\<close>

lemma registry_ok:
  "distinct (map releaseLine compatibilityProfiles)
   \<and> list_all (\<lambda>p. releaseStatusSelectable (status p) \<and> stableAPIVersion p \<in> set (apiVersions p)
        \<and> distinct (apiVersions p)
        \<and> list_all (\<lambda>v. normalizeVersion v = Inr v) (apiVersions p)
        \<and> SupportedAPIVersions (prof_capabilities p) = apiVersions p) compatibilityProfiles"
  by (simp add: compatibilityProfiles_def newCompatibilityProfile_def releaseStatusSelectable_def)

lemma profileForReleaseLine_Inr:
  "profileForReleaseLine line = Inr p \<Longrightarrow> p \<in> set compatibilityProfiles \<and> releaseLine p = line"
  by (auto simp: profileForReleaseLine_def find_Some_iff split: option.splits if_splits)

lemma profileForReleaseLine_registered:
  "p \<in> set compatibilityProfiles \<Longrightarrow> profileForReleaseLine (releaseLine p) = Inr p"
  by (auto simp: compatibilityProfiles_def profileForReleaseLine_def newCompatibilityProfile_def
      releaseStatusSelectable_def)

lemma chooseProfile_registered:
  "chooseProfile cfg info = Inr (fv, p, s) \<Longrightarrow> p \<in> set compatibilityProfiles"
  by (auto simp: chooseProfile_def and_then_Inr_iff dest: profileForReleaseLine_Inr
      split: if_splits sum.splits)

section \<open>Detection\<close>

definition negotiated :: "compatibilityInfo \<Rightarrow> string list \<Rightarrow> bool" where
  "negotiated c advertised =
     (\<exists>p \<in> set compatibilityProfiles. ReleaseLine c = releaseLine p
        \<and> infoAPIVersion c \<in> set (apiVersions p) \<and> infoAPIVersion c \<in> set (serverSet advertised)
        \<and> Capabilities c = capabilitiesForProfile p (infoAPIVersion c))"

lemma resolveCompatibility_negotiated:
  assumes "resolveCompatibility cfg info adv = Inr c"
  shows "\<exists>versions. adv = Inr versions \<and> negotiated c versions"
proof -
  from assms obtain fv p s versions v where
    prof: "chooseProfile cfg info = Inr (fv, p, s)" and adv: "adv = Inr versions" and
    sel: "selectAPIVersion p (getAPIVersions versions) (APIVersionPolicy cfg) (APIVersion cfg) = Inr v" and
    c: "c = \<lparr>FlinkVersion = fv, ReleaseLine = releaseLine p, infoAPIVersion = v,
          Capabilities = capabilitiesForProfile p v, DetectionSource = s\<rparr>"
    by (cases adv) (auto simp: resolveCompatibility_def and_then_Inr_iff)
  have "v \<in> set (apiVersions p) \<and> v \<in> set (serverSet versions)"
    using select_best[OF sel] serverSet_getAPIVersions[of versions] by (simp add: candidate_def)
  then show ?thesis using chooseProfile_registered[OF prof] adv c by (auto simp: negotiated_def)
qed

lemma negotiated_nonempty: "negotiated c versions \<Longrightarrow> infoAPIVersion c \<noteq> []"
  by (auto simp: negotiated_def compatibilityProfiles_def newCompatibilityProfile_def)

text \<open>A configuration for the examples below.\<close>

definition example_config :: "string \<Rightarrow> string \<Rightarrow> string \<Rightarrow> config" where
  "example_config mode policy version = \<lparr>BaseURL = [], CompatibilityMode = mode,
    APIVersionPolicy = policy, APIVersion = version, RequestTimeout = 1, ExecutionTimeout = 1,
    PollInterval = 1, MaxPollInterval = 1, HeartbeatInterval = 1, MaxResultRows = 1, MaxResponseBytes = 1,
    DefaultRowFormat = RowFormatJSON, UserAgent = [], Headers = [], CancelOnContextDone = False,
    MaxPolls = 1, StreamBuffer = 1, ObserverTimeout = 1, ObserverMaxInFlight = 1\<rparr>"

definition version_inv :: "version_state \<Rightarrow> bool" where
  "version_inv st = (\<not> versionChecked st \<longrightarrow> versionErr st = None)"



text \<open>C13: after the first successful check the client speaks a version that its release profile
  and the server both support, with the capabilities of exactly that pair.\<close>

theorem CheckAPIVersion_negotiated:
  assumes "CheckAPIVersion cfg info adv version_init = (None, st')"
  shows "\<exists>versions. adv = Inr versions \<and> negotiated (compatibility st') versions
    \<and> selectedAPIVersion cfg st' = infoAPIVersion (compatibility st')
    \<and> selectedCapabilities cfg st' = Capabilities (compatibility st')"
proof -
  from assms obtain c where "resolveCompatibility cfg info adv = Inr c" "compatibility st' = c"
    by (auto simp: CheckAPIVersion_def version_init_def split: sum.splits if_splits)
  then show ?thesis
    using resolveCompatibility_negotiated[of cfg info adv c] negotiated_nonempty[of c]
    by (auto simp: selectedAPIVersion_def selectedCapabilities_def compatibilitySnapshot_def)
qed

theorem CheckAPIVersion_negotiated_witness:
  "\<exists>cfg st'. CheckAPIVersion cfg (Inr []) (Inr [''v3'', ''v4'']) version_init = (None, st')
     \<and> negotiated (compatibility st') [''v3'', ''v4'']"
proof -
  define cfg where "cfg = example_config CompatibilityFlink20 APIVersionStable ''v3''"
  have "\<exists>st'. CheckAPIVersion cfg (Inr []) (Inr [''v3'', ''v4'']) version_init = (None, st')"
    by (simp add: CheckAPIVersion_def configuredCompatibility_def cfg_def example_config_def resolveCompatibility_def
        chooseProfile_def releaseLineForMode_def profileForReleaseLine_def compatibilityProfiles_def
        newCompatibilityProfile_def releaseStatusSelectable_def getAPIVersions_def
        selectAPIVersion_def serverSet_def version_init_def)
  then obtain st' where "CheckAPIVersion cfg (Inr []) (Inr [''v3'', ''v4'']) version_init = (None, st')" ..
  with CheckAPIVersion_negotiated[OF this] show ?thesis by auto
qed

text \<open>An operation that needs a capability runs only under a compatibility that has it,
  after a successful check; a capability a fixed configuration lacks is refused before any
  request, whatever the server would say, and leaves the cache alone.\<close>

theorem compatibilityForCapability_gate:
  "(compatibilityForCapability cfg info adv st operation supported = (Inr c, st') \<longrightarrow>
      supported (Capabilities c) \<and> CheckAPIVersion cfg info adv st = (None, st'))
   \<and> (configuredCompatibility cfg = Inr (Some k) \<and> \<not> supported (Capabilities k) \<longrightarrow>
       compatibilityForCapability cfg info adv st operation supported = (Inl (unsupported_capability operation k), st)
       \<and> err_is (unsupported_capability operation k) ErrUnsupportedCapability)"
proof (cases "configuredCompatibility cfg")
  case (Inl e)
  then show ?thesis by (simp add: compatibilityForCapability_def)
next
  case (Inr o1)
  then show ?thesis
    by (cases o1; cases "CheckAPIVersion cfg info adv st"; cases "fst (CheckAPIVersion cfg info adv st)")
      (auto simp: compatibilityForCapability_def unsupported_capability_def newCompatibilityError_def
        Let_def split: if_splits)
qed

theorem compatibilityForCapability_gate_witness:
  "\<exists>cfg k. compatibilityForCapability cfg (Inr []) (Inr []) version_init ''op'' DeployScript
      = (Inl (unsupported_capability ''op'' k), version_init)"
proof -
  define cfg where "cfg = example_config CompatibilityFlink120 APIVersionExplicit ''v3''"
  have "\<exists>k. configuredCompatibility cfg = Inr (Some k) \<and> \<not> DeployScript (Capabilities k)"
    by (simp add: configuredCompatibility_def cfg_def example_config_def profileForModeOrDefault_def
        releaseLineForMode_def profileForReleaseLine_def compatibilityProfiles_def
        newCompatibilityProfile_def releaseStatusSelectable_def containsVersion_def
        capabilitiesForProfile_def sqlGatewayProtocolCapabilities_def)
  then obtain k where k: "configuredCompatibility cfg = Inr (Some k)" "\<not> DeployScript (Capabilities k)"
    by blast
  with compatibilityForCapability_gate[of cfg "Inr []" "Inr []" version_init "''op''" DeployScript _ _ k]
  show ?thesis by blast
qed

section \<open>Version texts\<close>

text \<open>The bytes of a version that case folding and trimming leave alone.\<close>

definition plain :: "char \<Rightarrow> bool" where
  "plain c = (byte c < 0x80 \<and> \<not> is_space (byte c) \<and> \<not> (65 \<le> byte c \<and> byte c \<le> 90))"

lemma plain_list:
  assumes "\<forall>c \<in> set s. plain c"
  shows "trim_space s = s" "to_lower s = s"
proof -
  have a: "ascii s" using assms by (auto simp: ascii_def list_all_iff plain_def)
  show "trim_space s = s"
    by (rule trim_space_ascii_id[OF a]) (use assms in \<open>auto simp: plain_def\<close>)
  show "to_lower s = s"
    by (rule to_lower_ascii_id[OF a]) (use assms in \<open>auto simp: plain_def\<close>)
qed

lemma plain_known [simp]: "plain CHR ''.''" "plain CHR ''-''" "plain CHR ''+''" "plain CHR ''v''"
  by (simp_all add: plain_def is_space_def byte_def)

lemma plain_digit: "is_digit c \<Longrightarrow> plain c"
  using is_digit_ascii by (simp add: plain_def)

lemma plain_lower: "97 \<le> byte c \<Longrightarrow> byte c \<le> 122 \<Longrightarrow> plain c"
  by (auto simp: plain_def is_space_def)

lemma suffix_loop_plain: "suffix_loop a b s \<Longrightarrow> \<forall>c \<in> set s. plain c"
  by (induction a b s rule: suffix_loop.induct) (auto split: if_splits intro: plain_digit plain_lower)

lemma suffix_plain: "validateVersionSuffix s = None \<Longrightarrow> \<forall>c \<in> set s. plain c"
  by (cases s) (auto simp: validateVersionSuffix_def dest: suffix_loop_plain
      intro: plain_digit plain_lower split: if_splits)

lemma versionNumber_show: "int n < 2 ^ 63 \<Longrightarrow> versionNumber (show_nat n) = Inr (int n)"
  using atoi_show_nat[of n] by (simp add: versionNumber_def show_nat_digits)

lemma itoa_int [simp]: "itoa (int n) = show_nat n"
  by (simp add: itoa_def)

lemma parse_core_patch:
  assumes "int a < 2 ^ 63" "int b < 2 ^ 63" "int c < 2 ^ 63"
  shows "parse_core orig (show_nat a @ ''.'' @ show_nat b @ ''.'' @ show_nat c) h = Inr (show_nat a @ ''.'' @ show_nat b)"
proof -
  have "split_on CHR ''.'' (show_nat a @ CHR ''.'' # show_nat b @ CHR ''.'' # show_nat c)
      = [show_nat a, show_nat b, show_nat c]"
    by (simp add: split_on_append split_on_none show_nat_no_char)
  then show ?thesis
    using versionNumber_show[OF assms(1)] versionNumber_show[OF assms(2)] versionNumber_show[OF assms(3)]
    by (simp add: parse_core_def Let_def)
qed

lemma parse_core_minor:
  assumes "int a < 2 ^ 63" "int b < 2 ^ 63"
  shows "parse_core orig (show_nat a @ ''.'' @ show_nat b) False = Inr (show_nat a @ ''.'' @ show_nat b)"
proof -
  have "split_on CHR ''.'' (show_nat a @ CHR ''.'' # show_nat b) = [show_nat a, show_nat b]"
    by (simp add: split_on_append split_on_none show_nat_no_char)
  then show ?thesis
    using versionNumber_show[OF assms(1)] versionNumber_show[OF assms(2)]
    by (simp add: parse_core_def Let_def)
qed

lemma trim_prefix_digits: "trim_prefix (show_nat a @ s) ''v'' = show_nat a @ s"
proof -
  obtain c cs where s: "show_nat a = c # cs" by (meson neq_Nil_conv show_nat_nonempty)
  then have "c \<noteq> CHR ''v''" using show_nat_hd[OF s] by auto
  then show ?thesis by (simp add: trim_prefix_def s)
qed

text \<open>The cut at the first \<open>-\<close> or \<open>+\<close>.\<close>

lemma takeWhile_cut:
  assumes "\<forall>c \<in> set core. P c" "ext = [] \<or> \<not> P (hd ext)"
  shows "takeWhile P (core @ ext) = core"
  using assms by (cases ext) (auto simp: takeWhile_append)

lemma parse_plain:
  assumes "\<forall>c \<in> set core. plain c \<and> c \<noteq> CHR ''-'' \<and> c \<noteq> CHR ''+''"
    and "trim_prefix (core @ ext) ''v'' = core @ ext" "v = [] \<or> v = ''v''"
    and "ext = [] \<or> validateVersionSuffix ext = None \<and> (hd ext = CHR ''-'' \<or> hd ext = CHR ''+'')"
  shows "parseFlinkReleaseLine (v @ core @ ext) =
    parse_core (v @ core @ ext) core (ext \<noteq> [])"
proof -
  have "\<forall>c \<in> set ext. plain c" using assms(4) suffix_plain[of ext] by (cases "ext = []") simp_all
  moreover have "\<forall>c \<in> set v. plain c" using assms(3) by (elim disjE) simp_all
  ultimately have "\<forall>c \<in> set (v @ core @ ext). plain c" using assms(1) unfolding set_append by blast
  note plain = plain_list[OF this]
  have version: "trim_prefix (v @ core @ ext) ''v'' = core @ ext"
    using assms(3)
  proof
    assume "v = []"
    then show ?thesis using assms(2) by simp
  next
    assume "v = ''v''"
    then show ?thesis by simp
  qed
  have core: "takeWhile (\<lambda>c. c \<noteq> CHR ''-'' \<and> c \<noteq> CHR ''+'') (core @ ext) = core"
    using assms(1,4) by (intro takeWhile_cut) auto
  show ?thesis
    unfolding parseFlinkReleaseLine_def Let_def plain version core
    using assms(4) by (cases "ext = []") simp_all
qed

lemma show_nat_core: "c \<in> set (show_nat n) \<Longrightarrow> plain c \<and> c \<noteq> CHR ''-'' \<and> c \<noteq> CHR ''+''"
  using show_nat_chars[of c n] plain_digit by auto

text \<open>Every product version \<open>major.minor\<close>, \<open>major.minor.patch\<close> and \<open>major.minor.patch\<close>
  with a well-formed prerelease or build suffix, with or without a leading \<open>v\<close>, belongs to the
  release line \<open>major.minor\<close>: patch and suffix never change the profile.\<close>

theorem parseFlinkReleaseLine_release:
  assumes "int a < 2 ^ 63" "int b < 2 ^ 63" "int c < 2 ^ 63" "v = [] \<or> v = ''v''"
    and "ext = [] \<or> validateVersionSuffix ext = None \<and> (hd ext = CHR ''-'' \<or> hd ext = CHR ''+'')"
  shows "parseFlinkReleaseLine (v @ show_nat a @ ''.'' @ show_nat b) = Inr (show_nat a @ ''.'' @ show_nat b)
    \<and> parseFlinkReleaseLine (v @ show_nat a @ ''.'' @ show_nat b @ ''.'' @ show_nat c @ ext)
        = Inr (show_nat a @ ''.'' @ show_nat b)"
proof -
  have "parseFlinkReleaseLine (v @ (show_nat a @ ''.'' @ show_nat b) @ []) =
    parse_core (v @ (show_nat a @ ''.'' @ show_nat b) @ []) (show_nat a @ ''.'' @ show_nat b) ([] \<noteq> ([]::string))"
    using assms(4) by (intro parse_plain) (auto simp: show_nat_core show_nat_no_char trim_prefix_digits)
  moreover have "parseFlinkReleaseLine (v @ (show_nat a @ ''.'' @ show_nat b @ ''.'' @ show_nat c) @ ext) =
    parse_core (v @ (show_nat a @ ''.'' @ show_nat b @ ''.'' @ show_nat c) @ ext)
      (show_nat a @ ''.'' @ show_nat b @ ''.'' @ show_nat c) (ext \<noteq> [])"
    using assms(4,5) by (intro parse_plain) (auto simp: show_nat_core show_nat_no_char trim_prefix_digits)
  ultimately show ?thesis
    using parse_core_minor[OF assms(1,2)] parse_core_patch[OF assms(1-3)] by simp
qed

theorem parseFlinkReleaseLine_release_witness:
  "parseFlinkReleaseLine ''v1.20.4-rc1+x'' = Inr ''1.20''"
proof -
  have s: "show_nat 1 = ''1''" "show_nat 20 = ''20''" "show_nat 4 = ''4''" by code_simp+
  have "validateVersionSuffix ''-rc1+x'' = None"
    by (simp add: validateVersionSuffix_def is_digit_def byte_def)
  then show ?thesis
    using parseFlinkReleaseLine_release[of 1 20 4 "''v''" "''-rc1+x''"]
    by (simp add: s del: One_nat_def)
qed

end
