(* ===== verification/Json.thy ===== *)
theory Json
  imports Messages "HOL-Library.List_Lexorder" "HOL-Library.Char_ord" "HOL-Library.AList"
begin

text \<open>
  The part of \<open>encoding/json\<close> the source relies on: the scanner with its nesting limit, the
  decoding of strings and numbers (numbers keep their text, as with \<open>UseNumber\<close>), and
  \<open>Marshal\<close> of a decoded value with its sorted keys and HTML-safe escapes.  The parser runs
  on fuel; \<open>parse_val_enough\<close> shows that the fuel \<open>json_fuel\<close> gives is always enough.
\<close>

section \<open>Values and tokens\<close>

datatype json =
    JNull | JBool bool | JNum string | JStr string | JArr "json list" | JObj "(string \<times> json) list"

definition json_ws :: "char \<Rightarrow> bool" where
  "json_ws c = (byte c \<in> {0x20, 0x09, 0x0A, 0x0D})"

definition skip_ws :: "string \<Rightarrow> string" where
  "skip_ws s = dropWhile json_ws s"

abbreviation "quot \<equiv> CHR 0x22"
abbreviation "bslash \<equiv> CHR 0x5C"

definition hex4 :: "string \<Rightarrow> nat option" where
  "hex4 s = (case s of
       a # b # c # d # _ \<Rightarrow>
         if is_hex a \<and> is_hex b \<and> is_hex c \<and> is_hex d
         then Some (unhex a * 4096 + unhex b * 256 + unhex c * 16 + unhex d) else None
     | _ \<Rightarrow> None)"

definition getu4 :: "string \<Rightarrow> nat option" where
  "getu4 s = (case s of a # b # t \<Rightarrow> if a = bslash \<and> b = CHR ''u'' then hex4 t else None | _ \<Rightarrow> None)"

definition simple_escape :: "char \<Rightarrow> char option" where
  "simple_escape e =
     (if e = quot \<or> e = bslash \<or> e = CHR ''/'' then Some e
      else if e = CHR ''b'' then Some (chr 8) else if e = CHR ''f'' then Some (chr 12)
      else if e = CHR ''n'' then Some (chr 10) else if e = CHR ''r'' then Some (chr 13)
      else if e = CHR ''t'' then Some (chr 9) else None)"

text \<open>A \<open>\u\<close> escape after its four digits: a surrogate needs its pair, or is U+FFFD.\<close>

definition unicode_unit :: "nat \<Rightarrow> string \<Rightarrow> string \<times> nat" where
  "unicode_unit u rest =
     (if 0xD800 \<le> u \<and> u < 0xE000
      then (case getu4 rest of
              Some v \<Rightarrow> if u < 0xDC00 \<and> 0xDC00 \<le> v \<and> v < 0xE000
                then (encode_rune (0x10000 + (u - 0xD800) * 1024 + (v - 0xDC00)), 12)
                else (replacement_char, 6)
            | None \<Rightarrow> (replacement_char, 6))
      else (encode_rune u, 6))"

text \<open>One unit of a string token: the bytes it stands for and the bytes it is written with.\<close>

definition unit_step :: "string \<Rightarrow> (string \<times> nat) option" where
  "unit_step s = (case s of [] \<Rightarrow> None | c # cs \<Rightarrow>
     if c = bslash
     then (case cs of [] \<Rightarrow> None | e # t \<Rightarrow>
             (case simple_escape e of
                Some d \<Rightarrow> Some ([d], 2)
              | None \<Rightarrow> if e = CHR ''u''
                  then (case hex4 t of None \<Rightarrow> None | Some u \<Rightarrow> Some (unicode_unit u (drop 4 t)))
                  else None))
     else if byte c < 0x20 then None
     else (let (r, w) = decode_rune s in
           if r = rune_error \<and> w = 1 then Some (replacement_char, 1) else Some (take w s, w)))"

lemma unit_step_pos: "unit_step s = Some (u, w) \<Longrightarrow> 0 < w \<and> s \<noteq> []"
  using decode_rune_width_pos[of s]
  by (cases s)
    (auto simp: unit_step_def unicode_unit_def Let_def simp del: decode_rune.simps
      split: list.splits option.splits if_splits prod.splits)

function parse_str :: "string \<Rightarrow> (string \<times> string) option" where
  "parse_str s =
     (if s = [] then None
      else if hd s = quot then Some ([], tl s)
      else case unit_step s of
        None \<Rightarrow> None
      | Some (u, w) \<Rightarrow>
          (case parse_str (drop w s) of None \<Rightarrow> None | Some (t, r) \<Rightarrow> Some (u @ t, r)))"
  by pat_completeness auto
termination
  by (relation "measure length") (auto dest: unit_step_pos)

declare parse_str.simps [simp del]

definition parse_frac :: "string \<Rightarrow> (string \<times> string) option" where
  "parse_frac s =
     (if s \<noteq> [] \<and> hd s = CHR ''.''
      then (let ds = takeWhile is_digit (tl s) in
            if ds = [] then None else Some (CHR ''.'' # ds, dropWhile is_digit (tl s)))
      else Some ([], s))"

definition parse_exp :: "string \<Rightarrow> (string \<times> string) option" where
  "parse_exp s =
     (if s \<noteq> [] \<and> (hd s = CHR ''e'' \<or> hd s = CHR ''E'')
      then (let sign = (if tl s \<noteq> [] \<and> (hd (tl s) = CHR ''+'' \<or> hd (tl s) = CHR ''-'') then [hd (tl s)] else []);
                t = drop (length sign) (tl s);
                ds = takeWhile is_digit t in
            if ds = [] then None else Some (hd s # sign @ ds, dropWhile is_digit t))
      else Some ([], s))"

definition parse_int :: "string \<Rightarrow> (string \<times> string) option" where
  "parse_int s =
     (if s = [] \<or> \<not> is_digit (hd s) then None
      else if hd s = CHR ''0'' then Some (''0'', tl s)
      else Some (takeWhile is_digit s, dropWhile is_digit s))"

definition parse_num :: "string \<Rightarrow> (string \<times> string) option" where
  "parse_num s =
     (let sign = (if s \<noteq> [] \<and> hd s = CHR ''-'' then ''-'' else []) in
      case parse_int (drop (length sign) s) of None \<Rightarrow> None | Some (i, r1) \<Rightarrow>
      (case parse_frac r1 of None \<Rightarrow> None | Some (f, r2) \<Rightarrow>
      (case parse_exp r2 of None \<Rightarrow> None | Some (e, r3) \<Rightarrow> Some (sign @ i @ f @ e, r3))))"

section \<open>Parser\<close>

definition literal :: "string \<Rightarrow> json \<Rightarrow> string \<Rightarrow> (json \<times> string) option" where
  "literal w v s = (if has_prefix s w then Some (v, drop (length w) s) else None)"

text \<open>A literal, a string or a number at the start of the text.\<close>

definition parse_scalar :: "string \<Rightarrow> (json \<times> string) option" where
  "parse_scalar s = (case s of [] \<Rightarrow> None | c # cs \<Rightarrow>
     if c = quot then map_option (\<lambda>(t, r). (JStr t, r)) (parse_str cs)
     else if c = CHR ''n'' then literal ''null'' JNull s
     else if c = CHR ''t'' then literal ''true'' (JBool True) s
     else if c = CHR ''f'' then literal ''false'' (JBool False) s
     else map_option (\<lambda>(t, r). (JNum t, r)) (parse_num s))"

text \<open>\<open>d\<close> is the nesting still allowed (10000 at the top).\<close>

fun parse_val :: "nat \<Rightarrow> nat \<Rightarrow> string \<Rightarrow> (json \<times> string) option"
  and parse_elems :: "nat \<Rightarrow> nat \<Rightarrow> string \<Rightarrow> (json list \<times> string) option"
  and parse_members :: "nat \<Rightarrow> nat \<Rightarrow> string \<Rightarrow> ((string \<times> json) list \<times> string) option" where
  "parse_val 0 d s = None"
| "parse_val (Suc n) d s =
     (case skip_ws s of [] \<Rightarrow> None | c # cs \<Rightarrow>
        if c = CHR ''['' then
          (if d = 0 then None
           else case skip_ws cs of [] \<Rightarrow> None | e # es \<Rightarrow>
             if e = CHR '']'' then Some (JArr [], es)
             else map_option (\<lambda>(vs, r). (JArr vs, r)) (parse_elems n (d - 1) (e # es)))
        else if c = CHR ''{'' then
          (if d = 0 then None
           else case skip_ws cs of [] \<Rightarrow> None | e # es \<Rightarrow>
             if e = CHR ''}'' then Some (JObj [], es)
             else map_option (\<lambda>(kvs, r). (JObj kvs, r)) (parse_members n (d - 1) (e # es)))
        else parse_scalar (c # cs))"
| "parse_elems 0 d s = None"
| "parse_elems (Suc n) d s =
     (case parse_val n d s of None \<Rightarrow> None | Some (v, r) \<Rightarrow>
        (case skip_ws r of [] \<Rightarrow> None | c # cs \<Rightarrow>
           if c = CHR '']'' then Some ([v], cs)
           else if c = CHR '','' then map_option (\<lambda>(vs, r'). (v # vs, r')) (parse_elems n d cs)
           else None))"
| "parse_members 0 d s = None"
| "parse_members (Suc n) d s =
     (case skip_ws s of [] \<Rightarrow> None | q # qs \<Rightarrow>
        if q \<noteq> quot then None
        else (case parse_str qs of None \<Rightarrow> None | Some (k, r1) \<Rightarrow>
          (case skip_ws r1 of [] \<Rightarrow> None | x # r2 \<Rightarrow>
             if x \<noteq> CHR '':'' then None
             else (case parse_val n d r2 of None \<Rightarrow> None | Some (v, r3) \<Rightarrow>
               (case skip_ws r3 of [] \<Rightarrow> None | c # cs \<Rightarrow>
                  if c = CHR ''}'' then Some ([(k, v)], cs)
                  else if c = CHR '','' then map_option (\<lambda>(kvs, r'). ((k, v) # kvs, r')) (parse_members n d cs)
                  else None)))))"

definition maxNestingDepth :: nat where "maxNestingDepth = 10000"

definition json_fuel :: "string \<Rightarrow> nat" where "json_fuel s = 2 * length s + 2"

text \<open>The first value of a text (\<open>Decoder.Decode\<close>), a whole text (\<open>Unmarshal\<close>), \<open>json.Valid\<close>.\<close>

definition parse_first :: "string \<Rightarrow> (json \<times> string) option" where
  "parse_first s = parse_val (json_fuel s) maxNestingDepth s"

definition parse_json :: "string \<Rightarrow> json option" where
  "parse_json s = (case parse_first s of Some (v, r) \<Rightarrow> if skip_ws r = [] then Some v else None | None \<Rightarrow> None)"

definition json_valid :: "string \<Rightarrow> bool" where
  "json_valid s = (parse_json s \<noteq> None)"

section \<open>The fuel is enough\<close>

lemma skip_ws_le [simp]: "length (skip_ws s) \<le> length s"
  by (simp add: skip_ws_def length_dropWhile_le)

lemma skip_ws_Cons: "skip_ws s = c # cs \<Longrightarrow> length cs < length s"
  using skip_ws_le[of s] by simp

lemma parse_str_Nil [simp]: "parse_str [] = None"
  by (subst parse_str.simps) simp

lemma parse_str_quot [simp]: "parse_str (quot # s) = Some ([], s)"
  by (subst parse_str.simps) simp

lemma parse_str_shrink: "parse_str s = Some (t, r) \<Longrightarrow> length r < length s"
proof (induction s arbitrary: t r rule: parse_str.induct)
  case (1 s)
  show ?case
  proof (cases "s = [] \<or> hd s = quot")
    case True
    then show ?thesis using 1(2) by (cases s) auto
  next
    case False
    then obtain u w t' where uw: "unit_step s = Some (u, w)" and rec: "parse_str (drop w s) = Some (t', r)"
      using 1(2) by (auto simp: parse_str.simps[of s] split: option.splits)
    have "length r < length (drop w s)" using 1(1)[OF _ _ uw refl rec] False by blast
    then show ?thesis by simp
  qed
qed

lemma parse_int_shrink: "parse_int s = Some (i, r) \<Longrightarrow> length r < length s"
  by (cases s) (auto simp: parse_int_def le_imp_less_Suc length_dropWhile_le split: if_splits)

lemma parse_frac_shrink: "parse_frac s = Some (i, r) \<Longrightarrow> length r \<le> length s"
  by (cases s) (auto simp: parse_frac_def Let_def le_SucI length_dropWhile_le split: if_splits)

lemma parse_exp_shrink: "parse_exp s = Some (i, r) \<Longrightarrow> length r \<le> length s"
proof -
  assume "parse_exp s = Some (i, r)"
  then have "r = s \<or> (\<exists>k. r = dropWhile is_digit (drop k (tl s)))"
    by (auto simp: parse_exp_def Let_def split: if_splits) (metis One_nat_def drop_0)+
  moreover have "length (dropWhile is_digit (drop k (tl s))) \<le> length s" for k
    using length_dropWhile_le[of is_digit "drop k (tl s)"] by simp
  ultimately show ?thesis by auto
qed

lemma parse_num_shrink: "parse_num s = Some (t, r) \<Longrightarrow> length r < length s"
proof -
  assume "parse_num s = Some (t, r)"
  then obtain k i f e r1 r2 where "parse_int (drop k s) = Some (i, r1)" "parse_frac r1 = Some (f, r2)"
    "parse_exp r2 = Some (e, r)"
    by (auto simp: parse_num_def Let_def split: option.splits prod.splits)
  then have "length r < length (drop k s)"
    by (metis parse_int_shrink parse_frac_shrink parse_exp_shrink le_trans le_less_trans)
  then show ?thesis by simp
qed

lemma literal_shrink: "literal w v s = Some (x, r) \<Longrightarrow> w \<noteq> [] \<Longrightarrow> length r < length s"
  by (cases s; cases w) (auto simp: literal_def split: if_splits)

lemma parse_scalar_shrink: "parse_scalar s = Some (v, r) \<Longrightarrow> length r < length s"
  by (auto simp: parse_scalar_def dest: parse_str_shrink parse_num_shrink literal_shrink
      split: list.splits if_splits)


lemma parse_shrink:
  "parse_val n d s = Some (v, r) \<Longrightarrow> length r < length s"
  "parse_elems n d s = Some (vs, r) \<Longrightarrow> length r < length s"
  "parse_members n d s = Some (kvs, r) \<Longrightarrow> length r < length s"
proof (induction n d s and n d s and n d s arbitrary: v r and vs r and kvs r
    rule: parse_val_parse_elems_parse_members.induct)
  case (2 n d s)
  then show ?case
    using skip_ws_le[of s]
    by (fastforce dest: parse_scalar_shrink skip_ws_Cons split: list.splits if_splits)
next
  case (4 n d s)
  then show ?case by (fastforce dest: skip_ws_Cons split: option.splits list.splits if_splits)
next
  case (6 n d s)
  then show ?case
    by (fastforce dest: skip_ws_Cons parse_str_shrink split: option.splits list.splits if_splits)
qed simp_all

text \<open>Whatever fuel a successful parse had, twice the length of the text and one is enough.\<close>

lemma parse_enough:
  "parse_val m d s = Some (v, r) \<Longrightarrow> 2 * length s + 1 \<le> n \<Longrightarrow> parse_val n d s = Some (v, r)"
  "parse_elems m d s = Some (vs, r) \<Longrightarrow> 2 * length s + 2 \<le> n \<Longrightarrow> parse_elems n d s = Some (vs, r)"
  "parse_members m d s = Some (kvs, r) \<Longrightarrow> 2 * length s + 2 \<le> n \<Longrightarrow> parse_members n d s = Some (kvs, r)"
proof (induction m d s and m d s and m d s arbitrary: v r n and vs r n and kvs r n
    rule: parse_val_parse_elems_parse_members.induct)
  case (2 m d s)
  from 2(4) obtain k where n: "n = Suc k" by (cases n) auto
  from 2(3) obtain c cs where c: "skip_ws s = c # cs" by (auto split: list.splits)
  then have len: "Suc (length cs) \<le> length s" using skip_ws_le[of s] by simp
  show ?case
  proof (cases "c = CHR ''['' \<or> c = CHR ''{''")
    case False
    then show ?thesis using 2(3) by (simp add: n c)
  next
    case True
    with 2(3) obtain e es where e: "d \<noteq> 0" "skip_ws cs = e # es"
      by (auto simp: c split: if_splits list.splits)
    then have "length (e # es) \<le> length cs" by (metis skip_ws_le)
    then have k: "2 * length (e # es) + 2 \<le> k" using 2(4) len n by simp
    show ?thesis
    proof (cases "e = CHR '']'' \<and> c = CHR ''['' \<or> e = CHR ''}'' \<and> c = CHR ''{''")
      case True
      then show ?thesis
      proof
        assume a: "e = CHR '']'' \<and> c = CHR ''[''"
        show ?thesis using 2(3) e(1) unfolding n parse_val.simps c list.case e(2) by (simp add: a)
      next
        assume a: "e = CHR ''}'' \<and> c = CHR ''{''"
        show ?thesis using 2(3) e(1) unfolding n parse_val.simps c list.case e(2) by (simp add: a)
      qed
    next
      case False
      from True show ?thesis
      proof
        assume arr: "c = CHR ''[''"
        with False have ne: "e \<noteq> CHR '']''" by simp
        with 2(3) obtain vs where vs: "parse_elems m (d - 1) (e # es) = Some (vs, r)" "v = JArr vs"
          unfolding parse_val.simps c list.case e(2) by (auto simp: e(1) arr)
        have "parse_elems k (d - 1) (e # es) = Some (vs, r)"
          by (rule 2(1)[OF c arr e(1) e(2) ne vs(1) k])
        then show ?thesis using ne vs(2) e(1) unfolding n parse_val.simps c list.case e(2) by (simp add: arr)
      next
        assume obj: "c = CHR ''{''"
        with False have ne: "e \<noteq> CHR ''}''" by simp
        with 2(3) obtain vs where vs: "parse_members m (d - 1) (e # es) = Some (vs, r)" "v = JObj vs"
          unfolding parse_val.simps c list.case e(2) by (auto simp: e(1) obj)
        have nb: "c \<noteq> CHR ''[''" using obj by simp
        have "parse_members k (d - 1) (e # es) = Some (vs, r)"
          by (rule 2(2)[OF c nb obj e(1) e(2) ne vs(1) k])
        then show ?thesis using ne vs(2) e(1) unfolding n parse_val.simps c list.case e(2) by (simp add: obj)
      qed
    qed
  qed
next
  case (4 m d s)
  from 4(4) obtain k where n: "n = Suc k" by (cases n) auto
  from 4(3) obtain w r1 where w: "parse_val m d s = Some (w, r1)" by (auto split: option.splits)
  from w 4(3) obtain c cs where c: "skip_ws r1 = c # cs" by (auto split: list.splits)
  have k1: "parse_val k d s = Some (w, r1)" using 4(1)[OF w] 4(4) n by simp
  have k2: "2 * length cs + 2 \<le> k"
    using parse_shrink(1)[OF w] skip_ws_Cons[OF c] 4(4) n by simp
  note unf = parse_elems.simps option.case prod.case list.case
  show ?case
  proof (cases "c = CHR '']''")
    case True
    then show ?thesis using 4(3) unfolding n unf w k1 c by simp
  next
    case False
    with 4(3) obtain vs' where vs: "parse_elems m d cs = Some (vs', r)" "vs = w # vs'" "c = CHR '',''"
      unfolding unf w c by (auto split: if_splits)
    have "parse_elems k d cs = Some (vs', r)" by (rule 4(2)[OF w refl c False vs(3) vs(1) k2])
    then show ?thesis using vs False unfolding n unf k1 c by simp
  qed
next
  case (6 m d s)
  from 6(4) obtain k where n: "n = Suc k" by (cases n) auto
  from 6(3) obtain q qs where q: "skip_ws s = q # qs" "q = quot"
    by (auto split: list.splits if_splits)
  from 6(3) q obtain key r1 where key: "parse_str qs = Some (key, r1)" by (auto split: option.splits)
  from 6(3) q key obtain x r2 where x: "skip_ws r1 = x # r2" "x = CHR '':''"
    by (auto split: list.splits if_splits)
  from 6(3) q key x obtain w r3 where w: "parse_val m d r2 = Some (w, r3)" by (auto split: option.splits)
  from 6(3) q key x w obtain c cs where c: "skip_ws r3 = c # cs" by (auto split: list.splits)
  have len: "length r2 < length s"
    using skip_ws_Cons[OF x(1)] parse_str_shrink[OF key] skip_ws_Cons[OF q(1)] by simp
  have q2: "\<not> q \<noteq> quot" and x2: "\<not> x \<noteq> CHR '':''" using q(2) x(2) by simp_all
  have k1: "parse_val k d r2 = Some (w, r3)"
    using 6(1)[OF q(1) q2 key refl x(1) x2 w] len 6(4) n by simp
  have k2: "2 * length cs + 2 \<le> k"
    using parse_shrink(1)[OF w] skip_ws_Cons[OF c] len 6(4) n by simp
  note unf = parse_members.simps option.case prod.case list.case
  show ?case
  proof (cases "c = CHR ''}''")
    case True
    then show ?thesis using 6(3) unfolding n unf q(1) key x(1) w k1 c by (simp add: q(2) x(2))
  next
    case False
    with 6(3) obtain kvs' where vs: "parse_members m d cs = Some (kvs', r)" "kvs = (key, w) # kvs'" "c = CHR '',''"
      unfolding unf q(1) key x(1) w c by (auto split: if_splits)
    have "parse_members k d cs = Some (kvs', r)"
      by (rule 6(2)[OF q(1) q2 key refl x(1) x2 w refl c False vs(3) vs(1) k2])
    then show ?thesis using vs False unfolding n unf q(1) key x(1) k1 c by (simp add: q(2) x(2))
  qed
qed simp_all

lemma parse_first_enough: "parse_val m maxNestingDepth s = Some (v, r) \<Longrightarrow> parse_first s = Some (v, r)"
  unfolding parse_first_def json_fuel_def by (rule parse_enough) simp_all

section \<open>\<open>Marshal\<close>\<close>

definition hex_lower :: "nat \<Rightarrow> char" where
  "hex_lower n = (if n < 10 then chr (48 + n) else chr (87 + n))"

text \<open>\<open>appendString\<close> with HTML escaping, one rune at a time.\<close>

definition escape_rune :: "nat \<times> string \<Rightarrow> string" where
  "escape_rune rb =
     (let r = fst rb in
      if invalid_step rb then bslash # ''ufffd''
      else if r < 0x80
      then (if r = 0x22 \<or> r = 0x5C then [bslash, chr r]
            else if r = 8 then bslash # ''b'' else if r = 12 then bslash # ''f''
            else if r = 10 then bslash # ''n'' else if r = 13 then bslash # ''r''
            else if r = 9 then bslash # ''t''
            else if r < 0x20 \<or> r \<in> {0x3C, 0x3E, 0x26}
            then bslash # ''u00'' @ [hex_lower (r div 16), hex_lower (r mod 16)]
            else snd rb)
      else if r = 0x2028 \<or> r = 0x2029 then bslash # ''u202'' @ [hex_lower (r mod 16)]
      else snd rb)"

definition escape_str :: "string \<Rightarrow> string" where
  "escape_str s = concat (map escape_rune (runes s))"

fun marshal :: "json \<Rightarrow> string"
  and marshal_elems :: "json list \<Rightarrow> string"
  and marshal_members :: "(string \<times> json) list \<Rightarrow> string" where
  "marshal JNull = ''null''"
| "marshal (JBool b) = (if b then ''true'' else ''false'')"
| "marshal (JNum s) = s"
| "marshal (JStr s) = quot # escape_str s @ [quot]"
| "marshal (JArr vs) = CHR ''['' # marshal_elems vs"
| "marshal (JObj kvs) = CHR ''{'' # marshal_members kvs"
| "marshal_elems [] = '']''"
| "marshal_elems [v] = marshal v @ '']''"
| "marshal_elems (v # w # vs) = marshal v @ CHR '','' # marshal_elems (w # vs)"
| "marshal_members [] = ''}''"
| "marshal_members [(k, v)] = quot # escape_str k @ quot # CHR '':'' # marshal v @ ''}''"
| "marshal_members ((k, v) # m # kvs) =
     quot # escape_str k @ quot # CHR '':'' # marshal v @ CHR '','' # marshal_members (m # kvs)"

text \<open>What decoding into \<open>any\<close> and encoding again do to objects: the last value of a key
  stays, and the keys are sorted.\<close>

fun norm :: "json \<Rightarrow> json"
  and norm_list :: "json list \<Rightarrow> json list"
  and norm_members :: "(string \<times> json) list \<Rightarrow> (string \<times> json) list \<Rightarrow> (string \<times> json) list" where
  "norm (JArr vs) = JArr (norm_list vs)"
| "norm (JObj kvs) = JObj (sort_key fst (norm_members [] kvs))"
| "norm v = v"
| "norm_list [] = []"
| "norm_list (v # vs) = norm v # norm_list vs"
| "norm_members acc [] = acc"
| "norm_members acc ((k, v) # kvs) = norm_members (AList.update k (norm v) acc) kvs"

section \<open>Reading back what was written\<close>

lemma step_ok_ascii: "step_ok rb \<Longrightarrow> fst rb < 0x80 \<Longrightarrow> snd rb = [chr (fst rb)]"
proof -
  assume ok: "step_ok rb" and a: "fst rb < 0x80"
  from ok obtain s where rb: "rb = (fst (decode_rune s), take (snd (decode_rune s)) s)" and "snd rb \<noteq> []"
    by (auto simp: step_ok_def)
  then obtain c cs where s: "s = c # cs" by (cases s) auto
  have "snd (decode_rune s) = 1 \<and> byte c = fst (decode_rune s)"
    using decode_rune_width_ascii[of c cs] a unfolding s[symmetric] by (simp add: rb)
  then show ?thesis by (metis One_nat_def chr_byte fst_conv rb s snd_conv take0 take_Suc_Cons)
qed

lemma step_ok_decode:
  assumes "step_ok rb"
  shows "decode_rune (snd rb @ t) = (fst rb, length (snd rb))" "snd rb \<noteq> []"
proof -
  show ne: "snd rb \<noteq> []" using assms by (simp add: step_ok_def)
  let ?s = "snd rb @ t"
  have "rb = (fst (decode_rune ?s), take (snd (decode_rune ?s)) ?s)"
    using step_ok_context[OF assms, of t] runes_unfold[of ?s] ne by simp
  then have "fst rb = fst (decode_rune ?s)" "snd rb = take (snd (decode_rune ?s)) ?s"
    by (metis fst_conv, metis snd_conv)
  moreover have "length (take (snd (decode_rune ?s)) ?s) = snd (decode_rune ?s)"
    using decode_rune_width_le[of ?s] by simp
  ultimately show "decode_rune ?s = (fst rb, length (snd rb))" by (metis prod.collapse)
qed

lemma step_ok_high:
  assumes "step_ok rb" "\<not> fst rb < 0x80"
  obtains c cs where "snd rb = c # cs" "128 \<le> byte c"
proof -
  obtain c cs where s: "snd rb = c # cs" using step_ok_decode(2)[OF assms(1)] by (cases "snd rb") auto
  have "128 \<le> byte c"
  proof (rule ccontr)
    assume "\<not> 128 \<le> byte c"
    then have "decode_rune (snd rb @ []) = (byte c, 1)" by (simp add: s)
    then show False using step_ok_decode(1)[OF assms(1), of "[]"] assms(2) \<open>\<not> 128 \<le> byte c\<close> by simp
  qed
  with s that show ?thesis by blast
qed

lemma decode_three:
  assumes eq: "x * 4096 + y * 64 + z = 0x2000 + k" and k: "k = 0x28 \<or> k = 0x29" and yz: "y < 64" "z < (64::nat)"
  shows "x = 2 \<and> y = 0 \<and> z = k"
proof -
  have k1: "40 \<le> k" "k \<le> 41" using k by auto
  have "x \<le> 2" using eq k1 by linarith
  moreover have "\<not> x \<le> 1" using eq k1 yz by linarith
  ultimately have x: "x = 2" by simp
  then have "y * 64 + z = k" using eq by simp
  then show ?thesis using k1 x by auto
qed

lemma hex_lower_facts:
  "n < 16 \<Longrightarrow> is_hex (hex_lower n)" "n < 16 \<Longrightarrow> unhex (hex_lower n) = n"
  by (auto simp: hex_lower_def is_hex_def unhex_def is_digit_def)

lemma byte_known: "byte quot = 0x22" "byte bslash = 0x5C" "byte CHR ''u'' = 0x75" "byte CHR ''0'' = 48"
    "byte CHR ''2'' = 50"
  by (simp_all add: byte_def)

lemma chr_known: "chr 0x22 = quot" "chr 0x5C = bslash"
  using chr_byte[of quot] chr_byte[of bslash] by (simp_all only: byte_known)

lemma simple_escape_u: "simple_escape CHR ''u'' = None"
  by (simp add: simple_escape_def)

lemma unit_step_u00:
  assumes "r < 0x80"
  shows "unit_step (bslash # ''u00'' @ [hex_lower (r div 16), hex_lower (r mod 16)] @ t) = Some ([chr r], 6)"
proof -
  have h: "is_hex (hex_lower (r div 16))" "is_hex (hex_lower (r mod 16))"
    "unhex (hex_lower (r div 16)) = r div 16" "unhex (hex_lower (r mod 16)) = r mod 16"
    using assms by (simp_all add: hex_lower_facts)
  have z: "is_hex CHR ''0''" "unhex CHR ''0'' = 0" by (simp_all add: is_hex_def unhex_def is_digit_def byte_known)
  have "hex4 (''00'' @ [hex_lower (r div 16), hex_lower (r mod 16)] @ t) = Some r"
    by (simp add: hex4_def h z)
  moreover have "unicode_unit r rest = ([chr r], 6)" for rest
    using assms by (simp add: unicode_unit_def encode_rune_def)
  ultimately show ?thesis by (simp add: unit_step_def simple_escape_u)
qed

lemma unit_step_ascii:
  assumes "r < 0x80" "0x20 \<le> r" "r \<noteq> 0x22" "r \<noteq> 0x5C"
  shows "unit_step (chr r # t) = Some ([chr r], 1)" "chr r \<noteq> quot"
proof -
  have b: "byte (chr r) = r" using assms by simp
  then show "chr r \<noteq> quot" using assms(3) byte_known(1) by metis
  have "chr r \<noteq> bslash" using assms(4) byte_known(2) b by metis
  then show "unit_step (chr r # t) = Some ([chr r], 1)"
    using assms b by (simp add: unit_step_def rune_error_def)
qed

lemma step_ok_line_separator:
  assumes "step_ok rb" "fst rb = 0x2028 \<or> fst rb = 0x2029"
  shows "snd rb = encode_rune (fst rb)"
proof -
  obtain c0 cs where s: "snd rb = c0 # cs" using step_ok_decode(2)[OF assms(1)] by (cases "snd rb") auto
  have d: "decode_rune (c0 # cs) = (fst rb, length (c0 # cs))"
    using step_ok_decode(1)[OF assms(1), of "[]"] s by simp
  let ?b = "byte c0"
  have lt: "byte c < 256" for c by simp
  have "0xE0 \<le> ?b \<and> ?b \<le> 0xEF \<and> decode_rune3 ?b cs = (fst rb, length (c0 # cs))"
  proof -
    have f2: "fst (decode_rune2 b xs) = rune_error \<or> fst (decode_rune2 b xs) \<le> (b - 0xC0) * 64 + 63" for b xs
      by (auto simp: decode_rune2_def cont_def split: list.splits)
    have f4: "fst (decode_rune4 b xs) = rune_error \<or> 0x10000 \<le> fst (decode_rune4 b xs)" if "0xF0 \<le> b" for b xs
      using that by (auto simp: decode_rune4_def second_ok_def split: list.splits if_splits)
    show ?thesis
      using d assms(2) f2[of ?b cs] f4[of ?b cs]
      by (auto simp: Let_def rune_error_def split: if_splits)
  qed
  then obtain c1 c2 ds where cs: "cs = c1 # c2 # ds" "second_ok ?b c1" "cont c2" "length (c0 # cs) = 3"
    and eq: "(?b - 0xE0) * 4096 + (byte c1 - 0x80) * 64 + (byte c2 - 0x80) = fst rb" and b: "0xE0 \<le> ?b"
    using assms(2) by (auto simp: decode_rune3_def rune_error_def split: list.splits if_splits)
  from cs have ds: "ds = []" by simp
  have c1: "128 \<le> byte c1" "byte c1 \<le> 191" using cs(2) by (auto simp: second_ok_def cont_def split: if_splits)
  have c2: "128 \<le> byte c2" "byte c2 \<le> 191" using cs(3) by (auto simp: cont_def)
  obtain k where k: "fst rb = 0x2000 + k" "k = 0x28 \<or> k = 0x29" using assms(2) by auto
  from decode_three[OF eq[unfolded k(1)] k(2)] c1 c2
  have "?b - 0xE0 = 2" "byte c1 - 0x80 = 0" "byte c2 - 0x80 = k" by auto
  then have "?b = 0xE2" "byte c1 = 0x80" "byte c2 = 0x80 + k" using b c1 c2 by auto
  then have "c0 = chr 0xE2" "c1 = chr 0x80" "c2 = chr (0x80 + k)" by (metis chr_byte)+
  then show ?thesis using k s cs(1) ds by (auto simp: encode_rune_def)
qed

lemma unit_step_simple:
  "simple_escape e = Some d \<Longrightarrow> unit_step (bslash # e # t) = Some ([d], 2)"
  by (simp add: unit_step_def)

lemma simple_escapes:
  "simple_escape quot = Some quot" "simple_escape bslash = Some bslash" "simple_escape CHR ''b'' = Some (chr 8)"
  "simple_escape CHR ''f'' = Some (chr 12)" "simple_escape CHR ''n'' = Some (chr 10)"
  "simple_escape CHR ''r'' = Some (chr 13)" "simple_escape CHR ''t'' = Some (chr 9)"
  by (simp_all add: simple_escape_def)

text \<open>Decoding an encoded rune gives the rune's bytes back.\<close>

lemma unit_step_escape:
  assumes "step_ok rb"
  shows "unit_step (escape_rune rb @ t) = Some (snd rb, length (escape_rune rb))
    \<and> escape_rune rb \<noteq> [] \<and> hd (escape_rune rb) \<noteq> quot"
proof -
  let ?r = "fst rb"
  have ok: "\<not> invalid_step rb" using assms by (simp add: step_ok_def)
  consider (ascii) "?r < 0x80" | (sep) "?r = 0x2028 \<or> ?r = 0x2029"
    | (high) "\<not> ?r < 0x80" "\<not> (?r = 0x2028 \<or> ?r = 0x2029)" by blast
  then show ?thesis
  proof cases
    case ascii
    then have bs: "snd rb = [chr ?r]" by (rule step_ok_ascii[OF assms])
    consider (q) "?r = 0x22 \<or> ?r = 0x5C" | (c) "?r \<in> {8, 12, 10, 13, 9}"
      | (u) "?r \<notin> {0x22, 0x5C, 8, 12, 10, 13, 9}" "?r < 0x20 \<or> ?r \<in> {0x3C, 0x3E, 0x26}"
      | (p) "?r \<notin> {0x22, 0x5C, 8, 12, 10, 13, 9}" "\<not> (?r < 0x20 \<or> ?r \<in> {0x3C, 0x3E, 0x26})" by blast
    then show ?thesis
    proof cases
      case q
      then show ?thesis
        using ok ascii bs by (auto simp: escape_rune_def chr_known unit_step_simple simple_escapes)
    next
      case c
      then show ?thesis
        using ok ascii bs by (auto simp: escape_rune_def unit_step_simple simple_escapes)
    next
      case u
      then have "escape_rune rb = bslash # ''u00'' @ [hex_lower (?r div 16), hex_lower (?r mod 16)]"
        using ok ascii by (auto simp: escape_rune_def Let_def)
      then show ?thesis using unit_step_u00[OF ascii, of t] bs by simp
    next
      case p
      then have "escape_rune rb = [chr ?r]" using ok ascii bs by (auto simp: escape_rune_def)
      then show ?thesis using unit_step_ascii(1)[of ?r t] unit_step_ascii(2)[of ?r] ascii p bs by simp
    qed
  next
    case sep
    then have eq: "escape_rune rb = bslash # ''u202'' @ [hex_lower (?r mod 16)]"
      using ok by (auto simp: escape_rune_def)
    have h: "is_hex (hex_lower (?r mod 16))" "unhex (hex_lower (?r mod 16)) = ?r mod 16"
      by (simp_all add: hex_lower_facts)
    have z: "is_hex CHR ''0''" "unhex CHR ''0'' = 0" "is_hex CHR ''2''" "unhex CHR ''2'' = 2"
      by (simp_all add: is_hex_def unhex_def is_digit_def byte_known)
    have "hex4 (''202'' @ [hex_lower (?r mod 16)] @ t) = Some ?r"
      using sep by (auto simp: hex4_def h z)
    moreover have "unicode_unit ?r rest = (snd rb, 6)" for rest
      using sep step_ok_line_separator[OF assms sep] by (auto simp: unicode_unit_def)
    ultimately show ?thesis by (simp add: unit_step_def simple_escape_u eq)
  next
    case high
    then have eq: "escape_rune rb = snd rb" using ok by (auto simp: escape_rune_def)
    obtain c cs where s: "snd rb = c # cs" "128 \<le> byte c" using step_ok_high[OF assms high(1)] by blast
    have ne: "c \<noteq> bslash" "c \<noteq> quot" using s(2) byte_known by auto
    have "decode_rune (c # cs @ t) = (?r, length (c # cs))"
      using step_ok_decode(1)[OF assms, of t] s by simp
    moreover have "\<not> (?r = rune_error \<and> length (c # cs) = 1)" using ok s by (simp add: invalid_step_def)
    ultimately have "unit_step (c # cs @ t) = Some (c # cs, length (c # cs))"
      using ne s(2) unfolding unit_step_def list.case by (auto simp del: decode_rune.simps)
    then show ?thesis using eq s ne by simp
  qed
qed

lemma parse_str_escape: "valid_utf8 s \<Longrightarrow> parse_str (escape_str s @ quot # rest) = Some (s, rest)"
proof -
  assume "valid_utf8 s"
  then have "list_all step_ok (runes s)" by (rule valid_utf8_steps)
  then have "parse_str (concat (map escape_rune rs) @ quot # rest) = Some (concat (map snd rs), rest)"
    if "rs = runes s" for rs
    unfolding that[symmetric]
  proof (induction rs)
    case Nil
    then show ?case by simp
  next
    case (Cons rb rs)
    let ?X = "concat (map escape_rune rs) @ quot # rest"
    have u: "unit_step (escape_rune rb @ ?X) = Some (snd rb, length (escape_rune rb))"
      and ne: "escape_rune rb \<noteq> []" "hd (escape_rune rb) \<noteq> quot"
      using unit_step_escape[of rb ?X] Cons.prems by auto
    have "parse_str (escape_rune rb @ ?X) = Some (snd rb @ concat (map snd rs), rest)"
      by (subst parse_str.simps) (use u ne Cons in simp)
    then show ?case by simp
  qed
  then show ?thesis by (simp add: escape_str_def concat_runes)
qed

text \<open>A number token, and what may follow it.\<close>

definition num_ok :: "string \<Rightarrow> bool" where
  "num_ok s = (parse_num s = Some (s, []))"

definition sep :: "string \<Rightarrow> bool" where
  "sep s = (s = [] \<or> hd s = CHR '','' \<or> hd s = CHR '']'' \<or> hd s = CHR ''}'')"

lemma span_sep:
  assumes "rest = [] \<or> \<not> P (hd rest)"
  shows "takeWhile P (s @ rest) = takeWhile P s" "dropWhile P (s @ rest) = dropWhile P s @ rest"
  using assms by (induction s) (cases rest; simp)+

lemma sep_not: "sep rest \<Longrightarrow> rest = [] \<or> \<not> is_digit (hd rest) \<and> hd rest \<noteq> CHR ''.''
    \<and> hd rest \<noteq> CHR ''e'' \<and> hd rest \<noteq> CHR ''E''"
  by (auto simp: sep_def is_digit_def byte_def)

lemma parse_int_context: "parse_int s = Some (i, r) \<Longrightarrow> sep rest \<Longrightarrow> parse_int (s @ rest) = Some (i, r @ rest)"
  using sep_not[of rest] span_sep[of rest is_digit s]
  by (cases s) (auto simp: parse_int_def split: if_splits)

lemma parse_frac_context: "parse_frac s = Some (i, r) \<Longrightarrow> sep rest \<Longrightarrow> parse_frac (s @ rest) = Some (i, r @ rest)"
  using sep_not[of rest] span_sep[of rest is_digit "tl s"]
  by (cases s) (auto simp: parse_frac_def Let_def split: if_splits)

lemma parse_exp_context: "parse_exp s = Some (i, r) \<Longrightarrow> sep rest \<Longrightarrow> parse_exp (s @ rest) = Some (i, r @ rest)"
proof -
  assume p: "parse_exp s = Some (i, r)" and sep: "sep rest"
  show ?thesis
  proof (cases "s \<noteq> [] \<and> (hd s = CHR ''e'' \<or> hd s = CHR ''E'')")
    case False
    then show ?thesis using p sep_not[OF sep] by (cases s) (auto simp: parse_exp_def)
  next
    case True
    then obtain c t where s: "s = c # t" "c = CHR ''e'' \<or> c = CHR ''E''" by (cases s) auto
    have t: "t \<noteq> []" using p True by (auto simp: parse_exp_def s(1) Let_def split: if_splits)
    then obtain b t' where b: "t = b # t'" by (cases t) auto
    show ?thesis
      using p s(2) sep_not[OF sep] span_sep[of rest is_digit t] span_sep[of rest is_digit t']
      by (auto simp: parse_exp_def s(1) b Let_def split: if_splits)
  qed
qed

lemma parse_num_context: "parse_num s = Some (t, r) \<Longrightarrow> sep rest \<Longrightarrow> parse_num (s @ rest) = Some (t, r @ rest)"
proof -
  assume p: "parse_num s = Some (t, r)" and sep: "sep rest"
  have s: "s \<noteq> []" using p by (auto simp: parse_num_def parse_int_def)
  define sg where "sg = (if s \<noteq> [] \<and> hd s = CHR ''-'' then ''-'' else [])"
  have sg': "(if s @ rest \<noteq> [] \<and> hd (s @ rest) = CHR ''-'' then ''-'' else []) = sg"
    using s by (simp add: sg_def)
  have dr: "drop (length sg) (s @ rest) = drop (length sg) s @ rest"
    using s by (cases s) (auto simp: sg_def)
  from p obtain i f e r1 r2 where i: "parse_int (drop (length sg) s) = Some (i, r1)"
    and f: "parse_frac r1 = Some (f, r2)" and e: "parse_exp r2 = Some (e, r)" and t: "t = sg @ i @ f @ e"
    unfolding parse_num_def sg_def[symmetric] Let_def by (auto split: option.splits prod.splits)
  show ?thesis
    unfolding parse_num_def sg' Let_def dr
    by (simp add: parse_int_context[OF i sep] parse_frac_context[OF f sep] parse_exp_context[OF e sep] t)
qed

lemma num_ok_hd: "num_ok s \<Longrightarrow> s \<noteq> [] \<and> (hd s = CHR ''-'' \<or> is_digit (hd s))"
  by (auto simp: num_ok_def parse_num_def parse_int_def split: option.splits if_splits)

fun json_ok :: "nat \<Rightarrow> json \<Rightarrow> bool"
  and json_ok_list :: "nat \<Rightarrow> json list \<Rightarrow> bool"
  and json_ok_members :: "nat \<Rightarrow> (string \<times> json) list \<Rightarrow> bool" where
  "json_ok d (JNum s) = num_ok s"
| "json_ok d (JStr s) = valid_utf8 s"
| "json_ok d (JArr vs) = (0 < d \<and> json_ok_list (d - 1) vs)"
| "json_ok d (JObj kvs) = (0 < d \<and> json_ok_members (d - 1) kvs)"
| "json_ok d JNull = True"
| "json_ok d (JBool b) = True"
| "json_ok_list d [] = True"
| "json_ok_list d (v # vs) = (json_ok d v \<and> json_ok_list d vs)"
| "json_ok_members d [] = True"
| "json_ok_members d ((k, v) # kvs) = (valid_utf8 k \<and> json_ok d v \<and> json_ok_members d kvs)"

lemma marshal_hd:
  assumes "json_ok d v"
  obtains c cs where "marshal v = c # cs" "\<not> json_ws c" "c \<noteq> CHR '']''" "c \<noteq> CHR ''}''"
proof -
  have "\<exists>c cs. marshal v = c # cs \<and> \<not> json_ws c \<and> c \<noteq> CHR '']'' \<and> c \<noteq> CHR ''}''"
  proof (cases v)
    case (JNum s)
    then have n: "s \<noteq> [] \<and> (hd s = CHR ''-'' \<or> is_digit (hd s))" using assms num_ok_hd by simp
    then obtain c cs where s: "s = c # cs" by (cases s) auto
    with n have "\<not> json_ws c \<and> c \<noteq> CHR '']'' \<and> c \<noteq> CHR ''}''"
      by (auto simp: json_ws_def is_digit_def byte_def)
    then show ?thesis using JNum s by simp
  qed (auto simp: json_ws_def byte_def)
  with that show ?thesis by blast
qed

lemma skip_ws_id: "\<not> json_ws c \<Longrightarrow> skip_ws (c # cs) = c # cs"
  by (simp add: skip_ws_def)

lemma sep_known: "sep (CHR '','' # r)" "sep (CHR '']'' # r)" "sep (CHR ''}'' # r)"
  by (simp_all add: sep_def)

lemma ws_known: "\<not> json_ws CHR '',''" "\<not> json_ws CHR '']''" "\<not> json_ws CHR ''}''" "\<not> json_ws CHR '':''"
    "\<not> json_ws quot" "\<not> json_ws CHR ''[''" "\<not> json_ws CHR ''{''"
  by (simp_all add: json_ws_def byte_def)

lemma parse_scalar_num: "num_ok s \<Longrightarrow> sep rest \<Longrightarrow> parse_scalar (s @ rest) = Some (JNum s, rest)"
proof -
  assume n: "num_ok s" and r: "sep rest"
  obtain c cs where s: "s = c # cs" using num_ok_hd[OF n] by (cases s) auto
  have c: "c \<noteq> quot" "c \<noteq> CHR ''n''" "c \<noteq> CHR ''t''" "c \<noteq> CHR ''f''" "c \<noteq> CHR ''[''" "c \<noteq> CHR ''{''"
    using num_ok_hd[OF n] by (auto simp: s is_digit_def byte_def)
  show ?thesis
    using parse_num_context[of s s "[]" rest] n r c by (simp add: parse_scalar_def s num_ok_def)
qed

lemma parse_val_num: "num_ok s \<Longrightarrow> sep rest \<Longrightarrow> parse_val (Suc n) d (s @ rest) = Some (JNum s, rest)"
proof -
  assume n: "num_ok s" and r: "sep rest"
  obtain c cs where s: "s = c # cs" using num_ok_hd[OF n] by (cases s) auto
  have c: "c \<noteq> CHR ''[''" "c \<noteq> CHR ''{''" "\<not> json_ws c"
    using num_ok_hd[OF n] by (auto simp: s is_digit_def byte_def json_ws_def)
  show ?thesis using parse_scalar_num[OF n r] c by (simp add: s skip_ws_id)
qed

lemma parse_val_str: "valid_utf8 s \<Longrightarrow> parse_val (Suc n) d (quot # escape_str s @ quot # rest) = Some (JStr s, rest)"
  by (simp add: skip_ws_id ws_known parse_scalar_def parse_str_escape)

text \<open>A written value is read back, whatever text follows it in an array, an object or at the end.\<close>

lemma parse_marshal:
  "json_ok d v \<Longrightarrow> sep rest \<Longrightarrow> 2 * length (marshal v @ rest) + 1 \<le> n \<Longrightarrow>
     parse_val n d (marshal v @ rest) = Some (v, rest)"
  "json_ok_list d vs \<Longrightarrow> vs \<noteq> [] \<Longrightarrow> 2 * length (marshal_elems vs @ rest) + 2 \<le> n \<Longrightarrow>
     parse_elems n d (marshal_elems vs @ rest) = Some (vs, rest)"
  "json_ok_members d kvs \<Longrightarrow> kvs \<noteq> [] \<Longrightarrow> 2 * length (marshal_members kvs @ rest) + 2 \<le> n \<Longrightarrow>
     parse_members n d (marshal_members kvs @ rest) = Some (kvs, rest)"
proof (induction v and vs and kvs arbitrary: d rest n and d rest n and d rest n
    rule: marshal_marshal_elems_marshal_members.induct)
  case 1
  then show ?case by (cases n) (simp_all add: skip_ws_id json_ws_def byte_def parse_scalar_def literal_def)
next
  case (2 b)
  then show ?case by (cases n) (simp_all add: skip_ws_id json_ws_def byte_def parse_scalar_def literal_def)
next
  case (3 s)
  then obtain k where "n = Suc k" by (cases n) auto
  then show ?case using 3 by (simp add: parse_val_num del: parse_val.simps)
next
  case (4 s)
  then obtain k where "n = Suc k" by (cases n) auto
  then show ?case using 4 by (simp add: parse_val_str del: parse_val.simps)
next
  case (5 vs)
  then obtain k where n: "n = Suc k" by (cases n) auto
  show ?case
  proof (cases vs)
    case Nil
    then show ?thesis using 5(2) n by (simp add: skip_ws_id ws_known)
  next
    case (Cons w ws)
    have "json_ok (d - 1) w" using 5(2) Cons by simp
    then obtain c cs where c: "marshal w = c # cs" "\<not> json_ws c" "c \<noteq> CHR '']''" by (rule marshal_hd)
    obtain es where es: "marshal_elems vs = c # es" using c(1) Cons by (cases ws) auto
    have "parse_elems k (d - 1) (marshal_elems vs @ rest) = Some (vs, rest)"
      using 5(1)[of "d - 1" rest k] 5(2,4) Cons n by simp
    then show ?thesis using 5(2) c unfolding n by (simp add: es skip_ws_id ws_known)
  qed
next
  case (6 kvs)
  then obtain k where n: "n = Suc k" by (cases n) auto
  show ?case
  proof (cases kvs)
    case Nil
    then show ?thesis using 6(2) n by (simp add: skip_ws_id ws_known)
  next
    case (Cons kv kws)
    obtain es where es: "marshal_members kvs = quot # es" using Cons by (cases kv; cases kws) auto
    have "parse_members k (d - 1) (marshal_members kvs @ rest) = Some (kvs, rest)"
      using 6(1)[of "d - 1" rest k] 6(2,4) Cons n by simp
    then show ?thesis using 6(2) unfolding n by (simp add: es skip_ws_id ws_known)
  qed
next
  case 7
  then show ?case by simp
next
  case (8 v)
  then obtain k where n: "n = Suc k" by (cases n) auto
  have "parse_val k d (marshal v @ CHR '']'' # rest) = Some (v, CHR '']'' # rest)"
    using 8 n by (intro 8(1)) (simp_all add: sep_known)
  then show ?case by (simp add: n skip_ws_id ws_known)
next
  case (9 v w vs)
  then obtain k where n: "n = Suc k" by (cases n) auto
  have "parse_val k d (marshal v @ CHR '','' # marshal_elems (w # vs) @ rest)
      = Some (v, CHR '','' # marshal_elems (w # vs) @ rest)"
    using 9 n by (intro 9(1)) (simp_all add: sep_known)
  moreover have "parse_elems k d (marshal_elems (w # vs) @ rest) = Some (w # vs, rest)"
    using 9 n by (intro 9(2)) simp_all
  ultimately show ?case by (simp add: n skip_ws_id ws_known)
next
  case 10
  then show ?case by simp
next
  case (11 k v)
  then obtain m where n: "n = Suc m" by (cases n) auto
  have "parse_val m d (marshal v @ CHR ''}'' # rest) = Some (v, CHR ''}'' # rest)"
    using 11 n by (intro 11(1)) (simp_all add: sep_known)
  then show ?case using 11(2) by (simp add: n skip_ws_id ws_known parse_str_escape)
next
  case (12 k v m kvs)
  then obtain f where n: "n = Suc f" by (cases n) auto
  have "parse_val f d (marshal v @ CHR '','' # marshal_members (m # kvs) @ rest)
      = Some (v, CHR '','' # marshal_members (m # kvs) @ rest)"
    using 12 n by (intro 12(1)) (simp_all add: sep_known)
  moreover have "parse_members f d (marshal_members (m # kvs) @ rest) = Some (m # kvs, rest)"
    using 12 n by (intro 12(2)) simp_all
  ultimately show ?case using 12(3) by (simp add: n skip_ws_id ws_known parse_str_escape)
qed

section \<open>What the parser returns\<close>

lemma mod_64_le: "n mod 64 \<le> (63::nat)"
  by (simp add: less_Suc_eq_le[symmetric])

lemma valid_encode_rune: "valid_utf8 (encode_rune r)"
proof -
  consider (a) "r < 0x80" | (b) "0x80 \<le> r" "r < 0x800"
    | (s) "0xD800 \<le> r \<and> r \<le> 0xDFFF \<or> 0x110000 \<le> r"
    | (c) "0x800 \<le> r" "r < 0x10000" "\<not> (0xD800 \<le> r \<and> r \<le> 0xDFFF)"
    | (d) "0x10000 \<le> r" "r < 0x110000" by linarith
  then show ?thesis
  proof cases
    case a
    then show ?thesis by (simp add: encode_rune_def)
  next
    case b
    have "2 \<le> r div 64 \<and> r div 64 < 32" "r mod 64 < 64"
      using b by (auto simp: less_mult_imp_div_less less_eq_div_iff_mult_less_eq)
    then show ?thesis
      using b by (simp add: encode_rune_def valid_utf8_def runes.simps(2) decode_rune2_def cont_def
          invalid_step_def)
  next
    case s
    then have "encode_rune r = replacement_char" by (auto simp: encode_rune_def replacement_char_def)
    then show ?thesis by (simp add: valid_replacement)
  next
    case c
    define q where "q = r div 4096"
    define m where "m = r div 64 mod 64"
    have q: "q < 16" using c(2) by (simp add: q_def less_mult_imp_div_less)
    have m: "m < 64" by (simp add: m_def)
    have r: "r div 64 = q * 64 + m"
      by (simp add: q_def m_def div_mult2_eq[of r 64 64, simplified] div_mult_mod_eq mult.commute)
    have "32 \<le> r div 64" using c(1) by (simp add: less_eq_div_iff_mult_less_eq)
    then have q0: "32 \<le> m" if "q = 0" using r that by simp
    have "\<not> (864 \<le> r div 64 \<and> r div 64 < 896)"
      using c(3) by (auto simp: less_eq_div_iff_mult_less_eq div_less_iff_less_mult)
    then have qd: "m < 32" if "q = 13" using r that m by simp
    have so: "second_ok (224 + q) (chr (128 + m))"
      using q m q0 qd by (auto simp: second_ok_def cont_def)
    show ?thesis
      using c q m so
      by (simp add: encode_rune_def valid_utf8_def runes.simps(2) decode_rune3_def cont_def
          invalid_step_def mod_64_le q_def[symmetric] m_def[symmetric])
  next
    case d
    define q where "q = r div 262144"
    define m where "m = r div 4096 mod 64"
    have q: "q < 5" using d(2) by (simp add: q_def less_mult_imp_div_less)
    have m: "m < 64" by (simp add: m_def)
    have r: "r div 4096 = q * 64 + m"
      by (simp add: q_def m_def div_mult2_eq[of r 4096 64, simplified] div_mult_mod_eq mult.commute)
    have "16 \<le> r div 4096" using d(1) by (simp add: less_eq_div_iff_mult_less_eq)
    then have q0: "16 \<le> m" if "q = 0" using r that by simp
    have "r div 4096 < 272" using d(2) by (simp add: less_mult_imp_div_less)
    then have q4: "m < 16" if "q = 4" using r that by simp
    have so: "second_ok (240 + q) (chr (128 + m))"
      using q m q0 q4 by (auto simp: second_ok_def cont_def)
    show ?thesis
      using d q m so
      by (simp add: encode_rune_def valid_utf8_def runes.simps(2) decode_rune4_def cont_def
          invalid_step_def mod_64_le q_def[symmetric] m_def[symmetric])
  qed
qed

lemma slash_byte: "byte CHR ''/'' = 47"
  by (simp add: byte_def)

lemma simple_escape_valid: "simple_escape e = Some d \<Longrightarrow> valid_utf8 [d]"
  by (auto simp: simple_escape_def byte_known slash_byte split: if_splits)

lemma valid_unicode_unit: "valid_utf8 (fst (unicode_unit u r))"
  by (auto simp: unicode_unit_def valid_encode_rune valid_replacement split: option.splits)

lemma valid_unit: "unit_step s = Some (u, w) \<Longrightarrow> valid_utf8 u"
proof -
  assume a: "unit_step s = Some (u, w)"
  then obtain c cs where s: "s = c # cs" by (cases s) (auto simp: unit_step_def)
  show ?thesis
  proof (cases "c = bslash")
    case True
    with a s obtain e t where e: "cs = e # t" by (cases cs) (auto simp: unit_step_def)
    show ?thesis
    proof (cases "simple_escape e")
      case None
      with a s e True obtain v where "unicode_unit v (drop 4 t) = (u, w)"
        by (auto simp: unit_step_def split: if_splits option.splits)
      then show ?thesis using valid_unicode_unit[of v "drop 4 t"] by (metis fst_conv)
    next
      case (Some d)
      with a s e True show ?thesis by (auto simp: unit_step_def intro: simple_escape_valid)
    qed
  next
    case False
    obtain r k where rk: "decode_rune s = (r, k)" by force
    show ?thesis
    proof (cases "r = rune_error \<and> k = 1")
      case True
      then show ?thesis using a s rk False
        by (auto simp: unit_step_def valid_replacement simp del: decode_rune.simps split: if_splits)
    next
      case ok: False
      then have u: "u = take k s" using a s rk False
        by (auto simp: unit_step_def simp del: decode_rune.simps split: if_splits)
      have k: "0 < k" "k \<le> length s"
        using decode_rune_width_pos[of s] decode_rune_width_le[of s] rk s by (simp_all del: decode_rune.simps)
      have "step_ok (r, u)"
        using ok u rk k s by (auto simp: step_ok_def invalid_step_def simp del: decode_rune.simps intro!: exI[of _ s])
      then show ?thesis using valid_utf8_concat[of "[(r, u)]"] by simp
    qed
  qed
qed

lemma parse_str_valid: "parse_str s = Some (t, r) \<Longrightarrow> valid_utf8 t"
proof (induction s arbitrary: t r rule: parse_str.induct)
  case (1 s)
  show ?case
  proof (cases "s = [] \<or> hd s = quot")
    case True
    then show ?thesis using 1(2) by (cases s) auto
  next
    case False
    then obtain u w t' where uw: "unit_step s = Some (u, w)" "parse_str (drop w s) = Some (t', r)" "t = u @ t'"
      using 1(2) by (auto simp: parse_str.simps[of s] split: option.splits)
    have "valid_utf8 t'" using 1(1)[OF _ _ uw(1) refl uw(2)] False by blast
    then show ?thesis using uw valid_unit valid_utf8_append by blast
  qed
qed

lemma takeWhile_again: "takeWhile P (takeWhile P s @ x) = takeWhile P s \<and> dropWhile P (takeWhile P s @ x) = x"
  if "x = [] \<or> \<not> P (hd x)"
  using that span_sep[of x P "takeWhile P s"] by (auto simp: dropWhile_eq_Nil_conv dest: set_takeWhileD)

lemma parse_int_again:
  "parse_int s = Some (i, r) \<Longrightarrow> x = [] \<or> \<not> is_digit (hd x) \<Longrightarrow> parse_int (i @ x) = Some (i, x)"
  using takeWhile_again[of x is_digit s]
  by (cases s) (auto simp: parse_int_def split: if_splits)

lemma takeWhile_digits: "takeWhile is_digit (takeWhile is_digit s) = takeWhile is_digit s"
    "dropWhile is_digit (takeWhile is_digit s) = []"
  using takeWhile_again[of "[]" is_digit s] by simp_all

lemma hd_takeWhile_digit: "takeWhile is_digit s \<noteq> [] \<Longrightarrow> is_digit (hd (takeWhile is_digit s))"
  by (cases s) (auto split: if_splits)

lemma parse_exp_again: "parse_exp s = Some (e, r) \<Longrightarrow> parse_exp e = Some (e, [])
    \<and> (e = [] \<or> hd e = CHR ''e'' \<or> hd e = CHR ''E'')"
proof -
  assume p: "parse_exp s = Some (e, r)"
  show ?thesis
  proof (cases "s \<noteq> [] \<and> (hd s = CHR ''e'' \<or> hd s = CHR ''E'')")
    case False
    then have "e = []" using p by (auto simp: parse_exp_def)
    then show ?thesis by (simp add: parse_exp_def)
  next
    case True
    define sg where "sg = (if tl s \<noteq> [] \<and> (hd (tl s) = CHR ''+'' \<or> hd (tl s) = CHR ''-'') then [hd (tl s)] else [])"
    define ds where "ds = takeWhile is_digit (drop (length sg) (tl s))"
    have e: "e = hd s # sg @ ds" and ds: "ds \<noteq> []"
      using p True unfolding parse_exp_def sg_def[symmetric] Let_def ds_def[symmetric]
      by (auto split: if_splits)
    have dd: "is_digit (hd ds)" "takeWhile is_digit ds = ds" "dropWhile is_digit ds = []"
      using ds hd_takeWhile_digit takeWhile_digits unfolding ds_def by blast+
    have "hd ds \<noteq> CHR ''+''" "hd ds \<noteq> CHR ''-''" using dd(1) by auto
    then have s2: "(if sg @ ds \<noteq> [] \<and> (hd (sg @ ds) = CHR ''+'' \<or> hd (sg @ ds) = CHR ''-'') then [hd (sg @ ds)] else []) = sg"
      using ds by (auto simp: sg_def)
    have "parse_exp e = Some (e, [])"
      using True ds unfolding e parse_exp_def list.sel s2 Let_def
      by (simp add: dd(2,3) del: takeWhile_eq_all_conv)
    then show ?thesis using True e by simp
  qed
qed

lemma parse_frac_again:
  "parse_frac s = Some (f, r) \<Longrightarrow> x = [] \<or> hd x = CHR ''e'' \<or> hd x = CHR ''E'' \<Longrightarrow>
     parse_frac (f @ x) = Some (f, x) \<and> (f = [] \<or> hd f = CHR ''.'')"
proof -
  assume p: "parse_frac s = Some (f, r)" and x: "x = [] \<or> hd x = CHR ''e'' \<or> hd x = CHR ''E''"
  have nd: "x = [] \<or> \<not> is_digit (hd x)" using x by (auto simp: is_digit_def byte_def)
  show ?thesis
  proof (cases "s \<noteq> [] \<and> hd s = CHR ''.''")
    case True
    then have f: "f = CHR ''.'' # takeWhile is_digit (tl s)" and ne: "takeWhile is_digit (tl s) \<noteq> []"
      using p by (auto simp: parse_frac_def Let_def split: if_splits)
    show ?thesis using takeWhile_again[of x is_digit "tl s"] nd ne by (simp add: parse_frac_def f)
  next
    case False
    then have "f = []" using p by (auto simp: parse_frac_def)
    then show ?thesis using x by (auto simp: parse_frac_def)
  qed
qed

lemma parse_int_hd: "parse_int s = Some (i, r) \<Longrightarrow> i \<noteq> [] \<and> is_digit (hd i)"
  by (cases s) (auto simp: parse_int_def is_digit_def byte_known split: if_splits)

lemma parse_num_ok: "parse_num s = Some (t, r) \<Longrightarrow> num_ok t"
proof -
  assume p: "parse_num s = Some (t, r)"
  define sg where "sg = (if s \<noteq> [] \<and> hd s = CHR ''-'' then ''-'' else [])"
  from p obtain i f e r1 r2 where i: "parse_int (drop (length sg) s) = Some (i, r1)"
    and f: "parse_frac r1 = Some (f, r2)" and e: "parse_exp r2 = Some (e, r)" and t: "t = sg @ i @ f @ e"
    unfolding parse_num_def sg_def[symmetric] Let_def by (auto split: option.splits prod.splits)
  note e' = parse_exp_again[OF e]
  then have f': "parse_frac (f @ e) = Some (f, e)" "f = [] \<or> hd f = CHR ''.''"
    using parse_frac_again[OF f, of e] by auto
  have "f @ e = [] \<or> \<not> is_digit (hd (f @ e))"
    using e' f'(2) by (cases f) (auto simp: is_digit_def byte_def)
  then have i': "parse_int (i @ f @ e) = Some (i, f @ e)" by (rule parse_int_again[OF i])
  then have ne: "i \<noteq> []" "is_digit (hd i)"
    using parse_int_hd[OF i] by simp_all
  then have "hd i \<noteq> CHR ''-''" by auto
  then have "(if t \<noteq> [] \<and> hd t = CHR ''-'' then ''-'' else []) = sg"
    using ne by (auto simp: t sg_def)
  then show ?thesis
    using i' f'(1) e' unfolding num_ok_def parse_num_def Let_def by (simp add: t)
qed

lemma parse_scalar_ok: "parse_scalar s = Some (v, r) \<Longrightarrow> json_ok d v"
  by (auto simp: parse_scalar_def literal_def dest: parse_str_valid parse_num_ok split: list.splits if_splits)

lemma parse_ok:
  "parse_val n d s = Some (v, r) \<Longrightarrow> json_ok d v"
  "parse_elems n d s = Some (vs, r) \<Longrightarrow> json_ok_list d vs"
  "parse_members n d s = Some (kvs, r) \<Longrightarrow> json_ok_members d kvs"
proof (induction n d s and n d s and n d s arbitrary: v r and vs r and kvs r
    rule: parse_val_parse_elems_parse_members.induct)
  case (2 n d s)
  then show ?case by (fastforce dest: parse_scalar_ok split: list.splits if_splits)
next
  case (4 n d s)
  then show ?case by (fastforce split: option.splits list.splits if_splits)
next
  case (6 n d s)
  then show ?case by (fastforce dest: parse_str_valid split: option.splits list.splits if_splits)
qed simp_all

lemma json_ok_members_iff: "json_ok_members d kvs = (\<forall>kv \<in> set kvs. valid_utf8 (fst kv) \<and> json_ok d (snd kv))"
  by (induction kvs) auto

lemma update_members_ok:
  "json_ok_members d acc \<Longrightarrow> valid_utf8 k \<Longrightarrow> json_ok d v \<Longrightarrow> json_ok_members d (AList.update k v acc)"
  by (induction acc) auto

lemma norm_ok:
  "json_ok d v \<Longrightarrow> json_ok d (norm v)"
  "json_ok_list d vs \<Longrightarrow> json_ok_list d (norm_list vs)"
  "json_ok_members d acc \<Longrightarrow> json_ok_members d kvs \<Longrightarrow> json_ok_members d (norm_members acc kvs)"
proof (induction v and vs and acc kvs arbitrary: d and d and d rule: norm_norm_list_norm_members.induct)
  case (2 kvs)
  then have "json_ok_members (d - 1) (norm_members [] kvs)" by simp
  then show ?case using 2 by (simp add: json_ok_members_iff)
qed (simp_all add: update_members_ok)

text \<open>\<open>canonicalJSON\<close> of the changelog package: the first value of the text, rewritten.\<close>

definition canonicalJSON :: "string \<Rightarrow> string option" where
  "canonicalJSON raw = (case parse_first raw of None \<Rightarrow> None | Some (v, _) \<Rightarrow> Some (marshal (norm v)))"

lemma parse_first_marshal: "json_ok maxNestingDepth v \<Longrightarrow> parse_first (marshal v) = Some (v, [])"
  using parse_marshal(1)[of maxNestingDepth v "[]" "json_fuel (marshal v)"]
  by (simp add: parse_first_def sep_def json_fuel_def)

lemma canonicalJSON_parse: "canonicalJSON raw = Some c \<Longrightarrow> \<exists>v r. parse_first raw = Some (v, r) \<and> parse_first c = Some (norm v, [])"
  using parse_first_marshal[OF norm_ok(1)[OF parse_ok(1)]]
  by (force simp: canonicalJSON_def parse_first_def[of raw] split: option.splits)

text \<open>Two texts have the same canonical form exactly when they hold the same value up to
  white space, the spelling of strings, the order of keys and overwritten keys.\<close>

lemma canonicalJSON_eq_iff:
  assumes "parse_first a = Some (v, r)" "parse_first b = Some (w, r')"
  shows "canonicalJSON a = canonicalJSON b \<longleftrightarrow> norm v = norm w"
proof
  assume "canonicalJSON a = canonicalJSON b"
  moreover have "canonicalJSON a = Some (marshal (norm v))" "canonicalJSON b = Some (marshal (norm w))"
    using assms by (simp_all add: canonicalJSON_def)
  ultimately show "norm v = norm w"
    using canonicalJSON_parse[of a] canonicalJSON_parse[of b] assms by fastforce
next
  assume "norm v = norm w"
  then show "canonicalJSON a = canonicalJSON b" using assms by (simp add: canonicalJSON_def)
qed

text \<open>Normalising again changes nothing.\<close>

definition normal_members :: "(string \<times> json) list \<Rightarrow> bool" where
  "normal_members kvs = (distinct (map fst kvs) \<and> sorted (map fst kvs))"

lemma distinct_norm_members: "distinct (map fst acc) \<Longrightarrow> distinct (map fst (norm_members acc kvs))"
proof (induction kvs arbitrary: acc)
  case Nil
  then show ?case by simp
next
  case (Cons kv kvs)
  then show ?case by (cases kv) (simp add: distinct_update)
qed

lemma update_append: "k \<notin> fst ` set acc \<Longrightarrow> AList.update k v acc = acc @ [(k, v)]"
  by (induction acc) auto

lemma norm_members_id:
  "distinct (map fst (acc @ kvs)) \<Longrightarrow> \<forall>kv \<in> set kvs. norm (snd kv) = snd kv \<Longrightarrow>
     norm_members acc kvs = acc @ kvs"
proof (induction kvs arbitrary: acc)
  case Nil
  then show ?case by simp
next
  case (Cons kv kvs)
  obtain k v where kv: "kv = (k, v)" by force
  have "AList.update k v acc = acc @ [(k, v)]" using Cons.prems(1) kv by (intro update_append) auto
  moreover have "norm_members (acc @ [(k, v)]) kvs = (acc @ [(k, v)]) @ kvs"
    using Cons.prems kv by (intro Cons.IH) auto
  ultimately show ?case using Cons.prems(2) kv by simp
qed

lemma norm_members_values:
  "\<forall>kv \<in> set acc. norm (snd kv) = snd kv \<Longrightarrow> \<forall>kv \<in> set kvs. norm (norm (snd kv)) = norm (snd kv) \<Longrightarrow>
     \<forall>kv \<in> set (norm_members acc kvs). norm (snd kv) = snd kv"
proof (induction kvs arbitrary: acc)
  case Nil
  then show ?case by simp
next
  case (Cons kv kvs)
  obtain k v where kv: "kv = (k, v)" by force
  have "\<forall>x \<in> set (AList.update k (norm v) acc). norm (snd x) = snd x"
    using Cons.prems kv by (induction acc) auto
  then show ?case using Cons.IH Cons.prems(2) kv by simp
qed

lemma sort_key_sorted: "sorted (map f xs) \<Longrightarrow> sort_key f xs = xs"
proof (induction xs)
  case Nil
  then show ?case by simp
next
  case (Cons x xs)
  then show ?case by (cases xs) auto
qed

lemma distinct_map_sort_key: "distinct (map f (sort_key f xs)) = distinct (map f xs)"
  by (induction xs) (simp_all add: distinct_insort_key)

lemma norm_idem:
  "norm (norm v) = norm v"
  "norm_list (norm_list vs) = norm_list vs"
  "(acc :: (string \<times> json) list) = acc \<and> (\<forall>kv \<in> set kvs. norm (norm (snd (kv :: string \<times> json))) = norm (snd kv))"
proof (induction v and vs and acc kvs rule: norm_norm_list_norm_members.induct)
  case (2 kvs)
  let ?m = "sort_key fst (norm_members [] kvs)"
  have "distinct (map fst ([] @ ?m))"
    using distinct_norm_members[of "[]" kvs] by (simp add: distinct_map_sort_key)
  moreover have "\<forall>kv \<in> set ?m. norm (snd kv) = snd kv"
    using norm_members_values[of "[]" kvs] 2 by simp
  ultimately have "norm_members [] ?m = ?m" using norm_members_id[of "[]" ?m] by simp
  then show ?case by (simp add: sort_key_sorted)
qed auto

text \<open>The canonical form of a JSON text is the canonical form of itself, and two texts have
  the same one exactly when they hold the same value (up to white space, the spelling of strings,
  the order of keys and overwritten keys).\<close>

theorem canonicalJSON_canonical:
  assumes "canonicalJSON a = Some c" "canonicalJSON b = Some d"
  shows "canonicalJSON c = Some c
    \<and> (c = d \<longleftrightarrow> norm (fst (the (parse_first a))) = norm (fst (the (parse_first b))))"
proof -
  from assms obtain v r w r' where v: "parse_first a = Some (v, r)" and w: "parse_first b = Some (w, r')"
    by (auto simp: canonicalJSON_def split: option.splits)
  have c: "c = marshal (norm v)" using assms(1) v by (simp add: canonicalJSON_def)
  have "parse_first c = Some (norm v, [])" using canonicalJSON_parse[OF assms(1)] v by simp
  then have "canonicalJSON c = Some c" by (simp add: canonicalJSON_def norm_idem(1) c)
  moreover have "c = d \<longleftrightarrow> norm v = norm w" using canonicalJSON_eq_iff[OF v w] assms by simp
  ultimately show ?thesis by (simp add: v w)
qed

theorem canonicalJSON_canonical_witness:
  "canonicalJSON ''[1,true]'' = Some ''[1,true]''"
proof -
  let ?n = "Suc (Suc (Suc (Suc 0)))"
  have "parse_val ?n maxNestingDepth '' [1, true]'' = Some (JArr [JNum ''1'', JBool True], [])"
    by (simp add: maxNestingDepth_def skip_ws_def json_ws_def byte_def parse_scalar_def literal_def
        parse_num_def parse_int_def parse_frac_def parse_exp_def is_digit_def)
  from parse_first_enough[OF this] have "canonicalJSON '' [1, true]'' = Some ''[1,true]''"
    by (simp add: canonicalJSON_def)
  from canonicalJSON_canonical[OF this this] show ?thesis by simp
qed

end
