(* ===== verification/Rows.thy ===== *)
theory Rows
  imports Json
begin

text \<open>
  The result data of \<open>flinksqlgateway/types.go\<close> (logical types, columns, rows, pages) and the
  raw access of \<open>decoder.go\<close>: \<open>validateRawJSONField\<close> and the \<open>RowAccessor\<close> look-ups by
  column name.  The clone functions copy memory only and are the identity on these values.
  The open string types of the source (row kinds, result types) stay strings.
\<close>

datatype logical_type = LogicalType
    (ltType: string) (Nullable: bool)
    (Length: "int option") (Precision: "int option") (Scale: "int option") (FractionalPrecision: "int option")
    (Resolution: string)
    (ElementType: "logical_type option") (KeyType: "logical_type option") (ValueType: "logical_type option")
    (ltFields: "logical_type_field list") (ltRaw: string)
and logical_type_field = LogicalTypeField
    (fieldName: string) (fieldLogicalType: "logical_type option") (fieldType: "logical_type option")
    (fieldDescription: string)

record column_info =
  colName :: string
  colLogicalType :: logical_type
  colComment :: "string option"

abbreviation "RowInsert \<equiv> ''INSERT''"
abbreviation "RowUpdateBefore \<equiv> ''UPDATE_BEFORE''"
abbreviation "RowUpdateAfter \<equiv> ''UPDATE_AFTER''"
abbreviation "RowDelete \<equiv> ''DELETE''"

record row =
  Kind :: string
  Fields :: "string list"

abbreviation "ResultNotReady \<equiv> ''NOT_READY''"
abbreviation "ResultPayload \<equiv> ''PAYLOAD''"
abbreviation "ResultEOS \<equiv> ''EOS''"

record result_info =
  Columns :: "column_info list"
  riRowFormat :: string
  Data :: "row list"

record result_page =
  ResultType :: string
  ResultKind :: string
  QueryResult :: bool
  JobID :: string
  NextResultURI :: string
  Results :: "result_info option"
  pageRaw :: string
  ResponseBytes :: int

text \<open>\<open>OperationStatus\<close>.\<close>

definition Terminal :: "string \<Rightarrow> bool" where
  "Terminal s = (s \<in> {''FINISHED'', ''CANCELED'', ''CLOSED'', ''ERROR'', ''TIMEOUT''})"

definition Successful :: "string \<Rightarrow> bool" where
  "Successful s = (s = ''FINISHED'')"

lemma Successful_Terminal: "Successful s \<Longrightarrow> Terminal s"
  by (simp add: Successful_def Terminal_def)

section \<open>Raw fields\<close>

definition validateRawJSONField :: "string \<Rightarrow> goerr option" where
  "validateRawJSONField raw =
     (let trimmed = trim_space raw in
      if trimmed = [] then Some (Errorf ''empty JSON field'' [])
      else if \<not> json_valid trimmed then Some (Errorf ''invalid JSON field'' [])
      else None)"

lemma validateRawJSONField_None:
  "validateRawJSONField raw = None \<longleftrightarrow> trim_space raw \<noteq> [] \<and> json_valid (trim_space raw)"
  by (simp add: validateRawJSONField_def Let_def)

record row_accessor =
  accRow :: row
  accColumns :: "column_info list"

definition WithColumns :: "row \<Rightarrow> column_info list \<Rightarrow> row_accessor" where
  "WithColumns r cols = \<lparr>accRow = r, accColumns = cols\<rparr>"

fun find_column :: "nat \<Rightarrow> column_info list \<Rightarrow> string \<Rightarrow> nat option" where
  "find_column i [] name = None"
| "find_column i (c # cs) name = (if colName c = name then Some i else find_column (Suc i) cs name)"

definition columnIndex :: "row_accessor \<Rightarrow> string \<Rightarrow> (goerr, nat) result" where
  "columnIndex acc name =
     (if accColumns acc = [] then Inl (Errorf ''flinksqlgateway: row has no bound column metadata'' [])
      else case find_column 0 (accColumns acc) name of
        Some index \<Rightarrow>
          if index \<ge> length (Fields (accRow acc))
          then Inl (Errorf ''flinksqlgateway: row has no field for column %q'' [ArgText name])
          else Inr index
      | None \<Rightarrow> Inl (Errorf ''flinksqlgateway: column %q was not found'' [ArgText name]))"

text \<open>The value and whether it is SQL NULL; a negative index is out of range too.\<close>

definition RawAt :: "row_accessor \<Rightarrow> int \<Rightarrow> (goerr, string \<times> bool) result" where
  "RawAt acc index =
     (if index < 0 \<or> index \<ge> int (length (Fields (accRow acc)))
      then Inl (Errorf ''flinksqlgateway: column index %d is out of range'' [ArgText (itoa index)])
      else let raw = Fields (accRow acc) ! nat index in
        case validateRawJSONField raw of
          Some err \<Rightarrow> Inl (Errorf ''flinksqlgateway: column index %d has an invalid field: %w''
                 [ArgText (itoa index), ArgWrap err])
        | None \<Rightarrow> Inr (raw, trim_space raw = ''null''))"

definition Raw :: "row_accessor \<Rightarrow> string \<Rightarrow> (goerr, string \<times> bool) result" where
  "Raw acc name = and_then (columnIndex acc name) (\<lambda>index. RawAt acc (int index))"

lemma find_column_Some:
  "find_column i cs name = Some j \<longleftrightarrow>
     i \<le> j \<and> j - i < length cs \<and> colName (cs ! (j - i)) = name \<and> (\<forall>k < j - i. colName (cs ! k) \<noteq> name)"
proof (induction i cs name arbitrary: j rule: find_column.induct)
  case (1 i name)
  then show ?case by simp
next
  case (2 i c cs name)
  show ?case
  proof (cases "colName c = name")
    case True
    then show ?thesis by (auto simp: less_Suc_eq_0_disj nth_Cons split: nat.splits)
  next
    case False
    show ?thesis
    proof (cases "Suc i \<le> j")
      case True
      then obtain m where m: "j - i = Suc m" "j - Suc i = m" by (metis Suc_diff_le diff_Suc_Suc)
      have "(\<forall>k < Suc m. colName ((c # cs) ! k) \<noteq> name) = (\<forall>k < m. colName (cs ! k) \<noteq> name)"
        using False by (auto simp: less_Suc_eq_0_disj)
      then show ?thesis using 2[OF False] False True m by simp
    next
      case nle: False
      then show ?thesis using 2[OF False] False by (auto simp: nth_Cons split: nat.splits)
    qed
  qed
qed

lemma columnIndex_Inr:
  "columnIndex acc name = Inr i \<longleftrightarrow>
     i < length (accColumns acc) \<and> i < length (Fields (accRow acc)) \<and> colName (accColumns acc ! i) = name
     \<and> (\<forall>k < i. colName (accColumns acc ! k) \<noteq> name)"
proof -
  have "columnIndex acc name = Inr i \<longleftrightarrow>
      find_column 0 (accColumns acc) name = Some i \<and> i < length (Fields (accRow acc))"
    by (cases "accColumns acc") (auto simp: columnIndex_def split: option.splits)
  then show ?thesis by (auto simp: find_column_Some)
qed

text \<open>Reading a column by name returns the field of the first column with that name,
  unchanged, and only if it is a present and valid JSON text; NULL is reported exactly for the
  JSON literal \<open>null\<close>.\<close>

theorem Raw_first_column:
  assumes "Raw (WithColumns r cols) name = Inr (raw, isNull)"
  shows "\<exists>i < length cols. i < length (Fields r) \<and> colName (cols ! i) = name
    \<and> (\<forall>k < i. colName (cols ! k) \<noteq> name) \<and> raw = Fields r ! i
    \<and> json_valid (trim_space raw) \<and> (isNull \<longleftrightarrow> trim_space raw = ''null'')"
proof -
  from assms obtain i where i: "columnIndex (WithColumns r cols) name = Inr i"
    and at: "RawAt (WithColumns r cols) (int i) = Inr (raw, isNull)"
    by (auto simp: Raw_def and_then_Inr_iff)
  have "raw = Fields r ! i \<and> validateRawJSONField raw = None \<and> (isNull \<longleftrightarrow> trim_space raw = ''null'')"
    using at by (auto simp: RawAt_def WithColumns_def Let_def split: if_splits option.splits)
  then show ?thesis
    using i by (auto simp: columnIndex_Inr WithColumns_def validateRawJSONField_None)
qed

definition example_column :: "string \<Rightarrow> column_info" where
  "example_column n = \<lparr>colName = n,
     colLogicalType = LogicalType ''INT'' True None None None None [] None None None [] [], colComment = None\<rparr>"

theorem Raw_first_column_witness:
  "\<exists>i < 2. ''1'' = [''1'', ''2''] ! i \<and> json_valid (trim_space ''1'')"
proof -
  have t: "trim_space ''1'' = ''1''" by (simp add: trim_space_def byte_def is_space_def)
  have "parse_val (Suc 0) maxNestingDepth ''1'' = Some (JNum ''1'', [])"
    by (simp add: skip_ws_def json_ws_def byte_def parse_scalar_def
        parse_num_def parse_int_def parse_frac_def parse_exp_def is_digit_def)
  from parse_first_enough[OF this] have "json_valid ''1''"
    by (simp add: json_valid_def parse_json_def skip_ws_def)
  then have "Raw (WithColumns \<lparr>Kind = RowInsert, Fields = [''1'', ''2'']\<rparr> [example_column ''a'', example_column ''a'']) ''a''
      = Inr (''1'', False)"
    by (simp add: Raw_def columnIndex_def RawAt_def WithColumns_def example_column_def validateRawJSONField_def t)
  from Raw_first_column[OF this] show ?thesis by (auto simp: numeral_2_eq_2)
qed

end
