(* ===== verification/Activity.thy ===== *)
theory Activity
  imports GoErrors
begin

text \<open>
  \<open>flinksqlgateway/activity.go\<close>: the group that counts the running executions of a client or a session so that
  its owner can refuse new ones and wait for the rest.  A channel is a number; \<open>closedChans\<close> are the channels
  that have been closed.  The methods hold the mutex for their whole body, so each is one step; only \<open>wait\<close>
  leaves it, with the channel it has read.
\<close>

record activity =
  agClosed :: bool
  closedErr :: sentinel
  active :: nat
  idleChan :: nat
  closedChans :: "nat list"
  agStreams :: "nat list"

definition newActivityGroup :: "sentinel \<Rightarrow> activity" where
  "newActivityGroup err = \<lparr>agClosed = False, closedErr = err, active = 0, idleChan = 0, closedChans = [0], agStreams = []\<rparr>"

definition ag_begin :: "activity \<Rightarrow> goerr option \<times> activity" where
  "ag_begin g =
     (if agClosed g then (Some (Sentinel (closedErr g)), g)
      else (let g1 = (if active g = 0 then g\<lparr>idleChan := idleChan g + 1\<rparr> else g) in (None, g1\<lparr>active := active g1 + 1\<rparr>)))"

definition ag_end :: "activity \<Rightarrow> activity" where
  "ag_end g =
     (if active g = 0 then g
      else (let g1 = g\<lparr>active := active g - 1\<rparr> in if active g1 = 0 then g1\<lparr>closedChans := idleChan g1 # closedChans g1\<rparr> else g1))"

definition ag_registerStream :: "nat \<Rightarrow> activity \<Rightarrow> goerr option \<times> activity" where
  "ag_registerStream stream g =
     (if agClosed g then (Some (Sentinel (closedErr g)), g) else (None, g\<lparr>agStreams := List.insert stream (agStreams g)\<rparr>))"

definition ag_unregisterStream :: "nat \<Rightarrow> activity \<Rightarrow> activity" where
  "ag_unregisterStream stream g = g\<lparr>agStreams := removeAll stream (agStreams g)\<rparr>"

definition ag_stop :: "activity \<Rightarrow> nat list \<times> activity" where
  "ag_stop g = (agStreams g, g\<lparr>agClosed := True\<rparr>)"

text \<open>\<open>wait\<close>: the channel is read first; the caller returns without an error once that channel is closed.\<close>

definition wait_channel :: "activity \<Rightarrow> nat" where
  "wait_channel g = idleChan g"

definition wait_over :: "nat \<Rightarrow> activity \<Rightarrow> bool" where
  "wait_over ch g = (ch \<in> set (closedChans g))"

definition ag_isClosed :: "activity \<Rightarrow> bool" where
  "ag_isClosed g = agClosed g"

section \<open>Any order of calls\<close>

inductive ag_step :: "activity \<Rightarrow> activity \<Rightarrow> bool" where
  step_begin: "ag_step g (snd (ag_begin g))"
| step_end: "ag_step g (ag_end g)"
| step_register: "ag_step g (snd (ag_registerStream i g))"
| step_unregister: "ag_step g (ag_unregisterStream i g)"
| step_stop: "ag_step g (snd (ag_stop g))"

definition ag_inv :: "activity \<Rightarrow> bool" where
  "ag_inv g = ((active g = 0 \<longleftrightarrow> idleChan g \<in> set (closedChans g)) \<and> (\<forall>ch \<in> set (closedChans g). ch \<le> idleChan g))"

lemma ag_inv_new [intro]: "ag_inv (newActivityGroup err)"
  by (simp add: ag_inv_def newActivityGroup_def)

lemma ag_step_inv [go_inv]: "ag_step g g' \<Longrightarrow> ag_inv g \<Longrightarrow> ag_inv g'"
  by (erule ag_step.cases)
    (fastforce simp: ag_inv_def ag_begin_def ag_end_def ag_registerStream_def ag_unregisterStream_def ag_stop_def Let_def)+

lemma ag_steps_inv: "ag_step\<^sup>*\<^sup>* g g' \<Longrightarrow> ag_inv g \<Longrightarrow> ag_inv g'"
  by (induction rule: rtranclp_induct) (auto intro: ag_step_inv)

lemma ag_step_closed: "ag_step g g' \<Longrightarrow> agClosed g \<Longrightarrow> agClosed g' \<and> idleChan g' = idleChan g \<and> active g' \<le> active g"
  by (erule ag_step.cases)
    (auto simp: ag_begin_def ag_end_def ag_registerStream_def ag_unregisterStream_def ag_stop_def Let_def)

lemma ag_steps_closed: "ag_step\<^sup>*\<^sup>* g g' \<Longrightarrow> agClosed g \<Longrightarrow> agClosed g' \<and> idleChan g' = idleChan g \<and> active g' \<le> active g"
  by (induction rule: rtranclp_induct) (fastforce dest: ag_step_closed)+

text \<open>Once a group is stopped, a wait that returns finds no activity running, and none ever runs again: no execution
  slips in between the stop and the wait or after it, whatever the order of the calls.\<close>

theorem wait_after_stop:
  assumes "ag_step\<^sup>*\<^sup>* (newActivityGroup err) g" "agClosed g" "ag_step\<^sup>*\<^sup>* g g1" "wait_over (wait_channel g) g1" "ag_step\<^sup>*\<^sup>* g1 g2"
  shows "active g1 = 0 \<and> active g2 = 0 \<and> fst (ag_begin g2) = Some (Sentinel (closedErr g2))"
proof -
  have inv: "ag_inv g1" using ag_steps_inv[OF assms(3)] ag_steps_inv[OF assms(1)] by auto
  have c1: "agClosed g1" "idleChan g1 = idleChan g" using ag_steps_closed[OF assms(3,2)] by auto
  have "active g1 = 0" using inv assms(4) c1(2) by (simp add: ag_inv_def wait_over_def wait_channel_def)
  then show ?thesis using ag_steps_closed[OF assms(5) c1(1)] by (simp add: ag_begin_def)
qed

theorem wait_after_stop_witness:
  "active (ag_end (snd (ag_stop (snd (ag_begin (newActivityGroup ErrClientClosed)))))) = 0"
proof -
  define g0 where "g0 = newActivityGroup ErrClientClosed"
  define g1 where "g1 = snd (ag_begin g0)"
  define g2 where "g2 = snd (ag_stop g1)"
  define g3 where "g3 = ag_end g2"
  have v: "agClosed g2" "wait_over (wait_channel g2) g3"
    by (simp_all add: g3_def g2_def g1_def g0_def ag_stop_def ag_begin_def ag_end_def newActivityGroup_def
        wait_over_def wait_channel_def Let_def)
  have "ag_step\<^sup>*\<^sup>* g0 g1" unfolding g1_def by (rule r_into_rtranclp, rule step_begin)
  then have 1: "ag_step\<^sup>*\<^sup>* g0 g2" unfolding g2_def by (rule rtranclp.rtrancl_into_rtrancl) (rule step_stop)
  have 2: "ag_step\<^sup>*\<^sup>* g2 g3" unfolding g3_def by (rule r_into_rtranclp, rule step_end)
  have "active g3 = 0"
    using wait_after_stop[OF 1[unfolded g0_def] v(1) 2 v(2) rtranclp.rtrancl_refl] by blast
  then show ?thesis unfolding g3_def g2_def g1_def g0_def .
qed

text \<open>Ends that are not matched by a begin change nothing, and a group counts exactly its running activities.\<close>

lemma ag_end_idle: "active g = 0 \<Longrightarrow> ag_end g = g"
  by (simp add: ag_end_def)

lemma ag_begin_end: "\<not> agClosed g \<Longrightarrow> active (ag_end (snd (ag_begin g))) = active g"
  by (simp add: ag_begin_def ag_end_def Let_def)

end
