(* ===== verification/Transport.thy ===== *)
theory Transport
  imports Compatibility Rows Activity
begin

text \<open>
  \<open>flinksqlgateway/transport.go\<close> with the fields of \<open>GatewayClient\<close> (\<open>client.go\<close>) it uses: one HTTP
  exchange with its progress and its error classification (\<open>doJSONOnce\<close>), and the retry loop
  over it (\<open>doJSON\<close>).  The network, the clock and the callbacks are an environment over a state
  \<open>'w\<close>; \<open>net/url\<close> parsing and printing and \<open>net/http\<close> are arguments of it.
\<close>

section \<open>Decoding into a struct\<close>

text \<open>\<open>json.Unmarshal\<close> into the string fields of a struct: keys are matched without case, a later
  key overwrites an earlier one, \<open>null\<close> changes nothing, and a value of another type is an error
  that leaves the field and does not stop the decoding.\<close>

definition values_of :: "string \<Rightarrow> (string \<times> json) list \<Rightarrow> json list" where
  "values_of name kvs = map snd (filter (\<lambda>(k, v). equal_fold k name) kvs)"

fun set_string :: "json \<Rightarrow> string \<Rightarrow> string" where
  "set_string (JStr s) old = s"
| "set_string _ old = old"

definition string_kind :: "json \<Rightarrow> bool" where
  "string_kind v = (case v of JStr s \<Rightarrow> True | JNull \<Rightarrow> True | _ \<Rightarrow> False)"

definition string_field :: "string \<Rightarrow> (string \<times> json) list \<Rightarrow> string" where
  "string_field name kvs = foldl (\<lambda>old v. set_string v old) [] (values_of name kvs)"

definition string_field_ok :: "string \<Rightarrow> (string \<times> json) list \<Rightarrow> bool" where
  "string_field_ok name kvs = list_all string_kind (values_of name kvs)"

text \<open>Decoding an array over the slice that is there: elements are decoded in place.\<close>

fun set_elems :: "string list \<Rightarrow> json list \<Rightarrow> string list" where
  "set_elems old [] = []"
| "set_elems old (v # vs) = set_string v (case old of [] \<Rightarrow> [] | o1 # _ \<Rightarrow> o1) # set_elems (tl old) vs"

fun set_strings :: "json \<Rightarrow> string list \<Rightarrow> string list" where
  "set_strings (JArr vs) old = set_elems old vs"
| "set_strings JNull old = []"
| "set_strings _ old = old"

definition strings_kind :: "json \<Rightarrow> bool" where
  "strings_kind v = (case v of JArr vs \<Rightarrow> list_all string_kind vs | JNull \<Rightarrow> True | _ \<Rightarrow> False)"

definition strings_field :: "string \<Rightarrow> (string \<times> json) list \<Rightarrow> string list" where
  "strings_field name kvs = foldl (\<lambda>old v. set_strings v old) [] (values_of name kvs)"

definition strings_field_ok :: "string \<Rightarrow> (string \<times> json) list \<Rightarrow> bool" where
  "strings_field_ok name kvs = list_all strings_kind (values_of name kvs)"

definition json_syntax_error :: goerr where "json_syntax_error = Errorf ''invalid JSON'' []"
definition json_type_error :: goerr where "json_type_error = Errorf ''json: cannot unmarshal'' []"

text \<open>A struct of which \<open>get\<close> reads the fields and \<open>good\<close> tells whether their types are right.\<close>

definition unmarshal_struct ::
  "((string \<times> json) list \<Rightarrow> 'd) \<Rightarrow> ((string \<times> json) list \<Rightarrow> bool) \<Rightarrow> string \<Rightarrow> (goerr, 'd) result" where
  "unmarshal_struct get good data =
     (case parse_json data of
        None \<Rightarrow> Inl json_syntax_error
      | Some JNull \<Rightarrow> Inr (get [])
      | Some (JObj kvs) \<Rightarrow> if good kvs then Inr (get kvs) else Inl json_type_error
      | Some _ \<Rightarrow> Inl json_type_error)"

section \<open>Progress of a request\<close>

type_synonym request_progress = nat

abbreviation (input) "requestProgressNotSent \<equiv> 0::nat"
abbreviation (input) "requestProgressPossiblySent \<equiv> 1::nat"
abbreviation (input) "requestProgressWritten \<equiv> 2::nat"
abbreviation (input) "requestProgressResponseStarted \<equiv> 3::nat"

text \<open>The loop of \<open>advanceRequestProgress\<close> for a callback that is alone.\<close>

definition advanceRequestProgress :: "request_progress \<Rightarrow> request_progress \<Rightarrow> request_progress" where
  "advanceRequestProgress progress nxt = (if progress \<ge> nxt then progress else nxt)"

definition requestPhaseForProgress :: "request_progress \<Rightarrow> request_phase" where
  "requestPhaseForProgress p =
     (if p = requestProgressPossiblySent then RequestPossiblySent
      else if p = requestProgressWritten then ResponseHeaderMissing
      else if p = requestProgressResponseStarted then ResponseBodyIncomplete
      else RequestNotSent)"

text \<open>The callbacks of \<open>httptrace\<close> the request installs; \<open>WroteRequest\<close> tells whether it failed.\<close>

datatype trace_event = WroteHeaders | WroteRequest bool | GotFirstResponseByte

fun event_progress :: "trace_event \<Rightarrow> request_progress" where
  "event_progress WroteHeaders = requestProgressPossiblySent"
| "event_progress (WroteRequest failed) =
     (if \<not> failed then requestProgressWritten else requestProgressPossiblySent)"
| "event_progress GotFirstResponseByte = requestProgressResponseStarted"

definition trace_progress :: "trace_event list \<Rightarrow> request_progress" where
  "trace_progress events = foldl (\<lambda>p e. advanceRequestProgress p (event_progress e)) requestProgressNotSent events"

subsection \<open>Callbacks that run at the same time\<close>

text \<open>The loop of \<open>advanceRequestProgress\<close> step by step: load the counter and stop when it has reached the
  stage, otherwise compare and swap, starting over when another callback was faster.\<close>

datatype advance_local = Start | Loaded nat | Stopped

inductive advance_step :: "nat list \<Rightarrow> nat \<times> advance_local list \<Rightarrow> nat \<times> advance_local list \<Rightarrow> bool"
  for nexts where
  load_done: "i < length ls \<Longrightarrow> ls ! i = Start \<Longrightarrow> p \<ge> nexts ! i \<Longrightarrow> advance_step nexts (p, ls) (p, ls[i := Stopped])"
| load: "i < length ls \<Longrightarrow> ls ! i = Start \<Longrightarrow> p < nexts ! i \<Longrightarrow> advance_step nexts (p, ls) (p, ls[i := Loaded p])"
| swap: "i < length ls \<Longrightarrow> ls ! i = Loaded p \<Longrightarrow> advance_step nexts (p, ls) (nexts ! i, ls[i := Stopped])"
| retry: "i < length ls \<Longrightarrow> ls ! i = Loaded c \<Longrightarrow> c \<noteq> p \<Longrightarrow> advance_step nexts (p, ls) (p, ls[i := Start])"

inductive advance_reach :: "nat list \<Rightarrow> nat \<Rightarrow> nat \<times> advance_local list \<Rightarrow> bool" for nexts p0 where
  advance_init: "advance_reach nexts p0 (p0, replicate (length nexts) Start)"
| advance_next: "advance_reach nexts p0 c \<Longrightarrow> advance_step nexts c c' \<Longrightarrow> advance_reach nexts p0 c'"

inductive_cases advance_stepE: "advance_step nexts (p, ls) c'"

definition advance_inv :: "nat list \<Rightarrow> nat \<Rightarrow> nat \<times> advance_local list \<Rightarrow> bool" where
  "advance_inv nexts p0 c = (case c of (p, ls) \<Rightarrow>
     length ls = length nexts \<and> p0 \<le> p \<and> (p = p0 \<or> p \<in> set nexts) \<and>
     (\<forall>i < length ls. (ls ! i = Stopped \<longrightarrow> nexts ! i \<le> p) \<and> (\<forall>q. ls ! i = Loaded q \<longrightarrow> q < nexts ! i \<and> q \<le> p)))"

lemma advance_step_inv:
  assumes "advance_step nexts c c'" "advance_inv nexts p0 c"
  shows "advance_inv nexts p0 c' \<and> fst c \<le> fst c'"
  using assms
proof (induction rule: advance_step.induct)
  case (swap i ls p)
  then have "p < nexts ! i" by (auto simp: advance_inv_def)
  then have le: "x \<le> nexts ! i" if "x \<le> p" for x using that by simp
  have "nexts ! i \<in> set nexts" using swap by (simp add: advance_inv_def)
  then show ?case using swap \<open>p < nexts ! i\<close>
    by (auto simp: advance_inv_def nth_list_update intro: le)
qed (auto simp: advance_inv_def nth_list_update)

lemma advance_reach_inv: "advance_reach nexts p0 c \<Longrightarrow> advance_inv nexts p0 c"
proof (induction rule: advance_reach.induct)
  case advance_init
  then show ?case by (simp add: advance_inv_def)
qed (blast dest: advance_step_inv)

text \<open>However the callbacks interleave, the progress never goes back, and when all have returned it is the
  furthest stage any of them reported, as if they had run one after the other.\<close>

theorem advance_concurrent:
  assumes "advance_reach nexts p0 (p, ls)"
  shows "p0 \<le> p \<and> (advance_step nexts (p, ls) (p', ls') \<longrightarrow> p \<le> p') \<and>
    (list_all (\<lambda>l. l = Stopped) ls \<longrightarrow> p = foldl advanceRequestProgress p0 nexts)"
proof -
  have inv: "advance_inv nexts p0 (p, ls)" by (rule advance_reach_inv[OF assms])
  have fold: "foldl advanceRequestProgress x xs = (if xs = [] then x else max x (Max (set xs)))" for x xs
    by (induction xs arbitrary: x) (auto simp: advanceRequestProgress_def max_def)
  have "p = foldl advanceRequestProgress p0 nexts" if all: "list_all (\<lambda>l. l = Stopped) ls"
  proof (cases "nexts = []")
    case True
    then show ?thesis using inv by (simp add: advance_inv_def)
  next
    case False
    have "x \<le> p" if "x \<in> set nexts" for x
      using that all inv by (auto simp: advance_inv_def list_all_length in_set_conv_nth)
    then have "Max (set nexts) \<le> p" using False by simp
    moreover have "p = p0 \<or> p \<le> Max (set nexts)" "p0 \<le> p" using inv by (auto simp: advance_inv_def)
    ultimately have "p = max p0 (Max (set nexts))" by linarith
    then show ?thesis using False fold[of p0 nexts] by simp
  qed
  then show ?thesis using inv advance_step_inv[OF _ inv, of "(p', ls')"] by (auto simp: advance_inv_def)
qed

theorem advance_concurrent_witness:
  "(0::nat) \<le> 2 \<and> 2 = foldl advanceRequestProgress 0 [1, 2]"
proof -
  let ?n = "[1, 2::nat]"
  have 0: "advance_reach ?n 0 (0, [Start, Start])" using advance_init[of ?n 0] by (simp add: numeral_2_eq_2)
  have "advance_step ?n (0, [Start, Start]) (0, [Loaded 0, Start])" using advance_step.load[of 0 "[Start, Start]" 0 ?n] by simp
  from advance_next[OF 0 this] have 1: "advance_reach ?n 0 (0, [Loaded 0, Start])" .
  have "advance_step ?n (0, [Loaded 0, Start]) (0, [Loaded 0, Loaded 0])" using advance_step.load[of 1 "[Loaded 0, Start]" 0 ?n] by simp
  from advance_next[OF 1 this] have 2: "advance_reach ?n 0 (0, [Loaded 0, Loaded 0])" .
  have "advance_step ?n (0, [Loaded 0, Loaded 0]) (2, [Loaded 0, Stopped])" using advance_step.swap[of 1 "[Loaded 0, Loaded 0]" 0 ?n] by simp
  from advance_next[OF 2 this] have 3: "advance_reach ?n 0 (2, [Loaded 0, Stopped])" .
  have "advance_step ?n (2, [Loaded 0, Stopped]) (2, [Start, Stopped])" using advance_step.retry[of 0 "[Loaded 0, Stopped]" 0 2 ?n] by simp
  from advance_next[OF 3 this] have 4: "advance_reach ?n 0 (2, [Start, Stopped])" .
  have "advance_step ?n (2, [Start, Stopped]) (2, [Stopped, Stopped])" using advance_step.load_done[of 0 "[Start, Stopped]" ?n 2] by simp
  from advance_next[OF 4 this] have "advance_reach ?n 0 (2, [Stopped, Stopped])" .
  from advance_concurrent[OF this, of 2 "[]"] show ?thesis by simp
qed

section \<open>The client and its environment\<close>

record session_record =
  srHandle :: string
  srName :: string
  srProperties :: "(string \<times> string) list"

text \<open>The fields of \<open>GatewayClient\<close> that requests and sessions use, and the world they act on.  Streams and managed
  sessions are known by a number, the value of \<open>allocated\<close> when they were created; \<open>heartbeats\<close> are the handles with a
  runner.\<close>

record 'w client =
  versions :: version_state
  sessions :: "(string \<times> session_record) list"
  closedSessions :: "string list"
  closedOrder :: "string list"
  clientClosed :: bool
  heartbeats :: "string list"
  managed :: "nat list"
  streams :: "nat list"
  allocated :: nat
  executions :: activity
  world :: 'w

text \<open>A request as \<open>doJSONOnce\<close> builds it; the headers are the calls of \<open>Header.Set\<close> in order.\<close>

record http_request =
  reqMethod :: string
  reqTarget :: go_url
  reqBody :: "string option"
  reqHeaders :: "(string \<times> string) list"

text \<open>An error of \<open>http.Client.Do\<close> or of the context: the error itself, its text, the parts of the
  \<open>url.Error\<close> in its chain (operation, URL, text of the inner error), and its \<open>net.Error\<close> methods.\<close>

record transport_failure =
  tfErr :: goerr
  tfText :: string
  tfURL :: "(string \<times> string \<times> string option) option"
  tfTimeout :: bool
  tfTemporary :: bool

text \<open>A response: its status, the bytes its body yields and the error that ends them, if any.\<close>

record http_response =
  StatusCode :: int
  Body :: string
  BodyErr :: "goerr option"

record request_observation =
  obsMethod :: string
  obsEndpoint :: string
  obsStatus :: int
  obsErr :: "goerr option"

text \<open>\<open>Observation\<close>, with the zero values of the fields an event does not set.\<close>

record lifecycle_observation =
  loEvent :: string
  loMethod :: string
  loEndpoint :: string
  loSession :: string
  loOperation :: string
  loJobID :: string
  loRows :: int
  loError :: "goerr option"
  loPreviousHealth :: string
  loCurrentHealth :: string
  loStepIndex :: int
  loStepKind :: step_kind
  loTarget :: sql_ident

definition no_observation :: lifecycle_observation where
  "no_observation = \<lparr>loEvent = [], loMethod = [], loEndpoint = [], loSession = [], loOperation = [], loJobID = [],
     loRows = 0, loError = None, loPreviousHealth = [], loCurrentHealth = [], loStepIndex = 0, loStepKind = StepUnset,
     loTarget = no_identifier\<rparr>"

record session_context =
  scHandle :: string
  scName :: string
  scProperties :: "(string \<times> string) list"

text \<open>The environment.  A context is a value \<open>'c\<close>: \<open>ctx_err\<close> is \<open>ctx.Err()\<close>, \<open>ctx_with_timeout\<close> a context with
  a deadline, \<open>ctx_internal\<close> and \<open>ctx_redaction\<close> the two values the client stores in contexts, \<open>ctx_with_cleanup\<close> and
  \<open>ctx_with_redaction\<close> store them, and \<open>ctx_remaining\<close> is the time to the deadline, if there is one.\<close>

record ('w, 'c) transport_env =
  exchange :: "'c \<Rightarrow> http_request \<Rightarrow> 'w \<Rightarrow> (trace_event list \<times> (transport_failure, http_response) result) \<times> 'w"
  ctx_err :: "'c \<Rightarrow> 'w \<Rightarrow> goerr option"
  ctx_with_timeout :: "int \<Rightarrow> 'c \<Rightarrow> 'w \<Rightarrow> 'c"
  ctx_merge :: "'c \<Rightarrow> 'c"
  ctx_internal :: "'c \<Rightarrow> bool"
  ctx_redaction :: "'c \<Rightarrow> serverMessageRedaction"
  ctx_with_redaction :: "serverMessageRedaction \<Rightarrow> 'c \<Rightarrow> 'c"
  ctx_background :: 'c
  ctx_with_cleanup :: "'c \<Rightarrow> 'c"
  ctx_remaining :: "'c \<Rightarrow> 'w \<Rightarrow> int option"
  wait :: "'c \<Rightarrow> int \<Rightarrow> 'w \<Rightarrow> goerr option \<times> 'w"
  observe_request :: "request_observation \<Rightarrow> 'w \<Rightarrow> 'w"
  observe_lifecycle :: "lifecycle_observation \<Rightarrow> 'w \<Rightarrow> 'w"
  validator :: "'c \<Rightarrow> session_context \<Rightarrow> string \<Rightarrow> 'w \<Rightarrow> goerr option \<times> 'w"
  new_request_err :: "string \<Rightarrow> go_url \<Rightarrow> goerr option"
  url_string :: "go_url \<Rightarrow> string"
  escaped_path :: "go_url \<Rightarrow> string"
  parse_url :: "string \<Rightarrow> (goerr, go_url) result"
  parse_endpoint :: "string \<Rightarrow> go_url"
  base_url :: go_url
  query_set :: "string \<Rightarrow> (string \<times> string) list \<Rightarrow> string"
  resolve_path :: "string \<Rightarrow> string \<Rightarrow> string"
  is_print :: "nat \<Rightarrow> bool"

section \<open>Errors\<close>

text \<open>\<open>strconv.Quote\<close>; which runes beyond ASCII are printable is \<open>unicode.IsPrint\<close>, an argument.\<close>

definition hex_digits :: "nat \<Rightarrow> nat \<Rightarrow> string" where
  "hex_digits n r = map (\<lambda>i. hex_lower (r div 16 ^ (n - 1 - i) mod 16)) [0..<n]"

definition quote_rune :: "(nat \<Rightarrow> bool) \<Rightarrow> nat \<times> string \<Rightarrow> string" where
  "quote_rune printable rb =
     (let r = fst rb in
      if invalid_step rb then bslash # CHR ''x'' # hex_digits 2 (byte (hd (snd rb)))
      else if r = 0x22 \<or> r = 0x5C then [bslash, chr r]
      else if 0x20 \<le> r \<and> r < 0x7F \<or> 0x80 \<le> r \<and> printable r then snd rb
      else if r = 7 then bslash # ''a'' else if r = 8 then bslash # ''b'' else if r = 12 then bslash # ''f''
      else if r = 10 then bslash # ''n'' else if r = 13 then bslash # ''r'' else if r = 9 then bslash # ''t''
      else if r = 11 then bslash # ''v''
      else if r < 0x20 \<or> r = 0x7F then bslash # CHR ''x'' # hex_digits 2 r
      else if r < 0x10000 then bslash # CHR ''u'' # hex_digits 4 r
      else bslash # CHR ''U'' # hex_digits 8 r)"

definition go_quote :: "(nat \<Rightarrow> bool) \<Rightarrow> string \<Rightarrow> string" where
  "go_quote printable s = quot # concat (map (quote_rune printable) (runes s)) @ [quot]"

definition sanitizeTransportURL :: "('w, 'c) transport_env \<Rightarrow> string \<Rightarrow> string" where
  "sanitizeTransportURL env rawURL =
     (case parse_url env rawURL of
        Inl err \<Rightarrow> stars
      | Inr parsed \<Rightarrow> (let path = sanitizeEndpointPath (escaped_path env parsed) in if path = [] then ''/'' else path))"

definition or_failed :: "string \<Rightarrow> string" where
  "or_failed message = (if message = [] then ''request failed'' else message)"

definition sanitizeTransportError :: "('w, 'c) transport_env \<Rightarrow> transport_failure \<Rightarrow> serverMessageRedaction \<Rightarrow> goerr" where
  "sanitizeTransportError env cause redaction =
     (if tfErr cause = Sentinel ContextCanceled \<or> tfErr cause = Sentinel ContextDeadlineExceeded then tfErr cause
      else
        (let message =
           (case tfURL cause of
              Some (op, url, inner) \<Rightarrow>
                (let text = (case inner of None \<Rightarrow> ''request failed''
                      | Some t \<Rightarrow> sanitizeServerMessage (redactServerMessage t redaction))
                 in sanitizeServerMessage op @ '' '' @ go_quote (is_print env) (sanitizeTransportURL env url) @ '': '' @ or_failed text)
            | None \<Rightarrow> sanitizeServerMessage (redactServerMessage (tfText cause) redaction))
         in SanitizedTransportError (or_failed message) (tfErr cause) (tfTimeout cause) (tfTemporary cause)))"

text \<open>\<open>requestMessageRedaction\<close>: the headers of the client and the query of the target are secrets too.\<close>

definition requestMessageRedaction :: "('w, 'c) transport_env \<Rightarrow> config \<Rightarrow> 'c \<Rightarrow> go_url \<Rightarrow> serverMessageRedaction" where
  "requestMessageRedaction env cfg ctx target =
     (let source = ctx_redaction env ctx in
      \<lparr>fragments = fragments source @ filter (\<lambda>v. v \<noteq> []) (map snd (Headers cfg)) @
         (if RawQuery target \<noteq> [] then [url_string env target, RawQuery target] else []),
       redactAll = redactAll source\<rparr>)"

text \<open>\<open>limit + 1\<close> in \<open>int64\<close>; a \<open>LimitReader\<close> that may read nothing is at its end.\<close>

definition succ64 :: "int \<Rightarrow> int" where
  "succ64 n = (if n = 2 ^ 63 - 1 then - (2 ^ 63) else n + 1)"

text \<open>\<open>readLimited\<close>: the bytes read and the error.\<close>

definition readLimited :: "string \<Rightarrow> goerr option \<Rightarrow> int \<Rightarrow> string \<times> goerr option" where
  "readLimited body body_err limit =
     (let n = succ64 limit; data = take (nat n) body in
      if int (length body) < n \<and> body_err \<noteq> None then (data, body_err)
      else if int (length data) > limit then (take (nat limit) data, Some (Sentinel ErrResponseTooLarge))
      else (data, None))"

fun known_in_parts :: "(string \<Rightarrow> bool) \<Rightarrow> string list \<Rightarrow> bool" where
  "known_in_parts known (a # b # parts) =
     (if a \<noteq> ''sessions'' then known_in_parts known (b # parts)
      else case path_unescape b of None \<Rightarrow> False | Some handle \<Rightarrow> known handle)"
| "known_in_parts known _ = False"

definition knownSessionInPath :: "'w client \<Rightarrow> string \<Rightarrow> bool" where
  "knownSessionInPath c endpointPath =
     known_in_parts (\<lambda>h. map_of (sessions c) h \<noteq> None)
       (split_on CHR ''/'' (trim_left_byte CHR ''/'' (trim_right_byte CHR ''/'' endpointPath)))"

record error_payload =
  epCode :: string
  epMessage :: string
  epError :: string
  epErrors :: "string list"

text \<open>The struct of \<open>decodeAPIError\<close>: its decoding errors are ignored.\<close>

definition error_payload_of :: "string \<Rightarrow> error_payload" where
  "error_payload_of data =
     (let kvs = (case parse_json data of Some (JObj kvs) \<Rightarrow> kvs | _ \<Rightarrow> []) in
      \<lparr>epCode = string_field ''code'' kvs, epMessage = string_field ''message'' kvs,
       epError = string_field ''error'' kvs, epErrors = strings_field ''errors'' kvs\<rparr>)"

definition error_message :: "error_payload \<Rightarrow> string \<Rightarrow> string" where
  "error_message payload data =
     (let m1 = epMessage payload;
          m2 = (if m1 = [] then epError payload else m1);
          m3 = (if m2 = [] \<and> epErrors payload \<noteq> [] then hd (epErrors payload) else m2)
      in if m3 = [] then data else m3)"

definition retryable_status :: "int \<Rightarrow> bool" where
  "retryable_status code = (code = 408 \<or> code = 429 \<or> code = 502 \<or> code = 503 \<or> code = 504)"

definition error_kind :: "('w, 'c) transport_env \<Rightarrow> 'w client \<Rightarrow> go_url \<Rightarrow> int \<Rightarrow> string \<Rightarrow> goerr option" where
  "error_kind env c target code classification =
     (let lowerPath = to_lower (escaped_path env target); lowerMessage = to_lower classification in
      if code = 410 \<or> contains lowerMessage ''session'' \<and> contains lowerMessage ''expired''
      then Some (Sentinel ErrSessionExpired)
      else if code = 404 \<and> contains lowerPath ''/operations/'' then Some (Sentinel ErrOperationNotFound)
      else if code = 404 \<and> contains lowerPath ''/sessions/''
      then Some (Sentinel (if knownSessionInPath c (Path target) then ErrSessionExpired else ErrSessionNotFound))
      else None)"

definition decodeAPIErrorWithRedaction ::
  "('w, 'c) transport_env \<Rightarrow> 'w client \<Rightarrow> string \<Rightarrow> go_url \<Rightarrow> int \<Rightarrow> string \<Rightarrow> serverMessageRedaction \<Rightarrow> request_phase \<Rightarrow> goerr" where
  "decodeAPIErrorWithRedaction env c method target code data redaction phase =
     (let payload = error_payload_of data; message = error_message payload data in
      APIError method (sanitizeEndpointPath (escaped_path env target)) code
        (sanitizeServerMessage (redactServerMessage (epCode payload) redaction))
        (sanitizeServerMessage (redactServerMessage message redaction))
        (retryable_status code) phase
        (error_kind env c target code (sanitizeServerMessage message)))"

section \<open>One request\<close>

text \<open>Where a response is decoded to: the value of the destination before, and its decoder; a nil
  destination has none.\<close>

type_synonym 'd destination = "'d \<times> (string \<Rightarrow> (goerr, 'd) result) option"

definition request_headers :: "config \<Rightarrow> string option \<Rightarrow> (string \<times> string) list" where
  "request_headers cfg payload =
     (if payload \<noteq> None then [(''Content-Type'', ''application/json'')] else []) @
     [(''Accept'', ''application/json''), (''User-Agent'', UserAgent cfg)] @ Headers cfg"

definition observed_request ::
  "('w, 'c) transport_env \<Rightarrow> string \<Rightarrow> string \<Rightarrow> int \<Rightarrow> goerr option \<Rightarrow> 'w client \<Rightarrow> 'w client" where
  "observed_request env method endpoint code err c =
     c\<lparr>world := observe_request env \<lparr>obsMethod = method, obsEndpoint = endpoint, obsStatus = code, obsErr = err\<rparr> (world c)\<rparr>"

definition context_failure :: "goerr \<Rightarrow> transport_failure" where
  "context_failure e = \<lparr>tfErr = e, tfText = [], tfURL = None, tfTimeout = False, tfTemporary = False\<rparr>"

text \<open>What is done with a response.\<close>

definition handle_response ::
  "('w, 'c) transport_env \<Rightarrow> config \<Rightarrow> string \<Rightarrow> go_url \<Rightarrow> serverMessageRedaction \<Rightarrow> 'd destination \<Rightarrow> http_response
    \<Rightarrow> 'w client \<Rightarrow> (int \<times> bool \<times> goerr option \<times> 'd) \<times> 'w client" where
  "handle_response env cfg method target redaction dest resp c =
     (let endpoint = sanitizeEndpointPath (escaped_path env target); code = StatusCode resp;
          (data, readErr) = readLimited (Body resp) (BodyErr resp) (MaxResponseBytes cfg); n = int (length data);
          observed = (\<lambda>err. observed_request env method endpoint code err c) in
      case readErr of
        Some err \<Rightarrow>
          (let api = APIError method endpoint code [] [] False ResponseBodyIncomplete (Some err)
           in ((n, False, Some api, fst dest), observed (Some api)))
      | None \<Rightarrow>
          if code < 200 \<or> code \<ge> 300
          then (let api = decodeAPIErrorWithRedaction env c method target code data redaction ResponseReceived
                in ((n, retryable_status code, Some api, fst dest), observed (Some api)))
          else
            (case (if trim_space data = [] then None else map_option (\<lambda>decode. decode data) (snd dest)) of
               Some (Inl err) \<Rightarrow>
                 (let api = APIError method endpoint code [] ''invalid JSON response'' False ResponseBodyIncomplete (Some err)
                  in ((n, False, Some api, fst dest), observed (Some api)))
             | Some (Inr value) \<Rightarrow> ((n, False, None, value), observed None)
             | None \<Rightarrow> ((n, False, None, fst dest), observed None)))"

definition doJSONOnce ::
  "('w, 'c) transport_env \<Rightarrow> config \<Rightarrow> 'c \<Rightarrow> string \<Rightarrow> go_url \<Rightarrow> string option \<Rightarrow> 'd destination
    \<Rightarrow> 'w client \<Rightarrow> (int \<times> bool \<times> goerr option \<times> 'd) \<times> 'w client" where
  "doJSONOnce env cfg ctx method target payload dest c =
     (let endpoint = sanitizeEndpointPath (escaped_path env target);
          requestCtx = (if RequestTimeout cfg > 0 then ctx_with_timeout env (RequestTimeout cfg) ctx (world c) else ctx) in
      case new_request_err env method target of
        Some err \<Rightarrow> ((0, False, Some (Errorf ''flinksqlgateway: create request: %w'' [ArgWrap err]), fst dest), c)
      | None \<Rightarrow>
          (let redaction = requestMessageRedaction env cfg requestCtx target;
               ((events, outcome), w) = exchange env requestCtx \<lparr>reqMethod = method, reqTarget = target, reqBody = payload,
                   reqHeaders = request_headers cfg payload\<rparr> (world c);
               c1 = c\<lparr>world := w\<rparr> in
           case outcome of
             Inl failure \<Rightarrow>
               (let cause = (case ctx_err env requestCtx w of Some e \<Rightarrow> context_failure e | None \<Rightarrow> failure);
                    alive = (ctx_err env ctx w = None);
                    api = APIError method endpoint 0 [] [] alive (requestPhaseForProgress (trace_progress events))
                      (Some (sanitizeTransportError env cause redaction))
                in ((0, alive, Some api, fst dest), observed_request env method endpoint 0 (Some api) c1))
           | Inr resp \<Rightarrow> handle_response env cfg method target redaction dest resp c1))"

section \<open>Requests with retry\<close>

fun clear_retryable :: "goerr \<Rightarrow> goerr" where
  "clear_retryable (APIError m e st cd ms rt p x) = APIError m e st cd ms False p x"
| "clear_retryable err = err"

text \<open>The loop over the attempts, of which \<open>n\<close> are left.\<close>

fun request_loop ::
  "nat \<Rightarrow> bool \<Rightarrow> ('w, 'c) transport_env \<Rightarrow> config \<Rightarrow> 'c \<Rightarrow> string \<Rightarrow> go_url \<Rightarrow> string option \<Rightarrow> 'd destination \<Rightarrow> bool
    \<Rightarrow> goerr option \<Rightarrow> 'w client \<Rightarrow> (int \<times> goerr option \<times> 'd) \<times> 'w client" where
  "request_loop 0 first env cfg ctx method target payload dest safeRetry lastErr c = ((0, lastErr, fst dest), c)"
| "request_loop (Suc n) first env cfg ctx method target payload dest safeRetry lastErr c =
     (case (if first then (None, world c) else wait env ctx (PollInterval cfg) (world c)) of
        (Some err, w) \<Rightarrow> ((0, Some err, fst dest), c\<lparr>world := w\<rparr>)
      | (None, w) \<Rightarrow>
          (case doJSONOnce env cfg ctx method target payload dest (c\<lparr>world := w\<rparr>) of
             ((got, retry, None, value), c1) \<Rightarrow> ((got, None, value), c1)
           | ((got, retry, Some err, value), c1) \<Rightarrow>
               (let err' = (if safeRetry then err else clear_retryable err) in
                if \<not> retry \<or> \<not> safeRetry then ((got, Some err', value), c1)
                else request_loop n False env cfg ctx method target payload dest safeRetry (Some err') c1)))"

definition ensureOpen :: "('w, 'c) transport_env \<Rightarrow> 'c \<Rightarrow> 'w client \<Rightarrow> goerr option" where
  "ensureOpen env ctx c =
     (if ctx_internal env ctx then None else if clientClosed c then Some (Sentinel ErrClientClosed) else None)"

definition doJSON ::
  "('w, 'c) transport_env \<Rightarrow> config \<Rightarrow> 'c \<Rightarrow> string \<Rightarrow> go_url \<Rightarrow> json option \<Rightarrow> 'd destination \<Rightarrow> bool
    \<Rightarrow> 'w client \<Rightarrow> (int \<times> goerr option \<times> 'd) \<times> 'w client" where
  "doJSON env cfg ctx method target body dest safeRetry c =
     (case ensureOpen env ctx c of
        Some err \<Rightarrow> ((0, Some err, fst dest), c)
      | None \<Rightarrow>
          (let requestCtx = (if ctx_internal env ctx then ctx else ctx_merge env ctx); payload = map_option marshal body in
           if payload \<noteq> None \<and> int (length (the payload)) > MaxResponseBytes cfg
           then ((0, Some (Errorf ''%w: request body exceeds %d bytes'' [ArgWrap (Sentinel ErrResponseTooLarge),
                     ArgText (itoa (MaxResponseBytes cfg))]), fst dest), c)
           else request_loop (if safeRetry then 2 else 1) True env cfg requestCtx method target payload dest safeRetry None c))"

text \<open>\<open>endpointURL\<close>.  The URL it parses is the text of the parsed base URL with an escaped route, which
  \<open>url.Parse\<close> always accepts; the callers of the source rely on that too and drop the error.\<close>

definition endpointURL :: "('w, 'c) transport_env \<Rightarrow> config \<Rightarrow> 'w client \<Rightarrow> bool \<Rightarrow> string \<Rightarrow> go_url" where
  "endpointURL env cfg c versioned route =
     parse_endpoint env (trim_right_byte CHR ''/'' (url_string env (base_url env)) @
       (if versioned then ''/'' @ selectedAPIVersion cfg (versions c) else []) @ ''/'' @ trim_left_byte CHR ''/'' route)"

text \<open>\<open>nonIdempotentOutcomeIsUnknown\<close> and \<open>statementOutcomeIsUnknown\<close> of \<open>operation.go\<close>.\<close>

fun nonIdempotentOutcomeIsUnknown :: "goerr \<Rightarrow> bool" where
  "nonIdempotentOutcomeIsUnknown (APIError m e code cd ms rt phase x) =
     (if phase = PhaseUnset \<or> phase = RequestNotSent then False
      else code = 0 \<or> code \<ge> 200 \<and> code < 300 \<or> code = 408 \<or> code = 429 \<or> code \<ge> 500)"
| "nonIdempotentOutcomeIsUnknown _ = False"

section \<open>Watching the network\<close>

text \<open>An environment that keeps, beside its state, every exchange made: the request, the callbacks it ran and
  its outcome.\<close>

type_synonym exchange_log = "(http_request \<times> trace_event list \<times> (transport_failure, http_response) result) list"

definition logged :: "('w, 'c) transport_env \<Rightarrow> ('w \<times> exchange_log, 'c) transport_env" where
  "logged env = \<lparr>
     exchange = (\<lambda>ctx req (w, log). case exchange env ctx req w of ((ev, out), w') \<Rightarrow> ((ev, out), (w', log @ [(req, ev, out)]))),
     ctx_err = (\<lambda>ctx (w, log). ctx_err env ctx w), ctx_with_timeout = (\<lambda>d ctx (w, log). ctx_with_timeout env d ctx w),
     ctx_merge = ctx_merge env, ctx_internal = ctx_internal env, ctx_redaction = ctx_redaction env,
     ctx_with_redaction = ctx_with_redaction env, ctx_background = ctx_background env,
     ctx_with_cleanup = ctx_with_cleanup env, ctx_remaining = (\<lambda>ctx (w, log). ctx_remaining env ctx w),
     wait = (\<lambda>ctx d (w, log). case wait env ctx d w of (x, w') \<Rightarrow> (x, (w', log))),
     observe_request = (\<lambda>ob (w, log). (observe_request env ob w, log)),
     observe_lifecycle = (\<lambda>ob (w, log). (observe_lifecycle env ob w, log)),
     validator = (\<lambda>ctx sc st (w, log). case validator env ctx sc st w of (x, w') \<Rightarrow> (x, (w', log))),
     new_request_err = new_request_err env, url_string = url_string env, escaped_path = escaped_path env,
     parse_url = parse_url env, parse_endpoint = parse_endpoint env, base_url = base_url env, query_set = query_set env,
     resolve_path = resolve_path env, is_print = is_print env\<rparr>"

lemma logged_sel [simp]:
  "new_request_err (logged env) = new_request_err env" "ctx_internal (logged env) = ctx_internal env"
  "ctx_merge (logged env) = ctx_merge env" "escaped_path (logged env) = escaped_path env"
  "ctx_err (logged env) ctx (w, log) = ctx_err env ctx w"
  "ctx_with_timeout (logged env) d ctx (w, log) = ctx_with_timeout env d ctx w"
  "observe_request (logged env) ob (w, log) = (observe_request env ob w, log)"
  "observe_lifecycle (logged env) lo (w, log) = (observe_lifecycle env lo w, log)"
  by (simp_all add: logged_def)

lemma exchange_logged: "exchange (logged env) ctx req (w, log) = (r, wl) \<Longrightarrow> \<exists>w'. wl = (w', log @ [(req, r)])"
  by (auto simp: logged_def split: prod.splits)

lemma wait_logged: "wait (logged env) ctx d (w, log) = (x, wl) \<Longrightarrow> \<exists>w'. wl = (w', log)"
  by (auto simp: logged_def split: prod.splits)

lemma validator_logged: "validator (logged env) ctx sc st (w, log) = (x, wl) \<Longrightarrow> \<exists>w'. wl = (w', log)"
  by (auto simp: logged_def split: prod.splits)

text \<open>A change of the client that leaves all but the world as it was and appends to the log.\<close>

definition appends :: "exchange_log \<Rightarrow> ('w \<times> exchange_log) client \<Rightarrow> ('w \<times> exchange_log) client \<Rightarrow> bool" where
  "appends new c c' = (\<exists>w'. c' = c\<lparr>world := (w', snd (world c) @ new)\<rparr>)"

lemma appends_refl [simp]: "appends [] c c"
  by (cases "world c") (auto simp: appends_def intro!: exI[of _ "fst (world c)"])

lemma appends_trans: "appends a c c1 \<Longrightarrow> appends b c1 c2 \<Longrightarrow> appends (a @ b) c c2"
  by (auto simp: appends_def)

lemma appends_Nil_trans: "appends [] c c1 \<Longrightarrow> appends b c1 c2 \<Longrightarrow> appends b c c2"
  using appends_trans[of "[]"] by fastforce

lemma appends_world: "appends new c (c\<lparr>world := (w', snd (world c) @ new)\<rparr>)"
  by (auto simp: appends_def)

lemma observed_request_appends: "appends [] c (observed_request (logged env) m e st err c)"
  by (cases "world c") (auto simp: appends_def observed_request_def)

text \<open>An error that answers an exchange: its status and its phase tell what is known of the request.\<close>

definition api_error :: "string \<Rightarrow> int \<Rightarrow> bool \<Rightarrow> request_phase \<Rightarrow> goerr \<Rightarrow> bool" where
  "api_error m st rt phase e = (\<exists>en cd ms x. e = APIError m en st cd ms rt phase x)"

lemma handle_response_appends:
  assumes "handle_response (logged env) cfg m t redaction dest resp c = ((n, retry, err, v), c')"
  shows "appends [] c c'"
    "err = None \<Longrightarrow> 200 \<le> StatusCode resp \<and> StatusCode resp < 300 \<and> \<not> retry"
    "err = Some e \<Longrightarrow> (\<exists>phase rt. api_error m (StatusCode resp) rt phase e \<and> phase \<in> {ResponseBodyIncomplete, ResponseReceived})"
    "retry \<Longrightarrow> err \<noteq> None \<and> retryable_status (StatusCode resp)"
proof -
  obtain data readErr where rl: "readLimited (Body resp) (BodyErr resp) (MaxResponseBytes cfg) = (data, readErr)" by fastforce
  note eq = assms[unfolded handle_response_def Let_def rl prod.case]
  note obs = observed_request_appends
  have "appends [] c c' \<and> (err = None \<longrightarrow> 200 \<le> StatusCode resp \<and> StatusCode resp < 300 \<and> \<not> retry) \<and>
    (\<forall>e. err = Some e \<longrightarrow> (\<exists>phase rt. api_error m (StatusCode resp) rt phase e \<and> phase \<in> {ResponseBodyIncomplete, ResponseReceived})) \<and>
    (retry \<longrightarrow> err \<noteq> None \<and> retryable_status (StatusCode resp))"
  proof (cases readErr)
    case (Some err)
    then show ?thesis using eq by (auto simp: obs api_error_def)
  next
    case rN: None
    show ?thesis
    proof (cases "StatusCode resp < 200 \<or> StatusCode resp \<ge> 300")
      case True
      then show ?thesis using eq rN by (auto simp: obs api_error_def decodeAPIErrorWithRedaction_def Let_def)
    next
      case False
      let ?d = "if trim_space data = [] then None else map_option (\<lambda>decode. decode data) (snd dest)"
      note eq' = eq[unfolded rN option.case if_not_P[OF False]]
      show ?thesis
      proof (cases ?d)
        case None
        then show ?thesis using eq' False by (auto simp: obs)
      next
        case (Some r)
        then show ?thesis using eq' False by (cases r) (auto simp: obs api_error_def)
      qed
    qed
  qed
  then show "appends [] c c'" "err = None \<Longrightarrow> 200 \<le> StatusCode resp \<and> StatusCode resp < 300 \<and> \<not> retry"
    "err = Some e \<Longrightarrow> (\<exists>phase rt. api_error m (StatusCode resp) rt phase e \<and> phase \<in> {ResponseBodyIncomplete, ResponseReceived})"
    "retry \<Longrightarrow> err \<noteq> None \<and> retryable_status (StatusCode resp)" by blast+
qed

text \<open>What one call of \<open>doJSONOnce\<close> did: nothing at all, or one exchange whose outcome its result reports.\<close>

definition once_ok :: "string \<Rightarrow> go_url \<Rightarrow> string option \<Rightarrow> bool \<Rightarrow> goerr option \<Rightarrow> exchange_log \<Rightarrow> bool" where
  "once_ok m t payload retry err new =
     (new = [] \<and> err \<noteq> None \<and> \<not> retry \<or>
      (\<exists>req ev out. new = [(req, ev, out)] \<and> reqMethod req = m \<and> reqTarget req = t \<and> reqBody req = payload \<and>
        (case out of
           Inl failure \<Rightarrow> (\<exists>e rt. err = Some e \<and> api_error m 0 rt (requestPhaseForProgress (trace_progress ev)) e)
         | Inr resp \<Rightarrow>
             (case err of
                None \<Rightarrow> 200 \<le> StatusCode resp \<and> StatusCode resp < 300 \<and> \<not> retry
              | Some e \<Rightarrow> (\<exists>phase rt. api_error m (StatusCode resp) rt phase e \<and>
                    phase \<in> {ResponseBodyIncomplete, ResponseReceived}) \<and> (retry \<longrightarrow> retryable_status (StatusCode resp))))))"

lemma once_okE:
  assumes "once_ok m t payload retry err new"
  obtains (nothing) "new = []" "err \<noteq> None" "\<not> retry"
  | (failed) req ev f e rt where "new = [(req, ev, Inl f)]" "reqMethod req = m" "reqTarget req = t" "reqBody req = payload"
      "err = Some e" "api_error m 0 rt (requestPhaseForProgress (trace_progress ev)) e"
  | (success) req ev resp where "new = [(req, ev, Inr resp)]" "reqMethod req = m" "reqTarget req = t" "reqBody req = payload"
      "err = None" "200 \<le> StatusCode resp" "StatusCode resp < 300" "\<not> retry"
  | (answered) req ev resp e rt phase where "new = [(req, ev, Inr resp)]" "reqMethod req = m" "reqTarget req = t" "reqBody req = payload"
      "err = Some e" "api_error m (StatusCode resp) rt phase e" "phase \<in> {ResponseBodyIncomplete, ResponseReceived}"
      "retry \<longrightarrow> retryable_status (StatusCode resp)"
proof (cases new)
  case Nil
  then have "new = []" "err \<noteq> None" "\<not> retry" using assms by (auto simp: once_ok_def)
  then show ?thesis by (rule nothing)
next
  case (Cons entry rest)
  then obtain req ev out where new: "new = [(req, ev, out)]" and
    req: "reqMethod req = m" "reqTarget req = t" "reqBody req = payload"
    using assms by (auto simp: once_ok_def)
  show ?thesis
  proof (cases out)
    case (Inl f)
    then obtain rt e where "err = Some e" "api_error m 0 rt (requestPhaseForProgress (trace_progress ev)) e"
      using assms new by (auto simp: once_ok_def)
    then show ?thesis using failed new req Inl by blast
  next
    case (Inr resp)
    show ?thesis
    proof (cases err)
      case None
      then show ?thesis using assms new req Inr success[of req ev resp] by (auto simp: once_ok_def)
    next
      case (Some e)
      then obtain phase rt where "api_error m (StatusCode resp) rt phase e" "phase \<in> {ResponseBodyIncomplete, ResponseReceived}"
        "retry \<longrightarrow> retryable_status (StatusCode resp)"
        using assms new Inr by (auto simp: once_ok_def)
      then show ?thesis using answered new req Inr Some by blast
    qed
  qed
qed

lemma doJSONOnce_ok:
  assumes "doJSONOnce (logged env) cfg ctx m t payload dest c = ((n, retry, err, v), c')"
  shows "\<exists>new. appends new c c' \<and> once_ok m t payload retry err new"
proof (cases "new_request_err env m t")
  case (Some e)
  then have "appends [] c c'" "once_ok m t payload retry err []" using assms by (auto simp: doJSONOnce_def once_ok_def)
  then show ?thesis by blast
next
  case None
  obtain w log where cw: "world c = (w, log)" by fastforce
  let ?ctx = "if RequestTimeout cfg > 0 then ctx_with_timeout env (RequestTimeout cfg) ctx w else ctx"
  let ?req = "\<lparr>reqMethod = m, reqTarget = t, reqBody = payload, reqHeaders = request_headers cfg payload\<rparr>"
  obtain ev out wl where x: "exchange (logged env) ?ctx ?req (w, log) = ((ev, out), wl)" by (metis prod.collapse)
  obtain w1 where wl: "wl = (w1, log @ [(?req, ev, out)])" using exchange_logged[OF x] by auto
  have ctx: "(if RequestTimeout cfg > 0 then ctx_with_timeout (logged env) (RequestTimeout cfg) ctx (world c) else ctx) = ?ctx"
    by (simp add: cw)
  have x': "exchange (logged env) ?ctx ?req (world c) = ((ev, out), wl)" using x cw by simp
  note eq = assms[unfolded doJSONOnce_def Let_def logged_sel None option.case ctx x' prod.case]
  have one: "appends [(?req, ev, out)] c (c\<lparr>world := wl\<rparr>)" using appends_world[of "[(?req, ev, out)]" c w1] cw wl by simp
  show ?thesis
  proof (cases out)
    case (Inl failure)
    have "\<exists>e. c' = observed_request (logged env) m (sanitizeEndpointPath (escaped_path env t)) 0 (Some e) (c\<lparr>world := wl\<rparr>) \<and>
        err = Some e \<and> (\<exists>rt. api_error m 0 rt (requestPhaseForProgress (trace_progress ev)) e)"
      using eq[unfolded Inl sum.case] by (auto simp: api_error_def)
    then have "appends [(?req, ev, out)] c c'" "once_ok m t payload retry err [(?req, ev, out)]"
      using appends_trans[OF one observed_request_appends] Inl by (auto simp: once_ok_def)
    then show ?thesis by blast
  next
    case (Inr resp)
    have h: "handle_response (logged env) cfg m t (requestMessageRedaction (logged env) cfg ?ctx t) dest resp (c\<lparr>world := wl\<rparr>) =
        ((n, retry, err, v), c')"
      using eq[unfolded Inr sum.case] .
    note hr = handle_response_appends[OF h]
    have "appends [(?req, ev, out)] c c'" using appends_trans[OF one hr(1)] by simp
    moreover have "once_ok m t payload retry err [(?req, ev, out)]"
    proof (cases err)
      case None
      then show ?thesis using hr(2) Inr by (simp add: once_ok_def)
    next
      case (Some e)
      then show ?thesis using hr(3,4) Inr by (simp add: once_ok_def)
    qed
    ultimately show ?thesis by blast
  qed
qed

lemma clear_retryable_api: "api_error m st rt phase e \<Longrightarrow> api_error m st False phase (clear_retryable e)"
  by (auto simp: api_error_def)

lemma once_ok_clear:
  assumes "once_ok m t payload retry (Some e) new"
  shows "once_ok m t payload retry (Some (clear_retryable e)) new"
  using assms
proof (cases rule: once_okE)
  case (failed req ev f e' rt)
  then have "api_error m 0 False (requestPhaseForProgress (trace_progress ev)) (clear_retryable e)"
    using clear_retryable_api by auto
  then show ?thesis using failed by (auto simp: once_ok_def)
next
  case (answered req ev resp e' rt phase)
  then have "api_error m (StatusCode resp) False phase (clear_retryable e)" using clear_retryable_api by auto
  then show ?thesis using answered by (auto simp: once_ok_def)
qed (auto simp: once_ok_def)

text \<open>The exchanges of a whole request: all the same request, each but the last one failed in a way that may be
  tried again, and the last one is what the result reports.\<close>

definition retry_worthy :: "(transport_failure, http_response) result \<Rightarrow> bool" where
  "retry_worthy out = (case out of Inl f \<Rightarrow> True | Inr resp \<Rightarrow> retryable_status (StatusCode resp))"

lemma once_ok_retry: "once_ok m t payload True (Some e) new \<Longrightarrow> length new = 1 \<and> retry_worthy (snd (snd (hd new)))"
  by (erule once_okE) (auto simp: retry_worthy_def)

lemma once_ok_length: "once_ok m t payload retry err new \<Longrightarrow> length new \<le> 1"
  by (erule once_okE) auto

lemma once_ok_requests: "once_ok m t payload retry err new \<Longrightarrow>
    list_all (\<lambda>(req, ev, out). reqMethod req = m \<and> reqTarget req = t \<and> reqBody req = payload) new"
  by (erule once_okE) auto

lemma once_ok_success: "once_ok m t payload retry None new \<Longrightarrow>
    new \<noteq> [] \<and> (case snd (snd (last new)) of Inl f \<Rightarrow> False | Inr resp \<Rightarrow> 200 \<le> StatusCode resp \<and> StatusCode resp < 300)"
  by (erule once_okE) auto

text \<open>One attempt without retry.\<close>

lemma request_once_ok:
  assumes "request_loop (Suc 0) True (logged env) cfg ctx m t payload dest False x c = ((n, err, v), c')"
  obtains new retry where "appends new c c'" "once_ok m t payload retry err new"
proof -
  obtain n1 retry e v1 c1 where o: "doJSONOnce (logged env) cfg ctx m t payload dest c = ((n1, retry, e, v1), c1)"
    by (metis prod.collapse)
  obtain new where new: "appends new c c1" "once_ok m t payload retry e new" using doJSONOnce_ok[OF o] by blast
  have "c\<lparr>world := world c\<rparr> = c" by simp
  then have "c' = c1 \<and> err = map_option clear_retryable e"
    using assms o by (cases e) (auto simp: Let_def)
  moreover have "once_ok m t payload retry (map_option clear_retryable e) new"
    using new(2) once_ok_clear by (cases e) auto
  ultimately show ?thesis using that new(1) by auto
qed

lemma request_loop_ok:
  assumes "request_loop (Suc (Suc 0)) True (logged env) cfg ctx m t payload dest True None c = ((n, err, v), c')"
  obtains new where "appends new c c'" "length new \<le> 2"
    "list_all (\<lambda>(req, ev, out). reqMethod req = m \<and> reqTarget req = t \<and> reqBody req = payload) new"
    "length new = 2 \<longrightarrow> retry_worthy (snd (snd (hd new)))"
    "err = None \<longrightarrow> new \<noteq> [] \<and> (case snd (snd (last new)) of Inl f \<Rightarrow> False | Inr resp \<Rightarrow> 200 \<le> StatusCode resp \<and> StatusCode resp < 300)"
proof -
  obtain n1 retry e v1 c1 where o: "doJSONOnce (logged env) cfg ctx m t payload dest c = ((n1, retry, e, v1), c1)"
    by (metis prod.collapse)
  obtain new where new: "appends new c c1" "once_ok m t payload retry e new" using doJSONOnce_ok[OF o] by blast
  note f = once_ok_length[OF new(2)] once_ok_requests[OF new(2)]
  have cc: "c\<lparr>world := world c\<rparr> = c" by simp
  show ?thesis
  proof (cases "e = None \<or> \<not> retry")
    case True
    then have "c' = c1 \<and> err = e" using assms o cc by (cases e) (auto simp: Let_def)
    then show ?thesis using that[OF _ _ f(2)] new f once_ok_success[of m t payload retry new] by auto
  next
    case False
    then obtain e' where e: "e = Some e'" and retry by auto
    then have worthy: "length new = 1" "retry_worthy (snd (snd (hd new)))" using once_ok_retry new(2) by auto
    have "request_loop (Suc 0) False (logged env) cfg ctx m t payload dest True (Some e') c1 = ((n, err, v), c')"
      using assms o cc e \<open>retry\<close> by (simp add: Let_def)
    note second = this[unfolded request_loop.simps if_False]
    obtain y wl where w: "wait (logged env) ctx (PollInterval cfg) (world c1) = (y, wl)" by (metis surj_pair)
    obtain w1 l1 where c1w: "world c1 = (w1, l1)" by fastforce
    from wait_logged[OF w[unfolded c1w]] obtain w2 where wl: "wl = (w2, l1)" by blast
    have "appends [] c1 (c1\<lparr>world := wl\<rparr>)" using appends_world[of "[]" c1 w2] c1w wl by simp
    from appends_trans[OF new(1) this] have step: "appends new c (c1\<lparr>world := wl\<rparr>)" by simp
    show ?thesis
    proof (cases y)
      case (Some err1)
      then have "c' = c1\<lparr>world := wl\<rparr> \<and> err = Some err1" using second w by simp
      then show ?thesis using that[of new] f worthy step by auto
    next
      case None
      obtain n2 retry2 e2 v2 c2 where o2: "doJSONOnce (logged env) cfg ctx m t payload dest (c1\<lparr>world := wl\<rparr>) = ((n2, retry2, e2, v2), c2)"
        by (metis prod.collapse)
      obtain new2 where new2: "appends new2 (c1\<lparr>world := wl\<rparr>) c2" "once_ok m t payload retry2 e2 new2"
        using doJSONOnce_ok[OF o2] by blast
      have r: "c' = c2 \<and> err = e2" using second w None o2 by (cases e2; cases retry2) (auto simp: Let_def)
      have "appends (new @ new2) c c'" using appends_trans[OF step new2(1)] r by simp
      moreover have "length (new @ new2) \<le> 2" using worthy(1) once_ok_length[OF new2(2)] by simp
      moreover have "list_all (\<lambda>(req, ev, out). reqMethod req = m \<and> reqTarget req = t \<and> reqBody req = payload) (new @ new2)"
        using f(2) once_ok_requests[OF new2(2)] by simp
      moreover have "retry_worthy (snd (snd (hd (new @ new2))))" using worthy by (cases new) auto
      moreover have "err = None \<longrightarrow> new @ new2 \<noteq> [] \<and> (case snd (snd (last (new @ new2))) of Inl f \<Rightarrow> False
          | Inr resp \<Rightarrow> 200 \<le> StatusCode resp \<and> StatusCode resp < 300)"
        using once_ok_success[of m t payload retry2 new2] new2(2) r by auto
      ultimately show ?thesis by (intro that[of "new @ new2"]) simp_all
    qed
  qed
qed

lemma doJSON_unsent: "ensureOpen env ctx c = Some err \<Longrightarrow> doJSON env cfg ctx m t body dest safe c = ((0, Some err, fst dest), c)"
  by (simp add: doJSON_def)

lemma doJSON_cases:
  assumes "doJSON (logged env) cfg ctx m t body dest safe c = ((n, err, v), c')"
  obtains (unsent) "c' = c" "err \<noteq> None"
  | (sent) ctx' where "request_loop (if safe then 2 else 1) True (logged env) cfg ctx' m t (map_option marshal body) dest safe None c =
        ((n, err, v), c')"
proof (cases "ensureOpen (logged env) ctx c")
  case (Some e)
  show ?thesis using assms unfolding doJSON_unsent[OF Some] by (intro unsent) auto
next
  case None
  let ?p = "map_option marshal body"
  let ?big = "?p \<noteq> None \<and> int (length (the ?p)) > MaxResponseBytes cfg"
  note eq = assms[unfolded doJSON_def None option.case Let_def]
  show ?thesis
  proof (cases ?big)
    case True
    note eq' = eq[unfolded if_P[OF True]]
    show ?thesis by (rule unsent) (use eq' in auto)
  next
    case False
    then show ?thesis using eq sent by (simp only: if_False)
  qed
qed

lemma doJSON_log:
  assumes "doJSON (logged env) cfg ctx m t body dest safe c = ((n, err, v), c')"
  obtains new where "appends new c c'" "length new \<le> (if safe then 2 else 1)"
    "list_all (\<lambda>(req, ev, out). reqMethod req = m \<and> reqTarget req = t \<and> reqBody req = map_option marshal body) new"
    "length new = 2 \<longrightarrow> retry_worthy (snd (snd (hd new)))"
    "err = None \<longrightarrow> new \<noteq> [] \<and> (case snd (snd (last new)) of Inl f \<Rightarrow> False | Inr resp \<Rightarrow> 200 \<le> StatusCode resp \<and> StatusCode resp < 300)"
  using assms
proof (cases rule: doJSON_cases)
  case unsent
  then show ?thesis using that[of "[]"] by simp
next
  case (sent ctx')
  show ?thesis
  proof (cases safe)
    case True
    then have "request_loop (Suc (Suc 0)) True (logged env) cfg ctx' m t (map_option marshal body) dest True None c = ((n, err, v), c')"
      using sent by (simp add: numeral_2_eq_2)
    then show ?thesis by (rule request_loop_ok) (use that True in auto)
  next
    case False
    then have "request_loop (Suc 0) True (logged env) cfg ctx' m t (map_option marshal body) dest False None c = ((n, err, v), c')"
      using sent by simp
    then show ?thesis
    proof (rule request_once_ok)
      fix new retry
      assume "appends new c c'" and o: "once_ok m t (map_option marshal body) retry err new"
      then show ?thesis
        using that[of new] False once_ok_length[OF o] once_ok_requests[OF o] once_ok_success[of m t _ retry new] by auto
    qed
  qed
qed

text \<open>C24: a request that is not safe to repeat is put on the wire at most once, a safe one at most twice and the
  second time only after a failure of the network or a status that invites a retry; every exchange carries
  the very request that was asked for, and success is reported only for a 2xx answer.\<close>

theorem doJSON_at_most:
  assumes "doJSON (logged env) cfg ctx m t body dest safe c = ((n, err, v), c')" "world c = (w, [])"
  shows "\<exists>w' log. c' = c\<lparr>world := (w', log)\<rparr> \<and> length log \<le> (if safe then 2 else 1) \<and>
    list_all (\<lambda>(req, ev, out). reqMethod req = m \<and> reqTarget req = t \<and> reqBody req = map_option marshal body) log \<and>
    (length log = 2 \<longrightarrow> retry_worthy (snd (snd (hd log)))) \<and>
    (err = None \<longrightarrow> log \<noteq> [] \<and> (case snd (snd (last log)) of Inl f \<Rightarrow> False | Inr resp \<Rightarrow> 200 \<le> StatusCode resp \<and> StatusCode resp < 300))"
  using assms(1)
proof (rule doJSON_log)
  fix new
  assume a: "appends new c c'" "length new \<le> (if safe then 2 else 1)"
    "list_all (\<lambda>(req, ev, out). reqMethod req = m \<and> reqTarget req = t \<and> reqBody req = map_option marshal body) new"
    "length new = 2 \<longrightarrow> retry_worthy (snd (snd (hd new)))"
    "err = None \<longrightarrow> new \<noteq> [] \<and> (case snd (snd (last new)) of Inl f \<Rightarrow> False | Inr resp \<Rightarrow> 200 \<le> StatusCode resp \<and> StatusCode resp < 300)"
  from a(1) obtain w' where "c' = c\<lparr>world := (w', new)\<rparr>" using assms(2) by (auto simp: appends_def)
  then show ?thesis using a(2-) by blast
qed

text \<open>The answers that settle that a request was not carried out.\<close>

definition refused :: "int \<Rightarrow> bool" where
  "refused st = (\<not> (st = 0 \<or> 200 \<le> st \<and> st < 300 \<or> st = 408 \<or> st = 429 \<or> 500 \<le> st))"

definition unknown_outcome :: "goerr \<Rightarrow> bool" where
  "unknown_outcome err = (case as_api_error err of None \<Rightarrow> False | Some api \<Rightarrow> nonIdempotentOutcomeIsUnknown api)"

definition certainly_not_done :: "exchange_log \<Rightarrow> bool" where
  "certainly_not_done log = (log = [] \<or> (\<exists>req ev out. log = [(req, ev, out)] \<and>
     (case out of Inl f \<Rightarrow> ev = [] | Inr resp \<Rightarrow> refused (StatusCode resp))))"

lemma as_api_error_api: "api_error m st rt phase e \<Longrightarrow> as_api_error e = Some e"
  by (auto simp: api_error_def)

lemma foldl_advance_ge: "x \<le> foldl (\<lambda>p e. advanceRequestProgress p (event_progress e)) x evs"
proof (induction evs arbitrary: x)
  case (Cons e evs)
  have "x \<le> advanceRequestProgress x (event_progress e)" by (simp add: advanceRequestProgress_def)
  also have "\<dots> \<le> foldl (\<lambda>p e. advanceRequestProgress p (event_progress e)) (advanceRequestProgress x (event_progress e)) evs"
    by (rule Cons.IH)
  finally show ?case by simp
qed simp

lemma foldl_advance_le: "x \<le> 3 \<Longrightarrow> foldl (\<lambda>p e. advanceRequestProgress p (event_progress e)) x evs \<le> 3"
proof (induction evs arbitrary: x)
  case (Cons e evs)
  have "event_progress e \<le> 3" by (cases e rule: event_progress.cases) auto
  then show ?case using Cons by (simp add: advanceRequestProgress_def)
qed simp

lemma trace_progress_sent: "ev \<noteq> [] \<Longrightarrow> 1 \<le> trace_progress ev"
proof (cases ev)
  case (Cons e evs)
  have "1 \<le> advanceRequestProgress 0 (event_progress e)"
    by (cases e rule: event_progress.cases) (auto simp: advanceRequestProgress_def)
  then show ?thesis using foldl_advance_ge[of "advanceRequestProgress 0 (event_progress e)" evs] Cons
    by (simp add: trace_progress_def)
qed simp

lemma phase_not_sent: "requestPhaseForProgress (trace_progress ev) = RequestNotSent \<longleftrightarrow> ev = []"
proof (cases "ev = []")
  case True
  then show ?thesis by (simp add: trace_progress_def requestPhaseForProgress_def)
next
  case False
  have "trace_progress ev \<le> 3" using foldl_advance_le[of 0 ev] by (simp add: trace_progress_def)
  moreover have "1 \<le> trace_progress ev" using trace_progress_sent[OF False] .
  ultimately have "trace_progress ev \<in> {1, 2, 3}" by auto
  then show ?thesis using False by (auto simp: requestPhaseForProgress_def)
qed

lemma phase_set: "requestPhaseForProgress p \<noteq> PhaseUnset"
  by (simp add: requestPhaseForProgress_def)

lemma once_ok_not_done:
  assumes "once_ok m t payload retry (Some err) new" "\<not> unknown_outcome err"
  shows "certainly_not_done new"
  using assms(1)
proof (cases rule: once_okE)
  case (failed req ev f e rt)
  have "nonIdempotentOutcomeIsUnknown err \<longleftrightarrow> ev \<noteq> []"
    using failed phase_not_sent[of ev] phase_set by (auto simp: api_error_def)
  then show ?thesis using assms(2) failed as_api_error_api[of m 0 rt _ err]
    by (auto simp: certainly_not_done_def unknown_outcome_def)
next
  case (answered req ev resp e rt phase)
  then have "nonIdempotentOutcomeIsUnknown err \<longleftrightarrow> \<not> refused (StatusCode resp)"
    by (auto simp: api_error_def refused_def)
  then show ?thesis using assms(2) answered as_api_error_api[of m _ rt phase err]
    by (auto simp: certainly_not_done_def unknown_outcome_def)
qed (auto simp: certainly_not_done_def)

lemma doJSON_not_done:
  assumes "doJSON (logged env) cfg ctx m t body dest False c = ((n, Some err, v), c')" "\<not> unknown_outcome err"
  obtains new where "appends new c c'" "certainly_not_done new"
  using assms(1)
proof (cases rule: doJSON_cases)
  case unsent
  then show ?thesis using that[of "[]"] by (simp add: certainly_not_done_def)
next
  case (sent ctx')
  then have "request_loop (Suc 0) True (logged env) cfg ctx' m t (map_option marshal body) dest False None c = ((n, Some err, v), c')"
    by simp
  then show ?thesis by (rule request_once_ok) (use that once_ok_not_done assms(2) in blast)
qed

text \<open>C25: the error of an unrepeatable request is either classified as of unknown outcome, or the request was
  certainly not carried out: nothing of it was written, or the server refused it.\<close>

theorem doJSON_outcome:
  assumes "doJSON (logged env) cfg ctx m t body dest False c = ((n, Some err, v), c')" "world c = (w, [])"
    "\<not> unknown_outcome err"
  shows "\<exists>w' log. world c' = (w', log) \<and> certainly_not_done log"
  using assms(1,3)
proof (rule doJSON_not_done)
  fix new assume "appends new c c'" "certainly_not_done new"
  then show ?thesis using assms(2) by (auto simp: appends_def)
qed

text \<open>A request that is not safe to repeat never reports itself as retryable.\<close>

definition reports_retryable :: "goerr \<Rightarrow> bool" where
  "reports_retryable err = (case err of APIError m en st cd ms rt phase x \<Rightarrow> rt | _ \<Rightarrow> False)"

lemma clear_retryable_not: "\<not> reports_retryable (clear_retryable err)"
  by (cases err) (simp_all add: reports_retryable_def)

lemma request_once_retryable:
  "request_loop (Suc 0) True env cfg ctx m t payload dest False x c = ((n, Some err, v), c') \<Longrightarrow> \<not> reports_retryable err"
  using clear_retryable_not by (auto simp: Let_def split: prod.splits option.splits)

section \<open>What an error shows\<close>

text \<open>The texts of a request error that come from the server or the network.\<close>

fun shown_texts :: "goerr \<Rightarrow> string list" where
  "shown_texts (APIError m e st cd ms rt phase x) = [cd, ms]"
| "shown_texts _ = []"

lemma sanitize_stars: "sanitizeServerMessage stars = stars"
proof -
  have "runes stars = map (\<lambda>c. (byte c, [c])) stars" by (rule runes_of_ascii) (simp add: ascii_def byte_def)
  then show ?thesis
    by (simp add: sanitizeServerMessage_def to_valid_utf8_def invalid_step_def trim_space_def Let_def maxExposedErrorBytes_def
        byte_def is_space_def rune_error_def chr_def char_of_def)
qed

lemma sanitize_Nil: "sanitizeServerMessage [] = []"
  by (simp add: sanitizeServerMessage_def to_valid_utf8_def runes.simps Let_def maxExposedErrorBytes_def)

lemma redactAll_texts: "redactAll r \<Longrightarrow> sanitizeServerMessage (redactServerMessage s r) = [] \<or>
    sanitizeServerMessage (redactServerMessage s r) = stars"
  by (simp add: redactServerMessage_def sanitize_stars sanitize_Nil)

text \<open>The contexts the client derives keep the redaction they carry: \<open>context.WithTimeout\<close> and \<open>mergeContext\<close> derive
  from the given context, whose values they show.\<close>

definition contexts_keep_values :: "('w, 'c) transport_env \<Rightarrow> bool" where
  "contexts_keep_values env = (\<forall>ctx d w. ctx_redaction env (ctx_merge env ctx) = ctx_redaction env ctx \<and>
     ctx_redaction env (ctx_with_timeout env d ctx w) = ctx_redaction env ctx)"

definition hidden :: "goerr option \<Rightarrow> bool" where
  "hidden err = (case err of None \<Rightarrow> True
     | Some e \<Rightarrow> list_all (\<lambda>s. s = [] \<or> s = stars \<or> s = ''invalid JSON response'') (shown_texts e))"

lemma handle_response_hidden:
  assumes "handle_response env cfg m t redaction dest resp c = ((n, retry, err, v), c')" "redactAll redaction"
  shows "hidden err"
proof -
  obtain data readErr where rl: "readLimited (Body resp) (BodyErr resp) (MaxResponseBytes cfg) = (data, readErr)" by fastforce
  note eq = assms(1)[unfolded handle_response_def Let_def rl prod.case]
  show ?thesis
  proof (cases readErr)
    case (Some err)
    then show ?thesis using eq by (auto simp: hidden_def)
  next
    case rN: None
    show ?thesis
    proof (cases "StatusCode resp < 200 \<or> StatusCode resp \<ge> 300")
      case True
      then show ?thesis
        using eq rN redactAll_texts[OF assms(2), of "epCode (error_payload_of data)"]
          redactAll_texts[OF assms(2), of "error_message (error_payload_of data) data"]
        by (auto simp: hidden_def decodeAPIErrorWithRedaction_def Let_def)
    next
      case False
      let ?d = "if trim_space data = [] then None else map_option (\<lambda>decode. decode data) (snd dest)"
      note eq' = eq[unfolded rN option.case if_not_P[OF False]]
      show ?thesis
      proof (cases ?d)
        case None
        then show ?thesis using eq' by (auto simp: hidden_def)
      next
        case (Some r)
        then show ?thesis using eq' by (cases r) (auto simp: hidden_def)
      qed
    qed
  qed
qed

lemma doJSONOnce_hidden:
  assumes "doJSONOnce env cfg ctx m t payload dest c = ((n, retry, err, v), c')"
    and "contexts_keep_values env" "redactAll (ctx_redaction env ctx)"
  shows "hidden err"
proof (cases "new_request_err env m t")
  case (Some e)
  then show ?thesis using assms(1) by (auto simp: doJSONOnce_def hidden_def)
next
  case None
  let ?ctx = "if RequestTimeout cfg > 0 then ctx_with_timeout env (RequestTimeout cfg) ctx (world c) else ctx"
  let ?req = "\<lparr>reqMethod = m, reqTarget = t, reqBody = payload, reqHeaders = request_headers cfg payload\<rparr>"
  obtain ev out w1 where x: "exchange env ?ctx ?req (world c) = ((ev, out), w1)" by (metis prod.collapse)
  note eq = assms(1)[unfolded doJSONOnce_def Let_def None option.case x prod.case]
  have r: "redactAll (requestMessageRedaction env cfg ?ctx t)"
    using assms(2,3) by (simp add: requestMessageRedaction_def contexts_keep_values_def Let_def)
  show ?thesis
  proof (cases out)
    case (Inl failure)
    then show ?thesis using eq[unfolded Inl sum.case] by (auto simp: hidden_def)
  next
    case (Inr resp)
    show ?thesis using handle_response_hidden[OF eq[unfolded Inr sum.case] r] .
  qed
qed

lemma clear_retryable_hidden: "hidden (Some err) \<Longrightarrow> hidden (Some (clear_retryable err))"
  by (cases err) (simp_all add: hidden_def)

lemma hidden_sentinel: "hidden (Some (Sentinel s))"
  by (simp add: hidden_def)

lemma request_loop_hidden:
  assumes "request_loop k first env cfg ctx m t payload dest safe x c = ((n, err, v), c')" "hidden x"
    and "contexts_keep_values env" "redactAll (ctx_redaction env ctx)"
    and "\<And>d w y w'. wait env ctx d w = (y, w') \<Longrightarrow> hidden y"
  shows "hidden err"
  using assms(1,2)
proof (induction k arbitrary: first x c)
  case 0
  then show ?case by simp
next
  case (Suc k)
  obtain y w where y: "(if first then (None, world c) else wait env ctx (PollInterval cfg) (world c)) = (y, w)" by fastforce
  note eq = Suc.prems(1)[unfolded request_loop.simps y prod.case]
  have hy: "hidden y" using y assms(5) by (cases first) (auto simp: hidden_def)
  show ?case
  proof (cases y)
    case (Some e)
    then show ?thesis using eq hy by simp
  next
    case None
    obtain n1 retry e1 v1 c1 where o: "doJSONOnce env cfg ctx m t payload dest (c\<lparr>world := w\<rparr>) = ((n1, retry, e1, v1), c1)"
      by (metis prod.collapse)
    have h: "hidden e1" by (rule doJSONOnce_hidden[OF o assms(3,4)])
    note eq' = eq[unfolded None option.case o prod.case Let_def]
    show ?thesis
    proof (cases e1)
      case None
      then show ?thesis using eq' by (simp add: hidden_def)
    next
      case (Some e)
      let ?e = "if safe then e else clear_retryable e"
      have he: "hidden (Some ?e)" using h Some clear_retryable_hidden[of e] by simp
      note eq'' = eq'[unfolded Some option.case]
      show ?thesis
      proof (cases "\<not> retry \<or> \<not> safe")
        case True
        then show ?thesis using eq''[unfolded if_P[OF True]] he by auto
      next
        case False
        show ?thesis by (rule Suc.IH[OF eq''[unfolded if_not_P[OF False]] he])
      qed
    qed
  qed
qed


text \<open>An environment for the examples: contexts are what the client stores in them, and the network answers from a
  script.\<close>

type_synonym script = "(trace_event list \<times> (transport_failure, http_response) result) list"

definition example_url :: go_url where
  "example_url = \<lparr>Scheme = ''http'', Opaque = [], User = None, Host = ''h'', Path = ''/'', ForceQuery = False,
     RawQuery = [], Fragment = []\<rparr>"

definition refused_connection :: transport_failure where
  "refused_connection = \<lparr>tfErr = Errorf ''connection refused'' [], tfText = ''connection refused'', tfURL = None,
     tfTimeout = False, tfTemporary = False\<rparr>"

definition script_env :: "(script, serverMessageRedaction \<times> bool) transport_env" where
  "script_env = \<lparr>
     exchange = (\<lambda>ctx req s. case s of [] \<Rightarrow> (([], Inl refused_connection), []) | a # as \<Rightarrow> (a, as)),
     ctx_err = (\<lambda>ctx s. None), ctx_with_timeout = (\<lambda>d ctx s. ctx), ctx_merge = (\<lambda>ctx. ctx), ctx_internal = snd,
     ctx_redaction = fst, ctx_with_redaction = (\<lambda>r ctx. (r, snd ctx)),
     ctx_background = (\<lparr>fragments = [], redactAll = False\<rparr>, False), ctx_with_cleanup = (\<lambda>ctx. (fst ctx, True)),
     ctx_remaining = (\<lambda>ctx s. None),
     wait = (\<lambda>ctx d s. (None, s)), observe_request = (\<lambda>ob s. s), observe_lifecycle = (\<lambda>ob s. s),
     validator = (\<lambda>ctx sc st s. (None, s)), new_request_err = (\<lambda>m u. None), url_string = (\<lambda>u. ''http://h'' @ Path u),
     escaped_path = Path, parse_url = (\<lambda>s. Inr (example_url\<lparr>Path := s\<rparr>)), parse_endpoint = (\<lambda>s. example_url\<lparr>Path := s\<rparr>),
     base_url = example_url, query_set = (\<lambda>q kvs. concat (map (\<lambda>(k, v). k @ ''='' @ v) kvs)),
     resolve_path = (\<lambda>a b. if b = [] then a else b), is_print = (\<lambda>r. True)\<rparr>"

definition plain_ctx :: "serverMessageRedaction \<times> bool" where
  "plain_ctx = (\<lparr>fragments = [], redactAll = False\<rparr>, False)"

definition example_client :: "'w \<Rightarrow> 'w client" where
  "example_client w = \<lparr>versions = version_init, sessions = [], closedSessions = [], closedOrder = [], clientClosed = False,
     heartbeats = [], managed = [], streams = [], allocated = 0,
     executions = newActivityGroup ErrClientClosed, world = w\<rparr>"

definition example_cfg :: config where
  "example_cfg = (example_config CompatibilityFlink120 APIVersionExplicit ''v2'')\<lparr>MaxResponseBytes := 100\<rparr>"

text \<open>A refused connection: nothing is written and the error says so.\<close>

lemma refused_once:
  "\<exists>err. doJSON (logged script_env) example_cfg plain_ctx ''POST'' example_url None ((), None) False (example_client ([], [])) =
     ((0, Some err, ()), (example_client ([], [(\<lparr>reqMethod = ''POST'', reqTarget = example_url, reqBody = None,
        reqHeaders = request_headers example_cfg None\<rparr>, [], Inl refused_connection)]))) \<and> \<not> unknown_outcome err"
proof -
  have env: "ensureOpen (logged script_env) plain_ctx (example_client x) = None" for x
    by (simp add: ensureOpen_def plain_ctx_def example_client_def)
  have cfg: "RequestTimeout example_cfg = 1" "MaxResponseBytes example_cfg = 100"
    by (simp_all add: example_cfg_def example_config_def)
  show ?thesis
    unfolding doJSON_def env
    by (simp add: Let_def cfg doJSONOnce_def example_client_def logged_def script_env_def refused_connection_def
        observed_request_def unknown_outcome_def trace_progress_def requestPhaseForProgress_def plain_ctx_def)
qed

definition refused_log :: exchange_log where
  "refused_log = [(\<lparr>reqMethod = ''POST'', reqTarget = example_url, reqBody = None,
     reqHeaders = request_headers example_cfg None\<rparr>, [], Inl refused_connection)]"

theorem doJSON_at_most_witness:
  "length refused_log \<le> 1 \<and> list_all (\<lambda>(req, ev, out). reqMethod req = ''POST'' \<and> reqTarget req = example_url) refused_log"
proof -
  obtain err where r: "doJSON (logged script_env) example_cfg plain_ctx ''POST'' example_url None ((), None) False (example_client ([], [])) =
     ((0, Some err, ()), (example_client ([], refused_log)))"
    using refused_once unfolding refused_log_def by blast
  show ?thesis using doJSON_at_most[OF r, of "[]"] by (simp add: example_client_def refused_log_def)
qed

theorem doJSON_outcome_witness: "\<exists>log. certainly_not_done log \<and> length log = 1"
proof -
  obtain err where r: "doJSON (logged script_env) example_cfg plain_ctx ''POST'' example_url None ((), None) False (example_client ([], [])) =
     ((0, Some err, ()), (example_client ([], [(\<lparr>reqMethod = ''POST'', reqTarget = example_url, reqBody = None,
        reqHeaders = request_headers example_cfg None\<rparr>, [], Inl refused_connection)])))" "\<not> unknown_outcome err"
    using refused_once by blast
  from doJSON_outcome[OF r(1), of "[]"] r(2) show ?thesis by (auto simp: example_client_def)
qed


end
