(* ===== verification/Error_Text.thy ===== *)
theory Error_Text
  imports Setup_Compile Transport
begin

text \<open>
  The \<open>Error()\<close> methods of \<open>errors.go\<close>, \<open>session_recipe.go\<close>, \<open>session_setup.go\<close> and \<open>transport.go\<close>.  Which runes beyond ASCII
  \<open>%q\<close> prints as they are is an argument.
\<close>

section \<open>Parts\<close>

definition sentinel_message :: "sentinel \<Rightarrow> string" where
  "sentinel_message s =
     (let unsupported = ''unsupported sql gateway api version'' in
      case s of
        ErrSessionNotFound \<Rightarrow> ''flink sql session not found''
      | ErrSessionExpired \<Rightarrow> ''flink sql session expired''
      | ErrOperationNotFound \<Rightarrow> ''flink sql operation not found''
      | ErrOperationFailed \<Rightarrow> ''flink sql operation failed''
      | ErrResultLimit \<Rightarrow> ''flink sql result limit exceeded''
      | ErrUnsupportedAPI \<Rightarrow> unsupported
      | ErrInvalidFlinkVersion \<Rightarrow> ''invalid Flink version''
      | ErrUnsupportedFlinkVersion \<Rightarrow> ''unsupported Flink version''
      | ErrNoCompatibleAPIVersion \<Rightarrow> unsupported @ '': no compatible SQL Gateway API version''
      | ErrExplicitAPIVersionUnsupportedByServer \<Rightarrow> unsupported @ '': explicit version is not advertised by server''
      | ErrExplicitAPIVersionUnsupportedByProfile \<Rightarrow> unsupported @ '': explicit version is not supported by profile''
      | ErrUnsupportedCapability \<Rightarrow> unsupported @ '': unsupported capability''
      | ErrCompatibilityDetection \<Rightarrow> ''Flink compatibility detection failed''
      | ErrResponseTooLarge \<Rightarrow> ''flink sql gateway response too large''
      | ErrUnsafeNextResultURI \<Rightarrow> ''unsafe flink sql next result URI''
      | ErrExecutionOutcomeUnknown \<Rightarrow> ''statement execution outcome is unknown''
      | ErrConfigurationOutcomeUnknown \<Rightarrow> ''session configuration outcome is unknown''
      | ErrMaterializedTableRefreshOutcomeUnknown \<Rightarrow> ''materialized table refresh outcome is unknown''
      | ErrScriptDeploymentOutcomeUnknown \<Rightarrow> ''script deployment outcome is unknown''
      | ErrSessionSetupVerification \<Rightarrow> ''session setup metadata verification failed''
      | ErrClientClosed \<Rightarrow> ''flink sql gateway client is closed''
      | ErrSessionClosed \<Rightarrow> ''flink sql session is closed''
      | ContextCanceled \<Rightarrow> ''context canceled''
      | ContextDeadlineExceeded \<Rightarrow> ''context deadline exceeded'')"

definition phase_text :: "request_phase \<Rightarrow> string" where
  "phase_text p = (case p of PhaseUnset \<Rightarrow> [] | RequestNotSent \<Rightarrow> ''NOT_SENT'' | RequestPossiblySent \<Rightarrow> ''POSSIBLY_SENT''
     | ResponseHeaderMissing \<Rightarrow> ''RESPONSE_HEADER_MISSING'' | ResponseBodyIncomplete \<Rightarrow> ''RESPONSE_BODY_INCOMPLETE''
     | ResponseReceived \<Rightarrow> ''RESPONSE_RECEIVED'')"

definition step_text :: "step_kind \<Rightarrow> string" where
  "step_text k = (case k of StepUnset \<Rightarrow> [] | SessionSetupCatalog \<Rightarrow> ''CATALOG'' | SessionSetupDatabase \<Rightarrow> ''DATABASE''
     | SessionSetupTable \<Rightarrow> ''TABLE'' | SessionSetupUseCatalog \<Rightarrow> ''USE_CATALOG'' | SessionSetupUseDatabase \<Rightarrow> ''USE_DATABASE'')"

text \<open>\<open>fmt.Sprintf\<close> over operands that are texts already: \<open>%q\<close> quotes, the other verbs of the source print.\<close>

fun sprintf :: "(nat \<Rightarrow> bool) \<Rightarrow> string \<Rightarrow> string list \<Rightarrow> string" where
  "sprintf ip (p # v # f) as =
     (if p \<noteq> CHR ''%'' then p # sprintf ip (v # f) as
      else case as of [] \<Rightarrow> p # v # f | a # as1 \<Rightarrow> (if v = CHR ''q'' then go_quote ip a else a) @ sprintf ip f as1)"
| "sprintf ip f as = f"

definition labelled :: "string \<Rightarrow> string \<Rightarrow> string" where
  "labelled label value = (if value = [] then [] else label @ value)"

definition unknown_text :: "sentinel \<Rightarrow> string \<Rightarrow> string \<Rightarrow> string \<Rightarrow> request_phase \<Rightarrow> string" where
  "unknown_text s handle method endpoint phase =
     sentinel_message s @ '': '' @ method @ '' '' @ endpoint @ '' phase='' @ phase_text phase @ '' session='' @ MaskHandle handle"

section \<open>\<open>Error()\<close>\<close>

text \<open>One definition per method; the texts of the errors inside are arguments.\<close>

definition suffixed :: "string \<Rightarrow> string option \<Rightarrow> string" where
  "suffixed label t = (case t of None \<Rightarrow> [] | Some m \<Rightarrow> label @ m)"

definition compatibility_text :: "string option \<Rightarrow> string \<Rightarrow> string \<Rightarrow> string \<Rightarrow> string \<Rightarrow> string option \<Rightarrow> string" where
  "compatibility_text kind op flink release api cause =
     ''flink sql gateway compatibility failed'' @ labelled '': '' op @
     (if flink = [] then [] else '' flink='' @ sanitizeServerMessage flink) @ labelled '' release='' release @ labelled '' api='' api @
     suffixed '': '' kind @ suffixed '': '' cause"

definition configuration_text :: "string \<Rightarrow> int \<Rightarrow> step_kind \<Rightarrow> request_phase \<Rightarrow> string" where
  "configuration_text handle index kind phase =
     sentinel_message ErrConfigurationOutcomeUnknown @ '':'' @ (if index \<ge> 0 then '' step='' @ itoa index @ '' kind='' @ step_text kind else []) @
     '' phase='' @ phase_text phase @ '' session='' @ MaskHandle handle"

definition setup_text :: "bool \<Rightarrow> int \<Rightarrow> step_kind \<Rightarrow> sql_ident \<Rightarrow> bool \<Rightarrow> string" where
  "setup_text close_failed index kind target unknown =
     ''flink sql session setup failed'' @ (if index \<ge> 0 then '' at step '' @ itoa index @ '' kind='' @ step_text kind else []) @
     labelled '' target='' (formatSessionSetupTarget target) @ (if unknown then '': outcome unknown'' else []) @
     (if close_failed then ''; session cleanup failed'' else [])"

definition api_error_text :: "string \<Rightarrow> string \<Rightarrow> int \<Rightarrow> string \<Rightarrow> string option \<Rightarrow> string" where
  "api_error_text method endpoint status_code message cause =
     ''flink sql gateway '' @ method @ '' '' @ endpoint @ (if status_code \<noteq> 0 then '' status='' @ itoa status_code else []) @ '': '' @
     or_failed (if message = [] then suffixed [] cause else message)"

definition execution_text :: "string option \<Rightarrow> string option \<Rightarrow> string option \<Rightarrow> string" where
  "execution_text cause cancel_error close_error =
     ''flink sql execution failed'' @ suffixed '': '' cause @ suffixed ''; cancel cleanup: '' cancel_error @ suffixed ''; close cleanup: '' close_error"

definition limit_text :: "string \<Rightarrow> int \<Rightarrow> int \<Rightarrow> string" where
  "limit_text kind limit received =
     sentinel_message ErrResultLimit @ '': '' @ kind @ '' limit='' @ itoa limit @ '' received='' @ itoa received"

definition verification_text :: "step_kind \<Rightarrow> sql_ident \<Rightarrow> string" where
  "verification_text kind target =
     sentinel_message ErrSessionSetupVerification @ '': kind='' @ step_text kind @ '' target='' @ formatSessionSetupTarget target"

definition recipe_text :: "bool \<Rightarrow> string option \<Rightarrow> int \<Rightarrow> string" where
  "recipe_text failed close_error index =
     ''flink sql session recipe failed at index '' @ itoa index @ (if failed then '': setup execution failed'' else []) @
     suffixed ''; session cleanup: '' close_error"

lemma size_fmt_arg: "a \<in> set as \<Longrightarrow> size a < Suc (size_list size as)"
  by (induction as) auto

function error_text :: "(nat \<Rightarrow> bool) \<Rightarrow> goerr \<Rightarrow> string" where
  "error_text ip (Sentinel s) = sentinel_message s"
| "error_text ip (Errorf f as) =
     sprintf ip f (map (\<lambda>a. case a of ArgText t \<Rightarrow> t | ArgWrap e \<Rightarrow> error_text ip e | ArgVal e \<Rightarrow> error_text ip e) as)"
| "error_text ip (CompatibilityError kind op flink release api cause) =
     compatibility_text (map_option (\<lambda>e. error_text ip e) kind) op flink release api (map_option (\<lambda>e. error_text ip e) cause)"
| "error_text ip (ExecutionOutcomeUnknownError s m e p c) = unknown_text ErrExecutionOutcomeUnknown s m e p"
| "error_text ip (MaterializedTableRefreshOutcomeUnknownError s m e p c) = unknown_text ErrMaterializedTableRefreshOutcomeUnknown s m e p"
| "error_text ip (ScriptDeploymentOutcomeUnknownError s m e p c) = unknown_text ErrScriptDeploymentOutcomeUnknown s m e p"
| "error_text ip (ConfigurationOutcomeUnknownError s i k p c) = configuration_text s i k p"
| "error_text ip (SessionSetupError c cl s i k t unknown) = setup_text (cl \<noteq> None) i k t unknown"
| "error_text ip (APIError m e st cd message rt p cause) = api_error_text m e st message (map_option (\<lambda>x. error_text ip x) cause)"
| "error_text ip (ExecutionError c ca cl s oh j) =
     execution_text (map_option (\<lambda>e. error_text ip e) c) (map_option (\<lambda>e. error_text ip e) ca) (map_option (\<lambda>e. error_text ip e) cl)"
| "error_text ip (ResultLimitError k l r) = limit_text k l r"
| "error_text ip (SanitizedTransportError m c t te) = m"
| "error_text ip (SetupVerificationError c k t) = verification_text k t"
| "error_text ip (RecipeReplayError c cl s i) = recipe_text (c \<noteq> None) (map_option (\<lambda>e. error_text ip e) cl) i"
  by pat_completeness auto
termination
  by (relation "measure (\<lambda>(ip, e). size e)") (auto dest: size_fmt_arg)

text \<open>What a text does not tell: the text of a setup error and of an error of unknown outcome is the same for every cause and
  for all handles with the same mask, so neither SQL, options nor a handle are repeated in it.\<close>

definition same_shape :: "goerr \<Rightarrow> goerr \<Rightarrow> bool" where
  "same_shape e e' =
     (case (e, e') of
        (SessionSetupError c cl s i k t u, SessionSetupError c' cl' s' i' k' t' u') \<Rightarrow> (cl = None) = (cl' = None) \<and> (i, k, t, u) = (i', k', t', u')
      | (ConfigurationOutcomeUnknownError s i k p c, ConfigurationOutcomeUnknownError s' i' k' p' c') \<Rightarrow> MaskHandle s = MaskHandle s' \<and> (i, k, p) = (i', k', p')
      | (ExecutionOutcomeUnknownError s m e p c, ExecutionOutcomeUnknownError s' m' e' p' c') \<Rightarrow> MaskHandle s = MaskHandle s' \<and> (m, e, p) = (m', e', p')
      | (MaterializedTableRefreshOutcomeUnknownError s m e p c, MaterializedTableRefreshOutcomeUnknownError s' m' e' p' c') \<Rightarrow>
          MaskHandle s = MaskHandle s' \<and> (m, e, p) = (m', e', p')
      | (ScriptDeploymentOutcomeUnknownError s m e p c, ScriptDeploymentOutcomeUnknownError s' m' e' p' c') \<Rightarrow>
          MaskHandle s = MaskHandle s' \<and> (m, e, p) = (m', e', p')
      | _ \<Rightarrow> False)"

lemma error_text_hides: "same_shape e e' \<Longrightarrow> error_text ip e = error_text ip e'"
  by (cases e; cases e') (auto simp: same_shape_def unknown_text_def configuration_text_def)

text \<open>The texts of the parts are parts of the text, in order.\<close>

lemma execution_parts:
  "error_text ip (ExecutionError (Some c) (Some ca) (Some cl) s oh j) =
     ''flink sql execution failed: '' @ error_text ip c @ ''; cancel cleanup: '' @ error_text ip ca @ ''; close cleanup: '' @ error_text ip cl"
  by (simp add: execution_text_def suffixed_def)

end
