(* ===== verification/Error_Methods.thy ===== *)
theory Error_Methods
  imports Error_Text
begin

text \<open>
  The error types of \<open>errors.go\<close>, \<open>transport.go\<close>, \<open>session_setup.go\<close> and \<open>session_recipe.go\<close> as structs with their methods, and
  \<open>errors.Is\<close> and \<open>errors.As\<close> as the library runs them over those methods.  The rest of the development uses \<open>err_is\<close> and
  \<open>err_chain\<close> of GoErrors; this theory shows that they are the same.  A receiver is an option: the methods may be called on nil.
\<close>

section \<open>Structs\<close>

record compatibility_struct =
  csKind :: "goerr option"
  csOperation :: string
  csFlinkVersion :: string
  csReleaseLine :: string
  csAPIVersion :: string
  csCause :: "goerr option"

text \<open>The three errors of a submission whose outcome is unknown have the same fields.\<close>

record outcome_struct =
  osSessionHandle :: string
  osMethod :: string
  osEndpoint :: string
  osRequestPhase :: request_phase
  osCause :: "goerr option"

record configuration_struct =
  gsSessionHandle :: string
  gsStepIndex :: int
  gsStepKind :: step_kind
  gsRequestPhase :: request_phase
  gsCause :: "goerr option"

record setup_struct =
  ssCause :: "goerr option"
  ssCloseError :: "goerr option"
  ssSessionHandle :: string
  ssFailedIndex :: int
  ssStepKind :: step_kind
  ssTarget :: sql_ident
  ssOutcomeUnknown :: bool

record api_struct =
  asMethod :: string
  asEndpoint :: string
  asStatusCode :: int
  asCode :: string
  asMessage :: string
  asRetryable :: bool
  asRequestPhase :: request_phase
  asCause :: "goerr option"

record execution_struct =
  xsCause :: "goerr option"
  xsCancelError :: "goerr option"
  xsCloseError :: "goerr option"
  xsSessionHandle :: string
  xsOperationHandle :: string
  xsJobID :: string

record limit_struct =
  lsKind :: string
  lsLimit :: int
  lsReceived :: int

record sanitized_struct =
  tsMessage :: string
  tsCause :: goerr
  tsTimeout :: bool
  tsTemporary :: bool

record verification_struct =
  vsCause :: "goerr option"
  vsKind :: step_kind
  vsTarget :: sql_ident

record recipe_struct =
  rsCause :: "goerr option"
  rsCloseError :: "goerr option"
  rsSessionHandle :: string
  rsFailedIndex :: int

section \<open>\<open>Unwrap\<close>\<close>

definition CompatibilityError_Unwrap :: "compatibility_struct option \<Rightarrow> goerr list" where
  "CompatibilityError_Unwrap e = (case e of None \<Rightarrow> [] | Some x \<Rightarrow> opt_list (csKind x) @ opt_list (csCause x))"

definition ExecutionOutcomeUnknownError_Unwrap :: "outcome_struct option \<Rightarrow> goerr option" where
  "ExecutionOutcomeUnknownError_Unwrap e = (case e of None \<Rightarrow> None | Some x \<Rightarrow> osCause x)"

definition MaterializedTableRefreshOutcomeUnknownError_Unwrap :: "outcome_struct option \<Rightarrow> goerr option" where
  "MaterializedTableRefreshOutcomeUnknownError_Unwrap e = (case e of None \<Rightarrow> None | Some x \<Rightarrow> osCause x)"

definition ScriptDeploymentOutcomeUnknownError_Unwrap :: "outcome_struct option \<Rightarrow> goerr option" where
  "ScriptDeploymentOutcomeUnknownError_Unwrap e = (case e of None \<Rightarrow> None | Some x \<Rightarrow> osCause x)"

definition ConfigurationOutcomeUnknownError_Unwrap :: "configuration_struct option \<Rightarrow> goerr option" where
  "ConfigurationOutcomeUnknownError_Unwrap e = (case e of None \<Rightarrow> None | Some x \<Rightarrow> gsCause x)"

definition SessionSetupError_Unwrap :: "setup_struct option \<Rightarrow> goerr list" where
  "SessionSetupError_Unwrap e = (case e of None \<Rightarrow> [] | Some x \<Rightarrow> opt_list (ssCause x) @ opt_list (ssCloseError x))"

definition APIError_Unwrap :: "api_struct option \<Rightarrow> goerr option" where
  "APIError_Unwrap e = (case e of None \<Rightarrow> None | Some x \<Rightarrow> asCause x)"

definition ExecutionError_Unwrap :: "execution_struct option \<Rightarrow> goerr list" where
  "ExecutionError_Unwrap e =
     (case e of None \<Rightarrow> [] | Some x \<Rightarrow> map the (filter (\<lambda>err. err \<noteq> None) [xsCause x, xsCancelError x, xsCloseError x]))"

definition ResultLimitError_Unwrap :: "limit_struct option \<Rightarrow> goerr option" where
  "ResultLimitError_Unwrap e = Some (Sentinel ErrResultLimit)"

text \<open>The receiver of this one is never nil; the code would panic.\<close>

definition setupVerificationError_Unwrap :: "verification_struct \<Rightarrow> goerr list" where
  "setupVerificationError_Unwrap x =
     (case vsCause x of None \<Rightarrow> [Sentinel ErrSessionSetupVerification] | Some c \<Rightarrow> [Sentinel ErrSessionSetupVerification, c])"

definition RecipeReplayError_Unwrap :: "recipe_struct option \<Rightarrow> goerr list" where
  "RecipeReplayError_Unwrap e = (case e of None \<Rightarrow> [] | Some x \<Rightarrow> opt_list (rsCause x) @ opt_list (rsCloseError x))"

section \<open>\<open>Is\<close>, \<open>Timeout\<close>, \<open>Temporary\<close>\<close>

text \<open>An \<open>Is\<close> method answers, or asks \<open>errors.Is\<close> about an error it keeps.\<close>

datatype is_answer = Answer bool | AskAbout goerr

definition ExecutionOutcomeUnknownError_Is :: "outcome_struct option \<Rightarrow> sentinel \<Rightarrow> is_answer" where
  "ExecutionOutcomeUnknownError_Is e target = Answer (target = ErrExecutionOutcomeUnknown)"

definition MaterializedTableRefreshOutcomeUnknownError_Is :: "outcome_struct option \<Rightarrow> sentinel \<Rightarrow> is_answer" where
  "MaterializedTableRefreshOutcomeUnknownError_Is e target = Answer (target = ErrMaterializedTableRefreshOutcomeUnknown)"

definition ScriptDeploymentOutcomeUnknownError_Is :: "outcome_struct option \<Rightarrow> sentinel \<Rightarrow> is_answer" where
  "ScriptDeploymentOutcomeUnknownError_Is e target = Answer (target = ErrScriptDeploymentOutcomeUnknown)"

definition ConfigurationOutcomeUnknownError_Is :: "configuration_struct option \<Rightarrow> sentinel \<Rightarrow> is_answer" where
  "ConfigurationOutcomeUnknownError_Is e target = Answer (target = ErrConfigurationOutcomeUnknown)"

definition sanitizedTransportError_Is :: "sanitized_struct option \<Rightarrow> sentinel \<Rightarrow> is_answer" where
  "sanitizedTransportError_Is e target = (case e of None \<Rightarrow> Answer False | Some x \<Rightarrow> AskAbout (tsCause x))"

definition sanitizedTransportError_Timeout :: "sanitized_struct option \<Rightarrow> bool" where
  "sanitizedTransportError_Timeout e = (case e of None \<Rightarrow> False | Some x \<Rightarrow> tsTimeout x)"

definition sanitizedTransportError_Temporary :: "sanitized_struct option \<Rightarrow> bool" where
  "sanitizedTransportError_Temporary e = (case e of None \<Rightarrow> False | Some x \<Rightarrow> tsTemporary x)"

section \<open>\<open>Error\<close>\<close>

text \<open>The texts of the two submissions whose type has a text of its own; a nil receiver says so.\<close>

definition MaterializedTableRefreshOutcomeUnknownError_Error :: "outcome_struct option \<Rightarrow> string" where
  "MaterializedTableRefreshOutcomeUnknownError_Error e =
     (case e of None \<Rightarrow> ''<nil>''
      | Some x \<Rightarrow> unknown_text ErrMaterializedTableRefreshOutcomeUnknown (osSessionHandle x) (osMethod x) (osEndpoint x) (osRequestPhase x))"

definition ScriptDeploymentOutcomeUnknownError_Error :: "outcome_struct option \<Rightarrow> string" where
  "ScriptDeploymentOutcomeUnknownError_Error e =
     (case e of None \<Rightarrow> ''<nil>''
      | Some x \<Rightarrow> unknown_text ErrScriptDeploymentOutcomeUnknown (osSessionHandle x) (osMethod x) (osEndpoint x) (osRequestPhase x))"

definition sanitizedTransportError_Error :: "sanitized_struct option \<Rightarrow> string" where
  "sanitizedTransportError_Error e = (case e of None \<Rightarrow> ''<nil>'' | Some x \<Rightarrow> tsMessage x)"

section \<open>The library's search\<close>

text \<open>Which \<open>Unwrap\<close> an error has, if any: one error, which may be nil, or several.\<close>

datatype unwraps = NoUnwrap | UnwrapOne "goerr option" | UnwrapMany "goerr list"

fun unwrap_method :: "goerr \<Rightarrow> unwraps" where
  "unwrap_method (Sentinel s) =
     (if s \<in> {ErrNoCompatibleAPIVersion, ErrExplicitAPIVersionUnsupportedByServer, ErrExplicitAPIVersionUnsupportedByProfile,
         ErrUnsupportedCapability} then UnwrapOne (Some (Sentinel ErrUnsupportedAPI)) else NoUnwrap)"
| "unwrap_method (Errorf f as) =
     (case wrapped_args as of [] \<Rightarrow> NoUnwrap | [e] \<Rightarrow> UnwrapOne (Some e) | es \<Rightarrow> UnwrapMany es)"
| "unwrap_method (CompatibilityError k op fv rl av c) =
     UnwrapMany (CompatibilityError_Unwrap (Some \<lparr>csKind = k, csOperation = op, csFlinkVersion = fv, csReleaseLine = rl, csAPIVersion = av, csCause = c\<rparr>))"
| "unwrap_method (ExecutionOutcomeUnknownError s m e p c) =
     UnwrapOne (ExecutionOutcomeUnknownError_Unwrap (Some \<lparr>osSessionHandle = s, osMethod = m, osEndpoint = e, osRequestPhase = p, osCause = c\<rparr>))"
| "unwrap_method (MaterializedTableRefreshOutcomeUnknownError s m e p c) =
     UnwrapOne (MaterializedTableRefreshOutcomeUnknownError_Unwrap
       (Some \<lparr>osSessionHandle = s, osMethod = m, osEndpoint = e, osRequestPhase = p, osCause = c\<rparr>))"
| "unwrap_method (ScriptDeploymentOutcomeUnknownError s m e p c) =
     UnwrapOne (ScriptDeploymentOutcomeUnknownError_Unwrap
       (Some \<lparr>osSessionHandle = s, osMethod = m, osEndpoint = e, osRequestPhase = p, osCause = c\<rparr>))"
| "unwrap_method (ConfigurationOutcomeUnknownError s i k p c) =
     UnwrapOne (ConfigurationOutcomeUnknownError_Unwrap
       (Some \<lparr>gsSessionHandle = s, gsStepIndex = i, gsStepKind = k, gsRequestPhase = p, gsCause = c\<rparr>))"
| "unwrap_method (SessionSetupError c cl s i k t u) =
     UnwrapMany (SessionSetupError_Unwrap (Some \<lparr>ssCause = c, ssCloseError = cl, ssSessionHandle = s, ssFailedIndex = i, ssStepKind = k,
       ssTarget = t, ssOutcomeUnknown = u\<rparr>))"
| "unwrap_method (APIError m e st cd ms rt p c) =
     UnwrapOne (APIError_Unwrap (Some \<lparr>asMethod = m, asEndpoint = e, asStatusCode = st, asCode = cd, asMessage = ms, asRetryable = rt,
       asRequestPhase = p, asCause = c\<rparr>))"
| "unwrap_method (ExecutionError c ca cl s oh j) =
     UnwrapMany (ExecutionError_Unwrap (Some \<lparr>xsCause = c, xsCancelError = ca, xsCloseError = cl, xsSessionHandle = s, xsOperationHandle = oh, xsJobID = j\<rparr>))"
| "unwrap_method (ResultLimitError k l r) = UnwrapOne (ResultLimitError_Unwrap (Some \<lparr>lsKind = k, lsLimit = l, lsReceived = r\<rparr>))"
| "unwrap_method (SanitizedTransportError m c t te) = NoUnwrap"
| "unwrap_method (SetupVerificationError c k t) = UnwrapMany (setupVerificationError_Unwrap \<lparr>vsCause = c, vsKind = k, vsTarget = t\<rparr>)"
| "unwrap_method (RecipeReplayError c cl s i) =
     UnwrapMany (RecipeReplayError_Unwrap (Some \<lparr>rsCause = c, rsCloseError = cl, rsSessionHandle = s, rsFailedIndex = i\<rparr>))"

fun unwrapped :: "unwraps \<Rightarrow> goerr list" where
  "unwrapped NoUnwrap = []"
| "unwrapped (UnwrapOne e) = opt_list e"
| "unwrapped (UnwrapMany es) = es"

fun is_method :: "goerr \<Rightarrow> sentinel \<Rightarrow> is_answer" where
  "is_method (ExecutionOutcomeUnknownError s m e p c) t =
     ExecutionOutcomeUnknownError_Is (Some \<lparr>osSessionHandle = s, osMethod = m, osEndpoint = e, osRequestPhase = p, osCause = c\<rparr>) t"
| "is_method (MaterializedTableRefreshOutcomeUnknownError s m e p c) t =
     MaterializedTableRefreshOutcomeUnknownError_Is (Some \<lparr>osSessionHandle = s, osMethod = m, osEndpoint = e, osRequestPhase = p, osCause = c\<rparr>) t"
| "is_method (ScriptDeploymentOutcomeUnknownError s m e p c) t =
     ScriptDeploymentOutcomeUnknownError_Is (Some \<lparr>osSessionHandle = s, osMethod = m, osEndpoint = e, osRequestPhase = p, osCause = c\<rparr>) t"
| "is_method (ConfigurationOutcomeUnknownError s i k p c) t =
     ConfigurationOutcomeUnknownError_Is (Some \<lparr>gsSessionHandle = s, gsStepIndex = i, gsStepKind = k, gsRequestPhase = p, gsCause = c\<rparr>) t"
| "is_method (SanitizedTransportError m c to te) t =
     sanitizedTransportError_Is (Some \<lparr>tsMessage = m, tsCause = c, tsTimeout = to, tsTemporary = te\<rparr>) t"
| "is_method _ t = Answer False"

lemmas method_defs = CompatibilityError_Unwrap_def ExecutionOutcomeUnknownError_Unwrap_def MaterializedTableRefreshOutcomeUnknownError_Unwrap_def
  ScriptDeploymentOutcomeUnknownError_Unwrap_def ConfigurationOutcomeUnknownError_Unwrap_def SessionSetupError_Unwrap_def APIError_Unwrap_def
  ExecutionError_Unwrap_def ResultLimitError_Unwrap_def setupVerificationError_Unwrap_def RecipeReplayError_Unwrap_def
  ExecutionOutcomeUnknownError_Is_def MaterializedTableRefreshOutcomeUnknownError_Is_def ScriptDeploymentOutcomeUnknownError_Is_def
  ConfigurationOutcomeUnknownError_Is_def sanitizedTransportError_Is_def

text \<open>A sentinel is below the errors that end in it.\<close>

fun weight :: "goerr \<Rightarrow> nat" where
  "weight (Sentinel s) = (if s = ErrUnsupportedAPI \<or> s = ErrResultLimit \<or> s = ErrSessionSetupVerification then 0 else 1)"
| "weight e = 1"

definition err_depth :: "goerr \<Rightarrow> nat" where
  "err_depth e = 2 * size e + weight e"

lemma weight_le: "weight e \<le> 1"
  by (cases e) auto

lemma depth_child: "x \<in> set (unwrap e) \<Longrightarrow> err_depth x < err_depth e"
  using size_unwrap[of x e] weight_le[of x] by (simp add: err_depth_def)

lemma unwrapped_cases:
  "x \<in> set (unwrapped (unwrap_method e)) \<Longrightarrow> x \<in> set (unwrap e) \<or>
     x = Sentinel ErrUnsupportedAPI \<and> e \<noteq> x \<and> (\<exists>s. e = Sentinel s) \<or> x = Sentinel ErrResultLimit \<and> (\<exists>k l r. e = ResultLimitError k l r) \<or>
     x = Sentinel ErrSessionSetupVerification \<and> (\<exists>c k t. e = SetupVerificationError c k t)"
  by (cases e) (auto simp: method_defs split: if_splits option.splits list.splits)

lemma unwrapped_depth: "x \<in> set (unwrapped (unwrap_method e)) \<Longrightarrow> err_depth x < err_depth e"
  using unwrapped_cases[of x e] depth_child[of x e] by (auto simp: err_depth_def split: if_splits)

lemma asked_depth: "is_method e t = AskAbout x \<Longrightarrow> err_depth x < err_depth e"
  using weight_le[of x] by (cases e) (auto simp: method_defs err_depth_def)

text \<open>\<open>errors.Is\<close>: the error itself, its \<open>Is\<close> method, then what it wraps, in order; \<open>errors.As\<close> with the test of the wanted type.\<close>

function errors_Is :: "goerr \<Rightarrow> sentinel \<Rightarrow> bool" where
  "errors_Is e target =
     (e = Sentinel target \<or>
      (case is_method e target of Answer b \<Rightarrow> b | AskAbout x \<Rightarrow> errors_Is x target) \<or>
      list_ex (\<lambda>x. errors_Is x target) (unwrapped (unwrap_method e)))"
  by pat_completeness auto
termination
  by (relation "measure (\<lambda>(e, t). err_depth e)") (auto dest: unwrapped_depth asked_depth)

declare errors_Is.simps [simp del]

fun first_found :: "'a option list \<Rightarrow> 'a option" where
  "first_found [] = None"
| "first_found (None # xs) = first_found xs"
| "first_found (Some x # xs) = Some x"

function errors_As :: "(goerr \<Rightarrow> bool) \<Rightarrow> goerr \<Rightarrow> goerr option" where
  "errors_As wanted e =
     (if wanted e then Some e else first_found (map (errors_As wanted) (unwrapped (unwrap_method e))))"
  by pat_completeness auto
termination
  by (relation "measure (\<lambda>(w, e). err_depth e)") (auto dest: unwrapped_depth)

declare errors_As.simps [simp del]

section \<open>The model's search is the library's\<close>

lemma errors_Is_sentinel: "errors_Is (Sentinel s) t = sentinel_is s t"
proof -
  have u: "errors_Is (Sentinel ErrUnsupportedAPI) t = (ErrUnsupportedAPI = t)" by (subst errors_Is.simps) simp
  show ?thesis by (subst errors_Is.simps) (auto simp: sentinel_is_def u)
qed

lemma list_ex_cong_set: "(\<And>x. x \<in> set xs \<Longrightarrow> f x = g x) \<Longrightarrow> list_ex f xs = list_ex g xs"
  by (induction xs) auto

text \<open>What the methods of one error add to the search below it.\<close>

lemma search_here:
  "(e = Sentinel t \<or> (case is_method e t of Answer b \<Rightarrow> b | AskAbout x \<Rightarrow> err_is x t) \<or>
     list_ex (\<lambda>x. err_is x t) (unwrapped (unwrap_method e))) = err_is e t"
proof (cases e)
  case (Sentinel s)
  then show ?thesis by (auto simp: sentinel_is_def)
next
  case (Errorf f as)
  then show ?thesis by (cases "wrapped_args as" rule: list.exhaust) (auto split: list.splits)
next
  case (ExecutionError c ca cl s oh j)
  then show ?thesis by (cases c; cases ca; cases cl) (simp_all add: method_defs)
next
  case (SetupVerificationError c k t')
  then show ?thesis by (cases c) (auto simp: method_defs sentinel_is_def)
qed (auto simp: method_defs sentinel_is_def split: option.splits)

lemma errors_Is_err_is: "errors_Is e t = err_is e t"
proof (induction "err_depth e" arbitrary: e rule: less_induct)
  case less
  have "list_ex (\<lambda>x. errors_Is x t) (unwrapped (unwrap_method e)) = list_ex (\<lambda>x. err_is x t) (unwrapped (unwrap_method e))"
    by (rule list_ex_cong_set) (rule less, rule unwrapped_depth)
  moreover have "(case is_method e t of Answer b \<Rightarrow> b | AskAbout x \<Rightarrow> errors_Is x t) = (case is_method e t of Answer b \<Rightarrow> b | AskAbout x \<Rightarrow> err_is x t)"
    using less asked_depth by (cases "is_method e t") auto
  ultimately show ?case by (subst errors_Is.simps) (simp only: search_here)
qed

lemma first_found_append: "first_found (xs @ ys) = (case first_found xs of None \<Rightarrow> first_found ys | Some x \<Rightarrow> Some x)"
  by (induction xs rule: first_found.induct) auto

lemma find_append: "List.find P (xs @ ys) = (case List.find P xs of None \<Rightarrow> List.find P ys | Some x \<Rightarrow> Some x)"
  by (induction xs) auto

lemma find_concat: "List.find P (concat (map f xs)) = first_found (map (\<lambda>x. List.find P (f x)) xs)"
proof (induction xs)
  case (Cons x xs)
  then show ?case by (cases "List.find P (f x)") (simp_all add: find_append)
qed simp

lemma find_chain: "List.find P (err_chain e) = (if P e then Some e else first_found (map (\<lambda>x. List.find P (err_chain x)) (unwrap e)))"
  by (subst err_chain.simps) (simp add: find_concat)

text \<open>What \<open>Unwrap\<close> gives beyond the model's children are sentinels, which no search for a struct stops at.\<close>

lemma found_same:
  assumes "\<And>s. \<not> wanted (Sentinel s)"
  shows "first_found (map (\<lambda>x. List.find wanted (err_chain x)) (unwrapped (unwrap_method e))) =
    first_found (map (\<lambda>x. List.find wanted (err_chain x)) (unwrap e))"
proof (cases e)
  case (Errorf f as)
  then show ?thesis by (auto split: list.splits)
next
  case (ExecutionError c ca cl s oh j)
  then show ?thesis by (cases c; cases ca; cases cl) (simp_all add: method_defs)
qed (use assms in \<open>auto simp: method_defs split: option.splits\<close>)

lemma errors_As_find:
  assumes "\<And>s. \<not> wanted (Sentinel s)"
  shows "errors_As wanted e = List.find wanted (err_chain e)"
proof (induction "err_depth e" arbitrary: e rule: less_induct)
  case less
  have "map (errors_As wanted) (unwrapped (unwrap_method e)) = map (\<lambda>x. List.find wanted (err_chain x)) (unwrapped (unwrap_method e))"
    using less unwrapped_depth by simp
  then show ?case by (subst errors_As.simps) (simp only: found_same[of wanted e, OF assms] find_chain[of wanted e])
qed


text \<open>The texts of the methods are those of \<open>error_text\<close>.\<close>

lemma error_text_methods:
  "error_text ip (MaterializedTableRefreshOutcomeUnknownError s m e p c) =
     MaterializedTableRefreshOutcomeUnknownError_Error (Some \<lparr>osSessionHandle = s, osMethod = m, osEndpoint = e, osRequestPhase = p, osCause = c\<rparr>)"
  "error_text ip (ScriptDeploymentOutcomeUnknownError s m e p c) =
     ScriptDeploymentOutcomeUnknownError_Error (Some \<lparr>osSessionHandle = s, osMethod = m, osEndpoint = e, osRequestPhase = p, osCause = c\<rparr>)"
  "error_text ip (SanitizedTransportError m x to te) =
     sanitizedTransportError_Error (Some \<lparr>tsMessage = m, tsCause = x, tsTimeout = to, tsTemporary = te\<rparr>)"
  by (simp_all add: MaterializedTableRefreshOutcomeUnknownError_Error_def ScriptDeploymentOutcomeUnknownError_Error_def
      sanitizedTransportError_Error_def)

end
