(* ===== verification/Snapshots.thy ===== *)
theory Snapshots
  imports Rows
begin

text \<open>
  The deep copies of \<open>flinksqlgateway/snapshot.go\<close> and \<open>decoder.go\<close>, over values with addresses: a pointer or slice that is
  not nil is a box, its address with what it holds.  An allocation takes the next address.  What a value means is its view,
  the value the rest of the development uses; what it shares with others are its addresses.
\<close>

section \<open>Memory\<close>

datatype 'a box = Nil_Ref | Box nat 'a

datatype type_mem = TypeMem string bool "int box" "int box" "int box" "int box" string "type_mem box" "type_mem box" "type_mem box"
    "field_mem list box" "string box"
  and field_mem = FieldMem string "type_mem box" "type_mem box" string

record column_mem =
  cmName :: string
  cmType :: type_mem
  cmComment :: "string box"

record row_mem =
  rmKind :: string
  rmFields :: "string box list box"

record info_mem =
  imColumns :: "column_mem list box"
  imRowFormat :: string
  imData :: "row_mem list box"

text \<open>The fields of a page that are not pointers are those of the page in \<open>pmScalars\<close>.\<close>

record page_mem =
  pmScalars :: result_page
  pmResults :: "info_mem box"
  pmRaw :: "string box"

record 'o event_mem =
  emType :: string
  emOperation :: "'o box"
  emPage :: "page_mem box"
  emRow :: "row_mem box"

section \<open>Views and addresses\<close>

fun box_option :: "'a box \<Rightarrow> 'a option" where
  "box_option Nil_Ref = None"
| "box_option (Box a x) = Some x"

fun box_list :: "'a list box \<Rightarrow> 'a list" where
  "box_list Nil_Ref = []"
| "box_list (Box a xs) = xs"

fun box_addr :: "'a box \<Rightarrow> nat set" where
  "box_addr Nil_Ref = {}"
| "box_addr (Box a x) = {a}"

primrec view_type :: "type_mem \<Rightarrow> logical_type" and view_field :: "field_mem \<Rightarrow> logical_type_field" where
  "view_type (TypeMem ty nu le pr sc fr re el ke va fs raw) =
     LogicalType ty nu (box_option le) (box_option pr) (box_option sc) (box_option fr) re
       (box_option (map_box view_type el)) (box_option (map_box view_type ke)) (box_option (map_box view_type va))
       (box_list (map_box (map view_field) fs)) (box_list raw)"
| "view_field (FieldMem n lt t d) = LogicalTypeField n (box_option (map_box view_type lt)) (box_option (map_box view_type t)) d"

primrec type_addrs :: "type_mem \<Rightarrow> nat set" and field_addrs :: "field_mem \<Rightarrow> nat set" where
  "type_addrs (TypeMem ty nu le pr sc fr re el ke va fs raw) =
     box_addr le \<union> box_addr pr \<union> box_addr sc \<union> box_addr fr \<union> box_addr raw \<union>
     (box_addr el \<union> \<Union>(set_box (map_box type_addrs el))) \<union> (box_addr ke \<union> \<Union>(set_box (map_box type_addrs ke))) \<union>
     (box_addr va \<union> \<Union>(set_box (map_box type_addrs va))) \<union> (box_addr fs \<union> \<Union>(set (box_list (map_box (map field_addrs) fs))))"
| "field_addrs (FieldMem n lt t d) =
     (box_addr lt \<union> \<Union>(set_box (map_box type_addrs lt))) \<union> (box_addr t \<union> \<Union>(set_box (map_box type_addrs t)))"

definition view_column :: "column_mem \<Rightarrow> column_info" where
  "view_column c = \<lparr>colName = cmName c, colLogicalType = view_type (cmType c), colComment = box_option (cmComment c)\<rparr>"

definition column_addrs :: "column_mem \<Rightarrow> nat set" where
  "column_addrs c = type_addrs (cmType c) \<union> box_addr (cmComment c)"

definition view_row :: "row_mem \<Rightarrow> row" where
  "view_row r = \<lparr>Kind = rmKind r, Fields = map box_list (box_list (rmFields r))\<rparr>"

definition row_addrs :: "row_mem \<Rightarrow> nat set" where
  "row_addrs r = box_addr (rmFields r) \<union> \<Union>(set (map box_addr (box_list (rmFields r))))"

definition view_info :: "info_mem \<Rightarrow> result_info" where
  "view_info i = \<lparr>Columns = map view_column (box_list (imColumns i)), riRowFormat = imRowFormat i, Data = map view_row (box_list (imData i))\<rparr>"

definition info_addrs :: "info_mem \<Rightarrow> nat set" where
  "info_addrs i = (box_addr (imColumns i) \<union> \<Union>(set (map column_addrs (box_list (imColumns i))))) \<union>
     (box_addr (imData i) \<union> \<Union>(set (map row_addrs (box_list (imData i)))))"

definition view_page :: "page_mem \<Rightarrow> result_page" where
  "view_page p = (pmScalars p)\<lparr>Results := box_option (map_box view_info (pmResults p)), pageRaw := box_list (pmRaw p)\<rparr>"

definition page_addrs :: "page_mem \<Rightarrow> nat set" where
  "page_addrs p = (box_addr (pmResults p) \<union> \<Union>(set_box (map_box info_addrs (pmResults p)))) \<union> box_addr (pmRaw p)"

definition view_event :: "'o event_mem \<Rightarrow> string \<times> 'o option \<times> result_page option \<times> row option" where
  "view_event e = (emType e, box_option (emOperation e), box_option (map_box view_page (emPage e)), box_option (map_box view_row (emRow e)))"

definition event_addrs :: "'o event_mem \<Rightarrow> nat set" where
  "event_addrs e = box_addr (emOperation e) \<union> (box_addr (emPage e) \<union> \<Union>(set_box (map_box page_addrs (emPage e)))) \<union>
     (box_addr (emRow e) \<union> \<Union>(set_box (map_box row_addrs (emRow e))))"

section \<open>Copies\<close>

text \<open>A copy of a pointer: nil, or a new variable; a new slice for the elements; \<open>append([]byte(nil), s...)\<close>, nil for no
  bytes.\<close>

type_synonym 'a alloc = "nat \<Rightarrow> 'a \<times> nat"

fun new_ptr :: "'a alloc box \<Rightarrow> 'a box alloc" where
  "new_ptr Nil_Ref n = (Nil_Ref, n)"
| "new_ptr (Box a m) n = (case m (Suc n) of (x, n1) \<Rightarrow> (Box n x, n1))"

fun new_elems :: "'a alloc list \<Rightarrow> 'a list alloc" where
  "new_elems [] n = ([], n)"
| "new_elems (m # ms) n = (case m n of (x, n1) \<Rightarrow> (case new_elems ms n1 of (xs, n2) \<Rightarrow> (x # xs, n2)))"

definition new_slice :: "'a alloc list \<Rightarrow> 'a list box alloc" where
  "new_slice ms n = (case new_elems ms (Suc n) of (xs, n1) \<Rightarrow> (Box n xs, n1))"

definition append_bytes :: "string box \<Rightarrow> string box alloc" where
  "append_bytes b n = (if box_list b = [] then (Nil_Ref, n) else (Box n (box_list b), Suc n))"

definition cloneIntPointer :: "int box \<Rightarrow> int box alloc" where
  "cloneIntPointer b = new_ptr (map_box Pair b)"

primrec cloneLogicalType :: "type_mem \<Rightarrow> type_mem alloc" and clone_field :: "field_mem \<Rightarrow> field_mem alloc" where
  "cloneLogicalType (TypeMem ty nu le pr sc fr re el ke va fs raw) = (\<lambda>n.
     let (le1, n1) = cloneIntPointer le n; (pr1, n2) = cloneIntPointer pr n1; (sc1, n3) = cloneIntPointer sc n2;
         (fr1, n4) = cloneIntPointer fr n3; (raw1, n5) = append_bytes raw n4;
         (el1, n6) = new_ptr (map_box cloneLogicalType el) n5; (ke1, n7) = new_ptr (map_box cloneLogicalType ke) n6;
         (va1, n8) = new_ptr (map_box cloneLogicalType va) n7; (fs1, n9) = new_slice (box_list (map_box (map clone_field) fs)) n8
     in (TypeMem ty nu le1 pr1 sc1 fr1 re el1 ke1 va1 fs1 raw1, n9))"
| "clone_field (FieldMem nm lt t d) = (\<lambda>n.
     let (lt1, n1) = new_ptr (map_box cloneLogicalType lt) n; (t1, n2) = new_ptr (map_box cloneLogicalType t) n1
     in (FieldMem nm lt1 t1 d, n2))"

definition clone_column :: "column_mem \<Rightarrow> column_mem alloc" where
  "clone_column c n =
     (let (ty, n1) = cloneLogicalType (cmType c) n; (cm, n2) = new_ptr (map_box Pair (cmComment c)) n1
      in (c\<lparr>cmType := ty, cmComment := cm\<rparr>, n2))"

definition cloneColumns :: "column_mem list \<Rightarrow> column_mem list box alloc" where
  "cloneColumns cs = new_slice (map clone_column cs)"

definition cloneRawMessages :: "string box list \<Rightarrow> string box list box alloc" where
  "cloneRawMessages fs = new_slice (map append_bytes fs)"

definition cloneRow :: "row_mem \<Rightarrow> row_mem alloc" where
  "cloneRow r n = (case cloneRawMessages (box_list (rmFields r)) n of (fs, n1) \<Rightarrow> (r\<lparr>rmFields := fs\<rparr>, n1))"

definition clone_info :: "info_mem \<Rightarrow> info_mem alloc" where
  "clone_info i n =
     (let (cs, n1) = cloneColumns (box_list (imColumns i)) n; (rs, n2) = new_slice (map cloneRow (box_list (imData i))) n1
      in (i\<lparr>imColumns := cs, imData := rs\<rparr>, n2))"

definition clone_page :: "page_mem \<Rightarrow> page_mem alloc" where
  "clone_page p n =
     (let (raw, n1) = append_bytes (pmRaw p) n; (res, n2) = new_ptr (map_box clone_info (pmResults p)) n1
      in (p\<lparr>pmRaw := raw, pmResults := res\<rparr>, n2))"

definition cloneResultPage :: "page_mem box \<Rightarrow> page_mem box alloc" where
  "cloneResultPage p = new_ptr (map_box clone_page p)"

definition cloneOperation :: "'o box \<Rightarrow> 'o box alloc" where
  "cloneOperation p = new_ptr (map_box Pair p)"

definition cloneResultEvent :: "'o event_mem \<Rightarrow> 'o event_mem alloc" where
  "cloneResultEvent e n =
     (let (op, n1) = cloneOperation (emOperation e) n; (page, n2) = cloneResultPage (emPage e) n1;
          (r, n3) = new_ptr (map_box cloneRow (emRow e)) n2
      in (e\<lparr>emOperation := op, emPage := page, emRow := r\<rparr>, n3))"

section \<open>A copy means the same and shares nothing\<close>

text \<open>An allocation \<open>m\<close> gives a value with the view \<open>v\<close> whose addresses are all new.\<close>

definition isolates :: "('a \<Rightarrow> nat set) \<Rightarrow> ('a \<Rightarrow> 'v) \<Rightarrow> 'v \<Rightarrow> 'a alloc \<Rightarrow> bool" where
  "isolates ad vw v m = (\<forall>n y n1. m n = (y, n1) \<longrightarrow> n \<le> n1 \<and> vw y = v \<and> ad y \<subseteq> {n..<n1})"

lemma isolatesI: "(\<And>n y n1. m n = (y, n1) \<Longrightarrow> n \<le> n1 \<and> vw y = v \<and> ad y \<subseteq> {n..<n1}) \<Longrightarrow> isolates ad vw v m"
  by (simp add: isolates_def)

lemma isolatesD: "isolates ad vw v m \<Longrightarrow> m n = (y, n1) \<Longrightarrow> n \<le> n1 \<and> vw y = v \<and> ad y \<subseteq> {n..<n1}"
  by (simp add: isolates_def)

lemma box_list_map [simp]: "box_list (map_box (map f) b) = map f (box_list b)"
  by (cases b) auto

lemma box_option_map [simp]: "box_option (map_box f b) = map_option f (box_option b)"
  by (cases b) auto

lemma isolates_new_ptr:
  assumes "\<And>x. x \<in> set_box b \<Longrightarrow> isolates ad vw (vw x) (f x)"
  shows "isolates (\<lambda>b. box_addr b \<union> \<Union>(ad ` set_box b)) (\<lambda>b. map_option vw (box_option b)) (map_option vw (box_option b)) (new_ptr (map_box f b))"
proof (cases b)
  case (Box a x)
  show ?thesis unfolding Box
    by (rule isolatesI) (use assms[of x] Box in \<open>auto split: prod.splits dest!: isolatesD\<close>)
qed (simp add: isolates_def)

lemma isolates_elems:
  "(\<And>x. x \<in> set xs \<Longrightarrow> isolates ad vw (vw x) (f x)) \<Longrightarrow> isolates (\<lambda>ys. \<Union>(ad ` set ys)) (map vw) (map vw xs) (new_elems (map f xs))"
proof (induction xs)
  case (Cons x xs)
  have x: "isolates ad vw (vw x) (f x)" and xs: "isolates (\<lambda>ys. \<Union>(ad ` set ys)) (map vw) (map vw xs) (new_elems (map f xs))"
    using Cons by auto
  show ?case
  proof (rule isolatesI)
    fix n ys n2 assume "new_elems (map f (x # xs)) n = (ys, n2)"
    then obtain y n1 ys' where y: "f x n = (y, n1)" "new_elems (map f xs) n1 = (ys', n2)" "ys = y # ys'" by (auto split: prod.splits)
    show "n \<le> n2 \<and> map vw ys = map vw (x # xs) \<and> \<Union>(ad ` set ys) \<subseteq> {n..<n2}"
      using isolatesD[OF x y(1)] isolatesD[OF xs y(2)] y(3) by fastforce
  qed
qed (simp add: isolates_def)

lemma isolates_slice:
  assumes "\<And>x. x \<in> set xs \<Longrightarrow> isolates ad vw (vw x) (f x)"
  shows "isolates (\<lambda>b. box_addr b \<union> \<Union>(ad ` set (box_list b))) (\<lambda>b. map vw (box_list b)) (map vw xs) (new_slice (map f xs))"
proof (rule isolatesI)
  fix n y n1 assume "new_slice (map f xs) n = (y, n1)"
  then obtain ys where y: "new_elems (map f xs) (Suc n) = (ys, n1)" "y = Box n ys" by (auto simp: new_slice_def split: prod.splits)
  have "isolates (\<lambda>ys. \<Union>(ad ` set ys)) (map vw) (map vw xs) (new_elems (map f xs))" by (rule isolates_elems) (rule assms)
  from isolatesD[OF this y(1)] show "n \<le> n1 \<and> map vw (box_list y) = map vw xs \<and> box_addr y \<union> \<Union>(ad ` set (box_list y)) \<subseteq> {n..<n1}"
    unfolding y(2) by force
qed

lemma isolates_bytes: "isolates box_addr box_list (box_list b) (append_bytes b)"
  by (rule isolatesI) (auto simp: append_bytes_def split: if_splits)

lemma isolates_scalar: "isolates box_addr box_option (box_option b) (new_ptr (map_box Pair b))"
  by (rule isolatesI) (cases b; auto)

lemma isolates_int: "isolates box_addr box_option (box_option b) (cloneIntPointer b)"
  unfolding cloneIntPointer_def by (rule isolates_scalar)

lemma isolates_type: "isolates type_addrs view_type (view_type t) (cloneLogicalType t)"
  and isolates_field: "isolates field_addrs view_field (view_field f) (clone_field f)"
proof (induction t and f)
  case (TypeMem ty nu le pr sc fr re el ke va fs raw)
  show ?case
  proof (rule isolatesI)
    fix n y m assume "cloneLogicalType (TypeMem ty nu le pr sc fr re el ke va fs raw) n = (y, m)"
    then obtain le1 n1 pr1 n2 sc1 n3 fr1 n4 raw1 n5 el1 n6 ke1 n7 va1 n8 fs1 where
      c: "cloneIntPointer le n = (le1, n1)" "cloneIntPointer pr n1 = (pr1, n2)" "cloneIntPointer sc n2 = (sc1, n3)"
        "cloneIntPointer fr n3 = (fr1, n4)" "append_bytes raw n4 = (raw1, n5)" "new_ptr (map_box cloneLogicalType el) n5 = (el1, n6)"
        "new_ptr (map_box cloneLogicalType ke) n6 = (ke1, n7)" "new_ptr (map_box cloneLogicalType va) n7 = (va1, n8)"
        "new_slice (map clone_field (box_list fs)) n8 = (fs1, m)" and y: "y = TypeMem ty nu le1 pr1 sc1 fr1 re el1 ke1 va1 fs1 raw1"
      by (auto split: prod.splits)
    have p: "isolates (\<lambda>b. box_addr b \<union> \<Union>(type_addrs ` set_box b)) (\<lambda>b. map_option view_type (box_option b))
        (map_option view_type (box_option b)) (new_ptr (map_box cloneLogicalType b))" if "b \<in> {el, ke, va}" for b
      by (rule isolates_new_ptr) (use TypeMem(1-3) that in auto)
    have f: "isolates (\<lambda>b. box_addr b \<union> \<Union>(field_addrs ` set (box_list b))) (\<lambda>b. map view_field (box_list b)) (map view_field (box_list fs))
        (new_slice (map clone_field (box_list fs)))"
      by (rule isolates_slice) (use TypeMem(4) in \<open>cases fs; auto\<close>)
    note steps = isolatesD[OF isolates_int c(1)] isolatesD[OF isolates_int c(2)] isolatesD[OF isolates_int c(3)] isolatesD[OF isolates_int c(4)]
      isolatesD[OF isolates_bytes c(5)] isolatesD[OF p c(6)] isolatesD[OF p c(7)] isolatesD[OF p c(8)] isolatesD[OF f c(9)]
    have le: "n \<le> n1" "n1 \<le> n2" "n2 \<le> n3" "n3 \<le> n4" "n4 \<le> n5" "n5 \<le> n6" "n6 \<le> n7" "n7 \<le> n8" "n8 \<le> m" using steps by simp_all
    have "type_addrs y \<subseteq> {n..<m}" unfolding y using steps le by (auto simp: box.set_map)
    moreover have "view_type y = view_type (TypeMem ty nu le pr sc fr re el ke va fs raw)" unfolding y using steps by simp
    ultimately show "n \<le> m \<and> view_type y = view_type (TypeMem ty nu le pr sc fr re el ke va fs raw) \<and> type_addrs y \<subseteq> {n..<m}"
      using le by linarith
  qed
next
  case (FieldMem nm lt t d)
  show ?case
  proof (rule isolatesI)
    fix n y m assume "clone_field (FieldMem nm lt t d) n = (y, m)"
    then obtain lt1 n1 t1 where c: "new_ptr (map_box cloneLogicalType lt) n = (lt1, n1)" "new_ptr (map_box cloneLogicalType t) n1 = (t1, m)"
      and y: "y = FieldMem nm lt1 t1 d" by (auto split: prod.splits)
    have p: "isolates (\<lambda>b. box_addr b \<union> \<Union>(type_addrs ` set_box b)) (\<lambda>b. map_option view_type (box_option b))
        (map_option view_type (box_option b)) (new_ptr (map_box cloneLogicalType b))" if "b \<in> {lt, t}" for b
      by (rule isolates_new_ptr) (use FieldMem that in auto)
    note steps = isolatesD[OF p c(1)] isolatesD[OF p c(2)]
    have le: "n \<le> n1" "n1 \<le> m" using steps by simp_all
    have "field_addrs y \<subseteq> {n..<m}" unfolding y using steps le by (auto simp: box.set_map)
    moreover have "view_field y = view_field (FieldMem nm lt t d)" unfolding y using steps by simp
    ultimately show "n \<le> m \<and> view_field y = view_field (FieldMem nm lt t d) \<and> field_addrs y \<subseteq> {n..<m}" using le by linarith
  qed
qed

lemma isolates_column: "isolates column_addrs view_column (view_column c) (clone_column c)"
proof (rule isolatesI)
  fix n y m assume "clone_column c n = (y, m)"
  then obtain ty n1 cm where c: "cloneLogicalType (cmType c) n = (ty, n1)" "new_ptr (map_box Pair (cmComment c)) n1 = (cm, m)"
    and y: "y = c\<lparr>cmType := ty, cmComment := cm\<rparr>" by (auto simp: clone_column_def split: prod.splits)
  show "n \<le> m \<and> view_column y = view_column c \<and> column_addrs y \<subseteq> {n..<m}"
    using isolatesD[OF isolates_type c(1)] isolatesD[OF isolates_scalar c(2)] unfolding y by (auto simp: view_column_def column_addrs_def)
qed

lemma isolates_columns: "isolates (\<lambda>b. box_addr b \<union> \<Union>(column_addrs ` set (box_list b))) (\<lambda>b. map view_column (box_list b))
    (map view_column cs) (cloneColumns cs)"
  unfolding cloneColumns_def by (rule isolates_slice) (rule isolates_column)

lemma isolates_row: "isolates row_addrs view_row (view_row r) (cloneRow r)"
proof (rule isolatesI)
  fix n y m assume "cloneRow r n = (y, m)"
  then obtain fs where c: "new_slice (map append_bytes (box_list (rmFields r))) n = (fs, m)" and y: "y = r\<lparr>rmFields := fs\<rparr>"
    by (auto simp: cloneRow_def cloneRawMessages_def split: prod.splits)
  have "isolates (\<lambda>b. box_addr b \<union> \<Union>(box_addr ` set (box_list b))) (\<lambda>b. map box_list (box_list b))
      (map box_list (box_list (rmFields r))) (new_slice (map append_bytes (box_list (rmFields r))))"
    by (rule isolates_slice) (rule isolates_bytes)
  from isolatesD[OF this c] show "n \<le> m \<and> view_row y = view_row r \<and> row_addrs y \<subseteq> {n..<m}"
    unfolding y by (auto simp: view_row_def row_addrs_def)
qed

lemma isolates_info: "isolates info_addrs view_info (view_info i) (clone_info i)"
proof (rule isolatesI)
  fix n y m assume "clone_info i n = (y, m)"
  then obtain cs n1 rs where c: "cloneColumns (box_list (imColumns i)) n = (cs, n1)" "new_slice (map cloneRow (box_list (imData i))) n1 = (rs, m)"
    and y: "y = i\<lparr>imColumns := cs, imData := rs\<rparr>" by (auto simp: clone_info_def split: prod.splits)
  have r: "isolates (\<lambda>b. box_addr b \<union> \<Union>(row_addrs ` set (box_list b))) (\<lambda>b. map view_row (box_list b))
      (map view_row (box_list (imData i))) (new_slice (map cloneRow (box_list (imData i))))"
    by (rule isolates_slice) (rule isolates_row)
  note steps = isolatesD[OF isolates_columns c(1)] isolatesD[OF r c(2)]
  have le: "n \<le> n1" "n1 \<le> m" using steps by simp_all
  have "info_addrs y \<subseteq> {n..<m}" unfolding y using steps le by (auto simp: info_addrs_def)
  moreover have "view_info y = view_info i" unfolding y using steps by (simp add: view_info_def)
  ultimately show "n \<le> m \<and> view_info y = view_info i \<and> info_addrs y \<subseteq> {n..<m}" using le by linarith
qed

lemma isolates_page: "isolates page_addrs view_page (view_page p) (clone_page p)"
proof (rule isolatesI)
  fix n y m assume "clone_page p n = (y, m)"
  then obtain raw n1 res where c: "append_bytes (pmRaw p) n = (raw, n1)" "new_ptr (map_box clone_info (pmResults p)) n1 = (res, m)"
    and y: "y = p\<lparr>pmRaw := raw, pmResults := res\<rparr>" by (auto simp: clone_page_def split: prod.splits)
  have i: "isolates (\<lambda>b. box_addr b \<union> \<Union>(info_addrs ` set_box b)) (\<lambda>b. map_option view_info (box_option b))
      (map_option view_info (box_option (pmResults p))) (new_ptr (map_box clone_info (pmResults p)))"
    by (rule isolates_new_ptr) (rule isolates_info)
  note steps = isolatesD[OF isolates_bytes c(1)] isolatesD[OF i c(2)]
  have le: "n \<le> n1" "n1 \<le> m" using steps by simp_all
  have "page_addrs y \<subseteq> {n..<m}" unfolding y using steps le by (auto simp: page_addrs_def box.set_map)
  moreover have "view_page y = view_page p" unfolding y using steps by (simp add: view_page_def)
  ultimately show "n \<le> m \<and> view_page y = view_page p \<and> page_addrs y \<subseteq> {n..<m}" using le by linarith
qed

lemma isolates_operation: "isolates box_addr box_option (box_option b) (cloneOperation b)"
  unfolding cloneOperation_def by (rule isolates_scalar)

lemma isolates_result_page: "isolates (\<lambda>b. box_addr b \<union> \<Union>(page_addrs ` set_box b)) (\<lambda>b. map_option view_page (box_option b))
    (map_option view_page (box_option b)) (cloneResultPage b)"
  unfolding cloneResultPage_def by (rule isolates_new_ptr) (rule isolates_page)

lemma isolates_event: "isolates event_addrs view_event (view_event e) (cloneResultEvent e)"
proof (rule isolatesI)
  fix n y m assume "cloneResultEvent e n = (y, m)"
  then obtain op n1 page n2 r where c: "cloneOperation (emOperation e) n = (op, n1)" "cloneResultPage (emPage e) n1 = (page, n2)"
      "new_ptr (map_box cloneRow (emRow e)) n2 = (r, m)"
    and y: "y = e\<lparr>emOperation := op, emPage := page, emRow := r\<rparr>" by (auto simp: cloneResultEvent_def split: prod.splits)
  have row: "isolates (\<lambda>b. box_addr b \<union> \<Union>(row_addrs ` set_box b)) (\<lambda>b. map_option view_row (box_option b))
      (map_option view_row (box_option (emRow e))) (new_ptr (map_box cloneRow (emRow e)))"
    by (rule isolates_new_ptr) (rule isolates_row)
  note steps = isolatesD[OF isolates_operation c(1)] isolatesD[OF isolates_result_page c(2)] isolatesD[OF row c(3)]
  have le: "n \<le> n1" "n1 \<le> n2" "n2 \<le> m" using steps by simp_all
  have "event_addrs y \<subseteq> {n..<m}" unfolding y using steps le by (auto simp: event_addrs_def box.set_map)
  moreover have "view_event y = view_event e" unfolding y using steps by (simp add: view_event_def)
  ultimately show "n \<le> m \<and> view_event y = view_event e \<and> event_addrs y \<subseteq> {n..<m}" using le by linarith
qed

text \<open>C23: what a stream hands out is a snapshot.  The copy of an event has the same operation, page, columns, types, rows and
  bytes at every depth, and no pointer or slice of it, however deep, is one of the event it was made from or of any other
  value that exists, so that a consumer who writes into it changes nothing the stream keeps.\<close>

theorem clone_isolated:
  assumes "cloneResultEvent e n = (e', m)" "\<forall>a \<in> event_addrs e. a < n"
  shows "view_event e' = view_event e \<and> event_addrs e' \<inter> event_addrs e = {} \<and> (\<forall>a \<in> event_addrs e'. n \<le> a \<and> a < m)"
  using isolatesD[OF isolates_event assms(1)] assms(2) by fastforce

text \<open>A page with a column of an array type and a row of two fields, one of them empty.\<close>

definition sample_event :: "nat event_mem" where
  "sample_event = \<lparr>emType = ''page'', emOperation = Box 0 7,
     emPage = Box 1 \<lparr>pmScalars = \<lparr>ResultType = ''PAYLOAD'', ResultKind = ''SUCCESS'', QueryResult = True, JobID = [], NextResultURI = [],
         Results = None, pageRaw = [], ResponseBytes = 2\<rparr>, pmResults = Box 2 \<lparr>imColumns = Box 3
         [\<lparr>cmName = ''a'', cmType = TypeMem ''ARRAY'' True Nil_Ref Nil_Ref Nil_Ref Nil_Ref []
             (Box 4 (TypeMem ''DECIMAL'' True Nil_Ref (Box 5 10) (Box 6 2) Nil_Ref [] Nil_Ref Nil_Ref Nil_Ref Nil_Ref Nil_Ref))
             Nil_Ref Nil_Ref Nil_Ref Nil_Ref, cmComment = Box 7 ''c''\<rparr>],
         imRowFormat = ''JSON'', imData = Box 8 [\<lparr>rmKind = ''INSERT'', rmFields = Box 9 [Box 10 ''[1]'', Nil_Ref]\<rparr>]\<rparr>,
       pmRaw = Box 11 ''{}''\<rparr>,
     emRow = Nil_Ref\<rparr>"

lemma clone_isolated_witness:
  "view_event (fst (cloneResultEvent sample_event 12)) = view_event sample_event \<and>
   event_addrs (fst (cloneResultEvent sample_event 12)) \<inter> event_addrs sample_event = {} \<and>
   event_addrs sample_event = {0..<12}"
proof -
  have a: "event_addrs sample_event = {0..<12}"
    by (auto simp: event_addrs_def sample_event_def page_addrs_def info_addrs_def column_addrs_def row_addrs_def) presburger
  show ?thesis using clone_isolated[OF prod.collapse[symmetric], of sample_event 12] a by simp
qed

end
