(* ===== verification/Copies.thy ===== *)
theory Copies
  imports Snapshots Transport
begin

text \<open>
  The other copies the code makes so that callers and the client share no memory, over the values with addresses of Snapshots: the
  properties of a session (\<open>client.go\<close>), compatibility and capabilities (\<open>compatibility.go\<close>), the accessor of a row
  (\<open>decoder.go\<close>) and the rows of the materializer (\<open>changelog\<close>).  A map is a box of its entries.
\<close>

section \<open>Sessions\<close>

type_synonym map_mem = "(string \<times> string) list box"

record session_mem =
  smHandle :: string
  smName :: string
  smProperties :: map_mem

definition view_session :: "session_mem \<Rightarrow> session_record" where
  "view_session s = \<lparr>srHandle = smHandle s, srName = smName s, srProperties = box_list (smProperties s)\<rparr>"

definition session_addrs :: "session_mem \<Rightarrow> nat set" where
  "session_addrs s = box_addr (smProperties s)"

definition cloneMap :: "map_mem \<Rightarrow> map_mem alloc" where
  "cloneMap m n = (case m of Nil_Ref \<Rightarrow> (Nil_Ref, n) | Box a entries \<Rightarrow> (Box n entries, Suc n))"

definition session_snapshot :: "session_mem box \<Rightarrow> session_mem box alloc" where
  "session_snapshot s n =
     (case s of Nil_Ref \<Rightarrow> (Nil_Ref, n)
      | Box a r \<Rightarrow> (case cloneMap (smProperties r) (Suc n) of (m, n1) \<Rightarrow>
          (Box n \<lparr>smHandle = smHandle r, smName = smName r, smProperties = m\<rparr>, n1)))"

text \<open>The record \<open>OpenSession\<close> keeps of a request, and the session it returns.\<close>

definition open_record :: "string \<Rightarrow> string \<Rightarrow> map_mem \<Rightarrow> (session_mem box \<times> session_mem box) alloc" where
  "open_record handle name properties n =
     (case cloneMap properties (Suc n) of (m, n1) \<Rightarrow>
        (let kept = Box n \<lparr>smHandle = handle, smName = name, smProperties = m\<rparr> in
         case session_snapshot kept n1 of (returned, n2) \<Rightarrow> ((kept, returned), n2)))"

definition boxed_addrs :: "session_mem box \<Rightarrow> nat set" where
  "boxed_addrs b = box_addr b \<union> \<Union>(session_addrs ` set_box b)"

lemma isolates_map: "isolates box_addr box_option (box_option m) (cloneMap m)"
  by (rule isolatesI) (auto simp: cloneMap_def split: box.splits)

lemma cloneMap_list: "cloneMap m n = (m', n') \<Longrightarrow> box_list m' = box_list m"
  by (auto simp: cloneMap_def split: box.splits)

lemma session_snapshot_isolates:
  "isolates boxed_addrs (\<lambda>b. map_option view_session (box_option b)) (map_option view_session (box_option s)) (session_snapshot s)"
proof (rule isolatesI)
  fix n y n1 assume y: "session_snapshot s n = (y, n1)"
  show "n \<le> n1 \<and> map_option view_session (box_option y) = map_option view_session (box_option s) \<and> boxed_addrs y \<subseteq> {n..<n1}"
  proof (cases s)
    case (Box a r)
    obtain m n2 where c: "cloneMap (smProperties r) (Suc n) = (m, n2)" by fastforce
    show ?thesis using y Box c isolatesD[OF isolates_map c] cloneMap_list[OF c]
      by (auto simp: session_snapshot_def boxed_addrs_def session_addrs_def view_session_def)
  qed (use y in \<open>simp add: session_snapshot_def boxed_addrs_def\<close>)
qed

text \<open>The request, what the client keeps and what the caller gets are three different maps with the same entries.\<close>

lemma open_record_separate:
  assumes "open_record handle name properties n = ((kept, returned), n')" "\<forall>a \<in> box_addr properties. a < n"
  shows "boxed_addrs kept \<inter> boxed_addrs returned = {} \<and> boxed_addrs kept \<inter> box_addr properties = {} \<and>
    boxed_addrs returned \<inter> box_addr properties = {} \<and>
    map_option view_session (box_option kept) = Some \<lparr>srHandle = handle, srName = name, srProperties = box_list properties\<rparr> \<and>
    map_option view_session (box_option returned) = map_option view_session (box_option kept)"
proof -
  obtain m n1 where c: "cloneMap properties (Suc n) = (m, n1)" by fastforce
  let ?k = "Box n \<lparr>smHandle = handle, smName = name, smProperties = m\<rparr>"
  have s: "kept = ?k" "session_snapshot ?k n1 = (returned, n')" using assms(1) c by (auto simp: open_record_def Let_def split: prod.splits)
  have k: "boxed_addrs ?k \<subseteq> {n..<n1}" using isolatesD[OF isolates_map c] by (auto simp: boxed_addrs_def session_addrs_def)
  show ?thesis using isolatesD[OF session_snapshot_isolates s(2)] isolatesD[OF isolates_map c] k assms(2) cloneMap_list[OF c]
    unfolding s(1) by (fastforce simp: view_session_def)
qed

section \<open>Compatibility\<close>

record capabilities_mem =
  qmScalars :: capabilities
  qmVersions :: "string list box"

record compatibility_mem =
  omScalars :: compatibilityInfo
  omCapabilities :: capabilities_mem

definition view_capabilities :: "capabilities_mem \<Rightarrow> capabilities" where
  "view_capabilities c = (qmScalars c)\<lparr>SupportedAPIVersions := box_list (qmVersions c)\<rparr>"

definition view_compatibility :: "compatibility_mem \<Rightarrow> compatibilityInfo" where
  "view_compatibility c = (omScalars c)\<lparr>Capabilities := view_capabilities (omCapabilities c)\<rparr>"

text \<open>Strings do not change, so copying the slice is enough; nil stays nil.\<close>

definition cloneStrings :: "string list box \<Rightarrow> string list box alloc" where
  "cloneStrings b n = (case b of Nil_Ref \<Rightarrow> (Nil_Ref, n) | Box a xs \<Rightarrow> (Box n xs, Suc n))"

definition cloneCapabilities :: "capabilities_mem \<Rightarrow> capabilities_mem alloc" where
  "cloneCapabilities c n = (case cloneStrings (qmVersions c) n of (v, n1) \<Rightarrow> (c\<lparr>qmVersions := v\<rparr>, n1))"

definition cloneCompatibilityInfo :: "compatibility_mem \<Rightarrow> compatibility_mem alloc" where
  "cloneCompatibilityInfo c n = (case cloneCapabilities (omCapabilities c) n of (q, n1) \<Rightarrow> (c\<lparr>omCapabilities := q\<rparr>, n1))"

lemma isolates_compatibility:
  "isolates (\<lambda>c. box_addr (qmVersions (omCapabilities c))) view_compatibility (view_compatibility c) (cloneCompatibilityInfo c)"
  by (rule isolatesI)
    (auto simp: cloneCompatibilityInfo_def cloneCapabilities_def cloneStrings_def view_compatibility_def view_capabilities_def
      split: prod.splits box.splits)

section \<open>Rows\<close>

text \<open>The accessor keeps a row and columns of its own; the decoder is stateless.\<close>

record accessor_mem =
  amRow :: row_mem
  amColumns :: "column_mem list box"

definition view_accessor :: "accessor_mem \<Rightarrow> row_accessor" where
  "view_accessor a = \<lparr>accRow = view_row (amRow a), accColumns = map view_column (box_list (amColumns a))\<rparr>"

definition accessor_addrs :: "accessor_mem \<Rightarrow> nat set" where
  "accessor_addrs a = row_addrs (amRow a) \<union> (box_addr (amColumns a) \<union> \<Union>(column_addrs ` set (box_list (amColumns a))))"

definition accessor_of :: "row_mem \<Rightarrow> column_mem list box \<Rightarrow> accessor_mem alloc" where
  "accessor_of r columns n =
     (let (fs, n1) = cloneRawMessages (box_list (rmFields r)) n; (cs, n2) = cloneColumns (box_list columns) n1
      in (\<lparr>amRow = r\<lparr>rmFields := fs\<rparr>, amColumns = cs\<rparr>, n2))"

definition NewRowAccessor :: "row_mem \<Rightarrow> column_mem list box \<Rightarrow> accessor_mem alloc" where
  "NewRowAccessor r columns = accessor_of r columns"

definition accessor_Row :: "accessor_mem \<Rightarrow> row_mem alloc" where
  "accessor_Row a n = (case cloneRawMessages (box_list (rmFields (amRow a))) n of (fs, n1) \<Rightarrow> ((amRow a)\<lparr>rmFields := fs\<rparr>, n1))"

definition materializer_cloneRow :: "row_mem \<Rightarrow> row_mem alloc" where
  "materializer_cloneRow r n = (case new_slice (map append_bytes (box_list (rmFields r))) n of (fs, n1) \<Rightarrow> (r\<lparr>rmFields := fs\<rparr>, n1))"

lemma row_copies: "materializer_cloneRow = cloneRow" "accessor_Row a = cloneRow (amRow a)"
  by (auto simp: fun_eq_iff materializer_cloneRow_def cloneRow_def cloneRawMessages_def accessor_Row_def)

text \<open>An accessor reads what \<open>WithColumns\<close> of the row and columns reads, and shares nothing with them; the row it gives out is another
  copy.\<close>

lemma isolates_accessor:
  "isolates accessor_addrs view_accessor (WithColumns (view_row r) (map view_column (box_list columns))) (accessor_of r columns)"
proof (rule isolatesI)
  fix n y m assume "accessor_of r columns n = (y, m)"
  then obtain n1 r1 cs where c: "cloneRow r n = (r1, n1)" "cloneColumns (box_list columns) n1 = (cs, m)"
    and y: "y = \<lparr>amRow = r1, amColumns = cs\<rparr>" by (auto simp: accessor_of_def cloneRow_def split: prod.splits)
  show "n \<le> m \<and> view_accessor y = WithColumns (view_row r) (map view_column (box_list columns)) \<and> accessor_addrs y \<subseteq> {n..<m}"
    using isolatesD[OF isolates_row c(1)] isolatesD[OF isolates_columns c(2)] unfolding y
    by (auto simp: view_accessor_def accessor_addrs_def WithColumns_def)
qed

end
