(* ===== verification/Page_Decoding.thy ===== *)
theory Page_Decoding
  imports Rows
begin

text \<open>
  \<open>LogicalType.UnmarshalJSON\<close> and \<open>ResultPage.UnmarshalJSON\<close> of \<open>flinksqlgateway/types.go\<close>, with what
  \<open>encoding/json\<close> does for the structs of a result page: members are matched without case and set the
  struct one after the other, \<open>null\<close> leaves a value and clears a pointer or a slice, an array is decoded over
  the elements that are there, and a raw message keeps the text of its value.  \<open>None\<close> is a decoding error;
  the source drops the value then.
\<close>

section \<open>Values with their texts\<close>

text \<open>A parsed value in which every part has its text.\<close>

datatype rjson = RScalar (raw_text: string) json | RArr (raw_text: string) "rjson list" | RObj (raw_text: string) "(string \<times> rjson) list"

definition text_between :: "string \<Rightarrow> string \<Rightarrow> string" where
  "text_between s r = take (length s - length r) s"

text \<open>The parts of a value whose parse is known; the text goes to its rest.\<close>

fun annot :: "json \<Rightarrow> string \<Rightarrow> rjson \<times> string"
  and annot_elems :: "json list \<Rightarrow> string \<Rightarrow> rjson list \<times> string"
  and annot_members :: "(string \<times> json) list \<Rightarrow> string \<Rightarrow> (string \<times> rjson) list \<times> string" where
  "annot (JArr vs) s = (let t = skip_ws s; (xs, r) = annot_elems vs (tl t) in (RArr (text_between t r) xs, r))"
| "annot (JObj kvs) s = (let t = skip_ws s; (xs, r) = annot_members kvs (tl t) in (RObj (text_between t r) xs, r))"
| "annot v s = (let t = skip_ws s; r = (case parse_scalar t of None \<Rightarrow> [] | Some (w, r) \<Rightarrow> r) in (RScalar (text_between t r) v, r))"
| "annot_elems [] s = ([], tl (skip_ws s))"
| "annot_elems (v # vs) s =
     (let (x, r) = annot v s in
      if vs = [] then ([x], tl (skip_ws r)) else (let (xs, r') = annot_elems vs (tl (skip_ws r)) in (x # xs, r')))"
| "annot_members [] s = ([], tl (skip_ws s))"
| "annot_members ((k, v) # kvs) s =
     (let r1 = (case parse_str (tl (skip_ws s)) of None \<Rightarrow> [] | Some (t, r) \<Rightarrow> r); (x, r) = annot v (tl (skip_ws r1)) in
      if kvs = [] then ([(k, x)], tl (skip_ws r))
      else (let (xs, r') = annot_members kvs (tl (skip_ws r)) in ((k, x) # xs, r')))"

definition parse_raw :: "string \<Rightarrow> rjson option" where
  "parse_raw s = map_option (\<lambda>v. fst (annot v s)) (parse_json s)"

section \<open>Fields\<close>

fun put_string :: "rjson \<Rightarrow> string \<Rightarrow> string option" where
  "put_string (RScalar raw (JStr s)) old = Some s"
| "put_string (RScalar raw JNull) old = Some old"
| "put_string _ old = None"

fun put_bool :: "rjson \<Rightarrow> bool \<Rightarrow> bool option" where
  "put_bool (RScalar raw (JBool b)) old = Some b"
| "put_bool (RScalar raw JNull) old = Some old"
| "put_bool _ old = None"

text \<open>Pointers: \<open>null\<close> makes them nil.\<close>

fun put_bool_ptr :: "rjson \<Rightarrow> bool option option" where
  "put_bool_ptr (RScalar raw (JBool b)) = Some (Some b)"
| "put_bool_ptr (RScalar raw JNull) = Some None"
| "put_bool_ptr _ = None"

fun put_string_ptr :: "rjson \<Rightarrow> string option option" where
  "put_string_ptr (RScalar raw (JStr s)) = Some (Some s)"
| "put_string_ptr (RScalar raw JNull) = Some None"
| "put_string_ptr _ = None"

fun put_int_ptr :: "rjson \<Rightarrow> int option option" where
  "put_int_ptr (RScalar raw (JNum s)) = map_option Some (atoi s)"
| "put_int_ptr (RScalar raw JNull) = Some None"
| "put_int_ptr _ = None"

definition is_null :: "rjson \<Rightarrow> bool" where
  "is_null x = (case x of RScalar raw JNull \<Rightarrow> True | _ \<Rightarrow> False)"

text \<open>A slice of elements that \<open>put\<close> decodes, over the old elements or the zero value.\<close>

fun put_elems :: "(rjson \<Rightarrow> 'a \<Rightarrow> 'a option) \<Rightarrow> 'a \<Rightarrow> 'a list \<Rightarrow> rjson list \<Rightarrow> 'a list option" where
  "put_elems put zero old [] = Some []"
| "put_elems put zero old (x # xs) =
     (case put x (case old of [] \<Rightarrow> zero | o1 # os \<Rightarrow> o1) of
        None \<Rightarrow> None
      | Some y \<Rightarrow> map_option (\<lambda>ys. y # ys) (put_elems put zero (tl old) xs))"

fun put_slice :: "(rjson \<Rightarrow> 'a \<Rightarrow> 'a option) \<Rightarrow> 'a \<Rightarrow> rjson \<Rightarrow> 'a list \<Rightarrow> 'a list option" where
  "put_slice put zero (RArr raw xs) old = put_elems put zero old xs"
| "put_slice put zero (RScalar raw JNull) old = Some []"
| "put_slice put zero _ old = None"

fun put_members :: "(string \<Rightarrow> rjson \<Rightarrow> 'a \<Rightarrow> 'a option) \<Rightarrow> (string \<times> rjson) list \<Rightarrow> 'a \<Rightarrow> 'a option" where
  "put_members put [] old = Some old"
| "put_members put ((k, x) # kvs) old = (case put k x old of None \<Rightarrow> None | Some y \<Rightarrow> put_members put kvs y)"

fun put_struct :: "(string \<Rightarrow> rjson \<Rightarrow> 'a \<Rightarrow> 'a option) \<Rightarrow> rjson \<Rightarrow> 'a \<Rightarrow> 'a option" where
  "put_struct put (RObj raw kvs) old = put_members put kvs old"
| "put_struct put (RScalar raw JNull) old = Some old"
| "put_struct put _ old = None"

section \<open>Logical types\<close>

record logical_wire =
  lwType :: string
  lwNullable :: bool
  lwLength :: "int option"
  lwPrecision :: "int option"
  lwScale :: "int option"
  lwFractionalPrecision :: "int option"
  lwResolution :: string
  lwElementType :: "logical_type option"
  lwKeyType :: "logical_type option"
  lwValueType :: "logical_type option"
  lwFields :: "logical_type_field list"

definition no_wire :: logical_wire where
  "no_wire = \<lparr>lwType = [], lwNullable = False, lwLength = None, lwPrecision = None, lwScale = None,
     lwFractionalPrecision = None, lwResolution = [], lwElementType = None, lwKeyType = None, lwValueType = None, lwFields = []\<rparr>"

definition of_wire :: "logical_wire \<Rightarrow> string \<Rightarrow> logical_type" where
  "of_wire w raw = LogicalType (lwType w) (lwNullable w) (lwLength w) (lwPrecision w) (lwScale w) (lwFractionalPrecision w)
     (lwResolution w) (lwElementType w) (lwKeyType w) (lwValueType w) (lwFields w) raw"

text \<open>\<open>LogicalType.UnmarshalJSON\<close>: it decodes into a fresh value and keeps the text.\<close>

fun UnmarshalLogicalType :: "rjson \<Rightarrow> logical_type option"
  and put_type_ptr :: "rjson \<Rightarrow> logical_type option option"
  and put_type_members :: "(string \<times> rjson) list \<Rightarrow> logical_wire \<Rightarrow> logical_wire option"
  and put_type_fields :: "rjson list \<Rightarrow> logical_type_field list \<Rightarrow> logical_type_field list option"
  and put_field_members :: "(string \<times> rjson) list \<Rightarrow> logical_type_field \<Rightarrow> logical_type_field option" where
  "UnmarshalLogicalType (RObj raw kvs) = map_option (\<lambda>w. of_wire w raw) (put_type_members kvs no_wire)"
| "UnmarshalLogicalType (RArr raw xs) = None"
| "UnmarshalLogicalType (RScalar raw v) = (if v = JNull then Some (of_wire no_wire raw) else None)"
| "put_type_ptr (RObj raw kvs) = map_option (\<lambda>w. Some (of_wire w raw)) (put_type_members kvs no_wire)"
| "put_type_ptr (RArr raw xs) = None"
| "put_type_ptr (RScalar raw v) = (if v = JNull then Some None else None)"
| "put_type_members [] w = Some w"
| "put_type_members ((k, x) # kvs) w =
     (case (if equal_fold k ''type'' then map_option (\<lambda>s. w\<lparr>lwType := s\<rparr>) (put_string x (lwType w))
            else if equal_fold k ''nullable'' then map_option (\<lambda>b. w\<lparr>lwNullable := b\<rparr>) (put_bool x (lwNullable w))
            else if equal_fold k ''length'' then map_option (\<lambda>n. w\<lparr>lwLength := n\<rparr>) (put_int_ptr x)
            else if equal_fold k ''precision'' then map_option (\<lambda>n. w\<lparr>lwPrecision := n\<rparr>) (put_int_ptr x)
            else if equal_fold k ''scale'' then map_option (\<lambda>n. w\<lparr>lwScale := n\<rparr>) (put_int_ptr x)
            else if equal_fold k ''fractionalPrecision'' then map_option (\<lambda>n. w\<lparr>lwFractionalPrecision := n\<rparr>) (put_int_ptr x)
            else if equal_fold k ''resolution'' then map_option (\<lambda>s. w\<lparr>lwResolution := s\<rparr>) (put_string x (lwResolution w))
            else if equal_fold k ''elementType'' then map_option (\<lambda>t. w\<lparr>lwElementType := t\<rparr>) (put_type_ptr x)
            else if equal_fold k ''keyType'' then map_option (\<lambda>t. w\<lparr>lwKeyType := t\<rparr>) (put_type_ptr x)
            else if equal_fold k ''valueType'' then map_option (\<lambda>t. w\<lparr>lwValueType := t\<rparr>) (put_type_ptr x)
            else if equal_fold k ''fields'' then
              (case x of RArr raw xs \<Rightarrow> map_option (\<lambda>fs. w\<lparr>lwFields := fs\<rparr>) (put_type_fields xs (lwFields w))
               | RScalar raw v \<Rightarrow> (if v = JNull then Some (w\<lparr>lwFields := []\<rparr>) else None)
               | RObj raw ys \<Rightarrow> None)
            else Some w) of
        None \<Rightarrow> None | Some w' \<Rightarrow> put_type_members kvs w')"
| "put_type_fields [] old = Some []"
| "put_type_fields (x # xs) old =
     (let f = (case old of [] \<Rightarrow> LogicalTypeField [] None None [] | o1 # os \<Rightarrow> o1) in
      case (case x of RObj raw kvs \<Rightarrow> put_field_members kvs f
              | RScalar raw v \<Rightarrow> (if v = JNull then Some f else None) | RArr raw ys \<Rightarrow> None) of
        None \<Rightarrow> None | Some f' \<Rightarrow> map_option (\<lambda>fs. f' # fs) (put_type_fields xs (tl old)))"
| "put_field_members [] f = Some f"
| "put_field_members ((k, x) # kvs) f =
     (case (if equal_fold k ''name'' then map_option (\<lambda>s. LogicalTypeField s (fieldLogicalType f) (fieldType f) (fieldDescription f)) (put_string x (fieldName f))
            else if equal_fold k ''logicalType'' then map_option (\<lambda>t. LogicalTypeField (fieldName f) t (fieldType f) (fieldDescription f)) (put_type_ptr x)
            else if equal_fold k ''type'' then map_option (\<lambda>t. LogicalTypeField (fieldName f) (fieldLogicalType f) t (fieldDescription f)) (put_type_ptr x)
            else if equal_fold k ''description'' then map_option (\<lambda>s. LogicalTypeField (fieldName f) (fieldLogicalType f) (fieldType f) s) (put_string x (fieldDescription f))
            else Some f) of
        None \<Rightarrow> None | Some f' \<Rightarrow> put_field_members kvs f')"

section \<open>Pages\<close>

definition no_type :: logical_type where
  "no_type = of_wire no_wire []"

definition put_column :: "string \<Rightarrow> rjson \<Rightarrow> column_info \<Rightarrow> column_info option" where
  "put_column k x c =
     (if equal_fold k ''name'' then map_option (\<lambda>s. c\<lparr>colName := s\<rparr>) (put_string x (colName c))
      else if equal_fold k ''logicalType'' then map_option (\<lambda>t. c\<lparr>colLogicalType := t\<rparr>) (UnmarshalLogicalType x)
      else if equal_fold k ''comment'' then map_option (\<lambda>s. c\<lparr>colComment := s\<rparr>) (put_string_ptr x)
      else Some c)"

definition put_row :: "string \<Rightarrow> rjson \<Rightarrow> row \<Rightarrow> row option" where
  "put_row k x r =
     (if equal_fold k ''kind'' then map_option (\<lambda>s. r\<lparr>Kind := s\<rparr>) (put_string x (Kind r))
      else if equal_fold k ''fields'' then map_option (\<lambda>fs. r\<lparr>Fields := fs\<rparr>) (put_slice (\<lambda>y old. Some (raw_text y)) [] x (Fields r))
      else Some r)"

definition put_result_info :: "string \<Rightarrow> rjson \<Rightarrow> result_info \<Rightarrow> result_info option" where
  "put_result_info k x i =
     (if equal_fold k ''columns'' then map_option (\<lambda>cs. i\<lparr>Columns := cs\<rparr>)
        (put_slice (put_struct put_column) \<lparr>colName = [], colLogicalType = no_type, colComment = None\<rparr> x (Columns i))
      else if equal_fold k ''rowFormat'' then map_option (\<lambda>s. i\<lparr>riRowFormat := s\<rparr>) (put_string x (riRowFormat i))
      else if equal_fold k ''data'' then map_option (\<lambda>rs. i\<lparr>Data := rs\<rparr>)
        (put_slice (put_struct put_row) \<lparr>Kind = [], Fields = []\<rparr> x (Data i))
      else Some i)"

record page_wire =
  pwResultType :: string
  pwResultKind :: string
  pwIsQueryResult :: "bool option"
  pwQueryResult :: "bool option"
  pwJobID :: string
  pwNextResultURI :: string
  pwResults :: "result_info option"

definition no_page_wire :: page_wire where
  "no_page_wire = \<lparr>pwResultType = [], pwResultKind = [], pwIsQueryResult = None, pwQueryResult = None, pwJobID = [],
     pwNextResultURI = [], pwResults = None\<rparr>"

definition put_page :: "string \<Rightarrow> rjson \<Rightarrow> page_wire \<Rightarrow> page_wire option" where
  "put_page k x p =
     (if equal_fold k ''resultType'' then map_option (\<lambda>s. p\<lparr>pwResultType := s\<rparr>) (put_string x (pwResultType p))
      else if equal_fold k ''resultKind'' then map_option (\<lambda>s. p\<lparr>pwResultKind := s\<rparr>) (put_string x (pwResultKind p))
      else if equal_fold k ''isQueryResult'' then map_option (\<lambda>b. p\<lparr>pwIsQueryResult := b\<rparr>) (put_bool_ptr x)
      else if equal_fold k ''queryResult'' then map_option (\<lambda>b. p\<lparr>pwQueryResult := b\<rparr>) (put_bool_ptr x)
      else if equal_fold k ''jobID'' then map_option (\<lambda>s. p\<lparr>pwJobID := s\<rparr>) (put_string x (pwJobID p))
      else if equal_fold k ''nextResultUri'' then map_option (\<lambda>s. p\<lparr>pwNextResultURI := s\<rparr>) (put_string x (pwNextResultURI p))
      else if equal_fold k ''results'' then
        (if is_null x then Some (p\<lparr>pwResults := None\<rparr>)
         else map_option (\<lambda>i. p\<lparr>pwResults := Some i\<rparr>)
           (put_struct put_result_info x (case pwResults p of None \<Rightarrow> \<lparr>Columns = [], riRowFormat = [], Data = []\<rparr> | Some i \<Rightarrow> i)))
      else Some p)"

definition no_page :: result_page where
  "no_page = \<lparr>ResultType = [], ResultKind = [], QueryResult = False, JobID = [], NextResultURI = [], Results = None,
     pageRaw = [], ResponseBytes = 0\<rparr>"

text \<open>\<open>ResultPage.UnmarshalJSON\<close> on a fresh page.\<close>

definition UnmarshalResultPage :: "rjson \<Rightarrow> result_page option" where
  "UnmarshalResultPage x =
     map_option (\<lambda>d. no_page\<lparr>ResultType := pwResultType d, ResultKind := pwResultKind d, JobID := pwJobID d,
         NextResultURI := pwNextResultURI d, Results := pwResults d,
         QueryResult := (case pwIsQueryResult d of Some b \<Rightarrow> b
           | None \<Rightarrow> (case pwQueryResult d of Some b \<Rightarrow> b | None \<Rightarrow> False)),
         pageRaw := raw_text x\<rparr>)
       (put_struct put_page x no_page_wire)"

definition decode_page :: "string \<Rightarrow> (goerr, result_page) result" where
  "decode_page data =
     (case parse_raw data of
        None \<Rightarrow> Inl (Errorf ''invalid JSON'' [])
      | Some x \<Rightarrow> (case UnmarshalResultPage x of None \<Rightarrow> Inl (Errorf ''json: cannot unmarshal'' []) | Some page \<Rightarrow> Inr page))"

lemma decode_page_fresh: "decode_page data = Inr page \<Longrightarrow> ResponseBytes page = 0"
  by (auto simp: decode_page_def UnmarshalResultPage_def no_page_def split: option.splits)

end
