(* ===== verification/Results.thy ===== *)
theory Results
  imports Rows Config
begin

text \<open>
  \<open>flinksqlgateway/result.go\<close> with \<open>operationFailure\<close> and \<open>nextURLString\<close> of
  \<open>operation.go\<close>: the loop that follows the server's paging URIs.  What the loop calls is an
  environment over a state \<open>'s\<close> (the client, the server and the clock): the context, the two
  fetch requests, the status request, the wait.  Every call takes the state and returns it
  changed, so the order of the calls is the order of the source.
\<close>

section \<open>Polling interval\<close>

text \<open>Arithmetic of \<open>time.Duration\<close>, a signed 64-bit integer.\<close>

definition wrap64 :: "int \<Rightarrow> int" where
  "wrap64 x = (x + 2 ^ 63) mod 2 ^ 64 - 2 ^ 63"

definition nextPollInterval :: "int \<Rightarrow> int \<Rightarrow> int" where
  "nextPollInterval current maximum =
     (let nxt = wrap64 (current * 2) in if nxt < current \<or> nxt > maximum then maximum else nxt)"

lemma wrap64_id:
  assumes "- (2 ^ 63) \<le> x" "x < 2 ^ 63"
  shows "wrap64 x = x"
proof -
  have "(x + 2 ^ 63) mod 2 ^ 64 = x + 2 ^ 63" using assms by (intro mod_pos_pos_trivial) auto
  then show ?thesis by (simp only: wrap64_def)
qed

lemma wrap64_high:
  assumes "2 ^ 63 \<le> x" "x < 2 ^ 64"
  shows "wrap64 x = x - 2 ^ 64"
proof -
  have "(x + 2 ^ 63) mod 2 ^ 64 = ((x - 2 ^ 63) + 2 ^ 64) mod 2 ^ 64" by (simp add: algebra_simps)
  also have "\<dots> = (x - 2 ^ 63) mod 2 ^ 64" by (rule mod_add_self2)
  also have "\<dots> = x - 2 ^ 63" using assms by (intro mod_pos_pos_trivial) auto
  finally show ?thesis by (simp add: wrap64_def)
qed

text \<open>The interval doubles up to its maximum, and the wrap-around of the 64-bit product is
  caught: the result is the minimum of the mathematical double and the maximum.\<close>

theorem nextPollInterval_min:
  assumes "0 < current" "current \<le> maximum" "maximum < 2 ^ 63"
  shows "nextPollInterval current maximum = min (2 * current) maximum"
proof (cases "current * 2 < 2 ^ 63")
  case True
  then have "wrap64 (current * 2) = current * 2" using assms by (intro wrap64_id) auto
  then show ?thesis using assms by (simp add: nextPollInterval_def Let_def min_def)
next
  case False
  then have "wrap64 (current * 2) = current * 2 - 2 ^ 64" using assms by (intro wrap64_high) auto
  then show ?thesis using assms False by (simp add: nextPollInterval_def Let_def min_def)
qed

theorem nextPollInterval_min_witness:
  "nextPollInterval (2 ^ 62 + 1) (2 ^ 63 - 1) = 2 ^ 63 - 1"
  using nextPollInterval_min[of "2 ^ 62 + 1" "2 ^ 63 - 1"] by simp

section \<open>The environment of an execution\<close>

record operation =
  opHandle :: string
  opSessionHandle :: string

record execution_limits =
  rowFormat :: string
  limMaxRows :: int
  limMaxPolls :: int

record execution_result =
  resOperation :: operation
  resStatus :: string
  resResultKind :: string
  resQueryResult :: bool
  resJobID :: string
  resColumns :: "column_info list"
  resRows :: "row list"
  RowsReceived :: int
  Pages :: int
  Polls :: int

text \<open>\<open>ResultEvent\<close>: its type and the one pointer that is set for it.\<close>

datatype result_event =
  EventOperation operation | EventPage result_page | EventRow row | EventEOS result_page

record 's result_env =
  env_ctx_err :: "'s \<Rightarrow> goerr option \<times> 's"
  env_fetch_first :: "'s \<Rightarrow> (goerr, result_page) result \<times> 's"
  env_fetch_url :: "go_url \<Rightarrow> 's \<Rightarrow> (goerr, result_page) result \<times> 's"
  env_status :: "'s \<Rightarrow> (goerr, string) result \<times> 's"
  env_wait :: "int \<Rightarrow> 's \<Rightarrow> goerr option \<times> 's"
  env_validate :: "string \<Rightarrow> (goerr, go_url) result"
  env_poll :: int
  env_max_poll :: int

type_synonym 's emitter = "(result_event \<Rightarrow> 's \<Rightarrow> goerr option \<times> 's) option"

definition operationFailure :: "('s \<Rightarrow> (goerr, string) result \<times> 's) \<Rightarrow> goerr \<Rightarrow> 's \<Rightarrow> goerr \<times> 's" where
  "operationFailure get_status fetchErr s =
     (if isContextError fetchErr \<or> err_is fetchErr ErrResultLimit then (fetchErr, s)
      else case get_status s of
        (Inr st, s') \<Rightarrow>
          (if Terminal st \<and> \<not> Successful st
           then Errorf ''%w: status=%s'' [ArgWrap (Sentinel ErrOperationFailed), ArgText st] else fetchErr, s')
      | (Inl _, s') \<Rightarrow> (fetchErr, s'))"

definition nextURLString :: "result_page \<Rightarrow> string" where
  "nextURLString page = trim_space (NextResultURI page)"

definition pageWithoutRows :: "result_page \<Rightarrow> result_page" where
  "pageWithoutRows page = page\<lparr>pageRaw := [], Results := map_option (\<lambda>info. info\<lparr>Data := []\<rparr>) (Results page)\<rparr>"

section \<open>Checking rows\<close>

fun validate_fields :: "nat \<Rightarrow> nat \<Rightarrow> string list \<Rightarrow> goerr option" where
  "validate_fields rowIndex i [] = None"
| "validate_fields rowIndex i (f # fs) =
     (case validateRawJSONField f of
        Some err \<Rightarrow> Some (Errorf ''flinksqlgateway: result row %d column %d has an invalid field: %w''
               [ArgText (show_nat rowIndex), ArgText (show_nat i), ArgWrap err])
      | None \<Rightarrow> validate_fields rowIndex (Suc i) fs)"

fun validate_rows :: "nat \<Rightarrow> column_info list \<Rightarrow> row list \<Rightarrow> goerr option" where
  "validate_rows i cols [] = None"
| "validate_rows i cols (r # rs) =
     (if length (Fields r) \<noteq> length cols
      then Some (Errorf ''flinksqlgateway: result row %d has %d fields for %d columns''
             [ArgText (show_nat i), ArgText (show_nat (length (Fields r))), ArgText (show_nat (length cols))])
      else case validate_fields i 0 (Fields r) of
        Some err \<Rightarrow> Some err
      | None \<Rightarrow> validate_rows (Suc i) cols rs)"

definition validateResultRows :: "column_info list \<Rightarrow> row list \<Rightarrow> goerr option" where
  "validateResultRows cols rs = validate_rows 0 cols rs"

definition row_fits :: "column_info list \<Rightarrow> row \<Rightarrow> bool" where
  "row_fits cols r = (length (Fields r) = length cols
     \<and> list_all (\<lambda>f. trim_space f \<noteq> [] \<and> json_valid (trim_space f)) (Fields r))"

lemma validate_fields_None: "validate_fields i j fs = None \<longleftrightarrow>
    list_all (\<lambda>f. trim_space f \<noteq> [] \<and> json_valid (trim_space f)) fs"
  by (induction i j fs rule: validate_fields.induct)
    (auto simp: validateRawJSONField_None[symmetric] split: option.splits)

lemma validate_rows_None: "validate_rows i cols rs = None \<longleftrightarrow> list_all (row_fits cols) rs"
proof (induction i cols rs rule: validate_rows.induct)
  case (2 i cols r rs)
  then show ?case
    using validate_fields_None[of i 0 "Fields r"]
    by (cases "validate_fields i 0 (Fields r)") (auto simp: row_fits_def)
qed simp

lemma validateResultRows_None: "validateResultRows cols rs = None \<longleftrightarrow> list_all (row_fits cols) rs"
  by (simp add: validateResultRows_def validate_rows_None)

section \<open>\<open>consumeResults\<close>\<close>

text \<open>The loop over the rows of a page; \<open>take_row\<close> is what one row changes of the result.\<close>

definition take_row :: "bool \<Rightarrow> execution_result \<Rightarrow> row \<Rightarrow> execution_result" where
  "take_row collect result r =
     (let result1 = (if collect then result\<lparr>resRows := resRows result @ [r]\<rparr> else result)
      in result1\<lparr>RowsReceived := RowsReceived result1 + 1\<rparr>)"

fun deliver_rows :: "execution_limits \<Rightarrow> bool \<Rightarrow> 's emitter \<Rightarrow> row list \<Rightarrow> execution_result \<Rightarrow> 's
    \<Rightarrow> execution_result \<times> goerr option \<times> 's" where
  "deliver_rows limits collect emit [] result s = (result, None, s)"
| "deliver_rows limits collect emit (r # rs) result s =
     (if RowsReceived result \<ge> limMaxRows limits
      then (result, Some (ResultLimitError ''rows'' (limMaxRows limits) (RowsReceived result)), s)
      else
        (let result' = take_row collect result r in
         case emit of
           None \<Rightarrow> deliver_rows limits collect emit rs result' s
         | Some f \<Rightarrow>
             (case f (EventRow r) s of
                (Some err, s') \<Rightarrow> (result', Some err, s')
              | (None, s') \<Rightarrow> deliver_rows limits collect emit rs result' s')))"

definition emit_event :: "'s emitter \<Rightarrow> result_event \<Rightarrow> 's \<Rightarrow> goerr option \<times> 's" where
  "emit_event emit e s = (case emit of None \<Rightarrow> (None, s) | Some f \<Rightarrow> f e s)"

text \<open>How a page ends: with the result and an error (none at the end of the stream), or with the
  next poll.\<close>

datatype 's page_end = Done execution_result "goerr option" 's | Again execution_result int "go_url option" 's

definition not_ready_page :: "'s result_env \<Rightarrow> execution_result \<Rightarrow> int \<Rightarrow> result_page \<Rightarrow> 's \<Rightarrow> 's page_end" where
  "not_ready_page env result interval page s =
     (let uri = nextURLString page in
      case (if uri = [] then Inr None else map_sum id Some (env_validate env uri)) of
        Inl err \<Rightarrow> Done result (Some err) s
      | Inr nxt \<Rightarrow>
          (case env_wait env interval s of
             (Some err, s') \<Rightarrow> Done result (Some err) s'
           | (None, s') \<Rightarrow> Again result (nextPollInterval interval (env_max_poll env)) nxt s'))"

definition page_rows :: "result_page \<Rightarrow> row list" where
  "page_rows page = (case Results page of None \<Rightarrow> [] | Some info \<Rightarrow> Data info)"

text \<open>The counters and metadata a result page updates, before its rows are looked at.\<close>

definition note_page :: "execution_result \<Rightarrow> result_page \<Rightarrow> execution_result" where
  "note_page result page =
     (let r1 = result\<lparr>Pages := Pages result + 1, resResultKind := ResultKind page,
                      resQueryResult := QueryResult page\<rparr>;
          r2 = (if JobID page \<noteq> [] then r1\<lparr>resJobID := JobID page\<rparr> else r1) in
      case Results page of
        None \<Rightarrow> r2
      | Some info \<Rightarrow>
          if resColumns r2 = [] \<and> Columns info \<noteq> [] then r2\<lparr>resColumns := Columns info\<rparr> else r2)"

definition result_page_end ::
  "'s result_env \<Rightarrow> execution_limits \<Rightarrow> bool \<Rightarrow> 's emitter \<Rightarrow> execution_result \<Rightarrow> result_page \<Rightarrow> 's \<Rightarrow> 's page_end" where
  "result_page_end env limits collect emit result0 page s0 =
     (let result = note_page result0 page in
      case (if Results page = None then None else validateResultRows (resColumns result) (page_rows page)) of
        Some err \<Rightarrow> Done result (Some err) s0
      | None \<Rightarrow>
      (case emit_event emit (EventPage (pageWithoutRows page)) s0 of
        (Some err, s1) \<Rightarrow> Done result (Some err) s1
      | (None, s1) \<Rightarrow>
      (case deliver_rows limits collect emit (page_rows page) result s1 of
        (result1, Some err, s2) \<Rightarrow> Done result1 (Some err) s2
      | (result1, None, s2) \<Rightarrow>
          if ResultType page = ResultEOS
          then (let result2 = result1\<lparr>resStatus := ''FINISHED''\<rparr> in
                case emit_event emit (EventEOS (pageWithoutRows page)) s2 of
                  (Some err, s3) \<Rightarrow> Done result2 (Some err) s3
                | (None, s3) \<Rightarrow> Done result2 None s3)
          else (let uri = nextURLString page in
                if uri = []
                then Done result1 (Some (Errorf ''flinksqlgateway: PAYLOAD result omitted nextResultUri'' [])) s2
                else case env_validate env uri of
                  Inl err \<Rightarrow> Done result1 (Some err) s2
                | Inr nxt \<Rightarrow> Again result1 (env_poll env) (Some nxt) s2))))"

definition handle_page ::
  "'s result_env \<Rightarrow> execution_limits \<Rightarrow> bool \<Rightarrow> 's emitter \<Rightarrow> execution_result \<Rightarrow> int \<Rightarrow> result_page \<Rightarrow> 's \<Rightarrow> 's page_end" where
  "handle_page env limits collect emit result interval page s =
     (if ResultType page = ResultNotReady then not_ready_page env result interval page s
      else if ResultType page = ResultPayload \<or> ResultType page = ResultEOS
      then result_page_end env limits collect emit result page s
      else Done result (Some (Errorf ''flinksqlgateway: unknown resultType %q'' [ArgText (ResultType page)])) s)"

definition fetch_next :: "('s, 'z) result_env_scheme \<Rightarrow> go_url option \<Rightarrow> 's \<Rightarrow> (goerr, result_page) result \<times> 's" where
  "fetch_next env nxt s = (case nxt of None \<Rightarrow> env_fetch_first env s | Some u \<Rightarrow> env_fetch_url env u s)"

lemma take_row_sel [simp]:
  "RowsReceived (take_row c r x) = RowsReceived r + 1"
  "resRows (take_row c r x) = (if c then resRows r @ [x] else resRows r)"
  "Polls (take_row c r x) = Polls r" "Pages (take_row c r x) = Pages r"
  "resStatus (take_row c r x) = resStatus r" "resColumns (take_row c r x) = resColumns r"
  "resOperation (take_row c r x) = resOperation r"
  by (simp_all add: take_row_def Let_def)

lemma fold_take_row [simp]:
  "RowsReceived (foldl (take_row c) r xs) = RowsReceived r + int (length xs)"
  "resRows (foldl (take_row c) r xs) = (if c then resRows r @ xs else resRows r)"
  "Polls (foldl (take_row c) r xs) = Polls r" "Pages (foldl (take_row c) r xs) = Pages r"
  "resStatus (foldl (take_row c) r xs) = resStatus r" "resColumns (foldl (take_row c) r xs) = resColumns r"
  "resOperation (foldl (take_row c) r xs) = resOperation r"
  by (induction xs arbitrary: r) auto

text \<open>The rows a page delivers are a prefix of its rows, all of them when there is no error, and
  never beyond the limit.\<close>

lemma deliver_rows_fold:
  assumes "deliver_rows l c e rs r s = (r', x, s')"
  obtains k where "k \<le> length rs" "r' = foldl (take_row c) r (take k rs)" "x = None \<longrightarrow> k = length rs"
    "RowsReceived r \<le> limMaxRows l \<longrightarrow> RowsReceived r' \<le> limMaxRows l"
  using assms
proof (induction rs arbitrary: r s thesis)
  case Nil
  then show ?case by simp
next
  case (Cons y rs)
  show ?case
  proof (cases "RowsReceived r \<ge> limMaxRows l")
    case True
    with Cons.prems(2) have "r' = r" "x \<noteq> None" by auto
    then show ?thesis using Cons.prems(1)[of 0] by simp
  next
    case False
    have step: thesis if "deliver_rows l c e rs (take_row c r y) s1 = (r', x, s')" for s1
    proof (rule Cons.IH[OF _ that])
      fix k
      assume "k \<le> length rs" "r' = foldl (take_row c) (take_row c r y) (take k rs)" "x = None \<longrightarrow> k = length rs"
        "RowsReceived (take_row c r y) \<le> limMaxRows l \<longrightarrow> RowsReceived r' \<le> limMaxRows l"
      then show thesis using Cons.prems(1)[of "Suc k"] False by simp
    qed
    show ?thesis
    proof (cases e)
      case None
      then show ?thesis using Cons.prems(2) False step by (simp add: Let_def)
    next
      case (Some f)
      obtain z s1 where f: "f (EventRow y) s = (z, s1)" by fastforce
      show ?thesis
      proof (cases z)
        case None
        then show ?thesis using Cons.prems(2) False f \<open>e = Some f\<close> step by (simp add: Let_def)
      next
        case (Some err)
        then have "r' = take_row c r y" "x \<noteq> None" using Cons.prems(2) False f \<open>e = Some f\<close> by (auto simp: Let_def)
        then show ?thesis using Cons.prems(1)[of 1] False by auto
      qed
    qed
  qed
qed

lemma deliver_rows_polls: "deliver_rows l c e rs r s = (r', x, s') \<Longrightarrow> Polls r' = Polls r"
  by (erule deliver_rows_fold) simp

lemma note_page_polls [simp]: "Polls (note_page r p) = Polls r"
  by (simp add: note_page_def Let_def split: option.splits)

text \<open>The ways a result page ends.\<close>

lemma result_page_end_cases:
  obtains
    (invalid) err where "result_page_end env l c e r p s = Done (note_page r p) (Some err) s"
      "Results p \<noteq> None" "\<not> list_all (row_fits (resColumns (note_page r p))) (page_rows p)"
  | (page_event) err s1 where "result_page_end env l c e r p s = Done (note_page r p) (Some err) s1"
      "emit_event e (EventPage (pageWithoutRows p)) s = (Some err, s1)"
  | (rows) err s1 r1 s2 where "result_page_end env l c e r p s = Done r1 (Some err) s2"
      "emit_event e (EventPage (pageWithoutRows p)) s = (None, s1)"
      "deliver_rows l c e (page_rows p) (note_page r p) s1 = (r1, Some err, s2)"
  | (eos) s1 r1 s2 x s3 where "result_page_end env l c e r p s = Done (r1\<lparr>resStatus := ''FINISHED''\<rparr>) x s3"
      "list_all (row_fits (resColumns (note_page r p))) (page_rows p)"
      "emit_event e (EventPage (pageWithoutRows p)) s = (None, s1)"
      "deliver_rows l c e (page_rows p) (note_page r p) s1 = (r1, None, s2)"
      "ResultType p = ResultEOS" "emit_event e (EventEOS (pageWithoutRows p)) s2 = (x, s3)"
  | (no_next) s1 r1 s2 err where "result_page_end env l c e r p s = Done r1 (Some err) s2"
      "emit_event e (EventPage (pageWithoutRows p)) s = (None, s1)"
      "deliver_rows l c e (page_rows p) (note_page r p) s1 = (r1, None, s2)" "ResultType p \<noteq> ResultEOS"
      "nextURLString p = [] \<or> env_validate env (nextURLString p) = Inl err"
  | (again) s1 r1 s2 u where "result_page_end env l c e r p s = Again r1 (env_poll env) (Some u) s2"
      "list_all (row_fits (resColumns (note_page r p))) (page_rows p)"
      "emit_event e (EventPage (pageWithoutRows p)) s = (None, s1)"
      "deliver_rows l c e (page_rows p) (note_page r p) s1 = (r1, None, s2)" "ResultType p \<noteq> ResultEOS"
      "nextURLString p \<noteq> []" "env_validate env (nextURLString p) = Inr u"
proof -
  obtain x1 s1 where 1: "emit_event e (EventPage (pageWithoutRows p)) s = (x1, s1)" by fastforce
  obtain r2 x2 s2 where 2: "deliver_rows l c e (page_rows p) (note_page r p) s1 = (r2, x2, s2)" by (metis prod_cases3)
  obtain x3 s3 where 3: "emit_event e (EventEOS (pageWithoutRows p)) s2 = (x3, s3)" by fastforce
  let ?chk = "if Results p = None then None else validateResultRows (resColumns (note_page r p)) (page_rows p)"
  note unf = result_page_end_def Let_def option.case prod.case sum.case simp_thms if_True if_False
  show ?thesis
  proof (cases ?chk)
    case (Some err)
    then have "result_page_end env l c e r p s = Done (note_page r p) (Some err) s" by (simp only: unf)
    then show ?thesis using Some by (intro invalid) (auto split: if_splits simp flip: validateResultRows_None)
  next
    case c: None
    then have fits: "list_all (row_fits (resColumns (note_page r p))) (page_rows p)"
      by (auto split: if_splits simp: validateResultRows_None page_rows_def)
    show ?thesis
    proof (cases x1)
      case (Some err)
      then have "result_page_end env l c e r p s = Done (note_page r p) (Some err) s1" by (simp only: unf c 1)
      then show ?thesis using 1 Some by (intro page_event) auto
    next
      case n1: None
      show ?thesis
      proof (cases x2)
        case (Some err)
        then have "result_page_end env l c e r p s = Done r2 (Some err) s2" by (simp only: unf c 1 n1 2)
        then show ?thesis using 1 2 n1 Some by (intro rows) auto
      next
        case n2: None
        show ?thesis
        proof (cases "ResultType p = ResultEOS")
          case True
          then have "result_page_end env l c e r p s = Done (r2\<lparr>resStatus := ''FINISHED''\<rparr>) x3 s3"
            by (cases x3) (simp_all only: unf c 1 n1 2 n2 3)
          then show ?thesis using 1 2 3 n1 n2 True fits by (intro eos) auto
        next
          case ty: False
          have eq: "result_page_end env l c e r p s = (if nextURLString p = []
              then Done r2 (Some (Errorf ''flinksqlgateway: PAYLOAD result omitted nextResultUri'' [])) s2
              else case env_validate env (nextURLString p) of
                  Inl err \<Rightarrow> Done r2 (Some err) s2 | Inr nxt \<Rightarrow> Again r2 (env_poll env) (Some nxt) s2)"
            by (simp only: unf c 1 n1 2 n2 ty)
          show ?thesis
          proof (cases "nextURLString p = [] \<or> isl (env_validate env (nextURLString p))")
            case True
            then obtain err where "result_page_end env l c e r p s = Done r2 (Some err) s2"
              "nextURLString p = [] \<or> env_validate env (nextURLString p) = Inl err"
              using eq by (cases "nextURLString p = []") (auto simp: isl_def)
            then show ?thesis using 1 2 n1 n2 ty by (intro no_next) auto
          next
            case False
            then obtain u where "env_validate env (nextURLString p) = Inr u"
              by (cases "env_validate env (nextURLString p)") auto
            then show ?thesis using 1 2 n1 n2 ty fits eq False by (intro again) auto
          qed
        qed
      qed
    qed
  qed
qed

lemma not_ready_page_againD:
  assumes "not_ready_page env r iv p s = Again r' i n s'"
  shows "r' = r" "env_wait env iv s = (None, s')" "i = nextPollInterval iv (env_max_poll env)"
  using assms
  by (auto simp: not_ready_page_def Let_def split: option.splits prod.splits if_splits sum.splits)

lemma result_page_end_again: "result_page_end env l c e r p s = Again r' i n s' \<Longrightarrow> Polls r' = Polls r"
  by (cases rule: result_page_end_cases[of env l c e r p s]) (auto dest: deliver_rows_polls)

lemma handle_page_again:
  assumes "handle_page env l c e r i p s = Again r' i' n s'"
  shows "Polls r' = Polls r"
proof (cases "ResultType p = ResultNotReady")
  case True
  then show ?thesis using assms not_ready_page_againD(1) by (fastforce simp: handle_page_def)
next
  case False
  then have "result_page_end env l c e r p s = Again r' i' n s'"
    using assms by (auto simp: handle_page_def split: if_splits)
  then show ?thesis by (rule result_page_end_again)
qed

function consume_loop ::
  "'s result_env \<Rightarrow> execution_limits \<Rightarrow> bool \<Rightarrow> 's emitter \<Rightarrow> execution_result \<Rightarrow> int \<Rightarrow> go_url option \<Rightarrow> 's
    \<Rightarrow> execution_result \<times> goerr option \<times> 's" where
  "consume_loop env limits collect emit result interval nxt s =
     (case env_ctx_err env s of
        (Some err, s1) \<Rightarrow> (result, Some err, s1)
      | (None, s1) \<Rightarrow>
          if Polls result \<ge> limMaxPolls limits
          then (result, Some (ResultLimitError ''polls'' (limMaxPolls limits) (Polls result)), s1)
          else
            (case fetch_next env nxt s1 of
               (Inl err, s2) \<Rightarrow>
                 (let (err', s3) = operationFailure (env_status env) err s2
                  in (result\<lparr>Polls := Polls result + 1\<rparr>, Some err', s3))
             | (Inr page, s2) \<Rightarrow>
                 (case handle_page env limits collect emit (result\<lparr>Polls := Polls result + 1\<rparr>) interval page s2 of
                    Done r x s3 \<Rightarrow> (r, x, s3)
                  | Again r interval' nxt' s3 \<Rightarrow> consume_loop env limits collect emit r interval' nxt' s3)))"
  by pat_completeness auto
termination
  by (relation "measure (\<lambda>(env, limits, collect, emit, result, interval, nxt, s). nat (limMaxPolls limits - Polls result))")
    (auto dest!: handle_page_again)

declare consume_loop.simps [simp del]

definition empty_result :: "operation \<Rightarrow> execution_result" where
  "empty_result operation = \<lparr>resOperation = operation, resStatus = [], resResultKind = [], resQueryResult = False,
     resJobID = [], resColumns = [], resRows = [], RowsReceived = 0, Pages = 0, Polls = 0\<rparr>"

definition consumeResults ::
  "'s result_env \<Rightarrow> operation \<Rightarrow> execution_limits \<Rightarrow> bool \<Rightarrow> 's emitter \<Rightarrow> 's
    \<Rightarrow> execution_result \<times> goerr option \<times> 's" where
  "consumeResults env operation limits collect emit s =
     consume_loop env limits collect emit (empty_result operation) (env_poll env) None s"

section \<open>Proof rule for the loop\<close>

lemma consume_loop_rule [consumes 2, case_names ctx polls fetch finish again]:
  assumes "consume_loop env l c e r iv nxt s = (r', x, s')" and "I r iv nxt s"
    and ctx: "\<And>r iv nxt s y s1. I r iv nxt s \<Longrightarrow> env_ctx_err env s = (y, s1) \<Longrightarrow>
        (case y of None \<Rightarrow> I r iv nxt s1 | Some err \<Rightarrow> Q r (Some err) s1)"
    and polls: "\<And>r iv nxt s. I r iv nxt s \<Longrightarrow> limMaxPolls l \<le> Polls r \<Longrightarrow>
        Q r (Some (ResultLimitError ''polls'' (limMaxPolls l) (Polls r))) s"
    and fetch: "\<And>r iv nxt s err s2 err' s3. I r iv nxt s \<Longrightarrow> Polls r < limMaxPolls l \<Longrightarrow>
        fetch_next env nxt s = (Inl err, s2) \<Longrightarrow> operationFailure (env_status env) err s2 = (err', s3) \<Longrightarrow>
        Q (r\<lparr>Polls := Polls r + 1\<rparr>) (Some err') s3"
    and finish: "\<And>r iv nxt s p s2 r1 y s3. I r iv nxt s \<Longrightarrow> Polls r < limMaxPolls l \<Longrightarrow>
        fetch_next env nxt s = (Inr p, s2) \<Longrightarrow>
        handle_page env l c e (r\<lparr>Polls := Polls r + 1\<rparr>) iv p s2 = Done r1 y s3 \<Longrightarrow> Q r1 y s3"
    and again: "\<And>r iv nxt s p s2 r1 iv1 nxt1 s3. I r iv nxt s \<Longrightarrow> Polls r < limMaxPolls l \<Longrightarrow>
        fetch_next env nxt s = (Inr p, s2) \<Longrightarrow>
        handle_page env l c e (r\<lparr>Polls := Polls r + 1\<rparr>) iv p s2 = Again r1 iv1 nxt1 s3 \<Longrightarrow> I r1 iv1 nxt1 s3"
  shows "Q r' x s'"
  using assms(1,2)
proof (induction "nat (limMaxPolls l - Polls r)" arbitrary: r iv nxt s rule: less_induct)
  case less
  obtain y s1 where c: "env_ctx_err env s = (y, s1)" by fastforce
  note unf = less.prems(1)[unfolded consume_loop.simps[of env l c e r iv nxt s] c prod.case]
  show ?case
  proof (cases y)
    case (Some err)
    then show ?thesis using unf ctx[OF less.prems(2) c] by auto
  next
    case None
    then have I1: "I r iv nxt s1" using ctx[OF less.prems(2) c] by simp
    show ?thesis
    proof (cases "limMaxPolls l \<le> Polls r")
      case True
      then show ?thesis using unf None polls[OF I1] by auto
    next
      case below: False
      then have lt: "Polls r < limMaxPolls l" by simp
      obtain f s2 where f: "fetch_next env nxt s1 = (f, s2)" by fastforce
      show ?thesis
      proof (cases f)
        case (Inl err)
        obtain err' s3 where o: "operationFailure (env_status env) err s2 = (err', s3)" by fastforce
        then have "r' = r\<lparr>Polls := Polls r + 1\<rparr>" "x = Some err'" "s' = s3"
          using unf None below f Inl by (auto simp: Let_def)
        then show ?thesis using fetch[OF I1 lt, of err s2 err' s3] f Inl o by simp
      next
        case (Inr p)
        then have f': "fetch_next env nxt s1 = (Inr p, s2)" using f by simp
        show ?thesis
        proof (cases "handle_page env l c e (r\<lparr>Polls := Polls r + 1\<rparr>) iv p s2")
          case (Done r1 z s3)
          then have "(r', x, s') = (r1, z, s3)" using unf None below f' by simp
          then show ?thesis using finish[OF I1 lt f' Done] by simp
        next
          case (Again r1 iv1 nxt1 s3)
          then have "consume_loop env l c e r1 iv1 nxt1 s3 = (r', x, s')" using unf None below f' by simp
          moreover have "nat (limMaxPolls l - Polls r1) < nat (limMaxPolls l - Polls r)"
            using handle_page_again[OF Again] lt by simp
          ultimately show ?thesis using less.hyps again[OF I1 lt f' Again] by blast
        qed
      qed
    qed
  qed
qed

lemma handle_page_cases:
  obtains (wait) "ResultType p = ResultNotReady" "handle_page env l c e r i p s = not_ready_page env r i p s"
  | (data) "ResultType p = ResultPayload \<or> ResultType p = ResultEOS"
      "handle_page env l c e r i p s = result_page_end env l c e r p s"
  | (unknown) err where "ResultType p \<notin> {ResultNotReady, ResultPayload, ResultEOS}"
      "handle_page env l c e r i p s = Done r (Some err) s"
  by (cases "ResultType p = ResultNotReady"; cases "ResultType p = ResultPayload \<or> ResultType p = ResultEOS")
    (auto simp: handle_page_def)

lemma not_ready_page_cases:
  obtains (fail) err s' where "not_ready_page env r i p s = Done r (Some err) s'"
      "s' = s \<or> env_wait env i s = (Some err, s')"
  | (again) n s' where "not_ready_page env r i p s = Again r (nextPollInterval i (env_max_poll env)) n s'"
      "env_wait env i s = (None, s')"
  by (cases "not_ready_page env r i p s")
    (auto simp: not_ready_page_def Let_def split: option.splits prod.splits if_splits sum.splits)

section \<open>Bounds\<close>

lemma note_page_sel [simp]:
  "RowsReceived (note_page r p) = RowsReceived r" "resRows (note_page r p) = resRows r"
  "Pages (note_page r p) = Pages r + 1" "resStatus (note_page r p) = resStatus r"
  "resOperation (note_page r p) = resOperation r"
  by (simp_all add: note_page_def Let_def split: option.splits)

text \<open>What holds of the counters of a result at every point of the loop.\<close>

definition counted :: "execution_limits \<Rightarrow> bool \<Rightarrow> operation \<Rightarrow> execution_result \<Rightarrow> bool" where
  "counted l collect op r =
     (0 \<le> RowsReceived r \<and> RowsReceived r \<le> limMaxRows l \<and> Polls r \<le> limMaxPolls l \<and>
      0 \<le> Pages r \<and> Pages r \<le> Polls r \<and> resOperation r = op \<and>
      int (length (resRows r)) = (if collect then RowsReceived r else 0))"

lemma counted_poll: "counted l c op r \<Longrightarrow> Polls r < limMaxPolls l \<Longrightarrow>
    counted l c op (r\<lparr>Polls := Polls r + 1\<rparr>) \<and> counted l c op (note_page (r\<lparr>Polls := Polls r + 1\<rparr>) p)"
  by (auto simp: counted_def)

lemma counted_status [simp]: "counted l c op (r\<lparr>resStatus := st\<rparr>) = counted l c op r"
  by (simp add: counted_def)

lemma counted_deliver:
  assumes "deliver_rows l c e rs r s = (r', x, s')" "counted l c op r"
  shows "counted l c op r'"
  using assms(1)
  by (rule deliver_rows_fold) (use assms(2) in \<open>auto simp: counted_def\<close>)

definition end_result :: "'s page_end \<Rightarrow> execution_result" where
  "end_result d = (case d of Done r x s \<Rightarrow> r | Again r i n s \<Rightarrow> r)"

definition end_finished :: "'s page_end \<Rightarrow> bool" where
  "end_finished d = (case d of Done r x s \<Rightarrow> (x = None \<longrightarrow> resStatus r = ''FINISHED'') | Again r i n s \<Rightarrow> True)"

lemma handle_page_counted:
  assumes "counted l c op r" "counted l c op (note_page r p)"
  shows "counted l c op (end_result (handle_page env l c e r i p s)) \<and> end_finished (handle_page env l c e r i p s)"
proof (cases rule: handle_page_cases[of p env l c e r i s])
  case wait
  then show ?thesis using assms
    by (cases rule: not_ready_page_cases[of env r i p s]) (auto simp: end_result_def end_finished_def)
next
  case data
  then show ?thesis using assms
    by (cases rule: result_page_end_cases[of env l c e r p s])
      (auto simp: end_result_def end_finished_def intro: counted_deliver)
next
  case unknown
  then show ?thesis using assms by (auto simp: end_result_def end_finished_def)
qed

text \<open>C7: whatever the server answers, the loop returns with at most \<open>maxRows\<close> rows counted and at most
  \<open>maxPolls\<close> fetches made, keeps exactly the counted rows when it collects and none when it does
  not, and returns without an error only after the end of the stream has set the status.\<close>

theorem consumeResults_bounds:
  assumes "0 \<le> limMaxRows limits" "0 \<le> limMaxPolls limits"
  shows "case consumeResults env operation limits collect emit s of (r, x, s') \<Rightarrow>
    0 \<le> RowsReceived r \<and> RowsReceived r \<le> limMaxRows limits \<and> Polls r \<le> limMaxPolls limits \<and>
    Pages r \<le> Polls r \<and> resOperation r = operation \<and>
    int (length (resRows r)) = (if collect then RowsReceived r else 0) \<and>
    (x \<noteq> None \<or> resStatus r = ''FINISHED'')"
proof -
  obtain r x s' where run: "consumeResults env operation limits collect emit s = (r, x, s')" by (metis prod_cases3)
  have "counted limits collect operation r \<and> (x = None \<longrightarrow> resStatus r = ''FINISHED'')"
    using run[unfolded consumeResults_def]
  proof (rule consume_loop_rule[where I = "\<lambda>r iv nxt s. counted limits collect operation r"])
    show "counted limits collect operation (empty_result operation)"
      using assms by (simp add: counted_def empty_result_def)
  next
    fix r iv nxt s p s2 r1 y s3
    assume "counted limits collect operation r" "Polls r < limMaxPolls limits"
      "handle_page env limits collect emit (r\<lparr>Polls := Polls r + 1\<rparr>) iv p s2 = Done r1 y s3"
    then show "counted limits collect operation r1 \<and> (y = None \<longrightarrow> resStatus r1 = ''FINISHED'')"
      using handle_page_counted[of limits collect operation "r\<lparr>Polls := Polls r + 1\<rparr>" p env emit iv s2] counted_poll
      by (fastforce simp: end_result_def end_finished_def)
  next
    fix r iv nxt s p s2 r1 iv1 nxt1 s3
    assume "counted limits collect operation r" "Polls r < limMaxPolls limits"
      "handle_page env limits collect emit (r\<lparr>Polls := Polls r + 1\<rparr>) iv p s2 = Again r1 iv1 nxt1 s3"
    then show "counted limits collect operation r1"
      using handle_page_counted[of limits collect operation "r\<lparr>Polls := Polls r + 1\<rparr>" p env emit iv s2] counted_poll
      by (fastforce simp: end_result_def)
  qed (auto simp: counted_poll split: option.splits)
  then show ?thesis using run by (auto simp: counted_def)
qed

section \<open>What was fetched and emitted\<close>

text \<open>An environment that records, beside the state it works on, the pages the fetches returned and
  the events the emitter was given.\<close>

type_synonym 's observed = "'s \<times> result_page list \<times> result_event list"

definition unseen :: "('s \<Rightarrow> 'a \<times> 's) \<Rightarrow> 's observed \<Rightarrow> 'a \<times> 's observed" where
  "unseen f = (\<lambda>(s, ps, es). case f s of (x, s') \<Rightarrow> (x, (s', ps, es)))"

definition seen :: "('s \<Rightarrow> (goerr, result_page) result \<times> 's) \<Rightarrow> 's observed \<Rightarrow> (goerr, result_page) result \<times> 's observed" where
  "seen f = (\<lambda>(s, ps, es). case f s of
     (Inr p, s') \<Rightarrow> (Inr p, (s', ps @ [p], es)) | (Inl err, s') \<Rightarrow> (Inl err, (s', ps, es)))"

definition observe :: "'s result_env \<Rightarrow> 's observed result_env" where
  "observe env = \<lparr>env_ctx_err = unseen (env_ctx_err env), env_fetch_first = seen (env_fetch_first env),
     env_fetch_url = (\<lambda>u. seen (env_fetch_url env u)), env_status = unseen (env_status env),
     env_wait = (\<lambda>i. unseen (env_wait env i)), env_validate = env_validate env, env_poll = env_poll env,
     env_max_poll = env_max_poll env\<rparr>"

definition observe_emit :: "'s emitter \<Rightarrow> 's observed emitter" where
  "observe_emit emit = map_option (\<lambda>f e (s, ps, es). case f e s of (x, s') \<Rightarrow> (x, (s', ps, es @ [e]))) emit"

definition data_pages :: "result_page list \<Rightarrow> result_page list" where
  "data_pages ps = filter (\<lambda>p. ResultType p = ResultPayload \<or> ResultType p = ResultEOS) ps"

definition pages_rows :: "result_page list \<Rightarrow> row list" where
  "pages_rows ps = concat (map page_rows (data_pages ps))"

definition page_events :: "result_page \<Rightarrow> result_event list" where
  "page_events p = EventPage (pageWithoutRows p) # map EventRow (page_rows p) @
     (if ResultType p = ResultEOS then [EventEOS (pageWithoutRows p)] else [])"

definition pages_events :: "result_page list \<Rightarrow> result_event list" where
  "pages_events ps = concat (map page_events (data_pages ps))"

text \<open>A stream that reached its end: the last page is the only end page.\<close>

definition ended :: "result_page list \<Rightarrow> bool" where
  "ended ps = (ps \<noteq> [] \<and> ResultType (last ps) = ResultEOS \<and> list_all (\<lambda>p. ResultType p \<noteq> ResultEOS) (butlast ps))"

lemma data_pages_snoc [simp]: "data_pages (ps @ [p]) =
    data_pages ps @ (if ResultType p = ResultPayload \<or> ResultType p = ResultEOS then [p] else [])"
  by (simp add: data_pages_def)

lemma pages_rows_snoc [simp]: "pages_rows (ps @ [p]) =
    pages_rows ps @ (if ResultType p = ResultPayload \<or> ResultType p = ResultEOS then page_rows p else [])"
  by (simp add: pages_rows_def)

lemma pages_events_snoc [simp]: "pages_events (ps @ [p]) =
    pages_events ps @ (if ResultType p = ResultPayload \<or> ResultType p = ResultEOS then page_events p else [])"
  by (simp add: pages_events_def)

lemma unseen_keeps: "unseen f (s, ps, es) = (x, st) \<Longrightarrow> \<exists>s'. st = (s', ps, es)"
  by (auto simp: unseen_def split: prod.splits)

lemma seen_keeps: "seen f (s, ps, es) = (x, st) \<Longrightarrow>
    \<exists>s'. st = (s', (case x of Inr p \<Rightarrow> ps @ [p] | Inl err \<Rightarrow> ps), es)"
  by (auto simp: seen_def split: prod.splits sum.splits)

lemma fetch_next_observe: "fetch_next (observe env) n (s, ps, es) = (x, st) \<Longrightarrow>
    \<exists>s'. st = (s', (case x of Inr p \<Rightarrow> ps @ [p] | Inl err \<Rightarrow> ps), es)"
  by (cases n) (auto simp: fetch_next_def observe_def dest: seen_keeps)

lemma operationFailure_observe:
  assumes "operationFailure (env_status (observe env)) err (s, ps, es) = (x, st)"
  shows "\<exists>s'. st = (s', ps, es)"
proof -
  obtain y st' where y: "unseen (env_status env) (s, ps, es) = (y, st')" by (metis surj_pair)
  then have "st = (s, ps, es) \<or> st = st'"
    using assms by (cases y) (auto simp: operationFailure_def observe_def split: if_splits)
  then show ?thesis using unseen_keeps[OF y] by auto
qed

lemma emit_event_observe: "emit_event (observe_emit e) ev (s, ps, es) = (x, st) \<Longrightarrow>
    \<exists>s'. st = (s', ps, if e = None then es else es @ [ev])"
  by (cases e) (auto simp: emit_event_def observe_emit_def split: prod.splits)

lemma deliver_rows_observe:
  assumes "deliver_rows l c (observe_emit e) rs r (s, ps, es) = (r', x, st)"
  obtains k s' where "k \<le> length rs" "x = None \<longrightarrow> k = length rs"
    "resRows r' = (if c then resRows r @ take k rs else resRows r)"
    "st = (s', ps, if e = None then es else es @ map EventRow (take k rs))"
  using assms
proof (induction rs arbitrary: r s es thesis)
  case Nil
  then show ?case by (cases e) auto
next
  case (Cons y rs)
  show ?case
  proof (cases "RowsReceived r \<ge> limMaxRows l")
    case True
    with Cons.prems(2) have "r' = r" "x \<noteq> None" "st = (s, ps, es)" by auto
    then show ?thesis using Cons.prems(1)[of 0] by simp
  next
    case False
    let ?es = "if e = None then es else es @ [EventRow y]"
    have step: thesis if "deliver_rows l c (observe_emit e) rs (take_row c r y) (s1, ps, ?es) = (r', x, st)" for s1
    proof (rule Cons.IH[OF _ that])
      fix k s'
      assume "k \<le> length rs" "x = None \<longrightarrow> k = length rs"
        "resRows r' = (if c then resRows (take_row c r y) @ take k rs else resRows (take_row c r y))"
        "st = (s', ps, if e = None then ?es else ?es @ map EventRow (take k rs))"
      then show thesis using Cons.prems(1)[of "Suc k" s'] by simp
    qed
    show ?thesis
    proof (cases e)
      case None
      then have "deliver_rows l c (observe_emit e) rs (take_row c r y) (s, ps, ?es) = (r', x, st)"
        using Cons.prems(2) False by (simp add: observe_emit_def Let_def)
      then show ?thesis by (rule step)
    next
      case (Some f)
      obtain z s1 where f: "f (EventRow y) s = (z, s1)" by fastforce
      show ?thesis
      proof (cases z)
        case None
        then have "deliver_rows l c (observe_emit e) rs (take_row c r y) (s1, ps, ?es) = (r', x, st)"
          using Cons.prems(2) False f Some by (simp add: observe_emit_def Let_def)
        then show ?thesis by (rule step)
      next
        case (Some err)
        then have "r' = take_row c r y" "x \<noteq> None" "st = (s1, ps, ?es)"
          using Cons.prems(2) False f \<open>e = Some f\<close> by (auto simp: observe_emit_def Let_def)
        then show ?thesis using Cons.prems(1)[of 1 s1] \<open>e = Some f\<close> by auto
      qed
    qed
  qed
qed

definition partly :: "bool \<Rightarrow> 's emitter \<Rightarrow> execution_result \<Rightarrow> 't observed \<Rightarrow> bool" where
  "partly c e r st = (case st of (s, ps, es) \<Rightarrow>
     prefix (resRows r) (if c then pages_rows ps else []) \<and> prefix es (if e = None then [] else pages_events ps))"

definition wholly :: "bool \<Rightarrow> 's emitter \<Rightarrow> execution_result \<Rightarrow> 't observed \<Rightarrow> bool" where
  "wholly c e r st = (case st of (s, ps, es) \<Rightarrow>
     resRows r = (if c then pages_rows ps else []) \<and> es = (if e = None then [] else pages_events ps))"

lemma wholly_partly: "wholly c e r st \<Longrightarrow> partly c e r st"
  by (auto simp: wholly_def partly_def)

definition end_observed :: "bool \<Rightarrow> 's emitter \<Rightarrow> result_page list \<Rightarrow> 's observed page_end \<Rightarrow> bool" where
  "end_observed c e ps d = (case d of
     Done r x st \<Rightarrow> fst (snd st) = ps \<and> partly c e r st \<and>
       (x = None \<longrightarrow> wholly c e r st \<and> ResultType (last ps) = ResultEOS)
   | Again r i n st \<Rightarrow> fst (snd st) = ps \<and> wholly c e r st \<and> ResultType (last ps) \<noteq> ResultEOS)"

lemma result_page_end_observed:
  assumes "wholly c e r (s, ps, es)" "ResultType p = ResultPayload \<or> ResultType p = ResultEOS"
  shows "end_observed c e (ps @ [p]) (result_page_end (observe env) l c (observe_emit e) r p (s, ps @ [p], es))"
proof -
  let ?d = "result_page_end (observe env) l c (observe_emit e) r p (s, ps @ [p], es)"
  have rows: "resRows r = (if c then pages_rows ps else [])" and ev: "es = (if e = None then [] else pages_events ps)"
    using assms(1) by (auto simp: wholly_def)
  have stop: "partly c e r1 (s', ps @ [p], if e = None then es else es @ take k (page_events p))"
    if "resRows r1 = (if c then resRows r @ take j (page_rows p) else resRows r)" for r1 and s' :: 'a and j k
    using that assms(2) rows ev unfolding partly_def by (auto simp: take_is_prefix)
  have whole: "wholly c e r1 (s', ps @ [p], if e = None then es else es @ page_events p)"
    if "resRows r1 = (if c then resRows r @ page_rows p else resRows r)" for r1 and s' :: 'a
    using that assms(2) rows ev unfolding wholly_def by auto
  let ?n = "note_page r p"
  have ev1: "\<exists>s'. st = (s', ps @ [p], if e = None then es else es @ take 1 (page_events p))"
    if "emit_event (observe_emit e) (EventPage (pageWithoutRows p)) (s, ps @ [p], es) = (x, st)" for x st
    using emit_event_observe[OF that] by (auto simp: page_events_def)
  have ev2: "\<exists>k s'. k \<le> length (page_rows p) \<and> (x = None \<longrightarrow> k = length (page_rows p)) \<and>
      resRows r' = (if c then resRows r @ take k (page_rows p) else resRows r) \<and>
      st' = (s', ps @ [p], if e = None then es else es @ take (Suc k) (page_events p))"
    if "emit_event (observe_emit e) (EventPage (pageWithoutRows p)) (s, ps @ [p], es) = (None, st)"
      "deliver_rows l c (observe_emit e) (page_rows p) ?n st = (r', x, st')" for x st r' st'
  proof -
    note hyps = that
    obtain s1 where st: "st = (s1, ps @ [p], if e = None then es else es @ [EventPage (pageWithoutRows p)])"
      using emit_event_observe[OF hyps(1)] by auto
    show ?thesis
      by (rule deliver_rows_observe[OF hyps(2)[unfolded st]])
        (auto simp: page_events_def take_map)
  qed
  show ?thesis
  proof (cases rule: result_page_end_cases[of "observe env" l c "observe_emit e" r p "(s, ps @ [p], es)"])
    case (invalid err)
    have "partly c e ?n (s, ps @ [p], if e = None then es else es @ take 0 (page_events p))"
      by (rule stop[of _ 0]) simp
    then show ?thesis using invalid(1) by (cases "e = None") (simp_all add: end_observed_def)
  next
    case (page_event err s1)
    then show ?thesis using ev1[of "Some err" s1] stop[of ?n 0 _ 1] by (auto simp: end_observed_def)
  next
    case (rows err s1 r1 s2)
    then show ?thesis using ev2[OF rows(2,3)] stop[of r1] by (fastforce simp: end_observed_def)
  next
    case (eos s1 r1 s2 x s3)
    obtain s' where s2: "s2 = (s', ps @ [p], if e = None then es else es @ take (Suc (length (page_rows p))) (page_events p))"
      and r1: "resRows r1 = (if c then resRows r @ page_rows p else resRows r)"
      using ev2[OF eos(3,4)] by auto
    obtain s'' where s3: "s3 = (s'', ps @ [p], if e = None then es else es @ page_events p)"
      using emit_event_observe[OF eos(6)[unfolded s2]] eos(5) by (auto simp: page_events_def)
    have "wholly c e (r1\<lparr>resStatus := ''FINISHED''\<rparr>) s3" unfolding s3 using r1 by (intro whole) simp
    then show ?thesis using eos(1,5) s3 wholly_partly by (auto simp: end_observed_def)
  next
    case (no_next s1 r1 s2 err)
    then show ?thesis using ev2[OF no_next(2,3)] stop[of r1] by (fastforce simp: end_observed_def)
  next
    case (again s1 r1 s2 u)
    obtain s' where s2: "s2 = (s', ps @ [p], if e = None then es else es @ page_events p)"
      and r1: "resRows r1 = (if c then resRows r @ page_rows p else resRows r)"
      using ev2[OF again(3,4)] again(5) by (auto simp: page_events_def)
    have "wholly c e r1 s2" unfolding s2 using r1 by (intro whole) simp
    then show ?thesis using again(1,5) s2 by (auto simp: end_observed_def)
  qed
qed

lemma handle_page_observed:
  assumes "wholly c e r (s, ps, es)"
  shows "end_observed c e (ps @ [p]) (handle_page (observe env) l c (observe_emit e) r i p (s, ps @ [p], es))"
proof (cases rule: handle_page_cases[of p "observe env" l c "observe_emit e" r i "(s, ps @ [p], es)"])
  case wait
  then have w: "wholly c e r (s', ps @ [p], es)" for s' :: 'a using assms by (auto simp: wholly_def)
  have keep: "\<exists>s'. st = (s', ps @ [p], es)" if "env_wait (observe env) i (s, ps @ [p], es) = (x, st)" for x st
    using that unseen_keeps by (fastforce simp: observe_def)
  show ?thesis
  proof (cases rule: not_ready_page_cases[of "observe env" r i p "(s, ps @ [p], es)"])
    case (fail err s')
    then obtain s0 where "s' = (s0, ps @ [p], es)" using keep by blast
    then show ?thesis using wait(2) fail(1) wholly_partly[OF w] by (simp add: end_observed_def)
  next
    case (again n s')
    then show ?thesis using wait w keep[OF again(2)] by (auto simp: end_observed_def)
  qed
next
  case data
  then show ?thesis using result_page_end_observed[OF assms] by simp
next
  case (unknown err)
  then have "wholly c e r (s, ps @ [p], es)" using assms by (auto simp: wholly_def)
  then show ?thesis using unknown(2) wholly_partly[OF \<open>wholly c e r (s, ps @ [p], es)\<close>] by (simp add: end_observed_def)
qed

definition open_trace :: "result_page list \<Rightarrow> bool" where
  "open_trace ps = list_all (\<lambda>p. ResultType p \<noteq> ResultEOS) ps"

lemma consume_loop_trace:
  assumes "consume_loop (observe env) l c (observe_emit e) r iv nxt (s, ps, es) = (r', x, st)"
    and "wholly c e r (s, ps, es)" "open_trace ps"
  shows "partly c e r' st \<and> (x = None \<longrightarrow> wholly c e r' st \<and> ended (fst (snd st)))"
  using assms(1)
proof (rule consume_loop_rule[where I = "\<lambda>r iv nxt st. wholly c e r st \<and> open_trace (fst (snd st))"])
  show "wholly c e r (s, ps, es) \<and> open_trace (fst (snd (s, ps, es)))" using assms by simp
next
  fix r iv nxt st y st1
  assume "wholly c e r st \<and> open_trace (fst (snd st))" "env_ctx_err (observe env) st = (y, st1)"
  note a = this
  obtain s ps es where st: "st = (s, ps, es)" by (metis prod_cases3)
  have "unseen (env_ctx_err env) (s, ps, es) = (y, st1)" using a(2) st by (simp add: observe_def)
  from unseen_keeps[OF this] obtain s' where "st1 = (s', ps, es)" by auto
  moreover have "wholly c e r (s', ps, es)" "open_trace ps" using a(1) st by (simp_all add: wholly_def)
  ultimately show "case y of None \<Rightarrow> wholly c e r st1 \<and> open_trace (fst (snd st1))
      | Some err \<Rightarrow> partly c e r st1 \<and> (Some err = None \<longrightarrow> wholly c e r st1 \<and> ended (fst (snd st1)))"
    using wholly_partly[OF \<open>wholly c e r (s', ps, es)\<close>] by (simp split: option.splits)
next
  fix r iv nxt st err st2 err' st3
  assume a: "wholly c e r st \<and> open_trace (fst (snd st))" "fetch_next (observe env) nxt st = (Inl err, st2)"
    "operationFailure (env_status (observe env)) err st2 = (err', st3)"
  obtain s ps es where st: "st = (s, ps, es)" by (metis prod_cases3)
  obtain s2 where st2: "st2 = (s2, ps, es)" using fetch_next_observe[OF a(2)[unfolded st]] by auto
  obtain s3 where st3: "st3 = (s3, ps, es)" using operationFailure_observe[OF a(3)[unfolded st2]] by auto
  have "wholly c e (r\<lparr>Polls := Polls r + 1\<rparr>) st3" using a(1) st st3 by (simp add: wholly_def)
  then show "partly c e (r\<lparr>Polls := Polls r + 1\<rparr>) st3 \<and>
      (Some err' = None \<longrightarrow> wholly c e (r\<lparr>Polls := Polls r + 1\<rparr>) st3 \<and> ended (fst (snd st3)))"
    using wholly_partly by blast
next
  fix r iv nxt st p st2
  assume a: "wholly c e r st \<and> open_trace (fst (snd st))" "fetch_next (observe env) nxt st = (Inr p, st2)"
  obtain s ps es where st: "st = (s, ps, es)" by (metis prod_cases3)
  obtain s2 where st2: "st2 = (s2, ps @ [p], es)" using fetch_next_observe[OF a(2)[unfolded st]] by auto
  have "wholly c e (r\<lparr>Polls := Polls r + 1\<rparr>) (s2, ps, es)" using a(1) st by (simp add: wholly_def)
  note obs = handle_page_observed[OF this, of p env l iv, folded st2]
  have op: "open_trace ps" using a(1) st by simp
  {
    fix r1 y st3
    assume "handle_page (observe env) l c (observe_emit e) (r\<lparr>Polls := Polls r + 1\<rparr>) iv p st2 = Done r1 y st3"
    then show "partly c e r1 st3 \<and> (y = None \<longrightarrow> wholly c e r1 st3 \<and> ended (fst (snd st3)))"
      using obs op by (auto simp: end_observed_def ended_def open_trace_def st2)
  next
    fix r1 iv1 nxt1 st3
    assume "handle_page (observe env) l c (observe_emit e) (r\<lparr>Polls := Polls r + 1\<rparr>) iv p st2 = Again r1 iv1 nxt1 st3"
    then show "wholly c e r1 st3 \<and> open_trace (fst (snd st3))"
      using obs op by (auto simp: end_observed_def open_trace_def st2)
  }
qed (auto simp: wholly_partly)


section \<open>Runs of the loop\<close>

text \<open>An environment that answers the fetches from a list of pages and never fails otherwise.\<close>

definition scripted :: "result_page list result_env" where
  "scripted = \<lparr>env_ctx_err = (\<lambda>s. (None, s)),
     env_fetch_first = (\<lambda>s. case s of [] \<Rightarrow> (Inl (Sentinel ErrOperationNotFound), []) | p # ps \<Rightarrow> (Inr p, ps)),
     env_fetch_url = (\<lambda>u s. case s of [] \<Rightarrow> (Inl (Sentinel ErrOperationNotFound), []) | p # ps \<Rightarrow> (Inr p, ps)),
     env_status = (\<lambda>s. (Inr ''RUNNING'', s)), env_wait = (\<lambda>i s. (None, s)),
     env_validate = (\<lambda>u. Inr \<lparr>Scheme = ''http'', Opaque = [], User = None, Host = ''h'', Path = u, ForceQuery = False,
        RawQuery = [], Fragment = []\<rparr>),
     env_poll = 100, env_max_poll = 1000\<rparr>"

lemma scripted_sel [simp]:
  "env_ctx_err scripted s = (None, s)" "env_wait scripted i s = (None, s)" "env_poll scripted = 100"
  by (simp_all add: scripted_def)

lemma scripted_fetch [simp]: "fetch_next scripted n (p # ps) = (Inr p, ps)"
  by (cases n) (simp_all add: scripted_def fetch_next_def)

lemma scripted_validate: obtains u where "env_validate scripted x = Inr u"
  by (simp add: scripted_def)

text \<open>A well-formed stream: the columns that hold so far, pages that wait, pages of fitting rows that
  name their successor, and the end page.\<close>

definition columns_after :: "column_info list \<Rightarrow> result_page \<Rightarrow> column_info list" where
  "columns_after cols p = (case Results p of None \<Rightarrow> cols | Some info \<Rightarrow> if cols = [] then Columns info else cols)"

fun good_stream :: "column_info list \<Rightarrow> result_page list \<Rightarrow> bool" where
  "good_stream cols [] = False"
| "good_stream cols (p # ps) =
     (if ResultType p = ResultNotReady then good_stream cols ps
      else list_all (row_fits (columns_after cols p)) (page_rows p) \<and>
        (if ResultType p = ResultEOS then ps = []
         else ResultType p = ResultPayload \<and> nextURLString p \<noteq> [] \<and> good_stream (columns_after cols p) ps))"

lemma note_page_columns [simp]: "resColumns (note_page r p) = columns_after (resColumns r) p"
  by (simp add: note_page_def columns_after_def Let_def split: option.splits)

lemma deliver_rows_all: "RowsReceived r + int (length rs) \<le> limMaxRows l \<Longrightarrow>
    deliver_rows l c None rs r s = (foldl (take_row c) r rs, None, s)"
  by (induction rs arbitrary: r) (auto simp: Let_def)

lemma good_stream_run:
  assumes "good_stream (resColumns r) ps" "Polls r + int (length ps) \<le> limMaxPolls l"
    "RowsReceived r + int (length (pages_rows ps)) \<le> limMaxRows l"
  shows "\<exists>r'. consume_loop scripted l True None r iv nxt ps = (r', None, []) \<and> resRows r' = resRows r @ pages_rows ps"
  using assms
proof (induction ps arbitrary: r iv nxt)
  case Nil
  then show ?case by simp
next
  case (Cons p ps)
  let ?r = "r\<lparr>Polls := Polls r + 1\<rparr>"
  have step: "consume_loop scripted l True None r iv nxt (p # ps) =
      (case handle_page scripted l True None ?r iv p ps of
        Done r x s \<Rightarrow> (r, x, s) | Again r i n s \<Rightarrow> consume_loop scripted l True None r i n s)"
    using Cons.prems(2) by (subst consume_loop.simps) simp
  show ?case
  proof (cases "ResultType p = ResultNotReady")
    case True
    obtain u where "env_validate scripted (nextURLString p) = Inr u" by (rule scripted_validate)
    then obtain n i where "handle_page scripted l True None ?r iv p ps = Again ?r i n ps"
      using True by (cases "nextURLString p = []") (auto simp: handle_page_def not_ready_page_def Let_def)
    moreover have "pages_rows (p # ps) = pages_rows ps" using True by (simp add: pages_rows_def data_pages_def)
    ultimately show ?thesis using Cons.IH[of ?r i n] Cons.prems True step by simp
  next
    case nr: False
    then have ty: "ResultType p = ResultPayload \<or> ResultType p = ResultEOS"
      and fits: "list_all (row_fits (columns_after (resColumns r) p)) (page_rows p)"
      using Cons.prems(1) by (auto split: if_splits)
    then have rows: "pages_rows (p # ps) = page_rows p @ pages_rows ps" by (simp add: pages_rows_def data_pages_def)
    let ?r1 = "foldl (take_row True) (note_page ?r p) (page_rows p)"
    have d: "deliver_rows l True None (page_rows p) (note_page ?r p) s = (?r1, None, s)" for s :: "result_page list"
      using Cons.prems(3) rows by (intro deliver_rows_all) simp
    have h: "handle_page scripted l True None ?r iv p ps = result_page_end scripted l True None ?r p ps"
      using nr ty by (auto simp: handle_page_def)
    have v: "validateResultRows (columns_after (resColumns r) p) (page_rows p) = None"
      using fits by (simp add: validateResultRows_None)
    show ?thesis
    proof (cases "ResultType p = ResultEOS")
      case True
      then have "result_page_end scripted l True None ?r p ps = Done (?r1\<lparr>resStatus := ''FINISHED''\<rparr>) None ps"
        using v d by (simp add: result_page_end_def Let_def emit_event_def)
      then show ?thesis using step h True Cons.prems(1) rows by (simp add: pages_rows_def data_pages_def)
    next
      case False
      then have nu: "nextURLString p \<noteq> []" "good_stream (columns_after (resColumns r) p) ps"
        using Cons.prems(1) nr by (auto split: if_splits)
      obtain u where "env_validate scripted (nextURLString p) = Inr u" by (rule scripted_validate)
      then have "result_page_end scripted l True None ?r p ps = Again ?r1 100 (Some u) ps"
        using v d False nu by (simp add: result_page_end_def Let_def emit_event_def)
      then show ?thesis using step h Cons.IH[of ?r1 100 "Some u"] Cons.prems nu rows by simp
    qed
  qed
qed

text \<open>C8: a well-formed stream within the limits is never refused: its rows are returned, all of them, with
  no error.\<close>

theorem consumeResults_complete:
  assumes "good_stream [] ps" "int (length ps) \<le> limMaxPolls limits"
    "int (length (pages_rows ps)) \<le> limMaxRows limits"
  shows "\<exists>r. consumeResults scripted operation limits True None ps = (r, None, []) \<and> resRows r = pages_rows ps"
  using good_stream_run[of "empty_result operation" ps limits "env_poll scripted" None] assms
  by (simp add: consumeResults_def empty_result_def)

definition example_page :: "string \<Rightarrow> string \<Rightarrow> row list \<Rightarrow> result_page" where
  "example_page ty uri rs = \<lparr>ResultType = ty, ResultKind = [], QueryResult = True, JobID = ''j'', NextResultURI = uri,
     Results = Some \<lparr>Columns = [], riRowFormat = ''JSON'', Data = rs\<rparr>, pageRaw = [], ResponseBytes = 0\<rparr>"

theorem consumeResults_complete_witness:
  "\<exists>r. consumeResults scripted \<lparr>opHandle = ''o'', opSessionHandle = ''s''\<rparr>
      \<lparr>rowFormat = ''JSON'', limMaxRows = 3, limMaxPolls = 5\<rparr> True None
      [example_page ResultNotReady [] [], example_page ResultPayload ''x'' [\<lparr>Kind = RowInsert, Fields = []\<rparr>],
       example_page ResultEOS [] [\<lparr>Kind = RowDelete, Fields = []\<rparr>]] = (r, None, []) \<and>
    resRows r = [\<lparr>Kind = RowInsert, Fields = []\<rparr>, \<lparr>Kind = RowDelete, Fields = []\<rparr>]"
proof -
  have t: "trim_space ''x'' = ''x''" by (simp add: trim_space_def byte_def is_space_def)
  show ?thesis
    using consumeResults_complete[of "[example_page ResultNotReady [] [], example_page ResultPayload ''x'' [\<lparr>Kind = RowInsert, Fields = []\<rparr>],
       example_page ResultEOS [] [\<lparr>Kind = RowDelete, Fields = []\<rparr>]]" "\<lparr>rowFormat = ''JSON'', limMaxRows = 3, limMaxPolls = 5\<rparr>"
       "\<lparr>opHandle = ''o'', opSessionHandle = ''s''\<rparr>"] t
    by (simp add: example_page_def pages_rows_def data_pages_def page_rows_def columns_after_def row_fits_def nextURLString_def)
qed

theorem consumeResults_bounds_witness:
  "case consumeResults scripted \<lparr>opHandle = ''o'', opSessionHandle = ''s''\<rparr>
      \<lparr>rowFormat = ''JSON'', limMaxRows = 3, limMaxPolls = 2\<rparr> True None [] of (r, x, s') \<Rightarrow>
    RowsReceived r \<le> 3 \<and> Polls r \<le> 2"
  using consumeResults_bounds[where limits = "\<lparr>rowFormat = ''JSON'', limMaxRows = 3, limMaxPolls = 2\<rparr>"
      and env = scripted and operation = "\<lparr>opHandle = ''o'', opSessionHandle = ''s''\<rparr>" and collect = True
      and emit = None and s = "[]"]
  by (auto split: prod.splits)


end
