(* ===== verification/Operations.thy ===== *)
theory Operations
  imports Transport Page_Decoding Results
begin

text \<open>
  \<open>flinksqlgateway/operation.go\<close>, \<open>script.go\<close> and \<open>materialized_table.go\<close> over the client of
  \<open>Transport\<close>, and the requests behind the compatibility check (\<open>GetInfo\<close>, \<open>getAPIVersions\<close> of
  \<open>session.go\<close>, \<open>CheckAPIVersion\<close> of \<open>client.go\<close>).  An operation takes the client and returns its
  answer with the client it leaves.
\<close>

type_synonym ('w, 'a) answer = "(goerr, 'a) result \<times> 'w client"

text \<open>The answer of a request whose decoded value is wanted.\<close>

definition answer_of :: "(int \<times> goerr option \<times> 'd) \<times> 'w client \<Rightarrow> ('w, 'd) answer" where
  "answer_of r = (case r of ((n, err, v), c) \<Rightarrow> (case err of Some e \<Rightarrow> (Inl e, c) | None \<Rightarrow> (Inr v, c)))"

definition error_of :: "(int \<times> goerr option \<times> 'd) \<times> 'w client \<Rightarrow> goerr option \<times> 'w client" where
  "error_of r = (case r of ((n, err, v), c) \<Rightarrow> (err, c))"

text \<open>A response that is one string field, or a list of strings.\<close>

definition string_response :: "string \<Rightarrow> string destination" where
  "string_response name = ([], Some (unmarshal_struct (string_field name) (string_field_ok name)))"

definition strings_response :: "string \<Rightarrow> string list destination" where
  "strings_response name = ([], Some (unmarshal_struct (strings_field name) (strings_field_ok name)))"

definition no_response :: "unit destination" where
  "no_response = ((), None)"

text \<open>A Go map in a request body: \<open>json.Marshal\<close> writes its keys in order.\<close>

definition json_map :: "(string \<times> string) list \<Rightarrow> json" where
  "json_map kvs = JObj (sort_key fst (map (\<lambda>(k, v). (k, JStr v)) kvs))"

definition observeLifecycle :: "('w, 'c) transport_env \<Rightarrow> lifecycle_observation \<Rightarrow> 'w client \<Rightarrow> 'w client" where
  "observeLifecycle env ob c = c\<lparr>world := observe_lifecycle env ob (world c)\<rparr>"

section \<open>Compatibility\<close>

record gateway_info =
  ProductName :: string
  giVersion :: string

definition gateway_info_response :: "gateway_info destination" where
  "gateway_info_response = (\<lparr>ProductName = [], giVersion = []\<rparr>, Some (unmarshal_struct
     (\<lambda>kvs. \<lparr>ProductName = string_field ''productName'' kvs, giVersion = string_field ''version'' kvs\<rparr>)
     (\<lambda>kvs. string_field_ok ''productName'' kvs \<and> string_field_ok ''version'' kvs)))"

definition GetInfo :: "('w, 'c) transport_env \<Rightarrow> config \<Rightarrow> 'c \<Rightarrow> 'w client \<Rightarrow> ('w, gateway_info) answer" where
  "GetInfo env cfg ctx c =
     answer_of (doJSON env cfg ctx ''GET'' (endpointURL env cfg c False ''/info'') None gateway_info_response True c)"

text \<open>The request of \<open>getAPIVersions\<close>; what it makes of the answer is \<open>getAPIVersions\<close>.\<close>

definition requestAPIVersions :: "('w, 'c) transport_env \<Rightarrow> config \<Rightarrow> 'c \<Rightarrow> 'w client \<Rightarrow> ('w, string list) answer" where
  "requestAPIVersions env cfg ctx c =
     answer_of (doJSON env cfg ctx ''GET'' (endpointURL env cfg c False ''/api_versions'') None (strings_response ''versions'') True c)"

definition GetAPIVersions :: "('w, 'c) transport_env \<Rightarrow> config \<Rightarrow> 'c \<Rightarrow> 'w client \<Rightarrow> ('w, string list) answer" where
  "GetAPIVersions env cfg ctx c = apfst (map_sum id getAPIVersions) (requestAPIVersions env cfg ctx c)"

text \<open>\<open>CheckAPIVersion\<close> with its requests: none when the result is known, \<open>/info\<close> only in the automatic mode, and
  \<open>/api_versions\<close> only for a profile.\<close>

definition client_CheckAPIVersion :: "('w, 'c) transport_env \<Rightarrow> config \<Rightarrow> 'c \<Rightarrow> 'w client \<Rightarrow> goerr option \<times> 'w client" where
  "client_CheckAPIVersion env cfg ctx c =
     (let known = (\<not> is_ok (configuredCompatibility cfg) \<or> versionChecked (versions c));
          (info, c1) = (if \<not> known \<and> CompatibilityMode cfg = CompatibilityAuto
             then apfst (map_sum id giVersion) (GetInfo env cfg ctx c) else (Inr [], c));
          (adv, c2) = (if \<not> known \<and> is_ok (chooseProfile cfg info) then requestAPIVersions env cfg ctx c1 else (Inr [], c1));
          (err, st) = CheckAPIVersion cfg info adv (versions c)
      in (err, c2\<lparr>versions := st\<rparr>))"

definition client_compatibilityForCapability ::
  "('w, 'c) transport_env \<Rightarrow> config \<Rightarrow> 'c \<Rightarrow> string \<Rightarrow> (capabilities \<Rightarrow> bool) \<Rightarrow> 'w client \<Rightarrow> ('w, compatibilityInfo) answer" where
  "client_compatibilityForCapability env cfg ctx operation supported c =
     (case configuredCompatibility cfg of
        Inl err \<Rightarrow> (Inl err, c)
      | Inr configured \<Rightarrow>
          if (case configured of None \<Rightarrow> False | Some i \<Rightarrow> \<not> supported (Capabilities i))
          then (Inl (unsupported_capability operation (the configured)), c)
          else
            (case client_CheckAPIVersion env cfg ctx c of
               (Some err, c1) \<Rightarrow> (Inl err, c1)
             | (None, c1) \<Rightarrow>
                 (let snap = compatibilitySnapshot cfg (versions c1) in
                  if \<not> supported (Capabilities snap) then (Inl (unsupported_capability operation snap), c1) else (Inr snap, c1))))"

text \<open>\<open>GetCompatibilityInfo\<close>.\<close>

definition GetCompatibilityInfo :: "('w, 'c) transport_env \<Rightarrow> config \<Rightarrow> 'c \<Rightarrow> 'w client \<Rightarrow> ('w, compatibilityInfo) answer" where
  "GetCompatibilityInfo env cfg ctx c =
     (case client_CheckAPIVersion env cfg ctx c of
        (Some err, c1) \<Rightarrow> (Inl err, c1) | (None, c1) \<Rightarrow> (Inr (compatibilitySnapshot cfg (versions c1)), c1))"

section \<open>Statements\<close>

definition sessionContext :: "string \<Rightarrow> 'w client \<Rightarrow> session_context" where
  "sessionContext handle c =
     (case map_of (sessions c) handle of
        None \<Rightarrow> \<lparr>scHandle = handle, scName = [], scProperties = []\<rparr>
      | Some s \<Rightarrow> \<lparr>scHandle = handle, scName = srName s, scProperties = srProperties s\<rparr>)"

definition validateStatement ::
  "('w, 'c) transport_env \<Rightarrow> 'c \<Rightarrow> string \<Rightarrow> string \<Rightarrow> 'w client \<Rightarrow> goerr option \<times> 'w client" where
  "validateStatement env ctx sessionHandle statement c =
     (if trim_space statement = [] then (Some (Errorf ''flinksqlgateway: statement is required'' []), c)
      else case validator env ctx (sessionContext sessionHandle c) statement (world c) of
        (err, w) \<Rightarrow> (err, c\<lparr>world := w\<rparr>))"

text \<open>The timeout on the wire: whole milliseconds, at least one.\<close>

definition wire_timeout :: "capabilities \<Rightarrow> int \<Rightarrow> (string \<times> json) list" where
  "wire_timeout caps timeout =
     (if WireExecutionTimeout caps \<and> timeout > 0
      then (let ms = timeout div millisecond in [(''executionTimeout'', JNum (itoa (if ms = 0 then 1 else ms)))])
      else [])"

record execute_request =
  erStatement :: string
  erTimeout :: int
  erConfig :: "(string \<times> string) list"

definition statement_body :: "capabilities \<Rightarrow> execute_request \<Rightarrow> json" where
  "statement_body caps req = JObj ([(''statement'', JStr (erStatement req))] @
     (if erConfig req = [] then [] else [(''executionConfig'', json_map (erConfig req))]) @ wire_timeout caps (erTimeout req))"

text \<open>\<open>errors.As\<close> to an \<open>APIError\<close> whose outcome is unknown: its phase.\<close>

fun api_phase :: "goerr \<Rightarrow> request_phase" where
  "api_phase (APIError m e st cd ms rt phase x) = phase"
| "api_phase _ = PhaseUnset"

definition unknown_phase :: "goerr \<Rightarrow> request_phase option" where
  "unknown_phase err = (case as_api_error err of None \<Rightarrow> None
     | Some api \<Rightarrow> if nonIdempotentOutcomeIsUnknown api then Some (api_phase api) else None)"

definition secret_ctx :: "('w, 'c) transport_env \<Rightarrow> 'c \<Rightarrow> 'c" where
  "secret_ctx env ctx = ctx_with_redaction env \<lparr>fragments = [], redactAll = True\<rparr> ctx"

text \<open>The observations of \<open>ExecuteStatement\<close>.\<close>

definition statement_event :: "string \<Rightarrow> string \<Rightarrow> string \<Rightarrow> string \<Rightarrow> goerr option \<Rightarrow> lifecycle_observation" where
  "statement_event event endpoint session operation err =
     no_observation\<lparr>loEvent := event, loMethod := ''POST'', loEndpoint := endpoint, loSession := session,
       loOperation := operation, loError := err\<rparr>"

definition submitStatement ::
  "('w, 'c) transport_env \<Rightarrow> config \<Rightarrow> 'c \<Rightarrow> string \<Rightarrow> execute_request \<Rightarrow> 'w client \<Rightarrow> ('w, operation) answer" where
  "submitStatement env cfg ctx sessionHandle req c =
     (let target = endpointURL env cfg c True (''/sessions/'' @ pathSegment sessionHandle @ ''/statements'');
          endpoint = sanitizeEndpointPath (escaped_path env target);
          c1 = observeLifecycle env (statement_event ''StatementSubmitting'' endpoint sessionHandle [] None) c in
      case answer_of (doJSON env cfg (secret_ctx env ctx) ''POST'' target
             (Some (statement_body (selectedCapabilities cfg (versions c)) req)) (string_response ''operationHandle'') False c1) of
        (Inl err, c2) \<Rightarrow>
          (case unknown_phase err of
             Some phase \<Rightarrow>
               (let unknown = ExecutionOutcomeUnknownError sessionHandle ''POST'' endpoint phase (Some err)
                in (Inl unknown, observeLifecycle env
                      (statement_event ''StatementOutcomeUnknown'' endpoint sessionHandle [] (Some unknown)) c2))
           | None \<Rightarrow> (Inl err, observeLifecycle env
                 (statement_event ''StatementFailed'' endpoint sessionHandle [] (Some err)) c2))
      | (Inr handle, c2) \<Rightarrow>
          (case validateOperationHandle handle of
             Some bad \<Rightarrow>
               (let cause = Errorf ''flinksqlgateway: execute response has invalid operationHandle: %w'' [ArgWrap bad];
                    unknown = ExecutionOutcomeUnknownError sessionHandle ''POST'' endpoint RequestPossiblySent (Some cause)
                in (Inl unknown, observeLifecycle env
                      (statement_event ''StatementOutcomeUnknown'' endpoint sessionHandle [] (Some unknown)) c2))
           | None \<Rightarrow> (Inr \<lparr>opHandle = handle, opSessionHandle = sessionHandle\<rparr>, observeLifecycle env
                 (statement_event ''StatementSubmitted'' endpoint sessionHandle handle None) c2)))"

definition ExecuteStatement ::
  "('w, 'c) transport_env \<Rightarrow> config \<Rightarrow> 'c \<Rightarrow> string \<Rightarrow> execute_request \<Rightarrow> 'w client \<Rightarrow> ('w, operation) answer" where
  "ExecuteStatement env cfg ctx sessionHandle req c =
     (case validateSessionHandle sessionHandle of Some err \<Rightarrow> (Inl err, c) | None \<Rightarrow>
      (case validateStatement env ctx sessionHandle (erStatement req) c of (Some err, c1) \<Rightarrow> (Inl err, c1) | (None, c1) \<Rightarrow>
      (case client_CheckAPIVersion env cfg ctx c1 of (Some err, c2) \<Rightarrow> (Inl err, c2) | (None, c2) \<Rightarrow>
       submitStatement env cfg ctx sessionHandle req c2)))"

section \<open>Requests on an operation\<close>

text \<open>The checks every operation request starts with.\<close>

definition with_operation ::
  "('w, 'c) transport_env \<Rightarrow> config \<Rightarrow> 'c \<Rightarrow> string \<Rightarrow> string \<Rightarrow> ('w client \<Rightarrow> ('w, 'a) answer) \<Rightarrow> 'w client \<Rightarrow> ('w, 'a) answer" where
  "with_operation env cfg ctx sessionHandle operationHandle request c =
     (case validateSessionHandle sessionHandle of Some err \<Rightarrow> (Inl err, c) | None \<Rightarrow>
      (case validateOperationHandle operationHandle of Some err \<Rightarrow> (Inl err, c) | None \<Rightarrow>
      (case client_CheckAPIVersion env cfg ctx c of (Some err, c1) \<Rightarrow> (Inl err, c1) | (None, c1) \<Rightarrow> request c1)))"

definition GetOperationStatus ::
  "('w, 'c) transport_env \<Rightarrow> config \<Rightarrow> 'c \<Rightarrow> string \<Rightarrow> string \<Rightarrow> 'w client \<Rightarrow> ('w, string) answer" where
  "GetOperationStatus env cfg ctx sessionHandle operationHandle =
     with_operation env cfg ctx sessionHandle operationHandle (\<lambda>c.
       answer_of (doJSON env cfg ctx ''GET'' (endpointURL env cfg c True (operationRoute sessionHandle operationHandle @ ''/status''))
         None (string_response ''status'') True c))"

definition fetchResultsURL ::
  "('w, 'c) transport_env \<Rightarrow> config \<Rightarrow> 'c \<Rightarrow> go_url \<Rightarrow> 'w client \<Rightarrow> ('w, result_page) answer" where
  "fetchResultsURL env cfg ctx target c =
     (case doJSON env cfg ctx ''GET'' target None (no_page, Some decode_page) True c of
        ((n, Some err, page), c1) \<Rightarrow> (Inl err, c1) | ((n, None, page), c1) \<Rightarrow> (Inr (page\<lparr>ResponseBytes := n\<rparr>), c1))"

definition FetchResults ::
  "('w, 'c) transport_env \<Rightarrow> config \<Rightarrow> 'c \<Rightarrow> string \<Rightarrow> string \<Rightarrow> int \<Rightarrow> string \<Rightarrow> 'w client \<Rightarrow> ('w, result_page) answer" where
  "FetchResults env cfg ctx sessionHandle operationHandle token format c =
     (case validateSessionHandle sessionHandle of Some err \<Rightarrow> (Inl err, c) | None \<Rightarrow>
      (case validateOperationHandle operationHandle of Some err \<Rightarrow> (Inl err, c) | None \<Rightarrow>
       if token < 0 then (Inl (Errorf ''flinksqlgateway: result token must not be negative'' []), c)
       else
      (case client_CheckAPIVersion env cfg ctx c of (Some err, c1) \<Rightarrow> (Inl err, c1) | (None, c1) \<Rightarrow>
       (let rf = (if format = [] then DefaultRowFormat cfg else format) in
        if \<not> row_format_valid rf then (Inl (Errorf ''flinksqlgateway: unsupported row format %q'' [ArgText rf]), c1)
        else
          (let caps = selectedCapabilities cfg (versions c1);
               target = endpointURL env cfg c1 True (operationRoute sessionHandle operationHandle @ ''/result/'' @ itoa token) in
           if \<not> RowFormat caps \<and> rf \<noteq> RowFormatJSON
           then (Inl (unsupported_capability ''PLAIN_TEXT result'' (compatibilitySnapshot cfg (versions c1))), c1)
           else fetchResultsURL env cfg ctx
             (if RowFormat caps then target\<lparr>RawQuery := query_set env (RawQuery target) [(''rowFormat'', rf)]\<rparr> else target) c1)))))"

definition CancelOperation ::
  "('w, 'c) transport_env \<Rightarrow> config \<Rightarrow> 'c \<Rightarrow> string \<Rightarrow> string \<Rightarrow> 'w client \<Rightarrow> ('w, unit) answer" where
  "CancelOperation env cfg ctx sessionHandle operationHandle =
     with_operation env cfg ctx sessionHandle operationHandle (\<lambda>c.
       answer_of (doJSON env cfg ctx ''POST'' (endpointURL env cfg c True (operationRoute sessionHandle operationHandle @ ''/cancel''))
         (Some (JObj [])) no_response False c))"

definition CloseOperation ::
  "('w, 'c) transport_env \<Rightarrow> config \<Rightarrow> 'c \<Rightarrow> string \<Rightarrow> string \<Rightarrow> 'w client \<Rightarrow> ('w, unit) answer" where
  "CloseOperation env cfg ctx sessionHandle operationHandle =
     with_operation env cfg ctx sessionHandle operationHandle (\<lambda>c.
       case answer_of (doJSON env cfg ctx ''DELETE'' (endpointURL env cfg c True (operationRoute sessionHandle operationHandle @ ''/close''))
         None no_response False c) of
         (Inl err, c1) \<Rightarrow> (if err_is err ErrOperationNotFound then Inr () else Inl err, c1)
       | (Inr u, c1) \<Rightarrow> (Inr u, c1))"

section \<open>Scripts and materialised tables\<close>

record deploy_request =
  drScript :: string
  drScriptURI :: string
  drConfig :: "(string \<times> string) list"

definition check_deploy :: "deploy_request \<Rightarrow> goerr option" where
  "check_deploy req =
     (let hasScript = (drScript req \<noteq> []); hasScriptURI = (drScriptURI req \<noteq> []) in
      if hasScript = hasScriptURI then Some (Errorf ''flinksqlgateway: exactly one of Script and ScriptURI is required'' [])
      else if hasScript then
        (if trim_space (drScript req) = [] then Some (Errorf ''flinksqlgateway: Script must contain non-whitespace content'' [])
         else if \<not> valid_utf8 (drScript req) then Some (Errorf ''flinksqlgateway: Script is not valid UTF-8'' [])
         else None)
      else validateScriptURI (drScriptURI req))"

definition deploy_body :: "deploy_request \<Rightarrow> json" where
  "deploy_body req = JObj
     [(''script'', if drScript req \<noteq> [] then JStr (drScript req) else JNull),
      (''scriptUri'', if drScript req \<noteq> [] then JNull else JStr (drScriptURI req)),
      (''executionConfig'', json_map (drConfig req))]"

definition DeployScript_op ::
  "('w, 'c) transport_env \<Rightarrow> config \<Rightarrow> 'c \<Rightarrow> string \<Rightarrow> deploy_request \<Rightarrow> 'w client \<Rightarrow> ('w, string) answer" where
  "DeployScript_op env cfg ctx sessionHandle req c =
     (case validateSessionHandle sessionHandle of Some err \<Rightarrow> (Inl err, c) | None \<Rightarrow>
      (case check_deploy req of Some err \<Rightarrow> (Inl err, c) | None \<Rightarrow>
      (case client_compatibilityForCapability env cfg ctx ''deploy-script'' DeployScript c of (Inl err, c1) \<Rightarrow> (Inl err, c1) | (Inr _, c1) \<Rightarrow>
       (let target = endpointURL env cfg c1 True (''/sessions/'' @ pathSegment sessionHandle @ ''/scripts'');
            endpoint = sanitizeEndpointPath (escaped_path env target) in
        case answer_of (doJSON env cfg (secret_ctx env ctx) ''POST'' target (Some (deploy_body req)) (string_response ''clusterID'') False c1) of
          (Inl err, c2) \<Rightarrow>
            (case unknown_phase err of
               Some phase \<Rightarrow> (Inl (ScriptDeploymentOutcomeUnknownError sessionHandle ''POST'' endpoint phase (Some err)), c2)
             | None \<Rightarrow> (Inl err, c2))
        | (Inr clusterID, c2) \<Rightarrow>
            (if trim_space clusterID = []
             then (Inl (ScriptDeploymentOutcomeUnknownError sessionHandle ''POST'' endpoint ResponseBodyIncomplete
                     (Some (Errorf ''flinksqlgateway: deploy response has an empty clusterID'' []))), c2)
             else (Inr clusterID, c2))))))"

text \<open>A map of a refresh request may be nil, and is left out of the body then.\<close>

record refresh_request =
  Periodic :: bool
  ScheduleTime :: string
  DynamicOptions :: "(string \<times> string) list option"
  StaticPartitions :: "(string \<times> string) list option"
  rrConfig :: "(string \<times> string) list option"

definition optional_map :: "string \<Rightarrow> (string \<times> string) list option \<Rightarrow> (string \<times> json) list" where
  "optional_map name m = (case m of None \<Rightarrow> [] | Some kvs \<Rightarrow> [(name, json_map kvs)])"

definition refresh_body :: "refresh_request \<Rightarrow> json" where
  "refresh_body req = JObj ([(''isPeriodic'', JBool (Periodic req))] @
     (if ScheduleTime req \<noteq> [] then [(''scheduleTime'', JStr (ScheduleTime req))] else []) @
     optional_map ''dynamicOptions'' (DynamicOptions req) @ optional_map ''staticPartitions'' (StaticPartitions req) @
     optional_map ''executionConfig'' (rrConfig req))"

definition RefreshMaterializedTable ::
  "('w, 'c) transport_env \<Rightarrow> config \<Rightarrow> 'c \<Rightarrow> string \<Rightarrow> string \<Rightarrow> refresh_request \<Rightarrow> 'w client \<Rightarrow> ('w, operation) answer" where
  "RefreshMaterializedTable env cfg ctx sessionHandle ident req c =
     (case validateSessionHandle sessionHandle of Some err \<Rightarrow> (Inl err, c) | None \<Rightarrow>
      (case validateMaterializedTableIdentifier ident of Some err \<Rightarrow> (Inl err, c) | None \<Rightarrow>
      (case client_compatibilityForCapability env cfg ctx ''materialized-table-refresh'' MaterializedTable c of
         (Inl err, c1) \<Rightarrow> (Inl err, c1) | (Inr _, c1) \<Rightarrow>
       (let target = endpointURL env cfg c1 True (''/sessions/'' @ pathSegment sessionHandle @ ''/materialized-tables/'' @
              pathSegment ident @ ''/refresh'');
            endpoint = sanitizeEndpointPath (escaped_path env target) in
        case answer_of (doJSON env cfg (secret_ctx env ctx) ''POST'' target (Some (refresh_body req)) (string_response ''operationHandle'') False c1) of
          (Inl err, c2) \<Rightarrow>
            (case unknown_phase err of
               Some phase \<Rightarrow> (Inl (MaterializedTableRefreshOutcomeUnknownError sessionHandle ''POST'' endpoint phase (Some err)), c2)
             | None \<Rightarrow> (Inl err, c2))
        | (Inr handle, c2) \<Rightarrow>
            (case validateOperationHandle handle of
               Some bad \<Rightarrow> (Inl (MaterializedTableRefreshOutcomeUnknownError sessionHandle ''POST'' endpoint ResponseBodyIncomplete
                   (Some (Errorf ''flinksqlgateway: refresh response has invalid operationHandle: %w'' [ArgWrap bad]))), c2)
             | None \<Rightarrow> (Inr \<lparr>opHandle = handle, opSessionHandle = sessionHandle\<rparr>, c2))))))"

section \<open>What an operation did on the network\<close>

text \<open>Facts of \<open>doJSON\<close> about the log only: a request that is read as often as one likes, and one that is submitted.\<close>

abbreviation log_of :: "('w \<times> exchange_log) client \<Rightarrow> exchange_log" where
  "log_of c \<equiv> snd (world c)"

definition method_is :: "string \<Rightarrow> http_request \<times> trace_event list \<times> (transport_failure, http_response) result \<Rightarrow> bool" where
  "method_is m entry = (reqMethod (fst entry) = m)"

definition succeeded :: "exchange_log \<Rightarrow> bool" where
  "succeeded log = (\<exists>req ev resp. log = [(req, ev, Inr resp)] \<and> 200 \<le> StatusCode resp \<and> StatusCode resp < 300)"

lemma appends_log: "appends new c c' \<Longrightarrow> log_of c' = log_of c @ new"
  by (auto simp: appends_def)

lemma doJSON_appends:
  assumes "doJSON (logged env) cfg ctx m t body dest safe c = (r, c')"
  shows "\<exists>new. appends new c c' \<and> list_all (method_is m) new \<and> length new \<le> (if safe then 2 else 1)"
proof -
  obtain n err v where r: "r = (n, err, v)" by (metis surj_pair)
  show ?thesis using assms unfolding r
  proof (rule doJSON_log)
    fix new
    assume "appends new c c'" "list_all (\<lambda>(req, ev, out). reqMethod req = m \<and> reqTarget req = t \<and> reqBody req = map_option marshal body) new"
      "length new \<le> (if safe then 2 else 1)"
    then show ?thesis by (intro exI[of _ new]) (auto simp: method_is_def list_all_iff)
  qed
qed

lemma doJSON_submit:
  assumes "doJSON (logged env) cfg ctx m t body dest False c = ((n, err, v), c')"
  shows "\<exists>new. log_of c' = log_of c @ new \<and> list_all (method_is m) new \<and>
    (case err of None \<Rightarrow> succeeded new | Some e \<Rightarrow> unknown_outcome e \<or> certainly_not_done new)"
  using assms
proof (rule doJSON_log)
  fix new
  assume a: "appends new c c'" "length new \<le> (if False then 2 else 1)"
    "list_all (\<lambda>(req, ev, out). reqMethod req = m \<and> reqTarget req = t \<and> reqBody req = map_option marshal body) new"
    "err = None \<longrightarrow> new \<noteq> [] \<and> (case snd (snd (last new)) of Inl f \<Rightarrow> False | Inr resp \<Rightarrow> 200 \<le> StatusCode resp \<and> StatusCode resp < 300)"
  have m: "list_all (method_is m) new" using a(3) by (auto simp: method_is_def list_all_iff)
  have "case err of None \<Rightarrow> succeeded new | Some e \<Rightarrow> unknown_outcome e \<or> certainly_not_done new"
  proof (cases err)
    case None
    then obtain x where x: "new = [x]" using a(2,4) by (cases new) auto
    obtain req ev out where "x = (req, ev, out)" by (metis surj_pair)
    then show ?thesis using None a(4) x by (cases out) (auto simp: succeeded_def)
  next
    case (Some e)
    have "certainly_not_done new" if u: "\<not> unknown_outcome e"
      using assms[unfolded Some] u
    proof (rule doJSON_not_done)
      fix new' assume "appends new' c c'" "certainly_not_done new'"
      then show ?thesis using appends_log[OF a(1)] appends_log[of new' c c'] by simp
    qed
    then show ?thesis using Some by auto
  qed
  then show ?thesis using appends_log[OF a(1)] m by blast
qed

lemma answer_of_appends:
  assumes "answer_of (doJSON (logged env) cfg ctx m t body dest safe c) = (r, c')"
  shows "\<exists>new. appends new c c' \<and> list_all (method_is m) new \<and> length new \<le> (if safe then 2 else 1)"
proof -
  obtain x where "doJSON (logged env) cfg ctx m t body dest safe c = (x, c')"
    using assms by (auto simp: answer_of_def split: prod.splits option.splits)
  then show ?thesis by (rule doJSON_appends)
qed

lemma answer_of_submit:
  assumes "answer_of (doJSON (logged env) cfg ctx m t body dest False c) = (r, c')"
  shows "\<exists>new. log_of c' = log_of c @ new \<and> list_all (method_is m) new \<and>
    (case r of Inr v \<Rightarrow> succeeded new | Inl e \<Rightarrow> unknown_phase e \<noteq> None \<or> certainly_not_done new)"
proof -
  obtain n err v where x: "doJSON (logged env) cfg ctx m t body dest False c = ((n, err, v), c')"
    using assms by (auto simp: answer_of_def split: prod.splits option.splits)
  have u: "unknown_outcome e \<longleftrightarrow> unknown_phase e \<noteq> None" for e
    by (simp add: unknown_outcome_def unknown_phase_def split: option.splits)
  have "r = (case err of Some e \<Rightarrow> Inl e | None \<Rightarrow> Inr v)"
    using assms x by (auto simp: answer_of_def split: option.splits)
  then show ?thesis using doJSON_submit[OF x] by (auto simp: u split: option.splits)
qed

text \<open>The client made reading requests only, and was not closed by them.\<close>

definition looked_up :: "('w \<times> exchange_log) client \<Rightarrow> ('w \<times> exchange_log) client \<Rightarrow> bool" where
  "looked_up c c' = (clientClosed c' = clientClosed c \<and> (\<exists>meta. log_of c' = log_of c @ meta \<and> list_all (method_is ''GET'') meta))"

lemma looked_up_refl [simp]: "looked_up c c"
  by (auto simp: looked_up_def intro: exI[of _ "[]"])

lemma looked_up_trans: "looked_up c c1 \<Longrightarrow> looked_up c1 c2 \<Longrightarrow> looked_up c c2"
  by (fastforce simp: looked_up_def)

lemma looked_up_log: "log_of c' = log_of c \<Longrightarrow> clientClosed c' = clientClosed c \<Longrightarrow> looked_up c c'"
  by (auto simp: looked_up_def intro: exI[of _ "[]"])

lemma appends_looked_up: "appends new c c' \<Longrightarrow> list_all (method_is ''GET'') new \<Longrightarrow> looked_up c c'"
  by (auto simp: looked_up_def appends_def)

lemma answer_of_looked_up:
  assumes "answer_of (doJSON (logged env) cfg ctx ''GET'' t body dest safe c) = (r, c')"
  shows "looked_up c c'"
  using answer_of_appends[OF assms] appends_looked_up by blast

lemma GetInfo_looked_up: "GetInfo (logged env) cfg ctx c = (r, c') \<Longrightarrow> looked_up c c'"
  unfolding GetInfo_def by (rule answer_of_looked_up)

lemma requestAPIVersions_looked_up: "requestAPIVersions (logged env) cfg ctx c = (r, c') \<Longrightarrow> looked_up c c'"
  unfolding requestAPIVersions_def by (rule answer_of_looked_up)

lemma client_CheckAPIVersion_looked_up:
  assumes "client_CheckAPIVersion (logged env) cfg ctx c = (r, c')"
  shows "looked_up c c'"
proof -
  let ?known = "\<not> is_ok (configuredCompatibility cfg) \<or> versionChecked (versions c)"
  obtain info c1 where 1: "(if \<not> ?known \<and> CompatibilityMode cfg = CompatibilityAuto
     then apfst (map_sum id giVersion) (GetInfo (logged env) cfg ctx c) else (Inr [], c)) = (info, c1)" by fastforce
  obtain adv c2 where 2: "(if \<not> ?known \<and> is_ok (chooseProfile cfg info) then requestAPIVersions (logged env) cfg ctx c1 else (Inr [], c1)) = (adv, c2)"
    by fastforce
  have "looked_up c c1"
    using 1 GetInfo_looked_up[of env cfg ctx c] by (cases "GetInfo (logged env) cfg ctx c") (auto split: if_splits)
  moreover have "looked_up c1 c2"
    using 2 requestAPIVersions_looked_up[of env cfg ctx c1 adv c2] by (auto split: if_splits)
  moreover have "\<exists>st. c' = c2\<lparr>versions := st\<rparr>"
    using assms[unfolded client_CheckAPIVersion_def Let_def 1 prod.case 2] by (auto split: prod.splits)
  ultimately show ?thesis using looked_up_trans by (auto simp: looked_up_def)
qed

lemma client_compatibilityForCapability_looked_up:
  assumes "client_compatibilityForCapability (logged env) cfg ctx op supported c = (r, c')"
  shows "looked_up c c'"
proof -
  obtain x c1 where "client_CheckAPIVersion (logged env) cfg ctx c = (x, c1)" by fastforce
  then show ?thesis using assms client_CheckAPIVersion_looked_up[of env cfg ctx c x c1]
    by (auto simp: client_compatibilityForCapability_def Let_def split: sum.splits if_splits option.splits)
qed

lemma validateStatement_log: "validateStatement (logged env) ctx h st c = (x, c') \<Longrightarrow> log_of c' = log_of c \<and> clientClosed c' = clientClosed c \<and> versions c' = versions c"
  using validator_logged[of env ctx "sessionContext h c" st "fst (world c)" "snd (world c)"]
  by (auto simp: validateStatement_def split: if_splits prod.splits)

lemma observeLifecycle_appends: "appends [] c (observeLifecycle (logged env) ob c)"
  by (cases "world c") (auto simp: observeLifecycle_def appends_def)

lemma observeLifecycle_log [simp]: "log_of (observeLifecycle (logged env) ob c) = log_of c"
  "clientClosed (observeLifecycle (logged env) ob c) = clientClosed c" "versions (observeLifecycle (logged env) ob c) = versions c"
  by (cases "world c"; simp add: observeLifecycle_def)+

text \<open>What is known after an operation that must not run twice, of the sentinel of its kind: the exchanges are the
  metadata requests and then at most one submission; an answer means the server took it, and an error other
  than that sentinel means it was certainly not carried out.\<close>

definition outcome_known :: "sentinel \<Rightarrow> ('w \<times> exchange_log) client \<Rightarrow> (goerr, 'a) result \<Rightarrow> ('w \<times> exchange_log) client \<Rightarrow> bool" where
  "outcome_known kind c r c' =
     (\<exists>meta sub. log_of c' = log_of c @ meta @ sub \<and> list_all (method_is ''GET'') meta \<and> list_all (method_is ''POST'') sub \<and>
       (case r of Inr v \<Rightarrow> succeeded sub | Inl err \<Rightarrow> err_is err kind \<or> certainly_not_done sub))"

lemma outcome_known_unsent: "looked_up c c' \<Longrightarrow> outcome_known kind c (Inl err) c'"
  unfolding outcome_known_def looked_up_def by (elim conjE exE, rule exI, rule exI[of _ "[]"]) (auto simp: certainly_not_done_def)

lemma outcome_known_submit:
  assumes "looked_up c c1" "answer_of (doJSON (logged env) cfg ctx ''POST'' t body dest False c1) = (x, c2)"
    "log_of c' = log_of c2"
    "\<And>e. x = Inl e \<Longrightarrow> \<exists>err. r = Inl err \<and> (unknown_phase e \<noteq> None \<longrightarrow> err_is err kind)"
    "\<And>v. x = Inr v \<Longrightarrow> (\<exists>u. r = Inr u) \<or> (\<exists>err. r = Inl err \<and> err_is err kind)"
  shows "outcome_known kind c r c'"
proof -
  obtain meta where m: "log_of c1 = log_of c @ meta" "list_all (method_is ''GET'') meta" using assms(1) by (auto simp: looked_up_def)
  obtain sub where s: "log_of c2 = log_of c1 @ sub" "list_all (method_is ''POST'') sub"
    "case x of Inr v \<Rightarrow> succeeded sub | Inl e \<Rightarrow> unknown_phase e \<noteq> None \<or> certainly_not_done sub"
    using answer_of_submit[OF assms(2)] by blast
  have "case r of Inr v \<Rightarrow> succeeded sub | Inl err \<Rightarrow> err_is err kind \<or> certainly_not_done sub"
  proof (cases x)
    case (Inl e)
    then show ?thesis using assms(4)[OF Inl] s(3) by auto
  next
    case (Inr v)
    then show ?thesis using assms(5)[OF Inr] s(3) by auto
  qed
  then show ?thesis using m s(1,2) assms(3) unfolding outcome_known_def
    by (intro exI[of _ meta] exI[of _ sub]) simp
qed

lemma submitStatement_known:
  assumes "submitStatement (logged env) cfg ctx h req c1 = (r, c')" "looked_up c c1"
  shows "outcome_known ErrExecutionOutcomeUnknown c r c'"
proof -
  let ?t = "endpointURL (logged env) cfg c1 True (''/sessions/'' @ pathSegment h @ ''/statements'')"
  let ?o = "observeLifecycle (logged env) (statement_event ''StatementSubmitting'' (sanitizeEndpointPath (escaped_path (logged env) ?t)) h [] None) c1"
  obtain x c2 where x: "answer_of (doJSON (logged env) cfg (secret_ctx (logged env) ctx) ''POST'' ?t
     (Some (statement_body (selectedCapabilities cfg (versions c1)) req)) (string_response ''operationHandle'') False ?o) = (x, c2)" by fastforce
  note eq = assms(1)[unfolded submitStatement_def Let_def x prod.case]
  have l: "looked_up c ?o" using assms(2) by (simp add: looked_up_def)
  show ?thesis
    by (rule outcome_known_submit[OF l x]) (use eq in \<open>auto split: sum.splits option.splits\<close>)
qed

lemma ExecuteStatement_known:
  assumes "ExecuteStatement (logged env) cfg ctx h req c = (r, c')"
  shows "outcome_known ErrExecutionOutcomeUnknown c r c'"
proof (cases "validateSessionHandle h")
  case (Some e)
  then show ?thesis using assms by (auto simp: ExecuteStatement_def intro: outcome_known_unsent)
next
  case None
  obtain y c1 where y: "validateStatement (logged env) ctx h (erStatement req) c = (y, c1)" by fastforce
  have l1: "looked_up c c1" using validateStatement_log[OF y] looked_up_log by blast
  obtain z c2 where z: "client_CheckAPIVersion (logged env) cfg ctx c1 = (z, c2)" by fastforce
  have l2: "looked_up c c2" using l1 client_CheckAPIVersion_looked_up[OF z] by (rule looked_up_trans)
  note eq = assms[unfolded ExecuteStatement_def None option.case y prod.case]
  show ?thesis
  proof (cases y)
    case (Some e)
    then show ?thesis using eq l1 by (auto intro: outcome_known_unsent)
  next
    case yN: None
    note eq' = eq[unfolded yN option.case z prod.case]
    show ?thesis
    proof (cases z)
      case (Some e)
      then show ?thesis using eq' l2 by (auto intro: outcome_known_unsent)
    next
      case zN: None
      show ?thesis by (rule submitStatement_known[OF eq'[unfolded zN option.case] l2])
    qed
  qed
qed

lemma DeployScript_op_known:
  assumes "DeployScript_op (logged env) cfg ctx h req c = (r, c')"
  shows "outcome_known ErrScriptDeploymentOutcomeUnknown c r c'"
proof -
  obtain y c1 where y: "client_compatibilityForCapability (logged env) cfg ctx ''deploy-script'' DeployScript c = (y, c1)" by fastforce
  have l1: "looked_up c c1" by (rule client_compatibilityForCapability_looked_up[OF y])
  let ?t = "endpointURL (logged env) cfg c1 True (''/sessions/'' @ pathSegment h @ ''/scripts'')"
  obtain x c2 where x: "answer_of (doJSON (logged env) cfg (secret_ctx (logged env) ctx) ''POST'' ?t (Some (deploy_body req))
     (string_response ''clusterID'') False c1) = (x, c2)" by fastforce
  note eq = assms[unfolded DeployScript_op_def Let_def y prod.case x]
  show ?thesis
  proof (cases "validateSessionHandle h = None \<and> check_deploy req = None \<and> is_ok y")
    case False
    have "(c' = c \<or> c' = c1) \<and> (\<exists>err. r = Inl err)"
      using eq False unfolding is_ok_iff by (cases "validateSessionHandle h"; cases "check_deploy req"; cases y) auto
    then show ?thesis using l1 by (auto intro: outcome_known_unsent)
  next
    case True
    then obtain i where i: "validateSessionHandle h = None" "check_deploy req = None" "y = Inr i" by (cases y) auto
    note eq' = eq[unfolded i option.case sum.case]
    show ?thesis
      by (rule outcome_known_submit[OF l1 x]) (use eq' in \<open>auto split: sum.splits option.splits if_splits\<close>)
  qed
qed

lemma RefreshMaterializedTable_known:
  assumes "RefreshMaterializedTable (logged env) cfg ctx h ident req c = (r, c')"
  shows "outcome_known ErrMaterializedTableRefreshOutcomeUnknown c r c'"
proof -
  obtain y c1 where y: "client_compatibilityForCapability (logged env) cfg ctx ''materialized-table-refresh'' MaterializedTable c = (y, c1)" by fastforce
  have l1: "looked_up c c1" by (rule client_compatibilityForCapability_looked_up[OF y])
  let ?t = "endpointURL (logged env) cfg c1 True (''/sessions/'' @ pathSegment h @ ''/materialized-tables/'' @ pathSegment ident @ ''/refresh'')"
  obtain x c2 where x: "answer_of (doJSON (logged env) cfg (secret_ctx (logged env) ctx) ''POST'' ?t (Some (refresh_body req))
     (string_response ''operationHandle'') False c1) = (x, c2)" by fastforce
  note eq = assms[unfolded RefreshMaterializedTable_def Let_def y prod.case x]
  show ?thesis
  proof (cases "validateSessionHandle h = None \<and> validateMaterializedTableIdentifier ident = None \<and> is_ok y")
    case False
    have "(c' = c \<or> c' = c1) \<and> (\<exists>err. r = Inl err)"
      using eq False unfolding is_ok_iff by (cases "validateSessionHandle h"; cases "validateMaterializedTableIdentifier ident"; cases y) auto
    then show ?thesis using l1 by (auto intro: outcome_known_unsent)
  next
    case True
    then obtain i where i: "validateSessionHandle h = None" "validateMaterializedTableIdentifier ident = None" "y = Inr i" by (cases y) auto
    note eq' = eq[unfolded i option.case sum.case]
    show ?thesis
      by (rule outcome_known_submit[OF l1 x]) (use eq' in \<open>auto split: sum.splits option.splits if_splits\<close>)
  qed
qed


end
