(* ===== verification/Stream_Results.thy ===== *)
theory Stream_Results
  imports Results
begin

text \<open>
  \<open>flinksqlgateway/result_stream.go\<close>: the pull iterator over the same paging protocol as
  \<open>consumeResults\<close>.  The iterator's record is \<open>result_stream\<close>; the client and the server are the
  environment of \<open>Results\<close>, extended by what the clean-up calls.  The iterator is used by one
  caller at a time (\<open>nextMu\<close>), so \<open>closed\<close> also stands for the once-guard and the done channel
  of the clean-up.
\<close>

text \<open>The observations of the clean-up, with the error or the counts they carry; \<open>bool\<close> arguments
  of the calls tell whether the context is one of internal clean-up.\<close>

datatype stream_observation =
  OperationCanceled "goerr option" | OperationClosed "goerr option"
| ResultStreamClosed string int "goerr option"

record 's stream_env = "'s result_env" +
  env_cancel :: "'s \<Rightarrow> 's"
  env_cancel_operation :: "bool \<Rightarrow> 's \<Rightarrow> goerr option \<times> 's"
  env_close_operation :: "bool \<Rightarrow> 's \<Rightarrow> goerr option \<times> 's"
  env_observe :: "stream_observation \<Rightarrow> 's \<Rightarrow> 's"
  env_unregister :: "'s \<Rightarrow> 's"
  env_cancel_on_done :: bool

record result_stream =
  stOperation :: operation
  stLimits :: execution_limits
  stClosed :: bool
  streamErr :: "goerr option"
  cleanupErr :: "goerr option"
  currentEvent :: result_event
  currentRow :: row
  stJobID :: string
  stColumns :: "column_info list"
  rowsYielded :: int
  stPolls :: int
  stInterval :: int
  nextURL :: "go_url option"
  pendingRows :: "row list"
  pendingIndex :: nat
  pendingEOS :: bool
  pendingPage :: "result_page option"

definition new_stream :: "'s stream_env \<Rightarrow> operation \<Rightarrow> execution_limits \<Rightarrow> result_stream" where
  "new_stream env operation limits = \<lparr>stOperation = operation, stLimits = limits, stClosed = False, streamErr = None,
     cleanupErr = None, currentEvent = EventOperation operation, currentRow = \<lparr>Kind = [], Fields = []\<rparr>, stJobID = [], stColumns = [],
     rowsYielded = 0, stPolls = 0, stInterval = env_poll env, nextURL = None, pendingRows = [], pendingIndex = 0,
     pendingEOS = False, pendingPage = None\<rparr>"

section \<open>Clean-up\<close>

definition is_limit_error :: "goerr option \<Rightarrow> bool" where
  "is_limit_error x = (case x of None \<Rightarrow> False | Some e \<Rightarrow> err_is e ErrResultLimit)"

definition drop_not_found :: "goerr option \<Rightarrow> goerr option" where
  "drop_not_found x = (case x of None \<Rightarrow> None | Some e \<Rightarrow> if err_is e ErrOperationNotFound then None else Some e)"

text \<open>The cancel stage: run when it is forced or the stream ended on a limit.\<close>

definition cancel_stage :: "'s stream_env \<Rightarrow> bool \<Rightarrow> bool \<Rightarrow> 's \<Rightarrow> goerr option \<times> 's" where
  "cancel_stage env internal wanted s =
     (if wanted
      then (let (x, s1) = env_cancel_operation env internal s; x' = drop_not_found x
            in (x', env_observe env (OperationCanceled x') s1))
      else (None, s))"

definition finish :: "'s stream_env \<Rightarrow> bool \<Rightarrow> goerr option \<Rightarrow> bool \<Rightarrow> result_stream \<Rightarrow> 's \<Rightarrow> result_stream \<times> 's" where
  "finish env internal primary forceCancel st s =
     (if stClosed st then (st, s)
      else
        (let s1 = env_cancel env s;
             (cancelErr, s2) = cancel_stage env internal (forceCancel \<or> is_limit_error primary) s1;
             (closeErr, s3) = env_close_operation env internal s2;
             s4 = env_observe env (OperationClosed closeErr) s3;
             failed = (cancelErr \<noteq> None \<or> closeErr \<noteq> None);
             handle = opSessionHandle (stOperation st); op = opHandle (stOperation st);
             streamE = (if failed then Some (ExecutionError primary cancelErr closeErr handle op (stJobID st)) else primary);
             cleanupE = (if failed then Some (ExecutionError None cancelErr closeErr handle op (stJobID st)) else None);
             s5 = env_unregister env s4;
             s6 = env_observe env (ResultStreamClosed (stJobID st) (rowsYielded st) streamE) s5
         in (st\<lparr>stClosed := True, streamErr := streamE, cleanupErr := cleanupE\<rparr>, s6)))"

definition finishFromNext :: "'s stream_env \<Rightarrow> goerr option \<Rightarrow> bool \<Rightarrow> result_stream \<Rightarrow> 's \<Rightarrow> result_stream \<times> 's" where
  "finishFromNext env primary forceCancel st s = finish env True primary forceCancel st s"

text \<open>\<open>closeWithContext\<close>, and \<open>Close\<close> with a context of its own.\<close>

definition closeWithContext ::
  "'s stream_env \<Rightarrow> bool \<Rightarrow> goerr option \<Rightarrow> result_stream \<Rightarrow> 's \<Rightarrow> goerr option \<times> result_stream \<times> 's" where
  "closeWithContext env internal terminalErr st s =
     (let (st', s') = finish env internal terminalErr True st (env_cancel env s) in (cleanupErr st', st', s'))"

definition Close :: "'s stream_env \<Rightarrow> result_stream \<Rightarrow> 's \<Rightarrow> goerr option \<times> result_stream \<times> 's" where
  "Close env st s = closeWithContext env False None st s"

section \<open>\<open>Next\<close>\<close>

definition setNextURL :: "'s stream_env \<Rightarrow> result_page \<Rightarrow> bool \<Rightarrow> result_stream \<Rightarrow> goerr option \<times> result_stream" where
  "setNextURL env page required st =
     (let v = nextURLString page in
      if v = []
      then (if required then (Some (Errorf ''flinksqlgateway: PAYLOAD result omitted nextResultUri'' []), st)
            else (None, st\<lparr>nextURL := None\<rparr>))
      else case env_validate env v of Inl err \<Rightarrow> (Some err, st) | Inr u \<Rightarrow> (None, st\<lparr>nextURL := Some u\<rparr>))"

text \<open>How an iteration of the loop of \<open>Next\<close> ends: by returning, or by going round again.\<close>

datatype 's iteration = Return bool result_stream 's | Continue result_stream 's

abbreviation stop_with :: "'s stream_env \<Rightarrow> goerr option \<Rightarrow> bool \<Rightarrow> result_stream \<Rightarrow> 's \<Rightarrow> 's iteration" where
  "stop_with env primary forceCancel st s \<equiv>
     (case finishFromNext env primary forceCancel st s of (st', s') \<Rightarrow> Return False st' s')"

definition stream_not_ready :: "'s stream_env \<Rightarrow> result_page \<Rightarrow> result_stream \<Rightarrow> 's \<Rightarrow> 's iteration" where
  "stream_not_ready env page st s =
     (case setNextURL env page False st of
        (Some err, st1) \<Rightarrow> stop_with env (Some err) False st1 s
      | (None, st1) \<Rightarrow>
          (case env_wait env (stInterval st1) s of
             (Some err, s1) \<Rightarrow> stop_with env (Some err) (env_cancel_on_done env) st1 s1
           | (None, s1) \<Rightarrow> Continue (st1\<lparr>stInterval := nextPollInterval (stInterval st1) (env_max_poll env)\<rparr>) s1))"

text \<open>A page with rows becomes the pending page.\<close>

definition adopt_page :: "'s stream_env \<Rightarrow> result_page \<Rightarrow> result_stream \<Rightarrow> result_stream" where
  "adopt_page env page st =
     st\<lparr>stInterval := env_poll env, pendingPage := Some page, pendingRows := [], pendingIndex := 0,
        stColumns := (case Results page of None \<Rightarrow> stColumns st
          | Some info \<Rightarrow> if stColumns st = [] \<and> Columns info \<noteq> [] then Columns info else stColumns st)\<rparr>"

definition stream_page :: "'s stream_env \<Rightarrow> result_page \<Rightarrow> result_stream \<Rightarrow> 's \<Rightarrow> 's iteration" where
  "stream_page env page st0 s =
     (let st = adopt_page env page st0 in
      case (if Results page = None then None else validateResultRows (stColumns st) (page_rows page)) of
        Some err \<Rightarrow> stop_with env (Some err) False st s
      | None \<Rightarrow>
          (let st1 = st\<lparr>pendingRows := page_rows page, pendingEOS := (ResultType page = ResultEOS)\<rparr> in
           if pendingEOS st1 then Continue st1 s
           else (case setNextURL env page True st1 of
                   (Some err, st2) \<Rightarrow> stop_with env (Some err) False st2 s
                 | (None, st2) \<Rightarrow> Continue st2 s)))"


text \<open>Fetching: everything an iteration does when no row is pending.\<close>

definition stream_fetch :: "'s stream_env \<Rightarrow> result_stream \<Rightarrow> 's \<Rightarrow> 's iteration" where
  "stream_fetch env st s =
     (case fetch_next env (nextURL st) s of
        (Inl err, s1) \<Rightarrow>
          (let st1 = st\<lparr>stPolls := stPolls st + 1\<rparr>; (err', s2) = operationFailure (env_status env) err s1
           in stop_with env (Some err') (env_cancel_on_done env \<and> isContextError err') st1 s2)
      | (Inr page, s1) \<Rightarrow>
          (let st1 = st\<lparr>stPolls := stPolls st + 1\<rparr>;
               st2 = (if JobID page \<noteq> [] then st1\<lparr>stJobID := JobID page\<rparr> else st1) in
           if ResultType page = ResultNotReady then stream_not_ready env page st2 s1
           else if ResultType page = ResultPayload \<or> ResultType page = ResultEOS then stream_page env page st2 s1
           else stop_with env (Some (Errorf ''flinksqlgateway: unknown resultType %q'' [ArgText (ResultType page)]))
                  False st2 s1))"

definition stream_iteration :: "'s stream_env \<Rightarrow> result_stream \<Rightarrow> 's \<Rightarrow> 's iteration" where
  "stream_iteration env st s =
     (if stClosed st then Return False st s
      else case env_ctx_err env s of
        (Some err, s1) \<Rightarrow> stop_with env (Some err) (env_cancel_on_done env) st s1
      | (None, s1) \<Rightarrow>
          if pendingIndex st < length (pendingRows st)
          then (if rowsYielded st \<ge> limMaxRows (stLimits st)
                then stop_with env (Some (ResultLimitError ''rows'' (limMaxRows (stLimits st)) (rowsYielded st))) True st s1
                else (let r = pendingRows st ! pendingIndex st in
                      Return True (st\<lparr>pendingIndex := pendingIndex st + 1, rowsYielded := rowsYielded st + 1,
                        currentRow := r, currentEvent := EventRow r\<rparr>) s1))
          else if pendingEOS st
          then stop_with env None False (st\<lparr>currentEvent := EventEOS (pageWithoutRows (the (pendingPage st)))\<rparr>) s1
          else if stPolls st \<ge> limMaxPolls (stLimits st)
          then stop_with env (Some (ResultLimitError ''polls'' (limMaxPolls (stLimits st)) (stPolls st))) True st s1
          else stream_fetch env st s1)"

section \<open>Facts on the clean-up\<close>

lemma finish_closed [simp]: "stClosed st \<Longrightarrow> finish env i p f st s = (st, s)"
  by (simp add: finish_def)

text \<open>What the clean-up of an open stream changes in its record.\<close>

lemma finish_open:
  assumes "\<not> stClosed st"
  obtains x ca cl s' where "finish env i p f st s = (st\<lparr>stClosed := True, streamErr := x, cleanupErr :=
        (if ca = None \<and> cl = None then None else Some (ExecutionError None ca cl (opSessionHandle (stOperation st))
           (opHandle (stOperation st)) (stJobID st)))\<rparr>, s')"
    "x = (if ca = None \<and> cl = None then p else Some (ExecutionError p ca cl (opSessionHandle (stOperation st))
           (opHandle (stOperation st)) (stJobID st)))"
proof -
  obtain ca s2 where 1: "cancel_stage env i (f \<or> is_limit_error p) (env_cancel env s) = (ca, s2)" by fastforce
  obtain cl s3 where 2: "env_close_operation env i s2 = (cl, s3)" by fastforce
  show ?thesis
  proof (cases "ca = None \<and> cl = None")
    case True
    have "\<exists>s'. finish env i p f st s = (st\<lparr>stClosed := True, streamErr := p, cleanupErr := None\<rparr>, s')"
      using True assms by (simp add: finish_def Let_def 1 2)
    then show ?thesis using that[where x = p and ca = None and cl = None] by auto
  next
    case False
    let ?e = "\<lambda>p. Some (ExecutionError p ca cl (opSessionHandle (stOperation st)) (opHandle (stOperation st)) (stJobID st))"
    have "(ca \<noteq> None \<or> cl \<noteq> None) = True" using False by auto
    then have "\<exists>s'. finish env i p f st s = (st\<lparr>stClosed := True, streamErr := ?e p, cleanupErr := ?e None\<rparr>, s')"
      using assms by (simp only: finish_def Let_def 1 2 prod.case if_True if_False simp_thms) blast
    then obtain s' where "finish env i p f st s = (st\<lparr>stClosed := True, streamErr := ?e p, cleanupErr := ?e None\<rparr>, s')" ..
    then show ?thesis by (intro that[where x = "?e p" and ca = ca and cl = cl and s' = s']) (simp_all only: False if_False)
  qed
qed

lemma finish_sel:
  assumes "finish env i p f st s = (st', s')" "\<not> stClosed st"
  shows "stClosed st'" "rowsYielded st' = rowsYielded st" "stPolls st' = stPolls st" "stLimits st' = stLimits st"
    "pendingRows st' = pendingRows st" "pendingIndex st' = pendingIndex st" "stOperation st' = stOperation st"
    "streamErr st' = None \<Longrightarrow> p = None" "pendingEOS st' = pendingEOS st" "pendingPage st' = pendingPage st"
  by (rule finish_open[OF assms(2), of env i p f s], use assms(1) in \<open>simp split: if_splits\<close>)+

section \<open>Termination of \<open>Next\<close>\<close>

lemma setNextURL_sel:
  assumes "setNextURL env page req st = (x, st')"
  shows "\<exists>u. st' = st\<lparr>nextURL := u\<rparr>"
proof -
  have "st' = st\<lparr>nextURL := nextURL st\<rparr> \<or> (\<exists>u. st' = st\<lparr>nextURL := u\<rparr>)"
    using assms by (auto simp: setNextURL_def Let_def split: if_splits sum.splits)
  then show ?thesis by blast
qed

lemma stop_with_Return: "\<exists>st' s'. stop_with env p f st s = Return False st' s'"
  by (simp split: prod.splits)

lemma stream_not_ready_cont:
  assumes "stream_not_ready env page st s = Continue st' s'"
  obtains u i where "st' = st\<lparr>nextURL := u, stInterval := i\<rparr>" "env_wait env (stInterval st) s = (None, s')"
proof -
  obtain x st1 where 1: "setNextURL env page False st = (x, st1)" by fastforce
  obtain u where st1: "st1 = st\<lparr>nextURL := u\<rparr>" using setNextURL_sel[OF 1] by blast
  show ?thesis
    using assms 1 st1 that[where u = u] by (auto simp: stream_not_ready_def split: option.splits prod.splits)
qed

lemma stream_page_cont:
  assumes "stream_page env page st s = Continue st' s'"
  obtains u where "s' = s" "st' = (adopt_page env page st)\<lparr>pendingRows := page_rows page,
      pendingEOS := (ResultType page = ResultEOS), nextURL := u\<rparr>"
    "list_all (row_fits (stColumns st')) (page_rows page)"
proof -
  let ?st1 = "(adopt_page env page st)\<lparr>pendingRows := page_rows page, pendingEOS := (ResultType page = ResultEOS)\<rparr>"
  obtain x st2 where 2: "setNextURL env page True ?st1 = (x, st2)" by fastforce
  obtain u where st2: "st2 = ?st1\<lparr>nextURL := u\<rparr>" using setNextURL_sel[OF 2] by blast
  let ?chk = "if Results page = None then None else validateResultRows (stColumns (adopt_page env page st)) (page_rows page)"
  have c: "?chk = None"
  proof (rule ccontr)
    assume "?chk \<noteq> None"
    then obtain err where "?chk = Some err" by blast
    then show False using assms by (simp only: stream_page_def Let_def option.case) (simp split: prod.splits)
  qed
  then have fits: "list_all (row_fits (stColumns (adopt_page env page st))) (page_rows page)"
    by (auto split: if_splits simp: validateResultRows_None page_rows_def)
  have eos: "pendingEOS ?st1 = (ResultType page = ResultEOS)" by simp
  have run: "stream_page env page st s = (if ResultType page = ResultEOS then Continue ?st1 s
      else (case x of Some err \<Rightarrow> stop_with env (Some err) False st2 s | None \<Rightarrow> Continue st2 s))"
    by (simp only: stream_page_def Let_def c 2 eos option.case prod.case)
  have "s' = s \<and> (st' = ?st1 \<or> st' = st2)"
  proof (cases "ResultType page = ResultEOS")
    case True
    then have "stream_page env page st s = Continue ?st1 s" by (simp only: run if_True simp_thms)
    then show ?thesis using assms by (metis iteration.inject(2))
  next
    case ne: False
    show ?thesis
    proof (cases x)
      case None
      then have "stream_page env page st s = Continue st2 s" by (simp only: run ne if_False option.case)
      then show ?thesis using assms by (metis iteration.inject(2))
    next
      case (Some err)
      then have "stream_page env page st s = stop_with env (Some err) False st2 s"
        by (simp only: run ne if_False option.case)
      then show ?thesis using assms stop_with_Return[of env "Some err" False st2 s] by (metis iteration.distinct(1))
    qed
  qed
  moreover have "?st1 = ?st1\<lparr>nextURL := nextURL ?st1\<rparr>" by simp
  ultimately have "s' = s" and "\<exists>v. st' = ?st1\<lparr>nextURL := v\<rparr>" unfolding st2 by blast+
  then obtain v where st': "st' = ?st1\<lparr>nextURL := v\<rparr>" by blast
  have "stColumns st' = stColumns (adopt_page env page st)" unfolding st' by simp
  then show ?thesis using fits by (intro that[OF \<open>s' = s\<close> st']) simp
qed

lemma adopt_page_sel [simp]:
  "stPolls (adopt_page env p st) = stPolls st" "stLimits (adopt_page env p st) = stLimits st"
  "rowsYielded (adopt_page env p st) = rowsYielded st" "stClosed (adopt_page env p st) = stClosed st"
  "pendingIndex (adopt_page env p st) = 0" "pendingPage (adopt_page env p st) = Some p"
  "stOperation (adopt_page env p st) = stOperation st" "streamErr (adopt_page env p st) = streamErr st"
  "cleanupErr (adopt_page env p st) = cleanupErr st"
  by (simp_all add: adopt_page_def)

lemma stream_fetch_cont:
  assumes "stream_fetch env st s = Continue st' s'"
  obtains page s1 st2 where "fetch_next env (nextURL st) s = (Inr page, s1)"
    "st2 = st\<lparr>stPolls := stPolls st + 1, stJobID := (if JobID page \<noteq> [] then JobID page else stJobID st)\<rparr>"
    "ResultType page = ResultNotReady \<and> stream_not_ready env page st2 s1 = Continue st' s' \<or>
     (ResultType page = ResultPayload \<or> ResultType page = ResultEOS) \<and> stream_page env page st2 s1 = Continue st' s'"
proof -
  obtain f s1 where f: "fetch_next env (nextURL st) s = (f, s1)" by fastforce
  show ?thesis
  proof (cases f)
    case (Inl err)
    obtain err' s2 where "operationFailure (env_status env) err s1 = (err', s2)" by fastforce
    then show ?thesis using assms f Inl by (simp add: stream_fetch_def Let_def split: prod.splits)
  next
    case (Inr page)
    let ?st1 = "st\<lparr>stPolls := stPolls st + 1\<rparr>"
    have e: "(if JobID page \<noteq> [] then ?st1\<lparr>stJobID := JobID page\<rparr> else ?st1) =
        st\<lparr>stPolls := stPolls st + 1, stJobID := (if JobID page \<noteq> [] then JobID page else stJobID st)\<rparr>" by simp
    show ?thesis
      using assms unfolding stream_fetch_def f Inr prod.case sum.case Let_def e
      by (intro that[OF f[unfolded Inr] refl]) (auto split: if_splits prod.splits)
  qed
qed

lemma stream_iteration_cont:
  assumes "stream_iteration env st s = Continue st' s'"
  obtains s1 where "\<not> stClosed st" "env_ctx_err env s = (None, s1)" "\<not> pendingIndex st < length (pendingRows st)"
    "\<not> pendingEOS st" "stPolls st < limMaxPolls (stLimits st)" "stream_fetch env st s1 = Continue st' s'"
proof -
  obtain x s1 where 1: "env_ctx_err env s = (x, s1)" by fastforce
  show ?thesis
    using assms 1 that[of s1]
    by (cases x) (auto simp: stream_iteration_def Let_def split: if_splits prod.splits)
qed

lemma stream_fetch_measure:
  assumes "stream_fetch env st s = Continue st' s'"
  shows "stPolls st' = stPolls st + 1 \<and> stLimits st' = stLimits st"
  using assms
proof (rule stream_fetch_cont)
  fix page s1 st2
  assume a: "st2 = st\<lparr>stPolls := stPolls st + 1, stJobID := (if JobID page \<noteq> [] then JobID page else stJobID st)\<rparr>"
    "ResultType page = ResultNotReady \<and> stream_not_ready env page st2 s1 = Continue st' s' \<or>
     (ResultType page = ResultPayload \<or> ResultType page = ResultEOS) \<and> stream_page env page st2 s1 = Continue st' s'"
  then have "stPolls st' = stPolls st2 \<and> stLimits st' = stLimits st2"
    by (auto elim!: stream_not_ready_cont stream_page_cont)
  then show ?thesis using a(1) by simp
qed

lemma stream_iteration_measure:
  "stream_iteration env st s = Continue st' s' \<Longrightarrow>
     nat (limMaxPolls (stLimits st') - stPolls st') < nat (limMaxPolls (stLimits st) - stPolls st)"
  by (erule stream_iteration_cont) (auto dest: stream_fetch_measure)

function Next :: "'s stream_env \<Rightarrow> result_stream \<Rightarrow> 's \<Rightarrow> bool \<times> result_stream \<times> 's" where
  "Next env st s = (case stream_iteration env st s of
     Return b st' s' \<Rightarrow> (b, st', s') | Continue st' s' \<Rightarrow> Next env st' s')"
  by pat_completeness auto
termination
  by (relation "measure (\<lambda>(env, st, s). nat (limMaxPolls (stLimits st) - stPolls st))")
    (auto dest: stream_iteration_measure)

declare Next.simps [simp del]

lemma Next_rule [consumes 2, case_names return continue]:
  assumes "Next env st s = (b, st', s')" and "I st s"
    and ret: "\<And>st s b st1 s1. I st s \<Longrightarrow> stream_iteration env st s = Return b st1 s1 \<Longrightarrow> Q b st1 s1"
    and cont: "\<And>st s st1 s1. I st s \<Longrightarrow> stream_iteration env st s = Continue st1 s1 \<Longrightarrow> I st1 s1"
  shows "Q b st' s'"
  using assms(1,2)
proof (induction "nat (limMaxPolls (stLimits st) - stPolls st)" arbitrary: st s rule: less_induct)
  case less
  show ?case
  proof (cases "stream_iteration env st s")
    case (Return b1 st1 s1)
    then show ?thesis using less.prems ret[OF less.prems(2) Return] by (subst (asm) Next.simps) simp
  next
    case (Continue st1 s1)
    then have "Next env st1 s1 = (b, st', s')" using less.prems(1) by (subst (asm) Next.simps) simp
    then show ?thesis using less.hyps[OF stream_iteration_measure[OF Continue]] cont[OF less.prems(2) Continue] by blast
  qed
qed

section \<open>Watching a stream\<close>

text \<open>A record of the pages fetched and of the cancel and close requests made, kept beside the state of
  the environment.\<close>

record stream_watch =
  wPages :: "result_page list"
  wCancels :: nat
  wCloses :: nat

type_synonym 's watched = "'s \<times> stream_watch"

definition beside :: "('s \<Rightarrow> 'a \<times> 's) \<Rightarrow> 's watched \<Rightarrow> 'a \<times> 's watched" where
  "beside f = (\<lambda>(s, w). case f s of (x, s') \<Rightarrow> (x, (s', w)))"

definition note_fetch :: "('s \<Rightarrow> (goerr, result_page) result \<times> 's) \<Rightarrow> 's watched \<Rightarrow> (goerr, result_page) result \<times> 's watched" where
  "note_fetch f = (\<lambda>(s, w). case f s of
     (Inr p, s') \<Rightarrow> (Inr p, (s', w\<lparr>wPages := wPages w @ [p]\<rparr>)) | (Inl err, s') \<Rightarrow> (Inl err, (s', w)))"

definition watch :: "'s stream_env \<Rightarrow> 's watched stream_env" where
  "watch env = \<lparr>env_ctx_err = beside (env_ctx_err env), env_fetch_first = note_fetch (env_fetch_first env),
     env_fetch_url = (\<lambda>u. note_fetch (env_fetch_url env u)), env_status = beside (env_status env),
     env_wait = (\<lambda>i. beside (env_wait env i)), env_validate = env_validate env, env_poll = env_poll env,
     env_max_poll = env_max_poll env, env_cancel = (\<lambda>(s, w). (env_cancel env s, w)),
     env_cancel_operation = (\<lambda>i (s, w). case env_cancel_operation env i s of
       (x, s') \<Rightarrow> (x, (s', w\<lparr>wCancels := Suc (wCancels w)\<rparr>))),
     env_close_operation = (\<lambda>i (s, w). case env_close_operation env i s of
       (x, s') \<Rightarrow> (x, (s', w\<lparr>wCloses := Suc (wCloses w)\<rparr>))),
     env_observe = (\<lambda>ob (s, w). (env_observe env ob s, w)), env_unregister = (\<lambda>(s, w). (env_unregister env s, w)),
     env_cancel_on_done = env_cancel_on_done env\<rparr>"

lemma watch_sel [simp]:
  "env_ctx_err (watch env) = beside (env_ctx_err env)" "env_status (watch env) = beside (env_status env)"
  "env_wait (watch env) i = beside (env_wait env i)" "env_validate (watch env) = env_validate env"
  "env_poll (watch env) = env_poll env" "env_max_poll (watch env) = env_max_poll env"
  "env_cancel_on_done (watch env) = env_cancel_on_done env"
  "env_fetch_first (watch env) = note_fetch (env_fetch_first env)"
  "env_fetch_url (watch env) u = note_fetch (env_fetch_url env u)"
  by (simp_all add: watch_def)

lemma watch_fetch [simp]: "fetch_next (watch env) n sw = note_fetch (fetch_next env n) sw"
proof (cases n)
  case None
  then have "fetch_next env n = env_fetch_first env" by (simp add: fetch_next_def fun_eq_iff)
  then show ?thesis using None by (simp add: fetch_next_def)
next
  case (Some u)
  then have "fetch_next env n = env_fetch_url env u" by (simp add: fetch_next_def fun_eq_iff)
  then show ?thesis using Some by (simp add: fetch_next_def)
qed

lemma beside_keeps: "beside f (s, w) = (x, sw) \<Longrightarrow> \<exists>s'. sw = (s', w)"
  by (auto simp: beside_def split: prod.splits)

lemma note_fetch_keeps: "note_fetch f (s, w) = (x, sw) \<Longrightarrow>
    \<exists>s'. sw = (s', case x of Inr p \<Rightarrow> w\<lparr>wPages := wPages w @ [p]\<rparr> | Inl err \<Rightarrow> w)"
  by (auto simp: note_fetch_def split: prod.splits sum.splits)

lemma operationFailure_watch:
  assumes "operationFailure (beside f) err (s, w) = (x, sw)"
  shows "\<exists>s'. sw = (s', w)"
proof -
  obtain y sw' where y: "beside f (s, w) = (y, sw')" by (metis surj_pair)
  then have "sw = (s, w) \<or> sw = sw'" using assms by (cases y) (auto simp: operationFailure_def split: if_splits)
  then show ?thesis using beside_keeps[OF y] by auto
qed

lemma watch_quiet:
  "env_cancel (watch env) (s, w) = (env_cancel env s, w)"
  "env_observe (watch env) ob (s, w) = (env_observe env ob s, w)"
  "env_unregister (watch env) (s, w) = (env_unregister env s, w)"
  by (simp_all add: watch_def)

lemma close_operation_watch:
  "env_close_operation (watch env) i (s, w) = (x, sw) \<Longrightarrow> \<exists>s'. sw = (s', w\<lparr>wCloses := Suc (wCloses w)\<rparr>)"
  by (cases "env_close_operation env i s") (auto simp: watch_def)

lemma cancel_operation_watch:
  "env_cancel_operation (watch env) i (s, w) = (x, sw) \<Longrightarrow> \<exists>s'. sw = (s', w\<lparr>wCancels := Suc (wCancels w)\<rparr>)"
  by (cases "env_cancel_operation env i s") (auto simp: watch_def)

lemma cancel_stage_watch:
  assumes "cancel_stage (watch env) i wanted (s, w) = (x, sw)"
  shows "\<exists>s'. sw = (s', w\<lparr>wCancels := wCancels w + (if wanted then 1 else 0)\<rparr>)"
proof (cases wanted)
  case True
  obtain y sw1 where 1: "env_cancel_operation (watch env) i (s, w) = (y, sw1)" by (metis surj_pair)
  from cancel_operation_watch[OF this] obtain s1 where "sw1 = (s1, w\<lparr>wCancels := Suc (wCancels w)\<rparr>)" by blast
  then show ?thesis using assms True 1 by (auto simp: cancel_stage_def Let_def watch_quiet)
next
  case False
  then show ?thesis using assms by (auto simp: cancel_stage_def)
qed

lemma finish_watch:
  assumes "finish (watch env) i p f st (s, w) = (st', sw)" "\<not> stClosed st"
  shows "\<exists>s'. sw = (s', w\<lparr>wCancels := wCancels w + (if f \<or> is_limit_error p then 1 else 0), wCloses := Suc (wCloses w)\<rparr>)"
proof -
  let ?want = "f \<or> is_limit_error p"
  let ?w1 = "w\<lparr>wCancels := wCancels w + (if ?want then 1 else 0)\<rparr>"
  obtain ca sw1 where 1: "cancel_stage (watch env) i ?want (env_cancel (watch env) (s, w)) = (ca, sw1)"
    by (metis surj_pair)
  from cancel_stage_watch[OF this[unfolded watch_quiet]] obtain s1 where sw1: "sw1 = (s1, ?w1)" by blast
  obtain cl sw2 where 2: "env_close_operation (watch env) i sw1 = (cl, sw2)" by (metis surj_pair)
  from close_operation_watch[OF this[unfolded sw1]] obtain s2 where sw2: "sw2 = (s2, ?w1\<lparr>wCloses := Suc (wCloses w)\<rparr>)"
    by auto
  have "\<exists>st'' ob. finish (watch env) i p f st (s, w) =
      (st'', env_observe (watch env) ob (env_unregister (watch env) (env_observe (watch env) (OperationClosed cl) sw2)))"
    using assms(2) by (simp only: finish_def Let_def 1 2 prod.case if_False) (intro exI, rule refl)
  then show ?thesis using assms(1) by (auto simp: sw2 watch_quiet)
qed

section \<open>The calls of an iterator\<close>

text \<open>The states an iterator goes through when its caller calls \<open>Next\<close> and closes it, in any order, while
  the rest of the system moves between the calls; \<open>ys\<close> are the rows the calls of \<open>Next\<close> produced.\<close>

inductive stream_reach ::
  "'s stream_env \<Rightarrow> operation \<Rightarrow> execution_limits \<Rightarrow> row list \<Rightarrow> result_stream \<Rightarrow> 's watched \<Rightarrow> bool"
  for env op limits where
  reach_new: "stream_reach env op limits [] (new_stream env op limits) (s, \<lparr>wPages = [], wCancels = 0, wCloses = 0\<rparr>)"
| reach_next: "stream_reach env op limits ys st (s, w) \<Longrightarrow> Next (watch env) st (s, w) = (b, st', sw) \<Longrightarrow>
    stream_reach env op limits (if b then ys @ [currentRow st'] else ys) st' sw"
| reach_close: "stream_reach env op limits ys st (s, w) \<Longrightarrow>
    closeWithContext (watch env) internal terminal st (s, w) = (err, st', sw) \<Longrightarrow> stream_reach env op limits ys st' sw"
| reach_other: "stream_reach env op limits ys st (s, w) \<Longrightarrow> stream_reach env op limits ys st (s', w)"

text \<open>An open stream: the rows produced and the pending ones are those of the pages fetched.\<close>

definition tracked :: "execution_limits \<Rightarrow> row list \<Rightarrow> result_stream \<Rightarrow> stream_watch \<Rightarrow> bool" where
  "tracked l ys st w =
     (\<not> stClosed st \<and> stLimits st = l \<and> pendingIndex st \<le> length (pendingRows st) \<and>
      ys @ drop (pendingIndex st) (pendingRows st) = pages_rows (wPages w) \<and>
      rowsYielded st = int (length ys) \<and> rowsYielded st \<le> limMaxRows l \<and>
      int (length (wPages w)) \<le> stPolls st \<and> stPolls st \<le> limMaxPolls l \<and>
      (if pendingEOS st then ended (wPages w) \<and> pendingPage st = Some (last (wPages w)) else open_trace (wPages w)) \<and>
      wCloses w = 0 \<and> wCancels w = 0)"

definition finished :: "execution_limits \<Rightarrow> row list \<Rightarrow> result_stream \<Rightarrow> stream_watch \<Rightarrow> bool" where
  "finished l ys st w =
     (stClosed st \<and> prefix ys (pages_rows (wPages w)) \<and> int (length ys) \<le> limMaxRows l \<and>
      int (length (wPages w)) \<le> limMaxPolls l \<and> wCloses w = 1 \<and> wCancels w \<le> 1 \<and>
      (streamErr st = None \<and> wCancels w = 0 \<longrightarrow> ended (wPages w) \<and> ys = pages_rows (wPages w)))"

lemma tracked_prefix: "tracked l ys st w \<Longrightarrow> prefix ys (pages_rows (wPages w))"
  unfolding tracked_def by (metis prefixI)

text \<open>An iteration that stops the stream.\<close>

definition iteration_ok :: "execution_limits \<Rightarrow> row list \<Rightarrow> 's watched iteration \<Rightarrow> bool" where
  "iteration_ok l ys it = (case it of
     Return b st sw \<Rightarrow> (if b then tracked l (ys @ [currentRow st]) st (snd sw) else finished l ys st (snd sw))
   | Continue st sw \<Rightarrow> tracked l ys st (snd sw))"

lemma finish_finished:
  assumes "finish (watch env) i p f st (s, w) = (st', sw)" "\<not> stClosed st"
    and "prefix ys (pages_rows (wPages w))" "int (length ys) \<le> limMaxRows l" "int (length (wPages w)) \<le> limMaxPolls l"
    and "wCloses w = 0" "wCancels w = 0" "p = None \<and> \<not> f \<longrightarrow> ended (wPages w) \<and> ys = pages_rows (wPages w)"
  shows "finished l ys st' (snd sw)"
proof -
  obtain s' where sw: "sw = (s', w\<lparr>wCancels := wCancels w + (if f \<or> is_limit_error p then 1 else 0), wCloses := Suc (wCloses w)\<rparr>)"
    using finish_watch[OF assms(1,2)] by blast
  have "streamErr st' = None \<Longrightarrow> p = None" "stClosed st'" using finish_sel[OF assms(1,2)] by auto
  then show ?thesis using assms(3-) by (auto simp: finished_def sw)
qed

lemma stop_with_ok:
  assumes "\<not> stClosed st"
    and "prefix ys (pages_rows (wPages w))" "int (length ys) \<le> limMaxRows l" "int (length (wPages w)) \<le> limMaxPolls l"
    and "wCloses w = 0" "wCancels w = 0" "p = None \<and> \<not> f \<longrightarrow> ended (wPages w) \<and> ys = pages_rows (wPages w)"
  shows "iteration_ok l ys (stop_with (watch env) p f st (s, w))"
proof -
  obtain st' sw where f: "finish (watch env) True p f st (s, w) = (st', sw)" by (metis surj_pair)
  from finish_finished[OF this assms] show ?thesis by (simp add: iteration_ok_def finishFromNext_def f)
qed

text \<open>What is known when a page has been fetched and before it is looked at.\<close>

lemma stream_not_ready_ok:
  assumes "tracked l ys st w" "\<not> pendingEOS st" "ResultType p = ResultNotReady" "w' = w\<lparr>wPages := wPages w @ [p]\<rparr>"
    "st1 = st\<lparr>stPolls := stPolls st + 1, stJobID := j\<rparr>" "stPolls st < limMaxPolls l"
  shows "iteration_ok l ys (stream_not_ready (watch env) p st1 (s, w'))"
proof -
  have rows: "pages_rows (wPages w') = pages_rows (wPages w)" using assms(3,4) by simp
  have open': "open_trace (wPages w')" using assms by (auto simp: tracked_def open_trace_def)
  have pre: "prefix ys (pages_rows (wPages w'))" using tracked_prefix[OF assms(1)] rows by simp
  have b: "int (length ys) \<le> limMaxRows l" "int (length (wPages w')) \<le> limMaxPolls l" "wCloses w' = 0" "wCancels w' = 0"
    "\<not> stClosed st1"
    using assms by (auto simp: tracked_def)
  obtain x st2 where 2: "setNextURL (watch env) p False st1 = (x, st2)" by fastforce
  then obtain u where st2: "st2 = st1\<lparr>nextURL := u\<rparr>" using setNextURL_sel by blast
  obtain y sw where 3: "beside (env_wait env (stInterval st2)) (s, w') = (y, sw)" by (metis surj_pair)
  from beside_keeps[OF this] obtain s' where sw: "sw = (s', w')" by blast
  have cl: "\<not> stClosed st2" using b st2 by simp
  show ?thesis
  proof (cases x)
    case (Some err)
    then have "stream_not_ready (watch env) p st1 (s, w') = stop_with (watch env) (Some err) False st2 (s, w')"
      using 2 by (simp add: stream_not_ready_def)
    then show ?thesis by (simp only:) (rule stop_with_ok[OF cl pre b(1-4)], simp)
  next
    case xN: None
    show ?thesis
    proof (cases y)
      case (Some err)
      then have "stream_not_ready (watch env) p st1 (s, w') =
          stop_with (watch env) (Some err) (env_cancel_on_done env) st2 (s', w')"
        using 2 3 sw xN by (simp add: stream_not_ready_def)
      then show ?thesis by (simp only:) (rule stop_with_ok[OF cl pre b(1-4)], simp)
    next
      case None
      then have "stream_not_ready (watch env) p st1 (s, w') =
          Continue (st2\<lparr>stInterval := nextPollInterval (stInterval st2) (env_max_poll env)\<rparr>) (s', w')"
        using 2 3 sw xN by (simp add: stream_not_ready_def)
      moreover have "tracked l ys (st2\<lparr>stInterval := i\<rparr>) w'" for i
        using assms rows open' st2 by (auto simp: tracked_def)
      ultimately show ?thesis by (simp add: iteration_ok_def)
    qed
  qed
qed

lemma stream_page_ok:
  assumes "tracked l ys st w" "\<not> pendingEOS st" "\<not> pendingIndex st < length (pendingRows st)"
    "ResultType p = ResultPayload \<or> ResultType p = ResultEOS" "w' = w\<lparr>wPages := wPages w @ [p]\<rparr>"
    "st1 = st\<lparr>stPolls := stPolls st + 1, stJobID := j\<rparr>" "stPolls st < limMaxPolls l"
  shows "iteration_ok l ys (stream_page (watch env) p st1 (s, w'))"
proof -
  have ys: "ys = pages_rows (wPages w)" using assms(1,3) by (simp add: tracked_def)
  have rows: "pages_rows (wPages w') = ys @ page_rows p" using assms(4,5) ys by simp
  have pre: "prefix ys (pages_rows (wPages w'))" using rows by simp
  have b: "int (length ys) \<le> limMaxRows l" "int (length (wPages w')) \<le> limMaxPolls l" "wCloses w' = 0" "wCancels w' = 0"
    "\<not> stClosed st1"
    using assms by (auto simp: tracked_def)
  let ?chk = "if Results p = None then None else validateResultRows (stColumns (adopt_page (watch env) p st1)) (page_rows p)"
  let ?st2 = "(adopt_page (watch env) p st1)\<lparr>pendingRows := page_rows p, pendingEOS := (ResultType p = ResultEOS)\<rparr>"
  obtain x st3 where 3: "setNextURL (watch env) p True ?st2 = (x, st3)" by fastforce
  obtain u where st3: "st3 = ?st2\<lparr>nextURL := u\<rparr>" using setNextURL_sel[OF 3] by blast
  have eos: "pendingEOS ?st2 = (ResultType p = ResultEOS)" by simp
  have tr: "tracked l ys (?st2\<lparr>nextURL := v\<rparr>) w'" for v
    using assms rows by (auto simp: tracked_def ended_def open_trace_def)
  note unf = stream_page_def Let_def option.case prod.case
  show ?thesis
  proof (cases ?chk)
    case (Some err)
    then have "stream_page (watch env) p st1 (s, w') = stop_with (watch env) (Some err) False (adopt_page (watch env) p st1) (s, w')"
      by (simp only: unf)
    then show ?thesis using b(5) by (simp only:) (rule stop_with_ok[OF _ pre b(1-4)], simp_all)
  next
    case c: None
    show ?thesis
    proof (cases "ResultType p = ResultEOS")
      case True
      then have e: "pendingEOS ?st2 = True" by simp
      have "stream_page (watch env) p st1 (s, w') = Continue ?st2 (s, w')" by (simp only: unf c e if_True)
      moreover have "tracked l ys ?st2 w'" using tr[of "nextURL ?st2"] by simp
      ultimately show ?thesis by (simp add: iteration_ok_def)
    next
      case ne: False
      then have e0: "pendingEOS ?st2 = False" by simp
      show ?thesis
      proof (cases x)
        case None
        then have "stream_page (watch env) p st1 (s, w') = Continue st3 (s, w')" by (simp only: unf c e0 3 if_False)
        then show ?thesis using tr st3 by (simp add: iteration_ok_def)
      next
        case (Some err)
        then have e: "stream_page (watch env) p st1 (s, w') = stop_with (watch env) (Some err) False st3 (s, w')"
          by (simp only: unf c e0 3 if_False)
        have "\<not> stClosed st3" using b(5) st3 by simp
        then show ?thesis unfolding e by (rule stop_with_ok[OF _ pre b(1-4)]) simp
      qed
    qed
  qed
qed

lemma stream_fetch_ok:
  assumes "tracked l ys st w" "\<not> pendingEOS st" "\<not> pendingIndex st < length (pendingRows st)" "stPolls st < limMaxPolls l"
  shows "iteration_ok l ys (stream_fetch (watch env) st (s, w))"
proof -
  have b: "int (length ys) \<le> limMaxRows l" "int (length (wPages w)) + 1 \<le> limMaxPolls l" "wCloses w = 0" "wCancels w = 0"
    "\<not> stClosed st"
    using assms by (auto simp: tracked_def)
  obtain f sw where f: "note_fetch (fetch_next env (nextURL st)) (s, w) = (f, sw)" by (metis surj_pair)
  from note_fetch_keeps[OF this] obtain s1
    where sw: "sw = (s1, case f of Inr p \<Rightarrow> w\<lparr>wPages := wPages w @ [p]\<rparr> | Inl err \<Rightarrow> w)" by blast
  show ?thesis
  proof (cases f)
    case (Inl err)
    obtain err' sw2 where o: "operationFailure (beside (env_status env)) err (s1, w) = (err', sw2)" by (metis surj_pair)
    from operationFailure_watch[OF this] obtain s2 where sw2: "sw2 = (s2, w)" by blast
    have e: "stream_fetch (watch env) st (s, w) = stop_with (watch env) (Some err') (env_cancel_on_done env \<and> isContextError err')
        (st\<lparr>stPolls := stPolls st + 1\<rparr>) (s2, w)"
      using f sw o sw2 Inl by (simp add: stream_fetch_def)
    show ?thesis unfolding e using b tracked_prefix[OF assms(1)] by (intro stop_with_ok) auto
  next
    case (Inr p)
    let ?w = "w\<lparr>wPages := wPages w @ [p]\<rparr>"
    let ?st = "st\<lparr>stPolls := stPolls st + 1, stJobID := (if JobID p \<noteq> [] then JobID p else stJobID st)\<rparr>"
    let ?st1 = "st\<lparr>stPolls := stPolls st + 1\<rparr>"
    have j: "(if JobID p \<noteq> [] then ?st1\<lparr>stJobID := JobID p\<rparr> else ?st1) = ?st" by simp
    have e: "stream_fetch (watch env) st (s, w) =
        (if ResultType p = ResultNotReady then stream_not_ready (watch env) p ?st (s1, ?w)
         else if ResultType p = ResultPayload \<or> ResultType p = ResultEOS then stream_page (watch env) p ?st (s1, ?w)
         else stop_with (watch env) (Some (Errorf ''flinksqlgateway: unknown resultType %q'' [ArgText (ResultType p)]))
                  False ?st (s1, ?w))"
      unfolding stream_fetch_def watch_fetch f sw Inr prod.case sum.case Let_def j ..
    consider "ResultType p = ResultNotReady"
      | "ResultType p \<noteq> ResultNotReady" "ResultType p = ResultPayload \<or> ResultType p = ResultEOS"
      | "ResultType p \<noteq> ResultNotReady" "\<not> (ResultType p = ResultPayload \<or> ResultType p = ResultEOS)" by blast
    then show ?thesis
    proof cases
      case 1
      show ?thesis unfolding e if_P[OF 1] by (rule stream_not_ready_ok[OF assms(1,2) 1 refl refl assms(4)])
    next
      case 2
      show ?thesis unfolding e if_not_P[OF 2(1)] if_P[OF 2(2)]
        by (rule stream_page_ok[OF assms(1,2,3) 2(2) refl refl assms(4)])
    next
      case 3
      have "pages_rows (wPages ?w) = pages_rows (wPages w)" using 3(2) by simp
      then have "iteration_ok l ys (stop_with (watch env) (Some (Errorf ''flinksqlgateway: unknown resultType %q'' [ArgText (ResultType p)]))
                  False ?st (s1, ?w))"
        using b tracked_prefix[OF assms(1)] by (intro stop_with_ok) auto
      then show ?thesis unfolding e if_not_P[OF 3(1)] if_not_P[OF 3(2)] .
    qed
  qed
qed

lemma stream_iteration_ok:
  assumes "tracked l ys st w"
  shows "iteration_ok l ys (stream_iteration (watch env) st (s, w))"
proof -
  have b: "int (length ys) \<le> limMaxRows l" "int (length (wPages w)) \<le> limMaxPolls l" "wCloses w = 0" "wCancels w = 0"
    "\<not> stClosed st" "stLimits st = l"
    using assms by (auto simp: tracked_def)
  note stop = stop_with_ok[OF _ tracked_prefix[OF assms] b(1-4)]
  obtain y sw where y: "beside (env_ctx_err env) (s, w) = (y, sw)" by (metis surj_pair)
  from beside_keeps[OF this] obtain s1 where sw: "sw = (s1, w)" by blast
  note unf = stream_iteration_def watch_sel y sw prod.case option.case Let_def b(6) if_False
  show ?thesis
  proof (cases y)
    case (Some err)
    have e: "stream_iteration (watch env) st (s, w) = stop_with (watch env) (Some err) (env_cancel_on_done env) st (s1, w)"
      using b(5) by (simp only: unf Some)
    show ?thesis unfolding e using b(5) by (intro stop) auto
  next
    case ctx: None
    show ?thesis
    proof (cases "pendingIndex st < length (pendingRows st)")
      case pend: True
      show ?thesis
      proof (cases "limMaxRows l \<le> rowsYielded st")
        case True
        have e: "stream_iteration (watch env) st (s, w) =
            stop_with (watch env) (Some (ResultLimitError ''rows'' (limMaxRows l) (rowsYielded st))) True st (s1, w)"
          using b(5) by (simp only: unf ctx pend True if_True)
        show ?thesis unfolding e using b(5) by (intro stop) auto
      next
        case False
        let ?r = "pendingRows st ! pendingIndex st"
        let ?st = "st\<lparr>pendingIndex := pendingIndex st + 1, rowsYielded := rowsYielded st + 1,
                        currentRow := ?r, currentEvent := EventRow ?r\<rparr>"
        have e: "stream_iteration (watch env) st (s, w) = Return True ?st (s1, w)"
          using b(5) by (simp only: unf ctx pend False if_True)
        have "drop (pendingIndex st) (pendingRows st) = ?r # drop (pendingIndex st + 1) (pendingRows st)"
          using pend by (simp add: Cons_nth_drop_Suc)
        then have "tracked l (ys @ [?r]) ?st w" using assms False pend by (auto simp: tracked_def)
        then show ?thesis by (simp add: e iteration_ok_def)
      qed
    next
      case np: False
      show ?thesis
      proof (cases "pendingEOS st")
        case True
        have e: "stream_iteration (watch env) st (s, w) =
            stop_with (watch env) None False (st\<lparr>currentEvent := EventEOS (pageWithoutRows (the (pendingPage st)))\<rparr>) (s1, w)"
          using b(5) by (simp only: unf ctx np True if_True)
        show ?thesis unfolding e using assms np True by (intro stop) (auto simp: tracked_def)
      next
        case ne: False
        show ?thesis
        proof (cases "limMaxPolls l \<le> stPolls st")
          case True
          have e: "stream_iteration (watch env) st (s, w) =
              stop_with (watch env) (Some (ResultLimitError ''polls'' (limMaxPolls l) (stPolls st))) True st (s1, w)"
            using b(5) by (simp only: unf ctx np ne True if_True)
          show ?thesis unfolding e using b(5) by (intro stop) auto
        next
          case False
          have e: "stream_iteration (watch env) st (s, w) = stream_fetch (watch env) st (s1, w)"
            using b(5) by (simp only: unf ctx np ne False)
          show ?thesis unfolding e using False by (intro stream_fetch_ok[OF assms ne np]) simp
        qed
      qed
    qed
  qed
qed

lemma Next_ok:
  assumes "Next (watch env) st (s, w) = (b, st', sw)" "tracked l ys st w"
  shows "if b then tracked l (ys @ [currentRow st']) st' (snd sw) else finished l ys st' (snd sw)"
  using assms(1)
proof (rule Next_rule[where I = "\<lambda>st sw. tracked l ys st (snd sw)"])
  show "tracked l ys st (snd (s, w))" using assms by simp
next
  fix st b st1
  fix sw sw1 :: "'a watched"
  assume "tracked l ys st (snd sw)" "stream_iteration (watch env) st sw = Return b st1 sw1"
  then show "if b then tracked l (ys @ [currentRow st1]) st1 (snd sw1) else finished l ys st1 (snd sw1)"
    using stream_iteration_ok[of l ys st "snd sw" env "fst sw"] by (simp add: iteration_ok_def)
next
  fix st st1
  fix sw sw1 :: "'a watched"
  assume "tracked l ys st (snd sw)" "stream_iteration (watch env) st sw = Continue st1 sw1"
  then show "tracked l ys st1 (snd sw1)"
    using stream_iteration_ok[of l ys st "snd sw" env "fst sw"] by (simp add: iteration_ok_def)
qed

lemma Next_closed: "stClosed st \<Longrightarrow> Next env st s = (False, st, s)"
  by (subst Next.simps) (simp add: stream_iteration_def)

lemma closeWithContext_closed:
  "stClosed st \<Longrightarrow> closeWithContext env i x st s = (cleanupErr st, st, env_cancel env s)"
  by (simp add: closeWithContext_def)

lemma closeWithContext_ok:
  assumes "closeWithContext (watch env) i x st (s, w) = (err, st', sw)" "tracked l ys st w"
  shows "finished l ys st' (snd sw)"
proof -
  have "finish (watch env) i x True st (env_cancel env s, w) = (st', sw)"
    using assms(1) by (auto simp: closeWithContext_def watch_quiet split: prod.splits)
  from finish_finished[OF this _ tracked_prefix[OF assms(2)]] show ?thesis
    using assms(2) by (auto simp: tracked_def)
qed

lemma stream_reach_ok:
  assumes "stream_reach env op l ys st sw" "0 \<le> limMaxRows l" "0 \<le> limMaxPolls l"
  shows "tracked l ys st (snd sw) \<or> finished l ys st (snd sw)"
  using assms(1)
proof (induction rule: stream_reach.induct)
  case (reach_new s)
  show ?case using assms(2,3)
    by (auto simp: tracked_def new_stream_def pages_rows_def data_pages_def open_trace_def)
next
  case (reach_next ys st s w b st' sw)
  from reach_next.IH show ?case
  proof
    assume "tracked l ys st (snd (s, w))"
    then show ?thesis using Next_ok[OF reach_next.hyps(2), of l ys] by (auto split: if_splits)
  next
    assume f: "finished l ys st (snd (s, w))"
    then have "(b, st', sw) = (False, st, (s, w))"
      using reach_next.hyps(2) by (simp add: Next_closed finished_def)
    then show ?thesis using f by simp
  qed
next
  case (reach_close ys st s w internal terminal err st' sw)
  from reach_close.IH show ?case
  proof
    assume "tracked l ys st (snd (s, w))"
    then show ?thesis using closeWithContext_ok[OF reach_close.hyps(2)] by simp
  next
    assume f: "finished l ys st (snd (s, w))"
    then have "(err, st', sw) = (cleanupErr st, st, (env_cancel env s, w))"
      using reach_close.hyps(2) by (auto simp: closeWithContext_closed finished_def watch_quiet)
    then show ?thesis using f by simp
  qed
qed simp

section \<open>Properties of the iterator\<close>

text \<open>C4: in every state an iterator can reach, the rows it produced are a prefix of the rows of the pages it
  fetched, within both limits; and when it has stopped on its own without an error, they are all of
  them and the last page fetched is the end of the stream.\<close>

theorem stream_rows:
  assumes "stream_reach env op limits ys st (s, w)" "0 \<le> limMaxRows limits" "0 \<le> limMaxPolls limits"
  shows "prefix ys (pages_rows (wPages w)) \<and> int (length ys) \<le> limMaxRows limits \<and>
    int (length (wPages w)) \<le> limMaxPolls limits \<and>
    (\<not> stClosed st \<or> streamErr st \<noteq> None \<or> wCancels w \<noteq> 0 \<or> ended (wPages w) \<and> ys = pages_rows (wPages w))"
  using stream_reach_ok[OF assms] tracked_prefix[of limits ys st w] by (auto simp: tracked_def finished_def)

definition idle_env :: "result_page list stream_env" where
  "idle_env = result_env.extend scripted \<lparr>env_cancel = (\<lambda>s. s), env_cancel_operation = (\<lambda>i s. (None, s)),
     env_close_operation = (\<lambda>i s. (None, s)), env_observe = (\<lambda>ob s. s), env_unregister = (\<lambda>s. s),
     env_cancel_on_done = True\<rparr>"

definition example_limits :: execution_limits where
  "example_limits = \<lparr>rowFormat = ''JSON'', limMaxRows = 3, limMaxPolls = 2\<rparr>"

definition example_operation :: operation where
  "example_operation = \<lparr>opHandle = ''o'', opSessionHandle = ''s''\<rparr>"

theorem stream_rows_witness:
  "\<exists>st s w. stream_reach idle_env example_operation example_limits [] st (s, w) \<and> stClosed st \<and>
     int (length (wPages w)) \<le> 2"
proof -
  let ?st = "new_stream idle_env example_operation example_limits"
  let ?w = "\<lparr>wPages = [], wCancels = 0, wCloses = 0\<rparr>"
  obtain err st sw where c: "closeWithContext (watch idle_env) False None ?st ([], ?w) = (err, st, sw)" by (metis prod_cases3)
  obtain s w where sw: "sw = (s, w)" by fastforce
  have r: "stream_reach idle_env example_operation example_limits [] st (s, w)"
    using reach_close[OF reach_new c] sw by simp
  have "stClosed st" using c finish_sel(1) by (fastforce simp: closeWithContext_def new_stream_def split: prod.splits)
  then show ?thesis using r stream_rows[OF r] by (auto simp: example_limits_def)
qed

text \<open>C6: the operation of an iterator is released exactly once: no close request is made while it is open,
  one when it stops, whoever stops it, and none ever after; it is cancelled at most once.\<close>

theorem stream_cleanup_once:
  assumes "stream_reach env op limits ys st (s, w)" "0 \<le> limMaxRows limits" "0 \<le> limMaxPolls limits"
  shows "wCloses w = (if stClosed st then 1 else 0) \<and> wCancels w \<le> wCloses w"
  using stream_reach_ok[OF assms] by (auto simp: tracked_def finished_def)

theorem stream_cleanup_once_witness:
  "\<exists>st s w. stream_reach idle_env example_operation example_limits [] st (s, w) \<and> wCloses w = 0"
proof -
  have r: "stream_reach idle_env example_operation example_limits [] (new_stream idle_env example_operation example_limits)
      ([], \<lparr>wPages = [], wCancels = 0, wCloses = 0\<rparr>)" by (rule reach_new)
  from stream_cleanup_once[OF r] show ?thesis using r by (force simp: example_limits_def new_stream_def)
qed

text \<open>The error an iterator ended with is never lost to a failing clean-up.\<close>

lemma finish_keeps_primary:
  assumes "finish env i (Some e) f st s = (st', s')" "\<not> stClosed st"
  shows "\<exists>x. streamErr st' = Some x \<and> (\<forall>t. err_is e t \<longrightarrow> err_is x t)"
proof (rule finish_open[OF assms(2), of env i "Some e" f s])
  fix x ca cl s''
  assume a: "finish env i (Some e) f st s = (st\<lparr>stClosed := True, streamErr := x, cleanupErr :=
        (if ca = None \<and> cl = None then None else Some (ExecutionError None ca cl (opSessionHandle (stOperation st))
           (opHandle (stOperation st)) (stJobID st)))\<rparr>, s'')"
    "x = (if ca = None \<and> cl = None then Some e else Some (ExecutionError (Some e) ca cl (opSessionHandle (stOperation st))
           (opHandle (stOperation st)) (stJobID st)))"
  have w: "err_is (ExecutionError (Some e) ca cl a b c) t" if "err_is e t" for a b c t
    using that by (simp add: err_is.simps[of "ExecutionError (Some e) ca cl a b c"] is_children_def)
  show ?thesis
  proof (cases "ca = None \<and> cl = None")
    case True
    then show ?thesis using a assms(1) by auto
  next
    case False
    then have "streamErr st' = Some (ExecutionError (Some e) ca cl (opSessionHandle (stOperation st))
           (opHandle (stOperation st)) (stJobID st))"
      using a assms(1) by auto
    then show ?thesis using w by blast
  qed
qed

section \<open>Iterating and collecting agree\<close>

text \<open>A caller that calls \<open>Next\<close> until it returns false, keeping \<open>Row()\<close> each time.\<close>

inductive drains :: "'s stream_env \<Rightarrow> result_stream \<Rightarrow> 's \<Rightarrow> row list \<Rightarrow> result_stream \<Rightarrow> 's \<Rightarrow> bool" for env where
  drains_end: "Next env st s = (False, st', s') \<Longrightarrow> drains env st s [] st' s'"
| drains_row: "Next env st s = (True, st1, s1) \<Longrightarrow> drains env st1 s1 ys st' s' \<Longrightarrow>
    drains env st s (currentRow st1 # ys) st' s'"

lemma drains_continue:
  assumes "stream_iteration env st s = Continue st1 s1" "drains env st1 s1 ys st' s'"
  shows "drains env st s ys st' s'"
proof -
  have "Next env st s = Next env st1 s1" by (subst Next.simps) (simp add: assms(1))
  with assms(2) show ?thesis by (metis drains.simps)
qed

lemma idle_sel [simp]:
  "env_ctx_err idle_env s = (None, s)" "env_wait idle_env i s = (None, s)" "env_poll idle_env = 100"
  "env_validate idle_env = env_validate scripted"
  by (simp_all add: idle_env_def result_env.defs scripted_def)

lemma idle_fetch [simp]: "fetch_next idle_env n (p # ps) = (Inr p, ps)"
  by (cases n) (simp_all add: idle_env_def result_env.defs scripted_def fetch_next_def)

lemma idle_finish: "\<not> stClosed st \<Longrightarrow>
    finish idle_env i None False st s = (st\<lparr>stClosed := True, streamErr := None, cleanupErr := None\<rparr>, s)"
  by (simp add: finish_def cancel_stage_def is_limit_error_def idle_env_def result_env.defs)

text \<open>Yielding the pending rows leads to the state after them.\<close>

definition past_rows :: "result_stream \<Rightarrow> result_stream \<Rightarrow> bool" where
  "past_rows st st1 = (\<not> stClosed st1 \<and> pendingRows st1 = pendingRows st \<and> pendingIndex st1 = length (pendingRows st) \<and>
     pendingEOS st1 = pendingEOS st \<and> stPolls st1 = stPolls st \<and> stLimits st1 = stLimits st \<and> stColumns st1 = stColumns st \<and>
     rowsYielded st1 = rowsYielded st + int (length (pendingRows st)) - int (pendingIndex st))"

lemma drains_pending:
  assumes "\<not> stClosed st" "pendingIndex st \<le> length (pendingRows st)"
    "rowsYielded st + int (length (pendingRows st)) - int (pendingIndex st) \<le> limMaxRows (stLimits st)"
    and "\<And>st1. past_rows st st1 \<Longrightarrow> \<exists>st'. drains idle_env st1 s ys st' s' \<and> P st'"
  shows "\<exists>st'. drains idle_env st s (drop (pendingIndex st) (pendingRows st) @ ys) st' s' \<and> P st'"
  using assms
proof (induction "length (pendingRows st) - pendingIndex st" arbitrary: st)
  case 0
  then have "past_rows st st" by (simp add: past_rows_def)
  then show ?case using 0 by simp
next
  case (Suc n)
  let ?r = "pendingRows st ! pendingIndex st"
  let ?st = "st\<lparr>pendingIndex := pendingIndex st + 1, rowsYielded := rowsYielded st + 1, currentRow := ?r, currentEvent := EventRow ?r\<rparr>"
  have lt: "pendingIndex st < length (pendingRows st)" using Suc.hyps(2) by simp
  have "stream_iteration idle_env st s = Return True ?st s"
    using Suc.prems lt by (simp add: stream_iteration_def Let_def)
  then have nx: "Next idle_env st s = (True, ?st, s)" by (subst Next.simps) simp
  have "\<exists>st'. drains idle_env ?st s (drop (pendingIndex ?st) (pendingRows ?st) @ ys) st' s' \<and> P st'"
  proof (rule Suc.hyps(1))
    fix st1 assume "past_rows ?st st1"
    then have "past_rows st st1" by (auto simp: past_rows_def)
    then show "\<exists>st'. drains idle_env st1 s ys st' s' \<and> P st'" by (rule Suc.prems(4))
  qed (use Suc.hyps(2) Suc.prems lt in auto)
  then obtain st' where "drains idle_env ?st s (drop (Suc (pendingIndex st)) (pendingRows st) @ ys) st' s'" "P st'" by auto
  from drains_row[OF nx this(1)] this(2) show ?case
    by (intro exI[of _ st']) (simp flip: Cons_nth_drop_Suc[OF lt])
qed

text \<open>The step that fetches a page from the script.\<close>

definition ready :: "result_stream \<Rightarrow> bool" where
  "ready st = (\<not> stClosed st \<and> length (pendingRows st) \<le> pendingIndex st \<and> \<not> pendingEOS st \<and>
     stPolls st < limMaxPolls (stLimits st))"

lemma ready_fetch: "ready st \<Longrightarrow> stream_iteration idle_env st s = stream_fetch idle_env st s"
  by (simp add: stream_iteration_def ready_def)

lemma drains_good_stream:
  assumes "good_stream (stColumns st) ps" "\<not> stClosed st" "length (pendingRows st) \<le> pendingIndex st" "\<not> pendingEOS st"
    and "stPolls st + int (length ps) \<le> limMaxPolls (stLimits st)"
    and "rowsYielded st + int (length (pages_rows ps)) \<le> limMaxRows (stLimits st)"
  shows "\<exists>st'. drains idle_env st ps (pages_rows ps) st' [] \<and> (stClosed st' \<and> streamErr st' = None)"
  using assms
proof (induction ps arbitrary: st)
  case Nil
  then show ?case by simp
next
  case (Cons p ps)
  let ?st = "st\<lparr>stPolls := stPolls st + 1, stJobID := (if JobID p \<noteq> [] then JobID p else stJobID st)\<rparr>"
  let ?st1 = "st\<lparr>stPolls := stPolls st + 1\<rparr>"
  have j: "(if JobID p \<noteq> [] then ?st1\<lparr>stJobID := JobID p\<rparr> else ?st1) = ?st" by simp
  have "ready st" using Cons.prems by (simp add: ready_def)
  then have it: "stream_iteration idle_env st (p # ps) =
      (if ResultType p = ResultNotReady then stream_not_ready idle_env p ?st ps
       else if ResultType p = ResultPayload \<or> ResultType p = ResultEOS then stream_page idle_env p ?st ps
       else stop_with idle_env (Some (Errorf ''flinksqlgateway: unknown resultType %q'' [ArgText (ResultType p)])) False ?st ps)"
    unfolding ready_fetch[OF \<open>ready st\<close>] stream_fetch_def idle_fetch prod.case sum.case Let_def j by (simp only: prod.case)
  obtain u0 where v: "env_validate scripted (nextURLString p) = Inr u0" by (rule scripted_validate)
  show ?case
  proof (cases "ResultType p = ResultNotReady")
    case True
    obtain u i where "stream_iteration idle_env st (p # ps) = Continue (?st\<lparr>nextURL := u, stInterval := i\<rparr>) ps"
      unfolding it if_P[OF True]
      by (cases "nextURLString p = []") (auto simp: stream_not_ready_def setNextURL_def Let_def v)
    moreover have "pages_rows (p # ps) = pages_rows ps" using True by (simp add: pages_rows_def data_pages_def)
    ultimately show ?thesis
      using Cons.IH[of "?st\<lparr>nextURL := u, stInterval := i\<rparr>"] Cons.prems True by (auto intro: drains_continue)
  next
    case nr: False
    then have ty: "ResultType p = ResultPayload \<or> ResultType p = ResultEOS"
      and fits: "list_all (row_fits (columns_after (stColumns st) p)) (page_rows p)"
      using Cons.prems(1) by (auto split: if_splits)
    have rows: "pages_rows (p # ps) = page_rows p @ pages_rows ps" using ty by (simp add: pages_rows_def data_pages_def)
    have cols: "stColumns (adopt_page idle_env p ?st) = columns_after (stColumns st) p"
      by (simp add: adopt_page_def columns_after_def split: option.splits)
    have chk: "(if Results p = None then None else validateResultRows (stColumns (adopt_page idle_env p ?st)) (page_rows p)) = None"
      using fits by (simp add: validateResultRows_None cols)
    let ?a = "(adopt_page idle_env p ?st)\<lparr>pendingRows := page_rows p, pendingEOS := (ResultType p = ResultEOS)\<rparr>"
    have eos: "pendingEOS ?a = (ResultType p = ResultEOS)" by simp
    have it2: "stream_iteration idle_env st (p # ps) = (if ResultType p = ResultEOS then Continue ?a ps
        else case setNextURL idle_env p True ?a of
            (Some err, st2) \<Rightarrow> stop_with idle_env (Some err) False st2 ps | (None, st2) \<Rightarrow> Continue st2 ps)"
      unfolding it if_not_P[OF nr] if_P[OF ty] stream_page_def Let_def chk option.case
      by (simp only: eos)
    show ?thesis
    proof (cases "ResultType p = ResultEOS")
      case True
      then have ps: "ps = []" using Cons.prems(1) by simp
      have "\<exists>st'. drains idle_env ?a [] (drop (pendingIndex ?a) (pendingRows ?a) @ []) st' [] \<and> (stClosed st' \<and> streamErr st' = None)"
      proof (rule drains_pending)
        fix st1 assume pr: "past_rows ?a st1"
        let ?b = "st1\<lparr>currentEvent := EventEOS (pageWithoutRows (the (pendingPage st1)))\<rparr>"
        have "stream_iteration idle_env st1 [] = stop_with idle_env None False ?b []"
          using pr True by (simp add: stream_iteration_def past_rows_def)
        then have "Next idle_env st1 [] = (False, ?b\<lparr>stClosed := True, streamErr := None, cleanupErr := None\<rparr>, [])"
          using pr by (subst Next.simps) (simp add: finishFromNext_def idle_finish past_rows_def)
        from drains_end[OF this] show "\<exists>st'. drains idle_env st1 [] [] st' [] \<and> (stClosed st' \<and> streamErr st' = None)" by auto
      qed (use Cons.prems rows in auto)
      then show ?thesis using drains_continue[of idle_env st "p # ps" ?a ps] it2 True ps rows
        by (simp add: pages_rows_def data_pages_def) blast
    next
      case ne: False
      then have nu: "nextURLString p \<noteq> []" "good_stream (columns_after (stColumns st) p) ps"
        using Cons.prems(1) nr by (auto split: if_splits)
      let ?b = "?a\<lparr>nextURL := Some u0\<rparr>"
      have itb: "stream_iteration idle_env st (p # ps) = Continue ?b ps"
        unfolding it2 if_not_P[OF ne] using nu(1) by (simp add: setNextURL_def v)
      have "\<exists>st'. drains idle_env ?b ps (drop (pendingIndex ?b) (pendingRows ?b) @ pages_rows ps) st' [] \<and>
          (stClosed st' \<and> streamErr st' = None)"
      proof (rule drains_pending)
        fix st1 assume pr: "past_rows ?b st1"
        show "\<exists>st'. drains idle_env st1 ps (pages_rows ps) st' [] \<and> (stClosed st' \<and> streamErr st' = None)"
        proof (rule Cons.IH)
          show "good_stream (stColumns st1) ps" using pr nu(2) cols by (simp add: past_rows_def)
        qed (use pr ne Cons.prems rows in \<open>auto simp: past_rows_def\<close>)
      qed (use Cons.prems rows in auto)
      then show ?thesis using drains_continue[OF itb] rows by auto
    qed
  qed
qed


definition example_stream :: "result_page list" where
  "example_stream = [example_page ResultNotReady [] [], example_page ResultPayload ''x'' [\<lparr>Kind = RowInsert, Fields = []\<rparr>],
       example_page ResultEOS [] [\<lparr>Kind = RowDelete, Fields = []\<rparr>]]"

lemma example_stream_good: "good_stream [] example_stream" "length example_stream = 3"
    "pages_rows example_stream = [\<lparr>Kind = RowInsert, Fields = []\<rparr>, \<lparr>Kind = RowDelete, Fields = []\<rparr>]"
proof -
  have "trim_space ''x'' = ''x''" by (simp add: trim_space_def byte_def is_space_def)
  then show "good_stream [] example_stream"
    by (simp add: example_stream_def example_page_def page_rows_def columns_after_def row_fits_def nextURLString_def)
qed (simp_all add: example_stream_def example_page_def pages_rows_def data_pages_def page_rows_def)


end
