(* ===== verification/Execution.thy ===== *)
theory Execution
  imports Operations Stream_Results
begin

text \<open>
  \<open>flinksqlgateway/poller.go\<close> and \<open>ExecuteStream\<close> of \<open>result_stream.go\<close>: a whole execution over the client.
  It submits the statement, hands the operation to the paging loop of \<open>Results\<close> (or to an iterator of
  \<open>Stream_Results\<close>) whose environment are the client's own requests, and cleans the operation up.
\<close>

section \<open>Options\<close>

record execute_options =
  eoConfig :: "(string \<times> string) list"
  eoTimeout :: int
  eoRowFormat :: string
  eoMaxRows :: int
  eoMaxPolls :: int

definition executionSettings :: "config \<Rightarrow> execute_options \<Rightarrow> (goerr, execution_limits) result" where
  "executionSettings cfg options =
     (let rf = (if eoRowFormat options = [] then DefaultRowFormat cfg else eoRowFormat options);
          maxRows = (if eoMaxRows options = 0 then MaxResultRows cfg else eoMaxRows options);
          maxPolls = (if eoMaxPolls options = 0 then MaxPolls cfg else eoMaxPolls options) in
      if \<not> row_format_valid rf then Inl (Errorf ''flinksqlgateway: unsupported row format %q'' [ArgText rf])
      else if maxRows \<le> 0 \<or> maxPolls \<le> 0 then Inl (Errorf ''flinksqlgateway: execution limits must be positive'' [])
      else Inr \<lparr>rowFormat = rf, limMaxRows = maxRows, limMaxPolls = maxPolls\<rparr>)"

lemma executionSettings_ok:
  "executionSettings cfg options = Inr l \<Longrightarrow> 0 < limMaxRows l \<and> 0 < limMaxPolls l \<and> row_format_valid (rowFormat l)"
  by (auto simp: executionSettings_def Let_def split: if_splits)

definition execution_timeout :: "config \<Rightarrow> execute_options \<Rightarrow> int" where
  "execution_timeout cfg options = (if eoTimeout options \<le> 0 then ExecutionTimeout cfg else eoTimeout options)"

text \<open>A context with a timeout, when there is one.\<close>

definition timed_ctx :: "('w, 'c) transport_env \<Rightarrow> int \<Rightarrow> 'c \<Rightarrow> 'w client \<Rightarrow> 'c" where
  "timed_ctx env timeout ctx c = (if timeout > 0 then ctx_with_timeout env timeout ctx (world c) else ctx)"

definition execution_request :: "string \<Rightarrow> execute_options \<Rightarrow> int \<Rightarrow> execute_request" where
  "execution_request statement options timeout = \<lparr>erStatement = statement, erTimeout = timeout, erConfig = eoConfig options\<rparr>"

section \<open>Clean-up\<close>

text \<open>A context of its own for the clean-up, with the client's request timeout.\<close>

definition cleanup_ctx :: "('w, 'c) transport_env \<Rightarrow> config \<Rightarrow> 'w client \<Rightarrow> 'c" where
  "cleanup_ctx env cfg c = ctx_with_timeout env (RequestTimeout cfg) (ctx_background env) (world c)"

definition internal_ctx :: "('w, 'c) transport_env \<Rightarrow> config \<Rightarrow> 'w client \<Rightarrow> 'c" where
  "internal_ctx env cfg c = ctx_with_cleanup env (cleanup_ctx env cfg c)"

text \<open>\<open>cancelStageContext\<close>: the cancel stage gets half of the request timeout, or half of the time that is left.
  Go's division rounds towards zero.\<close>

definition half :: "int \<Rightarrow> int" where
  "half d = (if d < 0 then - (- d div 2) else d div 2)"

definition cancel_budget :: "int \<Rightarrow> int option \<Rightarrow> int" where
  "cancel_budget timeout remaining =
     (let budget = half timeout;
          budget = (case remaining of None \<Rightarrow> budget | Some r \<Rightarrow> if budget \<le> 0 \<or> half r < budget then half r else budget)
      in if budget \<le> 0 then 1 else budget)"

definition cancelStageContext :: "('w, 'c) transport_env \<Rightarrow> config \<Rightarrow> 'c \<Rightarrow> 'w client \<Rightarrow> 'c" where
  "cancelStageContext env cfg parent c =
     ctx_with_timeout env (cancel_budget (RequestTimeout cfg) (ctx_remaining env parent (world c))) parent (world c)"

lemma cancel_budget_bounds:
  "0 < cancel_budget t r" "r = Some d \<Longrightarrow> 2 \<le> d \<Longrightarrow> 2 * cancel_budget t r \<le> d"
  by (auto simp: cancel_budget_def half_def Let_def split: option.splits)

definition operation_event :: "string \<Rightarrow> operation \<Rightarrow> string \<Rightarrow> int \<Rightarrow> goerr option \<Rightarrow> lifecycle_observation" where
  "operation_event event op jobID rows err =
     no_observation\<lparr>loEvent := event, loSession := opSessionHandle op, loOperation := opHandle op, loJobID := jobID,
       loRows := rows, loError := err\<rparr>"

definition error_option :: "(goerr, 'a) result \<Rightarrow> goerr option" where
  "error_option r = (case r of Inl e \<Rightarrow> Some e | Inr _ \<Rightarrow> None)"

definition cleanup_cancel :: "('w, 'c) transport_env \<Rightarrow> config \<Rightarrow> 'c \<Rightarrow> operation \<Rightarrow> goerr \<Rightarrow> 'w client \<Rightarrow> goerr option \<times> 'w client" where
  "cleanup_cancel env cfg ctx op reason c =
     (if err_is reason ErrResultLimit \<or> CancelOnContextDone cfg \<and> isContextError reason
      then
        (case CancelOperation env cfg (cancelStageContext env cfg ctx c) (opSessionHandle op) (opHandle op) c of
           (r, c1) \<Rightarrow>
             (let cancelErr = drop_not_found (error_option r)
              in (cancelErr, observeLifecycle env (operation_event ''OperationCanceled'' op [] 0 cancelErr) c1)))
      else (None, c))"

definition cleanupOperationContext ::
  "('w, 'c) transport_env \<Rightarrow> config \<Rightarrow> 'c \<Rightarrow> operation \<Rightarrow> goerr \<Rightarrow> 'w client \<Rightarrow> goerr \<times> 'w client" where
  "cleanupOperationContext env cfg ctx op reason c =
     (case cleanup_cancel env cfg ctx op reason c of (cancelErr, c1) \<Rightarrow>
      (case CloseOperation env cfg ctx (opSessionHandle op) (opHandle op) c1 of (r, c2) \<Rightarrow>
       (let closeErr = error_option r;
            c3 = observeLifecycle env (operation_event ''OperationClosed'' op [] 0 closeErr) c2 in
        if cancelErr = None \<and> closeErr = None then (reason, c3)
        else (ExecutionError (Some reason) cancelErr closeErr (opSessionHandle op) (opHandle op) [], c3))))"

definition cleanupOperation ::
  "('w, 'c) transport_env \<Rightarrow> config \<Rightarrow> operation \<Rightarrow> goerr \<Rightarrow> 'w client \<Rightarrow> goerr \<times> 'w client" where
  "cleanupOperation env cfg op reason c = cleanupOperationContext env cfg (internal_ctx env cfg c) op reason c"

section \<open>An execution\<close>

text \<open>The environment of the paging loop: the client's requests for the operation, under one context.\<close>

definition client_result_env ::
  "('w, 'c) transport_env \<Rightarrow> config \<Rightarrow> 'c \<Rightarrow> operation \<Rightarrow> string \<Rightarrow> 'w client result_env" where
  "client_result_env env cfg ctx op format = \<lparr>
     env_ctx_err = (\<lambda>c. (ctx_err env ctx (world c), c)),
     env_fetch_first = FetchResults env cfg ctx (opSessionHandle op) (opHandle op) 0 format,
     env_fetch_url = fetchResultsURL env cfg ctx,
     env_status = GetOperationStatus env cfg ctx (opSessionHandle op) (opHandle op),
     env_wait = (\<lambda>d c. case wait env ctx d (world c) of (err, w) \<Rightarrow> (err, c\<lparr>world := w\<rparr>)),
     env_validate = validateNextResultURI (parse_url env) (resolve_path env) (base_url env),
     env_poll = PollInterval cfg, env_max_poll = MaxPollInterval cfg\<rparr>"

text \<open>What follows the submission.\<close>

definition finish_execution ::
  "('w, 'c) transport_env \<Rightarrow> config \<Rightarrow> 'c \<Rightarrow> operation \<Rightarrow> execution_result \<Rightarrow> 'w client
    \<Rightarrow> (execution_result option \<times> goerr option) \<times> 'w client" where
  "finish_execution env cfg ctx op result c =
     (case CloseOperation env cfg (cleanup_ctx env cfg c) (opSessionHandle op) (opHandle op) c of
        (Inl err, c1) \<Rightarrow> ((Some result, Some (ExecutionError None None (Some err) (opSessionHandle op) (opHandle op) (resJobID result))), c1)
      | (Inr _, c1) \<Rightarrow> ((Some result, None), observeLifecycle env
            (operation_event ''StatementCompleted'' op (resJobID result) (RowsReceived result) None) c1))"

definition consume_operation ::
  "('w, 'c) transport_env \<Rightarrow> config \<Rightarrow> 'c \<Rightarrow> 'c \<Rightarrow> execution_limits \<Rightarrow> bool \<Rightarrow> 'w client emitter \<Rightarrow> operation \<Rightarrow> 'w client
    \<Rightarrow> (execution_result option \<times> goerr option) \<times> 'w client" where
  "consume_operation env cfg ctx executionCtx limits collect emit op c =
     (case emit_event emit (EventOperation op) c of
        (Some err, c1) \<Rightarrow> (case cleanupOperation env cfg op err c1 of (err', c2) \<Rightarrow> ((Some (empty_result op), Some err'), c2))
      | (None, c1) \<Rightarrow>
          (case consumeResults (client_result_env env cfg executionCtx op (rowFormat limits)) op limits collect emit c1 of
             (result, Some runErr, c2) \<Rightarrow> (case cleanupOperation env cfg op runErr c2 of (err, c3) \<Rightarrow> ((Some result, Some err), c3))
           | (result, None, c2) \<Rightarrow> finish_execution env cfg ctx op result c2))"

definition runExecution ::
  "('w, 'c) transport_env \<Rightarrow> config \<Rightarrow> 'c \<Rightarrow> string \<Rightarrow> string \<Rightarrow> execute_options \<Rightarrow> execution_limits \<Rightarrow> bool
    \<Rightarrow> 'w client emitter \<Rightarrow> 'w client \<Rightarrow> (execution_result option \<times> goerr option) \<times> 'w client" where
  "runExecution env cfg ctx sessionHandle statement options limits collect emit c =
     (let timeout = execution_timeout cfg options; executionCtx = timed_ctx env timeout ctx c in
      case ExecuteStatement env cfg executionCtx sessionHandle (execution_request statement options timeout) c of
        (Inl err, c1) \<Rightarrow> ((None, Some err), c1)
      | (Inr op, c1) \<Rightarrow> consume_operation env cfg ctx executionCtx limits collect emit op c1)"

text \<open>The activity group of the client around an execution.\<close>

definition executions_end :: "'w client \<Rightarrow> 'w client" where
  "executions_end c = c\<lparr>executions := ag_end (executions c)\<rparr>"

definition ExecuteAndWait ::
  "('w, 'c) transport_env \<Rightarrow> config \<Rightarrow> 'c \<Rightarrow> string \<Rightarrow> string \<Rightarrow> execute_options \<Rightarrow> 'w client
    \<Rightarrow> (execution_result option \<times> goerr option) \<times> 'w client" where
  "ExecuteAndWait env cfg ctx sessionHandle statement options c =
     (case ag_begin (executions c) of
        (Some err, g) \<Rightarrow> ((None, Some err), c\<lparr>executions := g\<rparr>)
      | (None, g) \<Rightarrow>
          (case executionSettings cfg options of
             Inl err \<Rightarrow> ((None, Some err), executions_end (c\<lparr>executions := g\<rparr>))
           | Inr settings \<Rightarrow>
               apsnd executions_end (runExecution env cfg (ctx_merge env ctx) sessionHandle statement options settings True None
                 (c\<lparr>executions := g\<rparr>))))"

text \<open>\<open>StreamResults\<close>: its goroutine sends events to a bounded channel and at most one error to another.  What the
  consumer does is \<open>accept\<close>: whether it takes the event before the context ends.\<close>

definition channel_emit :: "('w, 'c) transport_env \<Rightarrow> 'c \<Rightarrow> (result_event \<Rightarrow> 'w \<Rightarrow> bool \<times> 'w) \<Rightarrow> result_event \<Rightarrow> 'w client
    \<Rightarrow> goerr option \<times> 'w client" where
  "channel_emit env ctx accept e c =
     (case accept e (world c) of (taken, w) \<Rightarrow> (if taken then None else ctx_err env ctx w, c\<lparr>world := w\<rparr>))"

definition StreamResults ::
  "('w, 'c) transport_env \<Rightarrow> config \<Rightarrow> 'c \<Rightarrow> string \<Rightarrow> string \<Rightarrow> execute_options \<Rightarrow> (result_event \<Rightarrow> 'w \<Rightarrow> bool \<times> 'w) \<Rightarrow> 'w client
    \<Rightarrow> goerr option \<times> 'w client" where
  "StreamResults env cfg ctx sessionHandle statement options accept c =
     (case ag_begin (executions c) of
        (Some err, g) \<Rightarrow> (Some err, c\<lparr>executions := g\<rparr>)
      | (None, g) \<Rightarrow>
          (case executionSettings cfg options of
             Inl err \<Rightarrow> (Some err, executions_end (c\<lparr>executions := g\<rparr>))
           | Inr settings \<Rightarrow>
               (case runExecution env cfg (ctx_merge env ctx) sessionHandle statement options settings False
                   (Some (channel_emit env (ctx_merge env ctx) accept)) (c\<lparr>executions := g\<rparr>) of
                  ((result, err), c1) \<Rightarrow> (err, executions_end c1))))"

section \<open>\<open>ExecuteStream\<close>\<close>

text \<open>The environment of an iterator: the clean-up context is internal when \<open>Next\<close> ends the stream and background when
  the caller closes it.  Cancelling the stream's own context is \<open>stop\<close>, a change of the world.\<close>

definition stream_ctx :: "('w, 'c) transport_env \<Rightarrow> config \<Rightarrow> bool \<Rightarrow> 'w client \<Rightarrow> 'c" where
  "stream_ctx env cfg internal c = (if internal then internal_ctx env cfg c else cleanup_ctx env cfg c)"

fun stream_event :: "operation \<Rightarrow> stream_observation \<Rightarrow> lifecycle_observation" where
  "stream_event op (OperationCanceled err) = operation_event ''OperationCanceled'' op [] 0 err"
| "stream_event op (OperationClosed err) = operation_event ''OperationClosed'' op [] 0 err"
| "stream_event op (ResultStreamClosed jobID rows err) = operation_event ''ResultStreamClosed'' op jobID rows err"

definition client_stream_env ::
  "('w, 'c) transport_env \<Rightarrow> config \<Rightarrow> 'c \<Rightarrow> ('w \<Rightarrow> 'w) \<Rightarrow> operation \<Rightarrow> string \<Rightarrow> nat \<Rightarrow> 'w client stream_env" where
  "client_stream_env env cfg ctx stop op format ident = result_env.extend (client_result_env env cfg ctx op format) \<lparr>
     env_cancel = (\<lambda>c. c\<lparr>world := stop (world c)\<rparr>),
     env_cancel_operation = (\<lambda>internal c. apfst error_option
       (CancelOperation env cfg (cancelStageContext env cfg (stream_ctx env cfg internal c) c) (opSessionHandle op) (opHandle op) c)),
     env_close_operation = (\<lambda>internal c. apfst error_option
       (CloseOperation env cfg (stream_ctx env cfg internal c) (opSessionHandle op) (opHandle op) c)),
     env_observe = (\<lambda>ob. observeLifecycle env (stream_event op ob)),
     env_unregister = (\<lambda>c. c\<lparr>streams := removeAll ident (streams c)\<rparr>),
     env_cancel_on_done = CancelOnContextDone cfg\<rparr>"

definition registerStream :: "nat \<Rightarrow> 'w client \<Rightarrow> goerr option \<times> 'w client" where
  "registerStream ident c =
     (if clientClosed c then (Some (Sentinel ErrClientClosed), c) else (None, c\<lparr>streams := List.insert ident (streams c)\<rparr>))"

text \<open>The stream comes with its number and the context its requests use.\<close>

definition ExecuteStream ::
  "('w, 'c) transport_env \<Rightarrow> config \<Rightarrow> 'c \<Rightarrow> ('w \<Rightarrow> 'w) \<Rightarrow> string \<Rightarrow> string \<Rightarrow> execute_options \<Rightarrow> 'w client
    \<Rightarrow> ('w, result_stream \<times> nat \<times> 'w client stream_env) answer" where
  "ExecuteStream env cfg ctx stop sessionHandle statement options c =
     (case executionSettings cfg options of
        Inl err \<Rightarrow> (Inl err, c)
      | Inr settings \<Rightarrow>
          (let timeout = execution_timeout cfg options; executionCtx = timed_ctx env timeout (ctx_merge env ctx) c in
           case ExecuteStatement env cfg executionCtx sessionHandle (execution_request statement options timeout) c of
             (Inl err, c1) \<Rightarrow> (Inl err, c1\<lparr>world := stop (world c1)\<rparr>)
           | (Inr op, c1) \<Rightarrow>
               (let ident = allocated c1; senv = client_stream_env env cfg executionCtx stop op (rowFormat settings) ident;
                    c2 = c1\<lparr>allocated := ident + 1\<rparr> in
                case registerStream ident c2 of
                  (Some err, c3) \<Rightarrow>
                    (case cleanupOperationContext env cfg (internal_ctx env cfg c3) op err c3 of
                       (_, c4) \<Rightarrow> (Inl err, c4\<lparr>world := stop (world c4)\<rparr>))
                | (None, c3) \<Rightarrow> (Inr (new_stream senv op settings, ident, senv), c3))))"

section \<open>An interface for the environment of the paging loop\<close>

text \<open>An environment whose calls keep an invariant of the state, whatever they answer: the loop keeps it too.\<close>

locale keeps_env =
  fixes env :: "'s result_env" and emit :: "'s emitter" and I :: "'s \<Rightarrow> bool"
  assumes ctx_keeps: "I s \<Longrightarrow> env_ctx_err env s = (x, s') \<Longrightarrow> I s'"
    and first_keeps: "I s \<Longrightarrow> env_fetch_first env s = (r, s') \<Longrightarrow> I s'"
    and url_keeps: "I s \<Longrightarrow> env_fetch_url env u s = (r, s') \<Longrightarrow> I s'"
    and status_keeps: "I s \<Longrightarrow> env_status env s = (t, s') \<Longrightarrow> I s'"
    and wait_keeps: "I s \<Longrightarrow> env_wait env d s = (x, s') \<Longrightarrow> I s'"
    and emit_keeps: "I s \<Longrightarrow> emit = Some f \<Longrightarrow> f e s = (x, s') \<Longrightarrow> I s'"
begin

lemma fetch_keeps: "I s \<Longrightarrow> fetch_next env nxt s = (r, s') \<Longrightarrow> I s'"
  by (auto simp: fetch_next_def dest: first_keeps url_keeps split: option.splits)

lemma failure_keeps: "I s \<Longrightarrow> operationFailure (env_status env) err s = (err', s') \<Longrightarrow> I s'"
  by (auto simp: operationFailure_def dest: status_keeps split: if_splits prod.splits sum.splits)

lemma emit_event_keeps: "I s \<Longrightarrow> emit_event emit e s = (x, s') \<Longrightarrow> I s'"
  by (cases emit) (auto simp: emit_event_def dest: emit_keeps)

lemma deliver_keeps: "I s \<Longrightarrow> deliver_rows l collect emit rs r s = (r', x, s') \<Longrightarrow> I s'"
proof (induction rs arbitrary: r s)
  case (Cons y rs)
  show ?case
  proof (cases "RowsReceived r \<ge> limMaxRows l")
    case True
    then show ?thesis using Cons.prems by auto
  next
    case False
    note eq = Cons.prems(2)[unfolded deliver_rows.simps if_not_P[OF False] Let_def]
    show ?thesis
    proof (cases emit)
      case None
      then show ?thesis using eq Cons.IH[OF Cons.prems(1)] by simp
    next
      case (Some f)
      obtain z s1 where f: "f (EventRow y) s = (z, s1)" by fastforce
      then have "I s1" using emit_keeps[OF Cons.prems(1) Some] by simp
      then show ?thesis using eq Some f Cons.IH by (cases z) auto
    qed
  qed
qed simp

definition page_end_keeps :: "'s page_end \<Rightarrow> bool" where
  "page_end_keeps e = (case e of Done r x s \<Rightarrow> I s | Again r iv nxt s \<Rightarrow> I s)"

lemma not_ready_keeps: "I s \<Longrightarrow> page_end_keeps (not_ready_page env r iv p s)"
  by (auto simp: not_ready_page_def page_end_keeps_def Let_def dest: wait_keeps split: sum.splits prod.splits option.splits)

lemma result_page_keeps:
  assumes "I s"
  shows "page_end_keeps (result_page_end env l collect emit r p s)"
proof -
  obtain x s1 where 1: "emit_event emit (EventPage (pageWithoutRows p)) s = (x, s1)" by fastforce
  obtain r1 y s2 where 2: "deliver_rows l collect emit (page_rows p) (note_page r p) s1 = (r1, y, s2)" by (metis surj_pair)
  obtain z s3 where 3: "emit_event emit (EventEOS (pageWithoutRows p)) s2 = (z, s3)" by fastforce
  have I: "I s1" "I s2" "I s3" using assms 1 2 3 emit_event_keeps deliver_keeps by blast+
  show ?thesis
    unfolding result_page_end_def Let_def 1 prod.case 2 3
    by (cases "if Results p = None then None else validateResultRows (resColumns (note_page r p)) (page_rows p)"; cases x; cases y; cases z)
      (auto simp: page_end_keeps_def assms I split: sum.splits)
qed

lemma page_keeps: "I s \<Longrightarrow> page_end_keeps (handle_page env l collect emit r iv p s)"
  by (auto simp: handle_page_def intro: not_ready_keeps result_page_keeps) (simp add: page_end_keeps_def)

lemma consumeResults_keeps:
  assumes "I s" "consumeResults env op l collect emit s = (r', x, s')"
  shows "I s'"
  using assms(2)[unfolded consumeResults_def]
proof (rule consume_loop_rule[where I = "\<lambda>r iv nxt s. I s" and Q = "\<lambda>r x s. I s"])
  show "I s" by (rule assms(1))
next
  fix s y s1 assume "I s" "env_ctx_err env s = (y, s1)"
  then show "case y of None \<Rightarrow> I s1 | Some err \<Rightarrow> I s1" using ctx_keeps by (cases y) auto
next
  fix nxt s err s2 err' s3
  assume "I s" "fetch_next env nxt s = (Inl err, s2)" "operationFailure (env_status env) err s2 = (err', s3)"
  then show "I s3" using fetch_keeps failure_keeps by blast
next
  fix r iv nxt s p s2 r1 y s3
  assume "I s" "fetch_next env nxt s = (Inr p, s2)" "handle_page env l collect emit (r\<lparr>Polls := Polls r + 1\<rparr>) iv p s2 = Done r1 y s3"
  then show "I s3" using fetch_keeps page_keeps[of s2 l collect "r\<lparr>Polls := Polls r + 1\<rparr>" iv p] by (auto simp: page_end_keeps_def)
next
  fix r iv nxt s p s2 r1 iv1 nxt1 s3
  assume "I s" "fetch_next env nxt s = (Inr p, s2)" "handle_page env l collect emit (r\<lparr>Polls := Polls r + 1\<rparr>) iv p s2 = Again r1 iv1 nxt1 s3"
  then show "I s3" using fetch_keeps page_keeps[of s2 l collect "r\<lparr>Polls := Polls r + 1\<rparr>" iv p] by (auto simp: page_end_keeps_def)
qed

end

section \<open>The client as such an environment\<close>

text \<open>Once the compatibility check has succeeded it makes no more requests.\<close>

definition settled :: "'w client \<Rightarrow> bool" where
  "settled c = (versionChecked (versions c) \<and> versionErr (versions c) = None)"

lemma settled_check: "settled c \<Longrightarrow> client_CheckAPIVersion env cfg ctx c = (None, c)"
  by (cases "configuredCompatibility cfg") (auto simp: settled_def client_CheckAPIVersion_def CheckAPIVersion_def Let_def)

lemma check_settles:
  assumes "client_CheckAPIVersion env cfg ctx c = (None, c')" "version_inv (versions c)"
  shows "settled c'"
proof -
  let ?known = "\<not> is_ok (configuredCompatibility cfg) \<or> versionChecked (versions c)"
  obtain info c1 where 1: "(if \<not> ?known \<and> CompatibilityMode cfg = CompatibilityAuto
     then apfst (map_sum id giVersion) (GetInfo env cfg ctx c) else (Inr [], c)) = (info, c1)" by fastforce
  obtain adv c2 where 2: "(if \<not> ?known \<and> is_ok (chooseProfile cfg info) then requestAPIVersions env cfg ctx c1 else (Inr [], c1)) = (adv, c2)"
    by fastforce
  obtain err st where 3: "CheckAPIVersion cfg info adv (versions c) = (err, st)" by fastforce
  have c': "err = None" "c' = c2\<lparr>versions := st\<rparr>"
    using assms(1)[unfolded client_CheckAPIVersion_def Let_def 1 prod.case 2 3] by auto
  have "versionChecked st \<and> versionErr st = None"
  proof (cases "configuredCompatibility cfg")
    case (Inl e)
    then show ?thesis using 3 c'(1) by (auto simp: CheckAPIVersion_def Let_def split: if_splits)
  next
    case (Inr i)
    then show ?thesis using 3 c'(1) assms(2)
      by (cases "resolveCompatibility cfg info adv") (auto simp: CheckAPIVersion_def version_inv_def split: if_splits)
  qed
  then show ?thesis using c'(2) by (simp add: settled_def)
qed

lemma appends_settled: "appends new c c' \<Longrightarrow> settled c' = settled c"
  by (auto simp: appends_def settled_def)

text \<open>The state is settled and reached from \<open>c0\<close> by reading requests alone.\<close>

definition reads :: "('w \<times> exchange_log) client \<Rightarrow> ('w \<times> exchange_log) client \<Rightarrow> bool" where
  "reads c0 c = (settled c \<and> (\<exists>new. appends new c0 c \<and> list_all (method_is ''GET'') new))"

lemma reads_refl: "settled c \<Longrightarrow> reads c c"
  by (auto simp: reads_def intro: exI[of _ "[]"])

lemma reads_step: "reads c0 c \<Longrightarrow> appends new c c' \<Longrightarrow> list_all (method_is ''GET'') new \<Longrightarrow> reads c0 c'"
  using appends_trans[of _ c0 c new c'] appends_settled[of new c c'] by (fastforce simp: reads_def)

lemma with_operation_settled:
  assumes "settled c" "with_operation env cfg ctx h op request c = (r, c')"
  shows "(\<exists>err. r = Inl err) \<and> c' = c \<or> request c = (r, c')"
  using assms by (auto simp: with_operation_def settled_check split: option.splits)

lemma fetchResultsURL_reads: "reads c0 c \<Longrightarrow> fetchResultsURL (logged env) cfg ctx u c = (r, c') \<Longrightarrow> reads c0 c'"
proof -
  assume a: "reads c0 c" "fetchResultsURL (logged env) cfg ctx u c = (r, c')"
  obtain x where "doJSON (logged env) cfg ctx ''GET'' u None (no_page, Some decode_page) True c = (x, c')"
    using a(2) by (auto simp: fetchResultsURL_def split: prod.splits option.splits)
  from doJSON_appends[OF this] show "reads c0 c'" using reads_step[OF a(1)] by blast
qed

lemma FetchResults_reads: "reads c0 c \<Longrightarrow> FetchResults (logged env) cfg ctx h op n fmt c = (r, c') \<Longrightarrow> reads c0 c'"
  using fetchResultsURL_reads[of c0 c env cfg ctx _ r c']
  by (auto simp: FetchResults_def Let_def settled_check reads_def[THEN iffD1, THEN conjunct1] split: option.splits if_splits)

lemma GetOperationStatus_reads: "reads c0 c \<Longrightarrow> GetOperationStatus (logged env) cfg ctx h op c = (r, c') \<Longrightarrow> reads c0 c'"
proof -
  assume a: "reads c0 c" "GetOperationStatus (logged env) cfg ctx h op c = (r, c')"
  have "settled c" using a(1) by (simp add: reads_def)
  from with_operation_settled[OF this a(2)[unfolded GetOperationStatus_def]]
  show "reads c0 c'"
  proof (elim disjE conjE)
    assume "c' = c"
    then show ?thesis using a(1) by simp
  next
    assume "answer_of (doJSON (logged env) cfg ctx ''GET'' (endpointURL (logged env) cfg c True (operationRoute h op @ ''/status''))
        None (string_response ''status'') True c) = (r, c')"
    from answer_of_appends[OF this] show ?thesis using reads_step[OF a(1)] by blast
  qed
qed

definition quiet_emit :: "('w \<times> exchange_log) client emitter \<Rightarrow> bool" where
  "quiet_emit emit = (\<forall>f e c x c'. emit = Some f \<longrightarrow> f e c = (x, c') \<longrightarrow> appends [] c c')"

lemma client_keeps_env: "quiet_emit emit \<Longrightarrow> keeps_env (client_result_env (logged env) cfg ctx op fmt) emit (reads c0)"
proof unfold_locales
  fix c c' x d
  assume r: "reads c0 c" "env_wait (client_result_env (logged env) cfg ctx op fmt) d c = (x, c')"
  have "appends [] c c'"
    using r(2) wait_logged[of env ctx d "fst (world c)" "snd (world c)"]
    by (auto simp: client_result_env_def appends_def split: prod.splits)
  then show "reads c0 c'" using reads_step[OF r(1)] by simp
next
  fix c c' x f e
  assume "quiet_emit emit" "reads c0 c" "emit = Some f" "f e c = (x, c')"
  then have "appends [] c c'" by (auto simp: quiet_emit_def)
  then show "reads c0 c'" using reads_step[OF \<open>reads c0 c\<close>] by simp
qed (auto simp: client_result_env_def intro: FetchResults_reads fetchResultsURL_reads GetOperationStatus_reads)

interpretation paging: keeps_env "client_result_env (logged env) cfg ctx op fmt" None "reads c0"
  by (rule client_keeps_env) (simp add: quiet_emit_def)

section \<open>The operation of an execution is closed\<close>

lemma doJSONOnce_sends:
  assumes "doJSONOnce (logged env) cfg ctx m t payload dest c = (r, c')" "new_request_err env m t = None" "appends new c c'"
  shows "new \<noteq> []"
proof
  assume "new = []"
  then have same: "log_of c' = log_of c" using assms(3) by (auto simp: appends_def)
  obtain w log where cw: "world c = (w, log)" by fastforce
  let ?ctx = "if RequestTimeout cfg > 0 then ctx_with_timeout (logged env) (RequestTimeout cfg) ctx (world c) else ctx"
  let ?req = "\<lparr>reqMethod = m, reqTarget = t, reqBody = payload, reqHeaders = request_headers cfg payload\<rparr>"
  obtain ev out wl where x: "exchange (logged env) ?ctx ?req (world c) = ((ev, out), wl)" by (metis prod.collapse)
  obtain w1 where wl: "wl = (w1, log @ [(?req, ev, out)])" using exchange_logged[of env ?ctx ?req w log] x cw by auto
  note eq = assms(1)[unfolded doJSONOnce_def Let_def logged_sel assms(2) option.case x prod.case]
  have "\<exists>new'. appends new' (c\<lparr>world := wl\<rparr>) c'"
  proof (cases out)
    case (Inl f)
    then show ?thesis using eq observed_request_appends by (auto intro!: exI[of _ "[]"])
  next
    case (Inr resp)
    obtain n retry err v where r: "r = (n, retry, err, v)" by (metis surj_pair)
    have "handle_response (logged env) cfg m t (requestMessageRedaction (logged env) cfg ?ctx t) dest resp (c\<lparr>world := wl\<rparr>) =
        ((n, retry, err, v), c')"
      using eq Inr r by simp
    from handle_response_appends(1)[OF this] show ?thesis by blast
  qed
  then obtain new' where "log_of c' = snd wl @ new'" using appends_log by fastforce
  then have "length (log_of c') = length log + 1 + length new'" using wl by simp
  then show False using same cw by simp
qed

text \<open>A request that is not repeated and can be made is made exactly once.\<close>

lemma doJSON_once:
  assumes "doJSON (logged env) cfg ctx m t None dest False c = (r, c')" "new_request_err env m t = None"
    "ctx_internal env ctx \<or> \<not> clientClosed c"
  shows "\<exists>new. appends new c c' \<and> list_all (method_is m) new \<and> length new = 1"
proof -
  obtain new where new: "appends new c c'" "list_all (method_is m) new" "length new \<le> 1"
    using doJSON_appends[OF assms(1)] by auto
  have opened: "ensureOpen (logged env) ctx c = None" using assms(3) by (auto simp: ensureOpen_def)
  obtain ctx' where l: "request_loop 1 True (logged env) cfg ctx' m t None dest False None c = (r, c')"
    using assms(1) opened by (auto simp: doJSON_def Let_def)
  obtain n1 retry e v1 c1 where o: "doJSONOnce (logged env) cfg ctx' m t None dest c = ((n1, retry, e, v1), c1)"
    by (metis prod.collapse)
  have "c\<lparr>world := world c\<rparr> = c" by simp
  then have "c' = c1" using l o by (cases e) (auto simp: Let_def)
  then have "new \<noteq> []" using doJSONOnce_sends[OF o assms(2)] new(1) by simp
  then have "length new = 1" using new(3) by (cases new) auto
  then show ?thesis using new by blast
qed

lemma CloseOperation_once:
  assumes "CloseOperation (logged env) cfg ctx h op c = (r, c')" "settled c" "validateSessionHandle h = None" "validateOperationHandle op = None"
    "\<And>m u. new_request_err env m u = None" "ctx_internal env ctx \<or> \<not> clientClosed c"
  shows "\<exists>new. appends new c c' \<and> list_all (method_is ''DELETE'') new \<and> length new = 1"
proof -
  let ?t = "endpointURL (logged env) cfg c True (operationRoute h op @ ''/close'')"
  obtain x c1 where x: "doJSON (logged env) cfg ctx ''DELETE'' ?t None no_response False c = (x, c1)" by fastforce
  have "c' = c1"
    using assms(1)[unfolded CloseOperation_def with_operation_def assms(3,4) option.case settled_check[OF assms(2)] prod.case x]
    by (auto simp: answer_of_def split: prod.splits option.splits sum.splits)
  then show ?thesis using doJSON_once[OF x assms(5,6)] by simp
qed

lemma CancelOperation_appends:
  assumes "CancelOperation (logged env) cfg ctx h op c = (r, c')" "settled c"
  shows "\<exists>new. appends new c c' \<and> list_all (method_is ''POST'') new \<and> length new \<le> 1"
proof -
  have "(\<exists>err. r = Inl err) \<and> c' = c \<or> answer_of (doJSON (logged env) cfg ctx ''POST''
      (endpointURL (logged env) cfg c True (operationRoute h op @ ''/cancel'')) (Some (JObj [])) no_response False c) = (r, c')"
    using with_operation_settled[OF assms(2) assms(1)[unfolded CancelOperation_def]] .
  then show ?thesis
  proof (elim disjE conjE)
    assume "c' = c"
    then show ?thesis by (intro exI[of _ "[]"]) simp
  next
    assume "answer_of (doJSON (logged env) cfg ctx ''POST'' (endpointURL (logged env) cfg c True (operationRoute h op @ ''/cancel''))
        (Some (JObj [])) no_response False c) = (r, c')"
    from answer_of_appends[OF this] show ?thesis by auto
  qed
qed

lemma cleanup_cancel_appends:
  assumes "cleanup_cancel (logged env) cfg ctx op reason c = (x, c')" "settled c"
  shows "\<exists>new. appends new c c' \<and> list_all (method_is ''POST'') new \<and> length new \<le> 1"
proof (cases "err_is reason ErrResultLimit \<or> CancelOnContextDone cfg \<and> isContextError reason")
  case True
  let ?ctx = "cancelStageContext (logged env) cfg ctx c"
  obtain r c1 where r: "CancelOperation (logged env) cfg ?ctx (opSessionHandle op) (opHandle op) c = (r, c1)" by fastforce
  note eq = assms(1)[unfolded cleanup_cancel_def if_P[OF True] r prod.case Let_def]
  obtain new where "appends new c c1" "list_all (method_is ''POST'') new" "length new \<le> 1"
    using CancelOperation_appends[OF r assms(2)] by blast
  moreover have "appends [] c1 c'" using eq observeLifecycle_appends by auto
  ultimately show ?thesis using appends_trans[of new c c1 "[]" c'] by auto
next
  case False
  then show ?thesis using assms(1) by (auto simp: cleanup_cancel_def intro!: exI[of _ "[]"])
qed

text \<open>An exchange log in which the operation was closed: one \<open>DELETE\<close>, at the very end.\<close>

definition closed_once :: "exchange_log \<Rightarrow> bool" where
  "closed_once log = (\<exists>before last. log = before @ [last] \<and> method_is ''DELETE'' last \<and> \<not> list_ex (method_is ''DELETE'') before)"

lemma not_delete: "list_all (method_is m) log \<Longrightarrow> m \<noteq> ''DELETE'' \<Longrightarrow> \<not> list_ex (method_is ''DELETE'') log"
  by (induction log) (auto simp: method_is_def)

lemma closed_onceI: "\<not> list_ex (method_is ''DELETE'') before \<Longrightarrow> list_all (method_is ''DELETE'') new \<Longrightarrow> length new = 1 \<Longrightarrow>
    closed_once (before @ new)"
  by (cases new) (auto simp: closed_once_def)

text \<open>An operation the client may use.\<close>

definition usable :: "operation \<Rightarrow> bool" where
  "usable op = (validateSessionHandle (opSessionHandle op) = None \<and> validateOperationHandle (opHandle op) = None)"

lemma cleanupOperationContext_closes:
  assumes "cleanupOperationContext (logged env) cfg ctx op reason c = (err, c')" "settled c" "usable op"
    "\<And>m u. new_request_err env m u = None" "ctx_internal env ctx \<or> \<not> clientClosed c"
    "\<not> list_ex (method_is ''DELETE'') (log_of c)"
  shows "closed_once (log_of c')"
proof -
  obtain ca c1 where 1: "cleanup_cancel (logged env) cfg ctx op reason c = (ca, c1)" by fastforce
  obtain r c2 where 2: "CloseOperation (logged env) cfg ctx (opSessionHandle op) (opHandle op) c1 = (r, c2)" by fastforce
  obtain posts where p: "appends posts c c1" "list_all (method_is ''POST'') posts"
    using cleanup_cancel_appends[OF 1 assms(2)] by blast
  have c1: "settled c1" "clientClosed c1 = clientClosed c"
    using appends_settled[OF p(1)] assms(2) p(1) by (simp, auto simp: appends_def)
  obtain new where n: "appends new c1 c2" "list_all (method_is ''DELETE'') new" "length new = 1"
    using CloseOperation_once[OF 2 c1(1) _ _ assms(4)] assms(3,5) c1(2) by (auto simp: usable_def)
  have "log_of c' = log_of c2"
    using assms(1)[unfolded cleanupOperationContext_def 1 prod.case 2 Let_def] by (auto split: if_splits)
  then have "log_of c' = (log_of c @ posts) @ new" using appends_log[OF p(1)] appends_log[OF n(1)] by simp
  moreover have "\<not> list_ex (method_is ''DELETE'') (log_of c @ posts)" using assms(6) not_delete[OF p(2)] by simp
  ultimately show ?thesis using closed_onceI n(2,3) by metis
qed

lemma finish_execution_closes:
  assumes "finish_execution (logged env) cfg ctx op result c = (r, c')" "settled c" "usable op"
    "\<And>m u. new_request_err env m u = None" "\<not> clientClosed c" "\<not> list_ex (method_is ''DELETE'') (log_of c)"
  shows "closed_once (log_of c')"
proof -
  obtain x c1 where 1: "CloseOperation (logged env) cfg (cleanup_ctx (logged env) cfg c) (opSessionHandle op) (opHandle op) c = (x, c1)" by fastforce
  obtain new where n: "appends new c c1" "list_all (method_is ''DELETE'') new" "length new = 1"
    using CloseOperation_once[OF 1 assms(2) _ _ assms(4)] assms(3,5) by (auto simp: usable_def)
  have "log_of c' = log_of c1" using assms(1)[unfolded finish_execution_def 1 prod.case] by (auto split: sum.splits)
  then show ?thesis using closed_onceI[OF assms(6) n(2,3)] appends_log[OF n(1)] by simp
qed

lemma consume_operation_closes:
  assumes "consume_operation (logged env) cfg ctx ectx limits collect emit op c = (r, c')" "settled c" "usable op" "quiet_emit emit"
    "\<And>m u. new_request_err env m u = None" "\<And>x. ctx_internal env (ctx_with_cleanup env x)" "\<not> clientClosed c"
    "\<not> list_ex (method_is ''DELETE'') (log_of c)"
  shows "closed_once (log_of c') \<and> fst r \<noteq> None"
proof -
  have internal: "ctx_internal env (internal_ctx (logged env) cfg d)" for d
    using assms(6) by (simp add: internal_ctx_def logged_def)
  obtain y c1 where 1: "emit_event emit (EventOperation op) c = (y, c1)" by fastforce
  have "appends [] c c1" using 1 assms(4) by (cases emit) (auto simp: emit_event_def quiet_emit_def)
  then have r1: "reads c c1" "reads c c1" using reads_step[OF reads_refl[OF assms(2)]] by auto
  obtain result run c2 where 2: "consumeResults (client_result_env (logged env) cfg ectx op (rowFormat limits)) op limits collect emit c1 = (result, run, c2)"
    by (metis surj_pair)
  have r2: "reads c c2" by (rule keeps_env.consumeResults_keeps[OF client_keeps_env[OF assms(4)] r1(1) 2])
  have ready: "settled d \<and> clientClosed d = clientClosed c \<and> \<not> list_ex (method_is ''DELETE'') (log_of d)" if "reads c d" for d
  proof -
    note rd = that
    obtain new where n: "appends new c d" "list_all (method_is ''GET'') new" "settled d" using rd by (auto simp: reads_def)
    have "\<not> list_ex (method_is ''DELETE'') new" by (rule not_delete[OF n(2)]) simp
    then show ?thesis using n assms(8) by (auto simp: appends_def)
  qed
  note eq = assms(1)[unfolded consume_operation_def 1 prod.case 2]
  show ?thesis
  proof (cases y)
    case (Some err)
    obtain err' c3 where 3: "cleanupOperation (logged env) cfg op err c1 = (err', c3)" by fastforce
    have "closed_once (log_of c3)"
      by (rule cleanupOperationContext_closes[OF 3[unfolded cleanupOperation_def] _ assms(3) assms(5)])
        (use ready[OF r1(1)] internal in auto)
    then show ?thesis using eq Some 3 by auto
  next
    case yN: None
    show ?thesis
    proof (cases run)
      case (Some err)
      obtain err' c3 where 3: "cleanupOperation (logged env) cfg op err c2 = (err', c3)" by fastforce
      have "closed_once (log_of c3)"
        by (rule cleanupOperationContext_closes[OF 3[unfolded cleanupOperation_def] _ assms(3) assms(5)])
          (use ready[OF r2] internal in auto)
      then show ?thesis using eq yN Some 3 by auto
    next
      case None
      have f: "finish_execution (logged env) cfg ctx op result c2 = (r, c')" using eq yN None by simp
      have "closed_once (log_of c')"
        by (rule finish_execution_closes[OF f _ assms(3) assms(5)]) (use ready[OF r2] assms(7) in auto)
      moreover have "fst r \<noteq> None" using f by (auto simp: finish_execution_def split: prod.splits sum.splits)
      ultimately show ?thesis by blast
    qed
  qed
qed

text \<open>What is known after a submission.\<close>

lemma submitStatement_ends:
  assumes "submitStatement (logged env) cfg ctx h req c = (r, c')"
  shows "\<exists>new. appends new c c' \<and> list_all (method_is ''POST'') new"
    "r = Inr op \<Longrightarrow> opSessionHandle op = h \<and> validateOperationHandle (opHandle op) = None"
proof -
  let ?t = "endpointURL (logged env) cfg c True (''/sessions/'' @ pathSegment h @ ''/statements'')"
  let ?o = "observeLifecycle (logged env) (statement_event ''StatementSubmitting'' (sanitizeEndpointPath (escaped_path (logged env) ?t)) h [] None) c"
  obtain x c2 where x: "answer_of (doJSON (logged env) cfg (secret_ctx (logged env) ctx) ''POST'' ?t
     (Some (statement_body (selectedCapabilities cfg (versions c)) req)) (string_response ''operationHandle'') False ?o) = (x, c2)" by fastforce
  note eq = assms(1)[unfolded submitStatement_def Let_def x prod.case]
  obtain new where n: "appends new ?o c2" "list_all (method_is ''POST'') new" using answer_of_appends[OF x] by blast
  have "\<exists>ob. c' = observeLifecycle (logged env) ob c2" using eq by (auto split: sum.splits option.splits)
  then have "appends [] c2 c'" using observeLifecycle_appends by auto
  then have "appends new c c'"
    using appends_trans[OF appends_trans[OF observeLifecycle_appends n(1)], of "[]" c'] by simp
  then show "\<exists>new. appends new c c' \<and> list_all (method_is ''POST'') new" using n(2) by blast
  show "r = Inr op \<Longrightarrow> opSessionHandle op = h \<and> validateOperationHandle (opHandle op) = None"
    using eq by (auto split: sum.splits option.splits)
qed

lemma ExecuteStatement_ends:
  assumes "ExecuteStatement (logged env) cfg ctx h req c = (r, c')" "version_inv (versions c)"
  shows "\<exists>new. log_of c' = log_of c @ new \<and> \<not> list_ex (method_is ''DELETE'') new"
    "r = Inr op \<Longrightarrow> usable op \<and> settled c' \<and> clientClosed c' = clientClosed c"
proof -
  obtain y c1 where y: "validateStatement (logged env) ctx h (erStatement req) c = (y, c1)" by fastforce
  have l1: "looked_up c c1" "versions c1 = versions c" using validateStatement_log[OF y] looked_up_log by blast+
  obtain z c2 where z: "client_CheckAPIVersion (logged env) cfg ctx c1 = (z, c2)" by fastforce
  have l2: "looked_up c c2" using l1(1) client_CheckAPIVersion_looked_up[OF z] by (rule looked_up_trans)
  have gets: "\<exists>new. log_of d = log_of c @ new \<and> \<not> list_ex (method_is ''DELETE'') new" if "looked_up c d" for d
    using that not_delete[of "''GET''"] by (fastforce simp: looked_up_def)
  consider (early) d where "c' = d" "looked_up c d" "\<exists>e. r = Inl e"
    | (submit) "validateSessionHandle h = None" "z = None" "submitStatement (logged env) cfg ctx h req c2 = (r, c')"
    using assms(1) y z l1(1) l2 by (auto simp: ExecuteStatement_def split: option.splits)
  then have "(\<exists>new. log_of c' = log_of c @ new \<and> \<not> list_ex (method_is ''DELETE'') new) \<and>
    (\<forall>op. r = Inr op \<longrightarrow> usable op \<and> settled c' \<and> clientClosed c' = clientClosed c)"
  proof cases
    case early
    then show ?thesis using gets by auto
  next
    case submit
    obtain new where n: "appends new c2 c'" "list_all (method_is ''POST'') new" using submitStatement_ends(1)[OF submit(3)] by blast
    obtain meta where m: "log_of c2 = log_of c @ meta" "\<not> list_ex (method_is ''DELETE'') meta" using gets[OF l2] by blast
    have "settled c2" using check_settles[of "logged env" cfg ctx c1 c2] z submit(2) l1(2) assms(2) by simp
    then have "settled c'" using appends_settled[OF n(1)] by simp
    moreover have "clientClosed c' = clientClosed c" using n(1) l2 by (auto simp: appends_def looked_up_def)
    moreover have "usable op" if "r = Inr op" for op
      using submitStatement_ends(2)[OF submit(3) that] submit(1) by (auto simp: usable_def)
    moreover have "log_of c' = log_of c @ (meta @ new)" using appends_log[OF n(1)] m(1) by simp
    moreover have "\<not> list_ex (method_is ''DELETE'') (meta @ new)" using m(2) not_delete[OF n(2)] by simp
    ultimately show ?thesis by blast
  qed
  then show "\<exists>new. log_of c' = log_of c @ new \<and> \<not> list_ex (method_is ''DELETE'') new"
    "r = Inr op \<Longrightarrow> usable op \<and> settled c' \<and> clientClosed c' = clientClosed c" by blast+
qed


text \<open>A server that accepts a statement and then goes away.\<close>

definition opened_body :: string where
  "opened_body = marshal (JObj [(''operationHandle'', JStr ''op'')])"

definition accepted :: "string \<Rightarrow> trace_event list \<times> (transport_failure, http_response) result" where
  "accepted body = ([WroteHeaders, WroteRequest False, GotFirstResponseByte], Inr \<lparr>StatusCode = 200, Body = body, BodyErr = None\<rparr>)"

definition checked_client :: "'w \<Rightarrow> 'w client" where
  "checked_client w = (example_client w)\<lparr>versions := version_init\<lparr>versionChecked := True\<rparr>\<rparr>"

definition quick_cfg :: config where
  "quick_cfg = example_cfg\<lparr>ExecutionTimeout := 0\<rparr>"

definition example_options :: execute_options where
  "example_options = \<lparr>eoConfig = [], eoTimeout = 0, eoRowFormat = [], eoMaxRows = 0, eoMaxPolls = 0\<rparr>"

lemmas text_simps = escape_str_def runes_of_ascii ascii_def byte_def escape_rune_def trim_space_def is_space_def
  valid_utf8_def invalid_step_def rune_error_def

lemma example_handles: "safe_handle ''s''" "safe_handle ''op''"
  by (simp_all add: safe_handle_def text_simps has_control_def is_control_def)

lemma parse_opened_body: "parse_json opened_body = Some (JObj [(''operationHandle'', JStr ''op'')])"
proof -
  have "json_ok maxNestingDepth (JObj [(''operationHandle'', JStr ''op'')])" by (simp add: maxNestingDepth_def text_simps)
  from parse_first_marshal[OF this] show ?thesis by (simp add: parse_json_def opened_body_def skip_ws_def)
qed

lemma example_statement_body:
  "length (marshal (statement_body caps (execution_request ''X'' example_options 0))) = 17"
  by (simp add: statement_body_def execution_request_def example_options_def wire_timeout_def text_simps)

lemma opened_body_fits: "trim_space opened_body \<noteq> []" "length opened_body = 24"
  by (simp_all add: opened_body_def text_simps)

lemma example_executed:
  "\<exists>c1. ExecuteStatement (logged script_env) quick_cfg plain_ctx ''s'' (execution_request ''X'' example_options 0)
     (checked_client ([accepted opened_body], [])) = (Inr \<lparr>opHandle = ''op'', opSessionHandle = ''s''\<rparr>, c1)"
proof -
  have cfg: "RequestTimeout quick_cfg = 1" "MaxResponseBytes quick_cfg = 100"
    by (simp_all add: quick_cfg_def example_cfg_def example_config_def)
  have "settled (checked_client x)" for x by (simp add: settled_def checked_client_def example_client_def version_init_def)
  note chk = settled_check[OF this]
  have st: "trim_space ''X'' = ''X''" by (simp add: text_simps)
  have rl: "readLimited opened_body None 100 = (opened_body, None)" by (simp add: readLimited_def succ64_def opened_body_fits Let_def)
  have d: "unmarshal_struct (string_field ''operationHandle'') (string_field_ok ''operationHandle'') opened_body = Inr ''op''"
    by (simp add: unmarshal_struct_def parse_opened_body string_field_ok_def string_field_def values_of_def equal_fold_def string_kind_def)
  have v: "validateStatement (logged script_env) plain_ctx ''s'' ''X'' (checked_client x) = (None, checked_client x)" for x
    by (cases x) (simp add: validateStatement_def st logged_def script_env_def checked_client_def example_client_def)
  have vh: "validateSessionHandle ''s'' = None" "validateOperationHandle ''op'' = None" by (simp_all add: example_handles)
  let ?req = "execution_request ''X'' example_options 0"
  have e: "erStatement ?req = ''X''" by (simp add: execution_request_def)
  have run: "ExecuteStatement (logged script_env) quick_cfg plain_ctx ''s'' ?req (checked_client ([accepted opened_body], [])) =
     submitStatement (logged script_env) quick_cfg plain_ctx ''s'' ?req (checked_client ([accepted opened_body], []))"
    by (simp only: ExecuteStatement_def vh option.case e v chk prod.case)
  have o: "ensureOpen (logged script_env) (secret_ctx (logged script_env) plain_ctx) (checked_client x) = None" for x
    by (simp add: ensureOpen_def plain_ctx_def checked_client_def example_client_def logged_def script_env_def secret_ctx_def)
  have ob: "observeLifecycle (logged script_env) z (checked_client x) = checked_client x" for z x
    by (cases x) (simp add: observeLifecycle_def logged_def script_env_def checked_client_def example_client_def)
  have once: "\<exists>c1. doJSON (logged script_env) quick_cfg (secret_ctx (logged script_env) plain_ctx) ''POST'' t
     (Some (statement_body caps ?req)) (string_response ''operationHandle'') False (checked_client ([accepted opened_body], [])) =
     ((24, None, ''op''), c1)" for t caps
    unfolding doJSON_def o
    by (simp add: Let_def cfg example_statement_body doJSONOnce_def checked_client_def example_client_def logged_def script_env_def
        secret_ctx_def plain_ctx_def accepted_def handle_response_def rl opened_body_fits string_response_def d)
  show ?thesis
    unfolding run submitStatement_def Let_def ob answer_of_def
    using once by (metis (no_types, lifting) option.case(1) old.prod.case sum.case(2) vh(2))
qed


section \<open>The first failure is kept\<close>

text \<open>Cleaning an operation up never hides why it had to be cleaned up: whatever the cancel and close requests answer,
  the error that is reported still matches every sentinel the original one matched, for executions and iterators.\<close>

theorem cleanup_keeps_reason:
  assumes "err_is reason t" "\<not> stClosed st"
  shows "err_is (fst (cleanupOperationContext env cfg ctx op reason c)) t \<and>
    (\<exists>x. streamErr (fst (finish senv internal (Some reason) force st s)) = Some x \<and> err_is x t)"
proof -
  have "err_is (fst (cleanupOperationContext env cfg ctx op reason c)) t"
    using assms(1) by (auto simp: cleanupOperationContext_def Let_def split: prod.splits)
  moreover obtain st' s' where "finish senv internal (Some reason) force st s = (st', s')" by fastforce
  ultimately show ?thesis using finish_keeps_primary[OF _ assms(2)] assms(1) by fastforce
qed

theorem cleanup_keeps_reason_witness:
  "err_is (fst (cleanupOperationContext script_env quick_cfg plain_ctx \<lparr>opHandle = ''op'', opSessionHandle = ''s''\<rparr>
     (ResultLimitError ''rows'' 1 1) (checked_client []))) ErrResultLimit"
proof -
  have c: "\<not> stClosed (new_stream idle_env example_operation example_limits)" by (simp add: new_stream_def)
  have r: "err_is (ResultLimitError ''rows'' 1 1) ErrResultLimit" by simp
  from cleanup_keeps_reason[OF r c] show ?thesis by (rule conjunct1)
qed

end
