(* ===== verification/Tokens.thy ===== *)
theory Tokens
  imports Prelude
begin

text \<open>
  The channel with one token that \<open>session_setup.go\<close> and \<open>serialized_session.go\<close> use as a lock: whoever takes the token
  holds the lock until it is put back.  The interface states what a component keeps of the token, and gives
  exclusion, the room in the channel when the token goes back, and that a token nobody holds can be taken.
\<close>

section \<open>Counting the threads at a place\<close>

definition count_at :: "('a \<Rightarrow> bool) \<Rightarrow> 'a list \<Rightarrow> nat" where
  "count_at P xs = length (filter P xs)"

lemma count_at_update:
  "i < length xs \<Longrightarrow> count_at P (xs[i := v]) + (if P (xs ! i) then 1 else 0) = count_at P xs + (if P v then 1 else 0)"
proof (induction xs arbitrary: i)
  case (Cons x xs)
  then show ?case by (cases i) (auto simp: count_at_def)
qed simp

lemma count_at_none: "(\<And>x. x \<in> set xs \<Longrightarrow> \<not> P x) \<Longrightarrow> count_at P xs = 0"
  by (simp add: count_at_def filter_empty_conv)

lemma count_at_pos: "i < length xs \<Longrightarrow> P (xs ! i) \<Longrightarrow> 0 < count_at P xs"
  by (auto simp: count_at_def filter_empty_conv)

lemma count_at_two:
  assumes "i < length xs" "j < length xs" "i \<noteq> j" "P (xs ! i)" "P (xs ! j)"
  shows "2 \<le> count_at P xs"
proof -
  have "{i, j} \<subseteq> {k. k < length xs \<and> P (xs ! k)}" using assms by auto
  then have "card {i, j} \<le> card {k. k < length xs \<and> P (xs ! k)}" by (intro card_mono) auto
  then show ?thesis using assms(3) by (simp add: count_at_def length_filter_conv_card)
qed

section \<open>The interface\<close>

locale token_lock =
  fixes reachable :: "'s \<Rightarrow> bool" and live :: "'s \<Rightarrow> 'g \<Rightarrow> bool" and tokens :: "'s \<Rightarrow> 'g \<Rightarrow> nat"
    and places :: "'s \<Rightarrow> 'p list" and holds :: "'g \<Rightarrow> 'p \<Rightarrow> bool"
  assumes conserved: "reachable s \<Longrightarrow> live s g \<Longrightarrow> tokens s g + count_at (holds g) (places s) = 1"
begin

lemma exclusive:
  assumes "reachable s" "live s g" "i < length (places s)" "j < length (places s)" "holds g (places s ! i)" "holds g (places s ! j)"
  shows "i = j"
  using count_at_two[OF assms(3,4) _ assms(5,6)] conserved[OF assms(1,2)] by force

lemma room:
  assumes "reachable s" "live s g" "i < length (places s)" "holds g (places s ! i)"
  shows "tokens s g = 0"
  using count_at_pos[where P = "holds g", OF assms(3,4)] conserved[OF assms(1,2)] by simp

lemma free:
  assumes "reachable s" "live s g" "\<And>p. p \<in> set (places s) \<Longrightarrow> \<not> holds g p"
  shows "tokens s g = 1"
  using count_at_none[where P = "holds g", OF assms(3)] conserved[OF assms(1,2)] by simp

end

end
