(* ===== verification/Event_Channel.thy ===== *)
theory Event_Channel
  imports Execution Tokens
begin

text \<open>
  The goroutine of \<open>StreamResults\<close> (\<open>poller.go\<close>) with its two channels and the consumer that reads them.  What the execution does
  between two events is any step of \<open>Working\<close>: \<open>StreamResults\<close> of Execution says which events there are; here is how they
  pass through the bounded channel while the consumer reads, stops reading or cancels.
\<close>

section \<open>The channels\<close>

text \<open>The goroutine: inside \<open>runExecution\<close>, in the \<open>select\<close> of \<open>emit\<close>, about to send the error, then the deferred calls in their
  order.\<close>

datatype producer =
    Working | Offering result_event | Sending "goerr option" | ClosingErrors | ClosingEvents | Cancelling | EndingExecution | Returned

record event_channels =
  chEvents :: "result_event list"
  chEventsClosed :: bool
  chErrors :: "goerr list"
  chErrorsClosed :: bool
  chCancelled :: bool
  chExecutions :: nat
  chProducer :: producer
  chEmitted :: "result_event list"
  chOutcome :: "goerr option"
  chReceived :: "result_event list"
  chErrorsReceived :: "goerr list"

definition stream_buffer :: "config \<Rightarrow> int \<Rightarrow> int" where
  "stream_buffer cfg buffer = (if buffer \<le> 0 then StreamBuffer cfg else buffer)"

text \<open>With a normalised configuration there is room for an event.\<close>

lemma stream_buffer_pos: "config_ok cfg \<Longrightarrow> 0 < stream_buffer cfg buffer"
  by (simp add: stream_buffer_def config_ok_def)

text \<open>What \<open>StreamResults\<close> returns with: a running goroutine, or two closed channels and the error of the closed client.\<close>

definition started_channels :: event_channels where
  "started_channels = \<lparr>chEvents = [], chEventsClosed = False, chErrors = [], chErrorsClosed = False, chCancelled = False, chExecutions = 1,
     chProducer = Working, chEmitted = [], chOutcome = None, chReceived = [], chErrorsReceived = []\<rparr>"

definition refused_channels :: "goerr \<Rightarrow> event_channels" where
  "refused_channels err = \<lparr>chEvents = [], chEventsClosed = True, chErrors = [err], chErrorsClosed = True, chCancelled = False, chExecutions = 0,
     chProducer = Returned, chEmitted = [], chOutcome = Some err, chReceived = [], chErrorsReceived = []\<rparr>"

definition open_channels :: "goerr option \<Rightarrow> event_channels" where
  "open_channels refusal = (case refusal of None \<Rightarrow> started_channels | Some err \<Rightarrow> refused_channels err)"

text \<open>The cases of \<open>emit\<close>: the event goes into the channel, or the context is done.\<close>

definition emit_send :: "result_event \<Rightarrow> event_channels \<Rightarrow> event_channels" where
  "emit_send e s = s\<lparr>chEvents := chEvents s @ [e], chEmitted := chEmitted s @ [e], chProducer := Working\<rparr>"

definition emit_refused :: "goerr \<Rightarrow> event_channels \<Rightarrow> event_channels" where
  "emit_refused err s = s\<lparr>chProducer := Sending (Some err)\<rparr>"

definition send_error :: "goerr option \<Rightarrow> event_channels \<Rightarrow> event_channels" where
  "send_error err s = s\<lparr>chErrors := chErrors s @ opt_list err, chOutcome := err, chProducer := ClosingErrors\<rparr>"

inductive producer_step :: "nat \<Rightarrow> event_channels \<Rightarrow> event_channels \<Rightarrow> bool" for cap where
  offer: "chProducer s = Working \<Longrightarrow> producer_step cap s (s\<lparr>chProducer := Offering e\<rparr>)"
| over: "chProducer s = Working \<Longrightarrow> producer_step cap s (s\<lparr>chProducer := Sending err\<rparr>)"
| sent: "chProducer s = Offering e \<Longrightarrow> length (chEvents s) < cap \<Longrightarrow> producer_step cap s (emit_send e s)"
| refused: "chProducer s = Offering e \<Longrightarrow> chCancelled s \<Longrightarrow> producer_step cap s (emit_refused err s)"
| error_sent: "chProducer s = Sending err \<Longrightarrow> err = None \<or> length (chErrors s) < 1 \<Longrightarrow> producer_step cap s (send_error err s)"
| errors_closed: "chProducer s = ClosingErrors \<Longrightarrow> producer_step cap s (s\<lparr>chErrorsClosed := True, chProducer := ClosingEvents\<rparr>)"
| events_closed: "chProducer s = ClosingEvents \<Longrightarrow> producer_step cap s (s\<lparr>chEventsClosed := True, chProducer := Cancelling\<rparr>)"
| cancelled: "chProducer s = Cancelling \<Longrightarrow> producer_step cap s (s\<lparr>chCancelled := True, chProducer := EndingExecution\<rparr>)"
| ended: "chProducer s = EndingExecution \<Longrightarrow> producer_step cap s (s\<lparr>chExecutions := chExecutions s - 1, chProducer := Returned\<rparr>)"

text \<open>The consumer takes what is there, and the context may end at any time.\<close>

inductive consumer_step :: "event_channels \<Rightarrow> event_channels \<Rightarrow> bool" where
  take_event: "chEvents s = e # es \<Longrightarrow> consumer_step s (s\<lparr>chEvents := es, chReceived := chReceived s @ [e]\<rparr>)"
| take_error: "chErrors s = err # errs \<Longrightarrow> consumer_step s (s\<lparr>chErrors := errs, chErrorsReceived := chErrorsReceived s @ [err]\<rparr>)"
| context_done: "consumer_step s (s\<lparr>chCancelled := True\<rparr>)"

inductive channel_reach :: "nat \<Rightarrow> goerr option \<Rightarrow> event_channels \<Rightarrow> bool" for cap start where
  channels_start: "channel_reach cap start (open_channels start)"
| channels_producer: "channel_reach cap start s \<Longrightarrow> producer_step cap s s' \<Longrightarrow> channel_reach cap start s'"
| channels_consumer: "channel_reach cap start s \<Longrightarrow> consumer_step s s' \<Longrightarrow> channel_reach cap start s'"

section \<open>The invariant\<close>

fun done_errors :: "producer \<Rightarrow> bool" where
  "done_errors Working = False"
| "done_errors (Offering e) = False"
| "done_errors (Sending err) = False"
| "done_errors p = True"

definition channel_inv :: "nat \<Rightarrow> event_channels \<Rightarrow> bool" where
  "channel_inv cap s =
     (chReceived s @ chEvents s = chEmitted s \<and> length (chEvents s) \<le> cap \<and>
      chErrorsReceived s @ chErrors s = (if done_errors (chProducer s) then opt_list (chOutcome s) else []) \<and>
      chErrorsClosed s = (chProducer s \<in> {ClosingEvents, Cancelling, EndingExecution, Returned}) \<and>
      chEventsClosed s = (chProducer s \<in> {Cancelling, EndingExecution, Returned}) \<and>
      chExecutions s = (if chProducer s = Returned then 0 else 1))"

lemma open_channels_inv: "channel_inv cap (open_channels start)"
  by (cases start) (simp_all add: open_channels_def channel_inv_def started_channels_def refused_channels_def)

lemma producer_step_inv: "producer_step cap s s' \<Longrightarrow> channel_inv cap s \<Longrightarrow> channel_inv cap s'"
  by (induction rule: producer_step.induct) (auto simp: channel_inv_def emit_send_def emit_refused_def send_error_def)

lemma consumer_step_inv: "consumer_step s s' \<Longrightarrow> channel_inv cap s \<Longrightarrow> channel_inv cap s'"
  by (induction rule: consumer_step.induct) (auto simp: channel_inv_def)

lemma channel_reach_inv: "channel_reach cap start s \<Longrightarrow> channel_inv cap s"
  by (induction rule: channel_reach.induct) (auto intro: open_channels_inv producer_step_inv consumer_step_inv)

inductive_cases take_errorE: "consumer_step s s'"

text \<open>C37: the events a consumer has received and those still in the channel are the events emitted, in order, each once, and never
  more than the buffer waits; at most one error comes, it can always be sent at once, and it is there before the channel of
  events is closed, so that a consumer that drains the events and then asks for the error has both, complete, without
  waiting.  The goroutine is never stuck for good: it can go on by itself unless it offers an event to a full
  channel under a live context, and then reading one event or ending the context lets it go on; the execution is counted until it
  returns.\<close>

theorem stream_channels:
  assumes "channel_reach cap start s" "0 < cap"
  shows "chReceived s @ chEvents s = chEmitted s \<and> length (chEvents s) \<le> cap \<and> length (chErrorsReceived s @ chErrors s) \<le> 1 \<and>
    (chEventsClosed s \<longrightarrow> chErrorsClosed s \<and> chErrorsReceived s @ chErrors s = opt_list (chOutcome s)) \<and>
    (chProducer s \<noteq> Returned \<longrightarrow> chExecutions s = 1 \<and>
      ((\<exists>s'. producer_step cap s s') \<or> length (chEvents s) = cap \<and> \<not> chCancelled s \<and> (\<exists>e. chProducer s = Offering e))) \<and>
    (\<forall>s'. (\<nexists>x. producer_step cap s x) \<longrightarrow> chProducer s \<noteq> Returned \<longrightarrow> consumer_step s s' \<longrightarrow>
       chReceived s' \<noteq> chReceived s \<or> chCancelled s' \<longrightarrow> (\<exists>x. producer_step cap s' x))"
proof -
  have i: "channel_inv cap s" by (rule channel_reach_inv[OF assms(1)])
  have one: "length (opt_list z) \<le> 1" for z :: "goerr option" by (cases z) auto
  have free: "chErrors s = []" if "\<not> done_errors (chProducer s)" using i that by (simp add: channel_inv_def)
  have moves: "\<exists>s'. producer_step cap s s'" if "chProducer s \<noteq> Returned" "\<not> (length (chEvents s) = cap \<and> \<not> chCancelled s \<and> (\<exists>e. chProducer s = Offering e))"
  proof (cases "chProducer s")
    case (Offering e)
    then have "length (chEvents s) < cap \<or> chCancelled s" using that i by (auto simp: channel_inv_def)
    then show ?thesis using producer_step.sent[OF Offering] producer_step.refused[OF Offering] by blast
  next
    case (Sending err)
    then show ?thesis using producer_step.error_sent[OF Sending] free by auto
  qed (use that in \<open>blast intro: producer_step.intros\<close>)+
  have helped: "\<exists>x. producer_step cap s' x"
    if stuck: "\<nexists>x. producer_step cap s x" "chProducer s \<noteq> Returned" and c: "consumer_step s s'" "chReceived s' \<noteq> chReceived s \<or> chCancelled s'" for s'
  proof -
    obtain e where e: "chProducer s = Offering e" "length (chEvents s) = cap" "\<not> chCancelled s" using moves stuck by blast
    have "chProducer s' = Offering e" "length (chEvents s') < cap \<or> chCancelled s'" using c e assms(2) by (auto elim!: take_errorE)
    then show ?thesis using producer_step.sent[of s' e] producer_step.refused[of s' e] by blast
  qed
  show ?thesis using i one moves helped unfolding channel_inv_def by (intro conjI) (auto split: if_splits)
qed

text \<open>A buffer for one event, one event in it and a second one offered: the goroutine waits until the context ends.\<close>

lemma stream_channels_witness:
  "\<exists>s. channel_reach 1 None s \<and> chProducer s = Offering (EventOperation example_operation) \<and> length (chEvents s) = 1 \<and>
     chExecutions s = 1 \<and> (\<exists>x. producer_step 1 (s\<lparr>chCancelled := True\<rparr>) x)"
proof -
  let ?e = "EventOperation example_operation"
  let ?s1 = "started_channels\<lparr>chProducer := Offering ?e\<rparr>" let ?s2 = "emit_send ?e ?s1" let ?s = "?s2\<lparr>chProducer := Offering ?e\<rparr>"
  have "channel_reach 1 None started_channels" using channels_start[of 1 None] by (simp add: open_channels_def)
  from channels_producer[OF this producer_step.offer] have "channel_reach 1 None ?s1" by (simp add: started_channels_def)
  from channels_producer[OF this producer_step.sent] have "channel_reach 1 None ?s2" by (simp add: started_channels_def)
  from channels_producer[OF this producer_step.offer] have r: "channel_reach 1 None ?s" by (simp add: emit_send_def)
  have stuck: "\<nexists>x. producer_step 1 ?s x" by (auto simp: emit_send_def started_channels_def elim: producer_step.cases)
  show ?thesis
    using stream_channels[OF r, simplified] r stuck consumer_step.context_done[of ?s]
    by (intro exI[of _ ?s]) (auto simp: emit_send_def started_channels_def)
qed

end
