(* ===== verification/GoTime.thy ===== *)
theory GoTime
  imports GoStrings
begin

text \<open>
  The part of package \<open>time\<close> that \<open>decoder.go\<close> uses: \<open>time.Parse\<close> for layouts made of the year, month, day, hour, minute, second,
  fraction and \<open>Z07:00\<close> chunks, with the day checked against the month at the end.  A time is its wall clock and
  its offset from UTC in seconds.  The fast path of RFC 3339 accepts fewer texts with the same result and is left out.
\<close>

record go_time =
  tYear :: nat
  tMonth :: nat
  tDay :: nat
  tHour :: nat
  tMin :: nat
  tSec :: nat
  tNsec :: nat
  tOffset :: int

text \<open>The zero fields of \<open>Parse\<close>: a layout without a date gives the first of January of the year 0.\<close>

definition unparsed :: go_time where
  "unparsed = \<lparr>tYear = 0, tMonth = 1, tDay = 1, tHour = 0, tMin = 0, tSec = 0, tNsec = 0, tOffset = 0\<rparr>"

definition isLeap :: "nat \<Rightarrow> bool" where
  "isLeap y = (y mod 4 = 0 \<and> (y mod 100 \<noteq> 0 \<or> y mod 400 = 0))"

definition daysIn :: "nat \<Rightarrow> nat \<Rightarrow> nat" where
  "daysIn m y = (if m = 2 then (if isLeap y then 29 else 28) else if m \<in> {4, 6, 9, 11} then 30 else 31)"

datatype chunk = Lit char | Year | Month | Day | Hour | Minute | Second | Fraction | Zone

definition digit_of :: "char \<Rightarrow> nat" where
  "digit_of c = byte c - 48"

text \<open>\<open>getnum\<close>: one or two digits, two if \<open>fixed\<close>.\<close>

definition getnum :: "bool \<Rightarrow> string \<Rightarrow> (nat \<times> string) option" where
  "getnum fixed s =
     (case s of
        [] \<Rightarrow> None
      | a # t \<Rightarrow>
          if \<not> is_digit a then None
          else if t \<noteq> [] \<and> is_digit (hd t) then Some (10 * digit_of a + digit_of (hd t), tl t)
          else if fixed then None else Some (digit_of a, t))"

definition getnum_in :: "bool \<Rightarrow> nat \<Rightarrow> nat \<Rightarrow> string \<Rightarrow> (nat \<times> string) option" where
  "getnum_in fixed low high s =
     (case getnum fixed s of None \<Rightarrow> None | Some (n, r) \<Rightarrow> if low \<le> n \<and> n \<le> high then Some (n, r) else None)"

text \<open>\<open>skip\<close>: a space of the layout stands for any number of spaces, also at the end of the text.\<close>

definition skip_lit :: "char \<Rightarrow> string \<Rightarrow> string option" where
  "skip_lit p s =
     (if p = CHR '' '' then (if s \<noteq> [] \<and> hd s \<noteq> CHR '' '' then None else Some (dropWhile (\<lambda>c. c = CHR '' '') s))
      else if s \<noteq> [] \<and> hd s = p then Some (tl s) else None)"

definition get_year :: "string \<Rightarrow> (nat \<times> string) option" where
  "get_year s = (if 4 \<le> length s \<and> list_all is_digit (take 4 s) then Some (read_nat (take 4 s), drop 4 s) else None)"

definition has_fraction :: "string \<Rightarrow> bool" where
  "has_fraction s = (2 \<le> length s \<and> (hd s = CHR ''.'' \<or> hd s = CHR '','') \<and> is_digit (s ! 1))"

text \<open>\<open>parseNanoseconds\<close>: all digits are read, nine count.\<close>

definition get_fraction :: "string \<Rightarrow> nat \<times> string" where
  "get_fraction s =
     (let ds = takeWhile is_digit (tl s); nine = take 9 ds in (read_nat nine * 10 ^ (9 - length nine), drop (length ds) (tl s)))"

definition get_zone :: "string \<Rightarrow> (int \<times> string) option" where
  "get_zone s =
     (if s \<noteq> [] \<and> hd s = CHR ''Z'' then Some (0, tl s)
      else if length s < 6 \<or> s ! 3 \<noteq> CHR '':'' then None
      else
        (case (getnum_in True 0 24 (take 2 (drop 1 s)), getnum_in True 0 60 (take 2 (drop 4 s))) of
           (Some (h, _), Some (m, _)) \<Rightarrow>
             if hd s = CHR ''+'' then Some (int (h * 60 + m) * 60, drop 6 s)
             else if hd s = CHR ''-'' then Some (- int (h * 60 + m) * 60, drop 6 s)
             else None
         | _ \<Rightarrow> None))"

definition next_is_fraction :: "chunk list \<Rightarrow> bool" where
  "next_is_fraction cs = (case dropWhile (\<lambda>c. case c of Lit _ \<Rightarrow> True | _ \<Rightarrow> False) cs of Fraction # _ \<Rightarrow> True | _ \<Rightarrow> False)"

definition step_chunk :: "chunk \<Rightarrow> chunk list \<Rightarrow> string \<Rightarrow> go_time \<Rightarrow> (go_time \<times> string) option" where
  "step_chunk c cs s t =
     (case c of
        Lit p \<Rightarrow> map_option (Pair t) (skip_lit p s)
      | Year \<Rightarrow> map_option (apfst (\<lambda>n. t\<lparr>tYear := n\<rparr>)) (get_year s)
      | Month \<Rightarrow> map_option (apfst (\<lambda>n. t\<lparr>tMonth := n\<rparr>)) (getnum_in True 1 12 s)
      | Day \<Rightarrow> map_option (apfst (\<lambda>n. t\<lparr>tDay := n\<rparr>)) (getnum True s)
      | Hour \<Rightarrow> map_option (apfst (\<lambda>n. t\<lparr>tHour := n\<rparr>)) (getnum_in False 0 23 s)
      | Minute \<Rightarrow> map_option (apfst (\<lambda>n. t\<lparr>tMin := n\<rparr>)) (getnum_in True 0 59 s)
      | Second \<Rightarrow>
          (case getnum_in True 0 59 s of
             None \<Rightarrow> None
           | Some (n, r) \<Rightarrow>
               if has_fraction r \<and> \<not> next_is_fraction cs
               then (case get_fraction r of (f, r1) \<Rightarrow> Some (t\<lparr>tSec := n, tNsec := f\<rparr>, r1))
               else Some (t\<lparr>tSec := n\<rparr>, r))
      | Fraction \<Rightarrow> Some (if has_fraction s then (case get_fraction s of (f, r) \<Rightarrow> (t\<lparr>tNsec := f\<rparr>, r)) else (t, s))
      | Zone \<Rightarrow> map_option (apfst (\<lambda>z. t\<lparr>tOffset := z\<rparr>)) (get_zone s))"

fun run_layout :: "chunk list \<Rightarrow> string \<Rightarrow> go_time \<Rightarrow> go_time option" where
  "run_layout [] s t = (if s = [] then Some t else None)"
| "run_layout (c # cs) s t = (case step_chunk c cs s t of None \<Rightarrow> None | Some (t1, r) \<Rightarrow> run_layout cs r t1)"

definition time_Parse :: "chunk list \<Rightarrow> string \<Rightarrow> go_time option" where
  "time_Parse layout s =
     (case run_layout layout s unparsed of
        None \<Rightarrow> None
      | Some t \<Rightarrow> if 1 \<le> tDay t \<and> tDay t \<le> daysIn (tMonth t) (tYear t) then Some t else None)"

section \<open>Texts of times\<close>

definition pad2 :: "nat \<Rightarrow> string" where "pad2 n = [digit (n div 10), digit (n mod 10)]"

definition pad4 :: "nat \<Rightarrow> string" where "pad4 n = pad2 (n div 100) @ pad2 (n mod 100)"

definition pad9 :: "nat \<Rightarrow> string" where "pad9 n = digit (n div 10 ^ 8) # pad4 (n div 10 ^ 4 mod 10 ^ 4) @ pad4 (n mod 10 ^ 4)"

lemma digit_of_digit [simp]: "d < 10 \<Longrightarrow> digit_of (digit d) = d"
  by (simp add: digit_of_def)

lemma getnum_pad2 [simp]: "n < 100 \<Longrightarrow> getnum fixed (pad2 n @ s) = Some (n, s)"
  by (simp add: getnum_def pad2_def div_less_iff_less_mult)

lemma getnum_in_pad2 [simp]: "low \<le> n \<Longrightarrow> n \<le> high \<Longrightarrow> n < 100 \<Longrightarrow> getnum_in fixed low high (pad2 n @ s) = Some (n, s)"
  by (simp add: getnum_in_def)

lemma pad2_digits [simp]: "n < 100 \<Longrightarrow> list_all is_digit (pad2 n)"
  by (simp add: pad2_def div_less_iff_less_mult)

lemma pad4_digits [simp]: "n < 10000 \<Longrightarrow> list_all is_digit (pad4 n)"
  by (simp add: pad4_def div_less_iff_less_mult)

lemma pad_length [simp]: "length (pad2 n) = 2" "length (pad4 n) = 4" "length (pad9 n) = 9"
  by (simp_all add: pad2_def pad4_def pad9_def)

lemma read_nat_append: "read_nat (a @ b) = read_nat a * 10 ^ length b + read_nat b"
proof (induction b rule: rev_induct)
  case (snoc c b)
  have "read_nat (a @ b @ [c]) = 10 * read_nat (a @ b) + (byte c - 48)" using read_nat_snoc[of "a @ b" c] by simp
  then show ?case using snoc read_nat_snoc[of b c] by simp
qed (simp add: read_nat_def)

lemma read_pad2 [simp]: "n < 100 \<Longrightarrow> read_nat (pad2 n) = n"
  by (simp add: pad2_def read_nat_def div_less_iff_less_mult)

lemma read_pad4 [simp]: "n < 10000 \<Longrightarrow> read_nat (pad4 n) = n"
  by (simp add: pad4_def read_nat_append div_less_iff_less_mult)

lemma pad9_digits: "n < 10 ^ 9 \<Longrightarrow> list_all is_digit (pad9 n)"
  by (simp add: pad9_def div_less_iff_less_mult)

lemma read_pad9:
  assumes "n < 10 ^ 9"
  shows "read_nat (pad9 n) = n"
proof -
  define h m l where "h = n div 10 ^ 8" and "m = n div 10 ^ 4 mod 10 ^ 4" and "l = n mod 10 ^ 4"
  have h: "h < 10" using assms by (simp add: h_def div_less_iff_less_mult)
  have "read_nat (pad9 n) = read_nat [digit h] * 10 ^ 8 + (m * 10 ^ 4 + l)"
    using read_nat_append[of "[digit h]" "pad4 m @ pad4 l"] read_nat_append[of "pad4 m" "pad4 l"] by (simp add: pad9_def h_def m_def l_def)
  also have "read_nat [digit h] = h" using h by (simp add: read_nat_def)
  also have "h * 10 ^ 8 + (m * 10 ^ 4 + l) = n"
  proof -
    have "n = (n div 10 ^ 4) * 10 ^ 4 + l" by (simp add: l_def)
    moreover have "n div 10 ^ 4 = (n div 10 ^ 4 div 10 ^ 4) * 10 ^ 4 + m" unfolding m_def by presburger
    moreover have "n div 10 ^ 4 div 10 ^ 4 = h" by (simp add: h_def div_mult2_eq[symmetric])
    ultimately show ?thesis by simp
  qed
  finally show ?thesis .
qed

lemma get_year_pad4 [simp]: "n < 10000 \<Longrightarrow> get_year (pad4 n @ s) = Some (n, s)"
  by (simp add: get_year_def)

lemma get_fraction_pad9 [simp]:
  assumes "n < 10 ^ 9" "s = [] \<or> \<not> is_digit (hd s)"
  shows "get_fraction (CHR ''.'' # pad9 n @ s) = (n, s)"
proof -
  have "takeWhile is_digit (pad9 n @ s) = pad9 n @ takeWhile is_digit s"
    using pad9_digits[OF assms(1)] by (simp add: takeWhile_append2 list_all_iff)
  also have "takeWhile is_digit s = []" using assms(2) by (cases s) auto
  finally show ?thesis using read_pad9[OF assms(1)] by (simp add: get_fraction_def Let_def)
qed

lemma has_fraction_pad9 [simp]: "n < 10 ^ 9 \<Longrightarrow> has_fraction (CHR ''.'' # pad9 n @ s)"
  by (simp add: has_fraction_def pad9_def div_less_iff_less_mult)

text \<open>A time the calendar has, and its texts.\<close>

definition time_ok :: "go_time \<Rightarrow> bool" where
  "time_ok t = (tYear t < 10000 \<and> 1 \<le> tMonth t \<and> tMonth t \<le> 12 \<and> 1 \<le> tDay t \<and> tDay t \<le> daysIn (tMonth t) (tYear t) \<and>
     tHour t < 24 \<and> tMin t < 60 \<and> tSec t < 60 \<and> tNsec t < 10 ^ 9 \<and> \<bar>tOffset t\<bar> \<le> 25 * 3600)"

definition show_date :: "go_time \<Rightarrow> string" where
  "show_date t = pad4 (tYear t) @ ''-'' @ pad2 (tMonth t) @ ''-'' @ pad2 (tDay t)"

definition show_clock :: "go_time \<Rightarrow> string" where
  "show_clock t = pad2 (tHour t) @ '':'' @ pad2 (tMin t) @ '':'' @ pad2 (tSec t) @ ''.'' @ pad9 (tNsec t)"

abbreviation "date_layout \<equiv> [Year, Lit (CHR ''-''), Month, Lit (CHR ''-''), Day]"
abbreviation "clock_layout \<equiv> [Hour, Lit (CHR '':''), Minute, Lit (CHR '':''), Second]"

lemma skip_lit_simps [simp]: "p \<noteq> CHR '' '' \<Longrightarrow> skip_lit p (p # s) = Some s"
  by (simp add: skip_lit_def)

lemma skip_space [simp]: "n < 100 \<Longrightarrow> skip_lit (CHR '' '') (CHR '' '' # pad2 n @ s) = Some (pad2 n @ s)"
proof -
  assume "n < 100"
  then have "byte (digit (n div 10)) \<noteq> byte (CHR '' '')" by (subst byte_digit) (simp_all add: byte_def div_less_iff_less_mult)
  then have "digit (n div 10) \<noteq> CHR '' ''" by auto
  then show ?thesis by (simp add: skip_lit_def pad2_def)
qed

lemma step_chunk_simps [simp]:
  "step_chunk (Lit p) cs s t = map_option (Pair t) (skip_lit p s)"
  "step_chunk Year cs s t = map_option (apfst (\<lambda>n. t\<lparr>tYear := n\<rparr>)) (get_year s)"
  "step_chunk Month cs s t = map_option (apfst (\<lambda>n. t\<lparr>tMonth := n\<rparr>)) (getnum_in True 1 12 s)"
  "step_chunk Day cs s t = map_option (apfst (\<lambda>n. t\<lparr>tDay := n\<rparr>)) (getnum True s)"
  "step_chunk Hour cs s t = map_option (apfst (\<lambda>n. t\<lparr>tHour := n\<rparr>)) (getnum_in False 0 23 s)"
  "step_chunk Minute cs s t = map_option (apfst (\<lambda>n. t\<lparr>tMin := n\<rparr>)) (getnum_in True 0 59 s)"
  by (simp_all add: step_chunk_def)

lemma daysIn_31: "daysIn m y \<le> 31"
  by (simp add: daysIn_def)

lemma time_Parse_timestamp:
  assumes "time_ok t" "tOffset t = 0" "sep = CHR '' '' \<or> sep = CHR ''T''"
  shows "time_Parse (date_layout @ [Lit sep] @ clock_layout @ [Fraction]) (show_date t @ [sep] @ show_clock t) = Some t"
proof -
  have d: "tDay t < 100" "tYear t < 10000" "tMonth t < 100" "1 \<le> tMonth t" "tMonth t \<le> 12" "tHour t < 100" "tHour t \<le> 23" "tMin t \<le> 59" "tMin t < 100"
    "tSec t \<le> 59" "tSec t < 100" "tNsec t < 10 ^ 9"
    using assms(1) daysIn_31[of "tMonth t" "tYear t"] by (simp_all add: time_ok_def)
  have frac: "get_fraction (CHR ''.'' # pad9 (tNsec t)) = (tNsec t, [])" "has_fraction (CHR ''.'' # pad9 (tNsec t))"
    using get_fraction_pad9[OF d(12), of "[]"] has_fraction_pad9[OF d(12), of "[]"] by simp_all
  have sep: "skip_lit sep (sep # pad2 (tHour t) @ s) = Some (pad2 (tHour t) @ s)" for s using assms(3) d(6) by auto
  have "run_layout (date_layout @ [Lit sep] @ clock_layout @ [Fraction]) (show_date t @ [sep] @ show_clock t) unparsed = Some t"
    using d frac sep assms(2)
    by (simp add: show_date_def show_clock_def unparsed_def step_chunk_def next_is_fraction_def)
  then show ?thesis using assms(1) by (simp add: time_Parse_def time_ok_def)
qed

section \<open>Whatever is parsed is a time of the calendar\<close>

definition fields_ok :: "go_time \<Rightarrow> bool" where
  "fields_ok t = (tYear t < 10000 \<and> 1 \<le> tMonth t \<and> tMonth t \<le> 12 \<and> tHour t < 24 \<and> tMin t < 60 \<and> tSec t < 60 \<and> tNsec t < 10 ^ 9 \<and>
     \<bar>tOffset t\<bar> \<le> 25 * 3600)"

lemma getnum_in_bounds: "getnum_in fixed low high s = Some (n, r) \<Longrightarrow> low \<le> n \<and> n \<le> high"
  by (auto simp: getnum_in_def split: option.splits if_splits)

lemma read_nat_bound: "list_all is_digit ds \<Longrightarrow> read_nat ds < 10 ^ length ds"
proof (induction ds rule: rev_induct)
  case (snoc d ds)
  then have "read_nat ds < 10 ^ length ds" "byte d - 48 \<le> 9" using snoc by (auto simp: is_digit_def)
  then show ?case by (simp add: read_nat_snoc)
qed (simp add: read_nat_def)

lemma get_year_bound: "get_year s = Some (n, r) \<Longrightarrow> n < 10000"
  using read_nat_bound[of "take 4 s"] by (auto simp: get_year_def split: if_splits)

lemma get_fraction_bound: "fst (get_fraction s) < 10 ^ 9"
proof -
  define nine where "nine = take 9 (takeWhile is_digit (tl s))"
  have l: "length nine \<le> 9" by (simp add: nine_def)
  have "list_all is_digit nine" unfolding nine_def list_all_iff by (meson in_set_takeD set_takeWhileD)
  then have "read_nat nine < 10 ^ length nine" by (rule read_nat_bound)
  then have "read_nat nine * 10 ^ (9 - length nine) < 10 ^ length nine * 10 ^ (9 - length nine)" by simp
  also have "\<dots> = 10 ^ 9" using l by (simp add: power_add[symmetric])
  finally show ?thesis by (simp add: get_fraction_def nine_def Let_def)
qed

lemma get_zone_bound: "get_zone s = Some (z, r) \<Longrightarrow> \<bar>z\<bar> \<le> 25 * 3600"
  by (auto simp: get_zone_def dest!: getnum_in_bounds split: if_splits option.splits prod.splits)

lemma get_fraction_less: "get_fraction s = (n, r) \<Longrightarrow> n < 10 ^ 9"
  using get_fraction_bound[of s] by simp

lemma step_chunk_ok: "step_chunk c cs s t = Some (t1, r) \<Longrightarrow> fields_ok t \<Longrightarrow> fields_ok t1"
  by (cases c) (auto simp: step_chunk_def fields_ok_def dest: get_fraction_less[simplified] getnum_in_bounds get_year_bound get_zone_bound split: option.splits if_splits prod.splits)

lemma run_layout_ok: "run_layout cs s t = Some t1 \<Longrightarrow> fields_ok t \<Longrightarrow> fields_ok t1"
  by (induction cs s t rule: run_layout.induct) (auto dest: step_chunk_ok split: if_splits option.splits prod.splits)

lemma time_Parse_ok: "time_Parse layout s = Some t \<Longrightarrow> time_ok t"
  using run_layout_ok[of layout s unparsed t]
  by (auto simp: time_Parse_def time_ok_def fields_ok_def unparsed_def split: option.splits if_splits)

end
