(* ===== verification/Decoder.thy ===== *)
theory Decoder
  imports Page_Decoding GoTime
begin

text \<open>
  \<open>flinksqlgateway/decoder.go\<close>: the default decoder of result fields by their logical type, and the typed look-ups of
  \<open>RowAccessor\<close>.  \<open>strconv.ParseFloat\<close> and the order in which a Go map is ranged over are arguments.  The errors of the
  standard library keep the text they are about, not their wording.
\<close>

section \<open>The library\<close>

text \<open>\<open>strconv.ParseBool\<close> of a text in lower case.\<close>

definition parse_bool :: "string \<Rightarrow> bool option" where
  "parse_bool s = (if s \<in> {''1'', ''t'', ''true''} then Some True else if s \<in> {''0'', ''f'', ''false''} then Some False else None)"

text \<open>\<open>base64.StdEncoding.DecodeString\<close>: newlines are ignored, padding is required and ends the text.\<close>

definition b64_value :: "char \<Rightarrow> nat option" where
  "b64_value c =
     (let b = byte c in
      if 65 \<le> b \<and> b \<le> 90 then Some (b - 65) else if 97 \<le> b \<and> b \<le> 122 then Some (b - 71)
      else if 48 \<le> b \<and> b \<le> 57 then Some (b + 4) else if b = 43 then Some 62 else if b = 47 then Some 63 else None)"

abbreviation "b64_pad \<equiv> CHR ''=''"

definition b64_bytes :: "nat \<Rightarrow> nat \<Rightarrow> nat \<Rightarrow> nat \<Rightarrow> string" where
  "b64_bytes p q r s = [chr (p * 4 + q div 16), chr (q mod 16 * 16 + r div 4), chr (r mod 4 * 64 + s)]"

fun b64_quanta :: "string \<Rightarrow> string option" where
  "b64_quanta [] = Some []"
| "b64_quanta (a # b # c # d # rest) =
     (case (b64_value a, b64_value b) of
        (Some p, Some q) \<Rightarrow>
          if c = b64_pad then (if d = b64_pad \<and> rest = [] then Some (take 1 (b64_bytes p q 0 0)) else None)
          else
            (case b64_value c of
               None \<Rightarrow> None
             | Some r \<Rightarrow>
                 if d = b64_pad then (if rest = [] then Some (take 2 (b64_bytes p q r 0)) else None)
                 else (case b64_value d of None \<Rightarrow> None | Some s \<Rightarrow> map_option (\<lambda>t. b64_bytes p q r s @ t) (b64_quanta rest)))
      | _ \<Rightarrow> None)"
| "b64_quanta _ = None"

definition base64_decode :: "string \<Rightarrow> string option" where
  "base64_decode s = b64_quanta (filter (\<lambda>c. c \<noteq> chr 10 \<and> c \<noteq> chr 13) s)"

section \<open>Values\<close>

text \<open>The dynamic type of a decoded value; \<open>LocalDate\<close> and its kin keep the time and the text.\<close>

datatype 'f decoded =
    VNil | VBool bool | VInt64 int | VFloat64 'f | VDecimal string | VString string
  | VLocalDate go_time string | VLocalTime go_time string | VLocalTimestamp go_time string | VTimestampLTZ go_time string
  | VBytes string | VRaw string | VList "'f decoded list" | VMap "(string \<times> 'f decoded) list" | VTime go_time

record 'f decoder_env =
  parse_float :: "string \<Rightarrow> 'f option"
  range_fields :: "(string \<times> string) list \<Rightarrow> (string \<times> string) list"

definition decodeError :: "string \<Rightarrow> logical_type \<Rightarrow> goerr \<Rightarrow> goerr" where
  "decodeError name ty cause = Errorf ''flinksqlgateway: decode column %q as %s: %w'' [ArgText name, ArgText (ltType ty), ArgWrap cause]"

definition lib_error :: "string \<Rightarrow> string \<Rightarrow> goerr" where
  "lib_error f s = Errorf f [ArgText s]"

definition quotedText :: "string \<Rightarrow> (goerr, string) result" where
  "quotedText raw =
     (case parse_json raw of
        Some (JStr s) \<Rightarrow> Inr s
      | Some JNull \<Rightarrow> Inr []
      | _ \<Rightarrow> Inl (lib_error ''json.Unmarshal'' raw))"

definition scalarText :: "string \<Rightarrow> (goerr, string) result" where
  "scalarText raw = (if raw \<noteq> [] \<and> hd raw = quot then quotedText raw else Inr raw)"

definition validJSONNumber :: "string \<Rightarrow> bool" where
  "validJSONNumber s = (case parse_json s of Some (JNum _) \<Rightarrow> True | _ \<Rightarrow> False)"

section \<open>Times\<close>

text \<open>The first layout that fits.\<close>

fun first_layout :: "chunk list list \<Rightarrow> string \<Rightarrow> go_time option" where
  "first_layout [] s = None"
| "first_layout (l # ls) s = (case time_Parse l s of Some t \<Rightarrow> Some t | None \<Rightarrow> first_layout ls s)"

abbreviation "stamp_layout ch \<equiv> date_layout @ [Lit ch] @ clock_layout"

definition parseLocalTime :: "string \<Rightarrow> (goerr, go_time) result" where
  "parseLocalTime s =
     (case first_layout [clock_layout @ [Fraction], clock_layout] s of
        Some t \<Rightarrow> Inr t | None \<Rightarrow> Inl (Errorf ''invalid TIME value'' []))"

definition parseLocalTimestamp :: "string \<Rightarrow> (goerr, go_time) result" where
  "parseLocalTimestamp s =
     (case first_layout [stamp_layout (CHR '' '') @ [Fraction], stamp_layout (CHR '' ''),
          stamp_layout (CHR ''T'') @ [Fraction], stamp_layout (CHR ''T'')] s of
        Some t \<Rightarrow> Inr t | None \<Rightarrow> Inl (Errorf ''invalid TIMESTAMP value'' []))"

definition parseTimestampLTZ :: "string \<Rightarrow> (goerr, go_time) result" where
  "parseTimestampLTZ s =
     (case first_layout [stamp_layout (CHR ''T'') @ [Fraction, Zone], stamp_layout (CHR '' '') @ [Fraction, Zone],
          stamp_layout (CHR '' '') @ [Zone]] s of
        Some t \<Rightarrow> Inr t
      | None \<Rightarrow> (case parseLocalTimestamp s of Inr t \<Rightarrow> Inr t | Inl _ \<Rightarrow> Inl (Errorf ''invalid TIMESTAMP_LTZ value'' [])))"

section \<open>Scalars\<close>

definition of_option :: "string \<Rightarrow> string \<Rightarrow> 'a option \<Rightarrow> (goerr, 'a) result" where
  "of_option f s z = (case z of None \<Rightarrow> Inl (lib_error f s) | Some x \<Rightarrow> Inr x)"

definition with_text :: "(go_time \<Rightarrow> string \<Rightarrow> 'f decoded) \<Rightarrow> (string \<Rightarrow> (goerr, go_time) result) \<Rightarrow> string \<Rightarrow> (goerr, 'f decoded) result" where
  "with_text con parse raw = and_then (quotedText raw) (\<lambda>s. and_then (parse s) (\<lambda>t. Inr (con t s)))"

text \<open>The cases of the \<open>switch\<close> on the type name that are not nested; no case is \<open>None\<close>.\<close>

definition decode_scalar :: "'f decoder_env \<Rightarrow> string \<Rightarrow> string \<Rightarrow> (goerr, 'f decoded) result option" where
  "decode_scalar env typeName raw =
     (if typeName = ''BOOLEAN'' then
        Some (and_then (scalarText raw) (\<lambda>s. map_sum id VBool (of_option ''strconv.ParseBool'' s (parse_bool (to_lower s)))))
      else if typeName \<in> {''TINYINT'', ''SMALLINT'', ''INTEGER'', ''INT'', ''BIGINT''} then
        Some (and_then (scalarText raw) (\<lambda>s. map_sum id VInt64 (of_option ''strconv.ParseInt'' s (atoi s))))
      else if typeName \<in> {''FLOAT'', ''DOUBLE''} then
        Some (and_then (scalarText raw) (\<lambda>s. map_sum id VFloat64 (of_option ''strconv.ParseFloat'' s (parse_float env s))))
      else if typeName = ''DECIMAL'' then
        Some (and_then (scalarText raw) (\<lambda>s. if validJSONNumber s then Inr (VDecimal s) else Inl (Errorf ''invalid decimal'' [])))
      else if typeName \<in> {''CHAR'', ''VARCHAR'', ''STRING''} then Some (map_sum id VString (quotedText raw))
      else if typeName = ''DATE'' then Some (with_text VLocalDate (\<lambda>s. of_option ''time.Parse'' s (time_Parse date_layout s)) raw)
      else if typeName \<in> {''TIME'', ''TIME_WITHOUT_TIME_ZONE''} then Some (with_text VLocalTime parseLocalTime raw)
      else if typeName \<in> {''TIMESTAMP'', ''TIMESTAMP_WITHOUT_TIME_ZONE''} then Some (with_text VLocalTimestamp parseLocalTimestamp raw)
      else if typeName \<in> {''TIMESTAMP_LTZ'', ''TIMESTAMP_WITH_LOCAL_TIME_ZONE''} then Some (with_text VTimestampLTZ parseTimestampLTZ raw)
      else if typeName \<in> {''BINARY'', ''VARBINARY'', ''BYTES''} then
        Some (and_then (quotedText raw) (\<lambda>s. map_sum id VBytes (of_option ''base64.DecodeString'' s (base64_decode s))))
      else None)"

section \<open>Nested values\<close>

text \<open>\<open>json.Unmarshal\<close> into \<open>[]json.RawMessage\<close> and into \<open>map[string]json.RawMessage\<close>, where the last member of a name
  stays.\<close>

definition raw_elements :: "string \<Rightarrow> string list option" where
  "raw_elements raw = (case parse_raw raw of Some (RArr _ xs) \<Rightarrow> Some (map raw_text xs) | Some x \<Rightarrow> if is_null x then Some [] else None | None \<Rightarrow> None)"

definition raw_members :: "string \<Rightarrow> (string \<times> string) list option" where
  "raw_members raw =
     (case parse_raw raw of
        Some (RObj _ kvs) \<Rightarrow> Some (AList.clearjunk (rev (map (apsnd raw_text) kvs)))
      | Some x \<Rightarrow> if is_null x then Some [] else None
      | None \<Rightarrow> None)"

definition field_type :: "logical_type_field \<Rightarrow> logical_type option" where
  "field_type f = (case fieldLogicalType f of Some t \<Rightarrow> Some t | None \<Rightarrow> fieldType f)"

definition type_name :: "logical_type \<Rightarrow> string" where
  "type_name ty = to_upper (trim_space (ltType ty))"

lemma map_result_cong [fundef_cong]:
  "xs = ys \<Longrightarrow> (\<And>x. x \<in> set ys \<Longrightarrow> f x = g x) \<Longrightarrow> map_result f xs = map_result g ys"
  by (induction ys arbitrary: xs) auto

lemma size_ElementType: "ElementType ty = Some t \<Longrightarrow> size t < size ty"
  by (cases ty) simp

lemma size_ValueType: "ValueType ty = Some t \<Longrightarrow> size t < size ty"
  by (cases ty) simp

lemma size_type_of_field: "field_type f = Some t \<Longrightarrow> size t < size f"
  by (cases f) (auto simp: field_type_def split: option.splits)

lemma zip_field: "(a, Some f) \<in> set (zip xs (map Some fs @ replicate n None)) \<Longrightarrow> f \<in> set fs"
  by (drule set_zip_rightD) auto

lemma size_field_type: "f \<in> set (ltFields ty) \<Longrightarrow> field_type f = Some t \<Longrightarrow> size t < size ty"
proof (cases ty)
  case (LogicalType a b c d e g h i j k fs l)
  assume "f \<in> set (ltFields ty)" "field_type f = Some t"
  moreover have "field_type f = Some t \<Longrightarrow> size t < size f" by (rule size_type_of_field)
  moreover have "f \<in> set fs \<Longrightarrow> size f < Suc (size_list size fs)" by (induction fs) auto
  ultimately show ?thesis using LogicalType by simp
qed

lemma size_zip_field:
  "(a, Some f) \<in> set (zip xs (map Some (ltFields ty) @ replicate n None)) \<Longrightarrow> field_type f = Some t \<Longrightarrow> size t < size ty"
  using zip_field size_field_type by metis

text \<open>A member of a ROW object that has a type, and an element of a ROW array; \<open>dec\<close> decodes a field of that type.\<close>

definition overlay :: "(string \<times> 'f decoded) list \<Rightarrow> (string \<times> 'f decoded) option list \<Rightarrow> (string \<times> 'f decoded) list" where
  "overlay base changes = foldl (\<lambda>m z. case z of None \<Rightarrow> m | Some (k, v) \<Rightarrow> AList.update k v m) base changes"

definition decodeArray :: "(string \<Rightarrow> logical_type \<Rightarrow> string \<Rightarrow> (goerr, 'f decoded) result) \<Rightarrow> string \<Rightarrow> logical_type \<Rightarrow> string \<Rightarrow> (goerr, 'f decoded) result" where
  "decodeArray dec name ty raw =
     (case raw_elements raw of
        None \<Rightarrow> Inl (decodeError name ty (lib_error ''json.Unmarshal'' raw))
      | Some xs \<Rightarrow>
          (case ElementType ty of
             None \<Rightarrow> Inr (VList (map VRaw xs))
           | Some et \<Rightarrow> map_sum id VList (map_result (\<lambda>x. dec [] et x) xs)))"

definition decodeMap :: "'f decoder_env \<Rightarrow> (string \<Rightarrow> logical_type \<Rightarrow> string \<Rightarrow> (goerr, 'f decoded) result) \<Rightarrow> logical_type \<Rightarrow> string \<Rightarrow> (goerr, 'f decoded) result" where
  "decodeMap env dec ty raw =
     (case raw_members raw of
        None \<Rightarrow> Inr (VRaw raw)
      | Some kvs \<Rightarrow>
          (case ValueType ty of
             None \<Rightarrow> Inr (VMap (map (apsnd VRaw) kvs))
           | Some vt \<Rightarrow> map_sum id VMap (map_result (\<lambda>kv. map_sum id (Pair (fst kv)) (dec [] vt (snd kv))) (range_fields env kvs))))"

text \<open>A declared field of a ROW written as an object, and an element of a ROW written as an array with the field declared for
  its place.\<close>

definition row_member :: "(string \<Rightarrow> logical_type \<Rightarrow> string \<Rightarrow> (goerr, 'f decoded) result) \<Rightarrow> (string \<times> string) list \<Rightarrow> logical_type_field
    \<Rightarrow> (goerr, (string \<times> 'f decoded) option) result" where
  "row_member dec kvs f =
     (case map_of kvs (fieldName f) of None \<Rightarrow> Inr None
      | Some x \<Rightarrow>
          (case field_type f of
             None \<Rightarrow> Inr (Some (fieldName f, VRaw x))
           | Some ft \<Rightarrow> map_sum id (\<lambda>v. Some (fieldName f, v)) (dec (fieldName f) ft x)))"

definition row_element :: "(string \<Rightarrow> logical_type \<Rightarrow> string \<Rightarrow> (goerr, 'f decoded) result) \<Rightarrow> string \<times> logical_type_field option
    \<Rightarrow> (goerr, 'f decoded) result" where
  "row_element dec xf =
     (case snd xf of None \<Rightarrow> Inr (VRaw (fst xf))
      | Some f \<Rightarrow>
          (case field_type f of
             None \<Rightarrow> Inr (VRaw (fst xf))
           | Some ft \<Rightarrow> dec (fieldName f) ft (fst xf)))"

definition decodeNestedRow :: "(string \<Rightarrow> logical_type \<Rightarrow> string \<Rightarrow> (goerr, 'f decoded) result) \<Rightarrow> string \<Rightarrow> logical_type \<Rightarrow> string \<Rightarrow> (goerr, 'f decoded) result" where
  "decodeNestedRow dec name ty raw =
     (if raw \<noteq> [] \<and> hd raw = CHR ''{'' then
        (case raw_members raw of
           None \<Rightarrow> Inl (decodeError name ty (lib_error ''json.Unmarshal'' raw))
         | Some kvs \<Rightarrow> map_sum id (\<lambda>zs. VMap (overlay (map (apsnd VRaw) kvs) zs)) (map_result (row_member dec kvs) (ltFields ty)))
      else
        (case raw_elements raw of
           None \<Rightarrow> Inl (decodeError name ty (lib_error ''json.Unmarshal'' raw))
         | Some xs \<Rightarrow> map_sum id VList (map_result (row_element dec) (zip xs (map Some (ltFields ty) @ replicate (length xs) None)))))"

text \<open>The parts decode at smaller types only.\<close>

lemma decodeArray_cong [fundef_cong]:
  "name = name' \<Longrightarrow> ty = ty' \<Longrightarrow> raw = raw' \<Longrightarrow> (\<And>n t x. size t < size ty' \<Longrightarrow> dec n t x = dec' n t x) \<Longrightarrow>
    decodeArray dec name ty raw = decodeArray dec' name' ty' raw'"
  by (auto simp: decodeArray_def size_ElementType intro!: arg_cong[where f = "map_sum _ _"] map_result_cong split: option.split)

lemma decodeMap_cong [fundef_cong]:
  "env = env' \<Longrightarrow> ty = ty' \<Longrightarrow> raw = raw' \<Longrightarrow> (\<And>n t x. size t < size ty' \<Longrightarrow> dec n t x = dec' n t x) \<Longrightarrow>
    decodeMap env dec ty raw = decodeMap env' dec' ty' raw'"
  by (auto simp: decodeMap_def size_ValueType split: option.split)

lemma decodeNestedRow_cong [fundef_cong]:
  assumes "name = name'" "ty = ty'" "raw = raw'" and dec: "\<And>n t x. size t < size ty' \<Longrightarrow> dec n t x = dec' n t x"
  shows "decodeNestedRow dec name ty raw = decodeNestedRow dec' name' ty' raw'"
proof -
  have "row_member dec kvs f = row_member dec' kvs f" if "f \<in> set (ltFields ty)" for kvs f
    using that assms size_field_type by (auto simp: row_member_def split: option.split)
  moreover have "row_element dec (a, b) = row_element dec' (a, b)" if "(a, b) \<in> set (zip xs (map Some (ltFields ty) @ replicate n None))" for a b xs n
    using that assms(2) dec size_zip_field[of a _ xs ty n] by (auto simp: row_element_def split: option.split)
  ultimately show ?thesis using assms(1-3)
    by (auto simp: decodeNestedRow_def intro!: arg_cong[where f = "map_sum _ _"] map_result_cong split: option.split)
qed

function Decode :: "'f decoder_env \<Rightarrow> string \<Rightarrow> logical_type \<Rightarrow> string \<Rightarrow> (goerr, 'f decoded) result" where
  "Decode env name ty raw =
     (let trimmed = trim_space raw; typeName = type_name ty in
      case validateRawJSONField trimmed of
        Some err \<Rightarrow> Inl (decodeError name ty err)
      | None \<Rightarrow>
          if trimmed = ''null'' then Inr VNil
          else
            (case decode_scalar env typeName trimmed of
               Some (Inl err) \<Rightarrow> Inl (decodeError name ty err)
             | Some (Inr v) \<Rightarrow> Inr v
             | None \<Rightarrow>
                 if typeName = ''ARRAY'' then decodeArray (\<lambda>n t x. Decode env n t x) name ty trimmed
                 else if typeName \<in> {''MAP'', ''MULTISET''} then decodeMap env (\<lambda>n t x. Decode env n t x) ty trimmed
                 else if typeName \<in> {''ROW'', ''STRUCTURED_TYPE''} then decodeNestedRow (\<lambda>n t x. Decode env n t x) name ty trimmed
                 else Inr (VRaw trimmed)))"
  by pat_completeness auto
termination
  by (relation "measure (\<lambda>(env, name, ty, raw). size ty)") auto

declare Decode.simps [simp del]

section \<open>Typed access\<close>

definition ValueAt :: "(column_info \<Rightarrow> string \<Rightarrow> (goerr, 'f decoded) result) \<Rightarrow> row_accessor \<Rightarrow> int \<Rightarrow> (goerr, 'f decoded option) result" where
  "ValueAt dec acc index =
     (if index < 0 \<or> index \<ge> int (length (Fields (accRow acc))) \<or> index \<ge> int (length (accColumns acc))
      then Inl (Errorf ''flinksqlgateway: column index %d is out of range'' [ArgText (itoa index)])
      else let raw = Fields (accRow acc) ! nat index in
        case validateRawJSONField raw of
          Some err \<Rightarrow> Inl (Errorf ''flinksqlgateway: column index %d has an invalid field: %w'' [ArgText (itoa index), ArgWrap err])
        | None \<Rightarrow> if trim_space raw = ''null'' then Inr None else map_sum id Some (dec (accColumns acc ! nat index) raw))"

definition Value :: "(column_info \<Rightarrow> string \<Rightarrow> (goerr, 'f decoded) result) \<Rightarrow> row_accessor \<Rightarrow> string \<Rightarrow> (goerr, 'f decoded option) result" where
  "Value dec acc name = and_then (columnIndex acc name) (\<lambda>index. ValueAt dec acc (int index))"

text \<open>\<open>%T\<close> of a value.\<close>

definition go_type :: "'f decoded \<Rightarrow> string" where
  "go_type v =
     (case v of VNil \<Rightarrow> ''<nil>'' | VBool _ \<Rightarrow> ''bool'' | VInt64 _ \<Rightarrow> ''int64'' | VFloat64 _ \<Rightarrow> ''float64''
      | VDecimal _ \<Rightarrow> ''flinksqlgateway.Decimal'' | VString _ \<Rightarrow> ''string'' | VLocalDate _ _ \<Rightarrow> ''flinksqlgateway.LocalDate''
      | VLocalTime _ _ \<Rightarrow> ''flinksqlgateway.LocalTime'' | VLocalTimestamp _ _ \<Rightarrow> ''flinksqlgateway.LocalTimestamp''
      | VTimestampLTZ _ _ \<Rightarrow> ''flinksqlgateway.TimestampLTZ'' | VBytes _ \<Rightarrow> ''[]uint8'' | VRaw _ \<Rightarrow> ''json.RawMessage''
      | VList _ \<Rightarrow> ''[]interface {}'' | VMap _ \<Rightarrow> ''map[string]interface {}'' | VTime _ \<Rightarrow> ''time.Time'')"

definition typeMismatch :: "string \<Rightarrow> string \<Rightarrow> 'f decoded \<Rightarrow> goerr" where
  "typeMismatch name expected v =
     Errorf ''flinksqlgateway: column %q decoded as %T, want %s'' [ArgText name, ArgText (go_type v), ArgText expected]"

text \<open>A typed accessor: \<open>pick\<close> is its type assertion; \<open>None\<close> is SQL NULL.\<close>

definition typed :: "string \<Rightarrow> ('f decoded \<Rightarrow> 'a option) \<Rightarrow> (column_info \<Rightarrow> string \<Rightarrow> (goerr, 'f decoded) result) \<Rightarrow> row_accessor \<Rightarrow> string
    \<Rightarrow> (goerr, 'a option) result" where
  "typed expected pick dec acc name =
     and_then (Value dec acc name) (\<lambda>z. case z of None \<Rightarrow> Inr None | Some v \<Rightarrow>
       (case pick v of Some x \<Rightarrow> Inr (Some x) | None \<Rightarrow> Inl (typeMismatch name expected v)))"

definition acc_String where "acc_String = typed ''string'' (\<lambda>v. case v of VString s \<Rightarrow> Some s | _ \<Rightarrow> None)"
definition acc_Int64 where "acc_Int64 = typed ''int64'' (\<lambda>v. case v of VInt64 n \<Rightarrow> Some n | _ \<Rightarrow> None)"
definition acc_Bool where "acc_Bool = typed ''bool'' (\<lambda>v. case v of VBool b \<Rightarrow> Some b | _ \<Rightarrow> None)"
definition acc_Decimal where "acc_Decimal = typed ''Decimal'' (\<lambda>v. case v of VDecimal s \<Rightarrow> Some s | _ \<Rightarrow> None)"
definition acc_Time where
  "acc_Time = typed ''temporal value'' (\<lambda>v. case v of VLocalDate t _ \<Rightarrow> Some t | VLocalTime t _ \<Rightarrow> Some t
     | VLocalTimestamp t _ \<Rightarrow> Some t | VTimestampLTZ t _ \<Rightarrow> Some t | VTime t \<Rightarrow> Some t | _ \<Rightarrow> None)"

text \<open>The accessor with the default decoder.\<close>

definition default_decoder :: "'f decoder_env \<Rightarrow> column_info \<Rightarrow> string \<Rightarrow> (goerr, 'f decoded) result" where
  "default_decoder env col raw = Decode env (colName col) (colLogicalType col) raw"

section \<open>What a decoded value may be\<close>

abbreviation int64 :: "int \<Rightarrow> bool" where
  "int64 n \<equiv> - (2 ^ 63) \<le> n \<and> n < 2 ^ 63"

definition local_time :: "go_time \<Rightarrow> bool" where
  "local_time t = (time_ok t \<and> tOffset t = 0)"

definition no_clock :: "go_time \<Rightarrow> bool" where
  "no_clock t = (tHour t = 0 \<and> tMin t = 0 \<and> tSec t = 0 \<and> tNsec t = 0)"

definition no_date :: "go_time \<Rightarrow> bool" where
  "no_date t = (tYear t = 0 \<and> tMonth t = 1 \<and> tDay t = 1)"

text \<open>The values of a scalar type.\<close>

definition scalar_ok :: "string \<Rightarrow> 'f decoded \<Rightarrow> bool" where
  "scalar_ok typeName v =
     (case v of
        VBool b \<Rightarrow> typeName = ''BOOLEAN''
      | VInt64 n \<Rightarrow> typeName \<in> {''TINYINT'', ''SMALLINT'', ''INTEGER'', ''INT'', ''BIGINT''} \<and> int64 n
      | VFloat64 x \<Rightarrow> typeName \<in> {''FLOAT'', ''DOUBLE''}
      | VDecimal s \<Rightarrow> typeName = ''DECIMAL'' \<and> validJSONNumber s
      | VString s \<Rightarrow> typeName \<in> {''CHAR'', ''VARCHAR'', ''STRING''}
      | VLocalDate t s \<Rightarrow> typeName = ''DATE'' \<and> local_time t \<and> no_clock t
      | VLocalTime t s \<Rightarrow> typeName \<in> {''TIME'', ''TIME_WITHOUT_TIME_ZONE''} \<and> local_time t \<and> no_date t
      | VLocalTimestamp t s \<Rightarrow> typeName \<in> {''TIMESTAMP'', ''TIMESTAMP_WITHOUT_TIME_ZONE''} \<and> local_time t
      | VTimestampLTZ t s \<Rightarrow> typeName \<in> {''TIMESTAMP_LTZ'', ''TIMESTAMP_WITH_LOCAL_TIME_ZONE''} \<and> time_ok t
      | VBytes s \<Rightarrow> typeName \<in> {''BINARY'', ''VARBINARY'', ''BYTES''}
      | _ \<Rightarrow> False)"

definition nested_types :: "string set" where
  "nested_types = {''ARRAY'', ''MAP'', ''MULTISET'', ''ROW'', ''STRUCTURED_TYPE''}"

definition scalar_types :: "string set" where
  "scalar_types = {''BOOLEAN'', ''TINYINT'', ''SMALLINT'', ''INTEGER'', ''INT'', ''BIGINT'', ''FLOAT'', ''DOUBLE'', ''DECIMAL'', ''CHAR'', ''VARCHAR'', ''STRING'',
     ''DATE'', ''TIME'', ''TIME_WITHOUT_TIME_ZONE'', ''TIMESTAMP'', ''TIMESTAMP_WITHOUT_TIME_ZONE'', ''TIMESTAMP_LTZ'',
     ''TIMESTAMP_WITH_LOCAL_TIME_ZONE'', ''BINARY'', ''VARBINARY'', ''BYTES''}"

fun is_raw :: "'f decoded \<Rightarrow> bool" where
  "is_raw (VRaw s) = True"
| "is_raw _ = False"

text \<open>The values of a type: the element, value and field types are obeyed all the way down, and a part that has no declared
  type stays raw.\<close>

inductive conforms :: "logical_type \<Rightarrow> 'f decoded \<Rightarrow> bool" where
  c_null: "conforms ty VNil"
| c_scalar: "scalar_ok (type_name ty) v \<Longrightarrow> conforms ty v"
| c_unknown: "type_name ty \<notin> scalar_types \<union> nested_types \<Longrightarrow> conforms ty (VRaw s)"
| c_raw_array: "type_name ty = ''ARRAY'' \<Longrightarrow> ElementType ty = None \<Longrightarrow> list_all is_raw vs \<Longrightarrow> conforms ty (VList vs)"
| c_array: "type_name ty = ''ARRAY'' \<Longrightarrow> ElementType ty = Some et \<Longrightarrow> (\<And>v. v \<in> set vs \<Longrightarrow> conforms et v) \<Longrightarrow> conforms ty (VList vs)"
| c_no_object: "type_name ty \<in> {''MAP'', ''MULTISET''} \<Longrightarrow> conforms ty (VRaw s)"
| c_raw_map: "type_name ty \<in> {''MAP'', ''MULTISET''} \<Longrightarrow> ValueType ty = None \<Longrightarrow> list_all (is_raw \<circ> snd) kvs \<Longrightarrow> conforms ty (VMap kvs)"
| c_map: "type_name ty \<in> {''MAP'', ''MULTISET''} \<Longrightarrow> ValueType ty = Some vt \<Longrightarrow> (\<And>k v. (k, v) \<in> set kvs \<Longrightarrow> conforms vt v) \<Longrightarrow> conforms ty (VMap kvs)"
| c_row: "type_name ty \<in> {''ROW'', ''STRUCTURED_TYPE''} \<Longrightarrow>
    (\<And>k v. (k, v) \<in> set kvs \<Longrightarrow>
       is_raw v \<and> (k \<notin> fieldName ` set (ltFields ty) \<or> (\<exists>f \<in> set (ltFields ty). fieldName f = k \<and> field_type f = None)) \<or>
       (\<exists>f ft. f \<in> set (ltFields ty) \<and> fieldName f = k \<and> field_type f = Some ft \<and> conforms ft v)) \<Longrightarrow> conforms ty (VMap kvs)"
| c_row_array: "type_name ty \<in> {''ROW'', ''STRUCTURED_TYPE''} \<Longrightarrow>
    (\<And>i. i < length vs \<Longrightarrow>
       is_raw (vs ! i) \<and> (i < length (ltFields ty) \<longrightarrow> field_type (ltFields ty ! i) = None) \<or>
       (\<exists>ft. i < length (ltFields ty) \<and> field_type (ltFields ty ! i) = Some ft \<and> conforms ft (vs ! i))) \<Longrightarrow> conforms ty (VList vs)"

lemma atoi_int64: "atoi s = Some n \<Longrightarrow> int64 n"
  by (auto simp: atoi_def Let_def split: list.splits if_splits prod.splits)

lemma of_atoi: "of_option f s (atoi s) = Inr n \<Longrightarrow> int64 n"
  by (rule atoi_int64) (simp add: of_option_def split: option.splits)

text \<open>The parts of a time a layout does not mention keep their zero values.\<close>

fun sets_date :: "chunk \<Rightarrow> bool" where
  "sets_date c = (c = Year \<or> c = Month \<or> c = Day)"

fun sets_clock :: "chunk \<Rightarrow> bool" where
  "sets_clock c = (c = Hour \<or> c = Minute \<or> c = Second \<or> c = Fraction)"

lemma step_chunk_keeps:
  assumes "step_chunk c cs s t = Some (t1, r)"
  shows "\<not> sets_date c \<Longrightarrow> no_date t \<Longrightarrow> no_date t1" "\<not> sets_clock c \<Longrightarrow> no_clock t \<Longrightarrow> no_clock t1" "c \<noteq> Zone \<Longrightarrow> tOffset t1 = tOffset t"
  using assms by (cases c; auto simp: step_chunk_def no_date_def no_clock_def split: option.splits if_splits prod.splits)+

lemma run_layout_keeps:
  "run_layout cs s t = Some t1 \<Longrightarrow> (list_all (\<lambda>c. \<not> sets_date c) cs \<longrightarrow> no_date t \<longrightarrow> no_date t1) \<and>
     (list_all (\<lambda>c. \<not> sets_clock c) cs \<longrightarrow> no_clock t \<longrightarrow> no_clock t1) \<and> (Zone \<notin> set cs \<longrightarrow> tOffset t1 = tOffset t)"
proof (induction cs s t rule: run_layout.induct)
  case (2 c cs s t)
  then obtain t2 r where s: "step_chunk c cs s t = Some (t2, r)" "run_layout cs r t2 = Some t1" by (auto split: option.splits)
  show ?case using "2.IH"[OF s(1) refl s(2)] step_chunk_keeps[OF s(1)] by auto
qed (auto split: if_splits)

lemma time_Parse_keeps:
  assumes "time_Parse cs s = Some t"
  shows "list_all (\<lambda>c. \<not> sets_date c) cs \<Longrightarrow> no_date t" "list_all (\<lambda>c. \<not> sets_clock c) cs \<Longrightarrow> no_clock t" "Zone \<notin> set cs \<Longrightarrow> local_time t" "time_ok t"
  using assms run_layout_keeps[of cs s unparsed t] time_Parse_ok[OF assms]
  by (auto simp: time_Parse_def local_time_def unparsed_def no_date_def no_clock_def split: option.splits if_splits)

lemma first_layout_from: "first_layout ls s = Some t \<Longrightarrow> \<exists>l \<in> set ls. time_Parse l s = Some t"
  by (induction ls s rule: first_layout.induct) (auto split: option.splits)

lemma first_layout_ok: "first_layout ls s = Some t \<Longrightarrow> time_ok t"
  by (drule first_layout_from) (auto dest: time_Parse_keeps)

lemma first_layout_local: "first_layout ls s = Some t \<Longrightarrow> list_all (\<lambda>l. Zone \<notin> set l) ls \<Longrightarrow> local_time t"
  by (drule first_layout_from) (auto simp: list_all_iff dest: time_Parse_keeps(3))

lemma parseLocalTime_ok: "parseLocalTime s = Inr t \<Longrightarrow> local_time t \<and> no_date t"
  by (auto simp: parseLocalTime_def dest!: first_layout_from dest: time_Parse_keeps split: option.splits)

lemma parseLocalTimestamp_ok:
  assumes "parseLocalTimestamp s = Inr t"
  shows "local_time t"
  using assms unfolding parseLocalTimestamp_def by (simp del: first_layout.simps split: option.splits) (erule first_layout_local, simp)

lemma parseTimestampLTZ_ok:
  assumes "parseTimestampLTZ s = Inr t"
  shows "time_ok t"
proof (cases "parseLocalTimestamp s = Inr t")
  case True
  then show ?thesis using parseLocalTimestamp_ok by (simp add: local_time_def)
next
  case False
  then show ?thesis
    using assms unfolding parseTimestampLTZ_def by (simp del: first_layout.simps split: option.splits sum.splits) (erule first_layout_ok)
qed

lemma map_sum_and_then: "and_then r (\<lambda>x. map_sum id f (g x)) = map_sum id f (and_then r g)"
  by (cases r) simp_all

lemma and_then_Inr: "and_then r f = Inr v \<longleftrightarrow> (\<exists>x. r = Inr x \<and> f x = Inr v)"
  by (cases r) simp_all

lemma map_sum_Inr: "map_sum f g r = Inr v \<longleftrightarrow> (\<exists>x. r = Inr x \<and> v = g x)"
  by (cases r) auto

lemma of_option_Inr: "of_option f s z = Inr x \<longleftrightarrow> z = Some x"
  by (simp add: of_option_def split: option.splits)

lemma decode_scalar_None: "decode_scalar env tn raw = None \<longleftrightarrow> tn \<notin> scalar_types"
  unfolding decode_scalar_def scalar_types_def by (simp split: if_splits)

lemma parse_date_ok: "time_Parse date_layout s = Some t \<Longrightarrow> local_time t \<and> no_clock t"
  by (intro conjI; erule time_Parse_keeps) simp_all

lemma with_text_Inr: "with_text con parse raw = Inr v \<Longrightarrow> \<exists>t s. v = con t s \<and> parse s = Inr t"
  by (auto simp: with_text_def and_then_Inr)

lemmas scalar_results = and_then_Inr map_sum_Inr of_option_Inr

lemma scalar_types_cases:
  "tn \<in> scalar_types \<Longrightarrow> tn \<in> {''TIME'', ''TIME_WITHOUT_TIME_ZONE''} \<or> tn \<in> {''TIMESTAMP'', ''TIMESTAMP_WITHOUT_TIME_ZONE''} \<or>
     tn \<in> {''TIMESTAMP_LTZ'', ''TIMESTAMP_WITH_LOCAL_TIME_ZONE''} \<or> tn = ''DATE'' \<or> tn = ''BOOLEAN'' \<or>
     tn \<in> {''TINYINT'', ''SMALLINT'', ''INTEGER'', ''INT'', ''BIGINT''} \<or> tn \<in> {''FLOAT'', ''DOUBLE''} \<or> tn = ''DECIMAL'' \<or>
     tn \<in> {''CHAR'', ''VARCHAR'', ''STRING''} \<or> tn \<in> {''BINARY'', ''VARBINARY'', ''BYTES''}"
  unfolding scalar_types_def by (simp only: insert_iff empty_iff) argo

lemma decode_scalar_ok:
  assumes d: "decode_scalar env tn raw = Some (Inr v)"
  shows "scalar_ok tn v"
proof -
  have "tn \<in> scalar_types" using assms decode_scalar_None[of env tn raw] by fastforce
  then show ?thesis
  proof (elim scalar_types_cases[elim_format] disjE)
    assume "tn \<in> {''TIME'', ''TIME_WITHOUT_TIME_ZONE''}"
    then show ?thesis using d by (auto simp: decode_scalar_def scalar_ok_def dest!: with_text_Inr parseLocalTime_ok)
  next
    assume "tn \<in> {''TIMESTAMP'', ''TIMESTAMP_WITHOUT_TIME_ZONE''}"
    then show ?thesis using d by (auto simp: decode_scalar_def scalar_ok_def dest!: with_text_Inr parseLocalTimestamp_ok)
  next
    assume "tn \<in> {''TIMESTAMP_LTZ'', ''TIMESTAMP_WITH_LOCAL_TIME_ZONE''}"
    then show ?thesis using d by (auto simp: decode_scalar_def scalar_ok_def dest!: with_text_Inr parseTimestampLTZ_ok)
  next
    assume "tn = ''DATE''"
    then show ?thesis using d by (auto simp: decode_scalar_def scalar_ok_def of_option_Inr dest!: with_text_Inr parse_date_ok)
  next
    assume t: "tn \<in> {''TINYINT'', ''SMALLINT'', ''INTEGER'', ''INT'', ''BIGINT''}"
    then have "map_sum id VInt64 (and_then (scalarText raw) (\<lambda>s. of_option ''strconv.ParseInt'' s (atoi s))) = Inr v"
      using d by (auto simp: decode_scalar_def map_sum_and_then)
    then show ?thesis using t by (auto simp: map_sum_Inr and_then_Inr scalar_ok_def dest!: of_atoi)
  next
    assume "tn = ''BOOLEAN''"
    then show ?thesis using d by (auto simp: decode_scalar_def scalar_ok_def scalar_results)
  next
    assume "tn \<in> {''FLOAT'', ''DOUBLE''}"
    then show ?thesis using d by (auto simp: decode_scalar_def scalar_ok_def scalar_results)
  next
    assume "tn = ''DECIMAL''"
    then show ?thesis using d by (auto simp: decode_scalar_def scalar_ok_def scalar_results split: if_splits)
  next
    assume "tn \<in> {''CHAR'', ''VARCHAR'', ''STRING''}"
    then show ?thesis using d by (auto simp: decode_scalar_def scalar_ok_def scalar_results)
  next
    assume "tn \<in> {''BINARY'', ''VARBINARY'', ''BYTES''}"
    then show ?thesis using d by (auto simp: decode_scalar_def scalar_ok_def scalar_results)
  qed
qed

lemma distinct_overlay: "distinct (map fst base) \<Longrightarrow> distinct (map fst (overlay base zs))"
  by (induction zs rule: rev_induct) (auto simp: overlay_def distinct_update split: option.splits)

lemma map_of_overlay:
  "map_of (overlay base zs) k = Some v \<Longrightarrow> Some (k, v) \<in> set zs \<or> ((\<forall>w. Some (k, w) \<notin> set zs) \<and> map_of base k = Some v)"
proof (induction zs rule: rev_induct)
  case (snoc z zs)
  then show ?case by (cases z) (auto simp: overlay_def update_conv' split: if_splits)
qed (simp add: overlay_def)

lemma list_all2_to: "list_all2 P xs ys \<Longrightarrow> x \<in> set xs \<Longrightarrow> \<exists>y \<in> set ys. P x y"
  by (metis in_set_conv_nth list_all2_conv_all_nth)

lemma list_all2_from: "list_all2 P xs ys \<Longrightarrow> y \<in> set ys \<Longrightarrow> \<exists>x \<in> set xs. P x y"
  by (metis in_set_conv_nth list_all2_conv_all_nth)

lemma raw_members_distinct: "raw_members raw = Some kvs \<Longrightarrow> distinct (map fst kvs)"
  by (auto simp: raw_members_def distinct_clearjunk split: option.splits rjson.splits if_splits)

lemma conforms_zip_row:
  assumes all: "list_all2 (\<lambda>xf v. row_element dec xf = Inr v) (zip xs (map Some (ltFields ty) @ replicate (length xs) None)) vs"
    and dec: "\<And>n ft x v. size ft < size ty \<Longrightarrow> dec n ft x = Inr v \<Longrightarrow> conforms ft v"
    and "type_name ty \<in> {''ROW'', ''STRUCTURED_TYPE''}"
  shows "conforms ty (VList vs)"
proof (rule c_row_array)
  fix i assume i: "i < length vs"
  define z where "z = (map Some (ltFields ty) @ replicate (length xs) None) ! i"
  have n: "i < length xs" using list_all2_lengthD[OF all] i by simp
  then have m: "i < length (map Some (ltFields ty) @ replicate (length xs) None)" by simp
  have r: "row_element dec (xs ! i, z) = Inr (vs ! i)"
    using list_all2_nthD2[OF all i, unfolded nth_zip[OF n m]] by (simp only: z_def)
  show "is_raw (vs ! i) \<and> (i < length (ltFields ty) \<longrightarrow> field_type (ltFields ty ! i) = None) \<or>
     (\<exists>ft. i < length (ltFields ty) \<and> field_type (ltFields ty ! i) = Some ft \<and> conforms ft (vs ! i))"
  proof (cases "i < length (ltFields ty)")
    case True
    then have "z = Some (ltFields ty ! i)" by (simp add: z_def nth_append)
    then show ?thesis using r True dec[OF size_field_type[of "ltFields ty ! i"]]
      by (cases "field_type (ltFields ty ! i)") (auto simp: row_element_def dest!: sym[of "VRaw _"])
  next
    case False
    then have "z = None" using n by (simp add: z_def nth_append)
    then show ?thesis using r False by (auto simp: row_element_def dest!: sym[of "VRaw _"])
  qed
qed (use assms(3) in simp)

lemma row_member_cases:
  assumes "row_member dec kvs f = Inr z"
  shows "(z = None \<and> map_of kvs (fieldName f) = None) \<or> (\<exists>x. z = Some (fieldName f, VRaw x) \<and> field_type f = None) \<or>
    (\<exists>ft x v. z = Some (fieldName f, v) \<and> field_type f = Some ft \<and> dec (fieldName f) ft x = Inr v)"
  using assms by (auto simp: row_member_def map_sum_Inr split: option.splits)

lemma map_of_raws: "map_of (map (apsnd VRaw) kvs) k = Some v \<Longrightarrow> \<exists>x. map_of kvs k = Some x \<and> v = VRaw x"
  by (induction kvs) (auto split: if_splits)

lemma conforms_overlay:
  assumes all: "list_all2 (\<lambda>f z. row_member dec kvs f = Inr z) (ltFields ty) zs" and d: "distinct (map fst kvs)"
    and dec: "\<And>n ft x v. size ft < size ty \<Longrightarrow> dec n ft x = Inr v \<Longrightarrow> conforms ft v"
    and t: "type_name ty \<in> {''ROW'', ''STRUCTURED_TYPE''}"
  shows "conforms ty (VMap (overlay (map (apsnd VRaw) kvs) zs))"
proof (rule c_row[OF t])
  fix k v assume "(k, v) \<in> set (overlay (map (apsnd VRaw) kvs) zs)"
  then have "map_of (overlay (map (apsnd VRaw) kvs) zs) k = Some v" using d by (simp add: distinct_overlay map_of_eq_Some_iff comp_def apsnd_def case_prod_beta)
  then consider (change) "Some (k, v) \<in> set zs" | (base) "\<forall>w. Some (k, w) \<notin> set zs" "map_of (map (apsnd VRaw) kvs) k = Some v"
    using map_of_overlay by fast
  then show "is_raw v \<and> (k \<notin> fieldName ` set (ltFields ty) \<or> (\<exists>f \<in> set (ltFields ty). fieldName f = k \<and> field_type f = None)) \<or>
       (\<exists>f ft. f \<in> set (ltFields ty) \<and> fieldName f = k \<and> field_type f = Some ft \<and> conforms ft v)"
  proof cases
    case change
    then obtain f where "f \<in> set (ltFields ty)" "row_member dec kvs f = Inr (Some (k, v))" using list_all2_from[OF all] by blast
    then show ?thesis using row_member_cases[of dec kvs f "Some (k, v)"] dec[OF size_field_type[of f ty]] by auto
  next
    case base
    have raw: "is_raw v" "map_of kvs k \<noteq> None" using map_of_raws[OF base(2)] by auto
    have "k \<notin> fieldName ` set (ltFields ty)"
    proof
      assume "k \<in> fieldName ` set (ltFields ty)"
      then obtain f z where f: "f \<in> set (ltFields ty)" "fieldName f = k" "z \<in> set zs" "row_member dec kvs f = Inr z"
        using list_all2_to[OF all] by blast
      then show False using row_member_cases[OF f(4)] raw base(1) by auto
    qed
    then show ?thesis using raw by simp
  qed
qed

lemma Decode_invalid: "validateRawJSONField (trim_space raw) = Some err \<Longrightarrow> Decode env name ty raw = Inl (decodeError name ty err)"
  by (subst Decode.simps) (simp add: Let_def)

lemma Decode_null: "trim_space raw = ''null'' \<Longrightarrow> validateRawJSONField ''null'' = None \<Longrightarrow> Decode env name ty raw = Inr VNil"
  by (subst Decode.simps) (simp add: Let_def)

lemma Decode_scalar:
  "validateRawJSONField (trim_space raw) = None \<Longrightarrow> trim_space raw \<noteq> ''null'' \<Longrightarrow> decode_scalar env (type_name ty) (trim_space raw) = Some r \<Longrightarrow>
    Decode env name ty raw = (case r of Inl err \<Rightarrow> Inl (decodeError name ty err) | Inr v \<Rightarrow> Inr v)"
  by (subst Decode.simps) (simp add: Let_def)

lemma Decode_cases:
  assumes "Decode env name ty raw = Inr v"
  obtains "v = VNil"
  | "decode_scalar env (type_name ty) (trim_space raw) = Some (Inr v)"
  | "type_name ty = ''ARRAY''" "decodeArray (Decode env) name ty (trim_space raw) = Inr v"
  | "type_name ty \<in> {''MAP'', ''MULTISET''}" "decodeMap env (Decode env) ty (trim_space raw) = Inr v"
  | "type_name ty \<in> {''ROW'', ''STRUCTURED_TYPE''}" "decodeNestedRow (Decode env) name ty (trim_space raw) = Inr v"
  | "type_name ty \<notin> scalar_types \<union> nested_types" "v = VRaw (trim_space raw)"
proof -
  note D = trans[OF Decode.simps[symmetric] assms]
  show ?thesis
  proof (cases "decode_scalar env (type_name ty) (trim_space raw)")
    case None
    then have "type_name ty \<notin> scalar_types" using decode_scalar_None by blast
    then show ?thesis using D None that by (simp add: Let_def nested_types_def split: option.splits if_splits)
  next
    case (Some r)
    consider err where "validateRawJSONField (trim_space raw) = Some err" | "validateRawJSONField (trim_space raw) = None" "trim_space raw = ''null''"
      | "validateRawJSONField (trim_space raw) = None" "trim_space raw \<noteq> ''null''" by blast
    then show ?thesis using assms Some that(1,2)
      by cases (simp_all add: Decode_invalid Decode_null Decode_scalar split: sum.splits)
  qed
qed

lemma conforms_decodeArray:
  assumes "decodeArray dec name ty raw = Inr v" "type_name ty = ''ARRAY''"
    and dec: "\<And>n t x v. size t < size ty \<Longrightarrow> dec n t x = Inr v \<Longrightarrow> conforms t v"
  shows "conforms ty v"
proof (cases "ElementType ty")
  case None
  then show ?thesis using assms(1,2) by (auto simp: decodeArray_def list_all_iff intro!: c_raw_array split: option.splits)
next
  case (Some et)
  then obtain xs vs where v: "v = VList vs" and all: "list_all2 (\<lambda>x v. dec [] et x = Inr v) xs vs"
    using assms(1) by (auto simp: decodeArray_def map_sum_Inr map_result_Inr_iff split: option.splits)
  have "conforms et u" if "u \<in> set vs" for u using list_all2_from[OF all that] dec[OF size_ElementType[OF Some]] by blast
  then show ?thesis unfolding v by (rule c_array[OF assms(2) Some])
qed

lemma conforms_decodeMap:
  assumes "decodeMap env dec ty raw = Inr v" "type_name ty \<in> {''MAP'', ''MULTISET''}"
    and dec: "\<And>n t x v. size t < size ty \<Longrightarrow> dec n t x = Inr v \<Longrightarrow> conforms t v"
  shows "conforms ty v"
proof (cases "raw_members raw = None \<or> ValueType ty = None")
  case True
  then show ?thesis using assms(1,2) by (auto simp: decodeMap_def list_all_iff intro: c_no_object intro!: c_raw_map split: option.splits)
next
  case False
  then obtain vt kvs vs where t: "ValueType ty = Some vt" and v: "v = VMap vs"
    and all: "list_all2 (\<lambda>kv z. map_sum id (Pair (fst kv)) (dec [] vt (snd kv)) = Inr z) kvs vs"
    using assms(1) by (auto simp: decodeMap_def map_sum_Inr map_result_Inr_iff)
  have "conforms vt u" if "(k, u) \<in> set vs" for k u
    using list_all2_from[OF all that] dec[OF size_ValueType[OF t]] by (auto simp: map_sum_Inr)
  then show ?thesis unfolding v by (rule c_map[OF assms(2) t])
qed

lemma conforms_decodeNestedRow:
  assumes d: "decodeNestedRow dec name ty raw = Inr v" and t: "type_name ty \<in> {''ROW'', ''STRUCTURED_TYPE''}"
    and dec: "\<And>n t x v. size t < size ty \<Longrightarrow> dec n t x = Inr v \<Longrightarrow> conforms t v"
  shows "conforms ty v"
proof (cases "raw \<noteq> [] \<and> hd raw = CHR ''{''")
  case True
  then obtain kvs zs where "raw_members raw = Some kvs" and v: "v = VMap (overlay (map (apsnd VRaw) kvs) zs)"
    and all: "list_all2 (\<lambda>f z. row_member dec kvs f = Inr z) (ltFields ty) zs"
    using d by (auto simp: decodeNestedRow_def map_sum_Inr map_result_Inr_iff split: option.splits)
  show ?thesis unfolding v by (rule conforms_overlay[OF all raw_members_distinct _ t]) (fact, rule dec)
next
  case False
  then obtain xs vs where v: "v = VList vs"
    and all: "list_all2 (\<lambda>xf v. row_element dec xf = Inr v) (zip xs (map Some (ltFields ty) @ replicate (length xs) None)) vs"
    using d by (auto simp: decodeNestedRow_def map_sum_Inr map_result_Inr_iff split: option.splits)
  show ?thesis unfolding v by (rule conforms_zip_row[OF all _ t]) (rule dec)
qed

text \<open>C21: what \<open>Decode\<close> returns for a field is a value of the column's logical type, all the way down.\<close>

theorem decode_conforms:
  assumes "Decode env name ty raw = Inr v"
  shows "conforms ty v"
  using assms
proof (induction "size ty" arbitrary: name ty raw v rule: less_induct)
  case less
  from less.prems show ?case
  proof (cases rule: Decode_cases)
    case 3
    show ?thesis by (rule conforms_decodeArray[OF 3(2,1)]) (rule less.hyps)
  next
    case 4
    show ?thesis by (rule conforms_decodeMap[OF 4(2,1)]) (rule less.hyps)
  next
    case 5
    show ?thesis by (rule conforms_decodeNestedRow[OF 5(2,1)]) (rule less.hyps)
  qed (auto intro: c_null c_scalar decode_scalar_ok c_unknown)
qed

end
