(* ===== verification/Build_Info.thy ===== *)
theory Build_Info
  imports Decoder Compatibility
begin

text \<open>
  \<open>version.go\<close>: the metadata that \<open>build.ps1\<close> sets at link time, and the matrix of \<open>compatibility.go\<close>.
\<close>

definition SourceVersion :: string where
  "SourceVersion = ''0.2.0''"

definition SupportedFlinkVersion :: string where
  "SupportedFlinkVersion = ''1.20.4''"

text \<open>The variables the linker may set, with the values of a plain source build.\<close>

record linked =
  buildVersion :: string
  buildCommit :: string
  buildDate :: string
  buildDirty :: string

definition source_build :: linked where
  "source_build = \<lparr>buildVersion = SourceVersion, buildCommit = ''unknown'', buildDate = ''unknown'', buildDirty = ''true''\<rparr>"

record build_info =
  biVersion :: string
  biFlinkVersion :: string
  biReleaseLines :: "string list"
  biCommit :: string
  biDate :: string
  biDirty :: bool

text \<open>\<open>strconv.ParseBool\<close>; its error is ignored, the value is then false.\<close>

definition parsed_bool :: "string \<Rightarrow> bool" where
  "parsed_bool s = (s \<in> {''1'', ''t'', ''T'', ''true'', ''TRUE'', ''True''})"

definition Version :: "linked \<Rightarrow> string" where
  "Version l = buildVersion l"

definition GetBuildInfo :: "linked \<Rightarrow> build_info" where
  "GetBuildInfo l =
     \<lparr>biVersion = buildVersion l, biFlinkVersion = SupportedFlinkVersion, biReleaseLines = SupportedFlinkReleaseLines,
      biCommit = buildCommit l, biDate = buildDate l, biDirty = parsed_bool (buildDirty l)\<rparr>"

text \<open>The layout of \<open>time.RFC3339\<close>.\<close>

definition BuildTime :: "build_info \<Rightarrow> go_time option" where
  "BuildTime info = time_Parse (stamp_layout (CHR ''T'') @ [Zone]) (biDate info)"

record matrix_info =
  miSchemaVersion :: nat
  miDefaultReleaseLine :: string
  miDefaultAPIVersion :: string
  miSupportedReleases :: "SupportedFlinkRelease list"

definition CompatibilityMatrix :: matrix_info where
  "CompatibilityMatrix = \<lparr>miSchemaVersion = 2, miDefaultReleaseLine = ''1.20'', miDefaultAPIVersion = DefaultAPIVersion,
     miSupportedReleases = SupportedFlinkVersions\<rparr>"

text \<open>A source build says so: it is dirty and has no build time.  A date is read exactly when it is a time of day of the
  calendar with an offset.\<close>

lemma source_build_info: "biDirty (GetBuildInfo source_build) \<and> BuildTime (GetBuildInfo source_build) = None"
  by (simp add: GetBuildInfo_def source_build_def parsed_bool_def BuildTime_def) code_simp

lemma BuildTime_ok: "BuildTime info = Some t \<Longrightarrow> time_ok t"
  unfolding BuildTime_def by (drule time_Parse_keeps(4))

text \<open>The defaults of the matrix are among what it lists.\<close>

lemma matrix_default_listed:
  "\<exists>r \<in> set (miSupportedReleases CompatibilityMatrix). relReleaseLine r = miDefaultReleaseLine CompatibilityMatrix"
  by code_simp

end
