(* ===== verification/Sessions.thy ===== *)
theory Sessions
  imports Execution "HOL-Library.AList"
begin

text \<open>
  \<open>flinksqlgateway/session.go\<close>: opening, reading, configuring and closing sessions, with the bounded memory of
  the handles that were closed.
\<close>

section \<open>The memory of closed sessions\<close>

definition maxRememberedClosedSessions :: nat where
  "maxRememberedClosedSessions = 1024"

definition rememberClosedSessionLocked :: "string \<Rightarrow> 'w client \<Rightarrow> 'w client" where
  "rememberClosedSessionLocked handle c =
     (if handle \<in> set (closedSessions c) then c
      else
        (let closed = handle # closedSessions c; order = closedOrder c @ [handle] in
         if length order \<le> maxRememberedClosedSessions then c\<lparr>closedSessions := closed, closedOrder := order\<rparr>
         else c\<lparr>closedSessions := removeAll (hd order) closed, closedOrder := tl order\<rparr>))"

definition forgetClosedSessionLocked :: "string \<Rightarrow> 'w client \<Rightarrow> 'w client" where
  "forgetClosedSessionLocked handle c =
     (if handle \<notin> set (closedSessions c) then c
      else c\<lparr>closedSessions := removeAll handle (closedSessions c), closedOrder := remove1 handle (closedOrder c)\<rparr>)"

section \<open>Sessions\<close>

definition delete_session :: "string \<Rightarrow> (string \<times> session_record) list \<Rightarrow> (string \<times> session_record) list" where
  "delete_session handle = filter (\<lambda>(h, r). h \<noteq> handle)"

record open_session_request =
  osName :: string
  osProperties :: "(string \<times> string) list"

definition open_session_body :: "open_session_request \<Rightarrow> json" where
  "open_session_body req = JObj ((if osName req = [] then [] else [(''sessionName'', JStr (osName req))]) @
     (if osProperties req = [] then [] else [(''properties'', json_map (osProperties req))]))"

definition OpenSession ::
  "('w, 'c) transport_env \<Rightarrow> config \<Rightarrow> 'c \<Rightarrow> open_session_request \<Rightarrow> 'w client \<Rightarrow> ('w, session_record) answer" where
  "OpenSession env cfg ctx req c =
     (case client_CheckAPIVersion env cfg ctx c of
        (Some err, c1) \<Rightarrow> (Inl err, c1)
      | (None, c1) \<Rightarrow>
          (case answer_of (doJSON env cfg ctx ''POST'' (endpointURL env cfg c1 True ''/sessions'') (Some (open_session_body req))
               (string_response ''sessionHandle'') False c1) of
             (Inl err, c2) \<Rightarrow> (Inl err, c2)
           | (Inr handle, c2) \<Rightarrow>
               if handle = [] then (Inl (Errorf ''flinksqlgateway: open session response has no sessionHandle'' []), c2)
               else (case validateSessionHandle handle of
                   Some err \<Rightarrow> (Inl (Errorf ''flinksqlgateway: invalid open session response: %w'' [ArgWrap err]), c2)
                 | None \<Rightarrow>
                     (let record = \<lparr>srHandle = handle, srName = osName req, srProperties = osProperties req\<rparr> in
                      (Inr record, forgetClosedSessionLocked handle
                         (c2\<lparr>sessions := (handle, record) # delete_session handle (sessions c2)\<rparr>))))))"

text \<open>Decoding a JSON object into a map of strings.\<close>

fun set_map :: "json \<Rightarrow> (string \<times> string) list \<Rightarrow> (string \<times> string) list" where
  "set_map (JObj kvs) old = foldl (\<lambda>m (k, v). AList.update k (set_string v []) m) old kvs"
| "set_map JNull old = []"
| "set_map _ old = old"

definition map_kind :: "json \<Rightarrow> bool" where
  "map_kind v = (case v of JObj kvs \<Rightarrow> list_all (\<lambda>(k, x). string_kind x) kvs | JNull \<Rightarrow> True | _ \<Rightarrow> False)"

definition map_response :: "string \<Rightarrow> (string \<times> string) list destination" where
  "map_response name = ([], Some (unmarshal_struct
     (\<lambda>kvs. foldl (\<lambda>old v. set_map v old) [] (values_of name kvs)) (\<lambda>kvs. list_all map_kind (values_of name kvs))))"

definition session_path :: "string \<Rightarrow> string" where
  "session_path handle = ''/sessions/'' @ pathSegment handle"

definition GetSessionConfig ::
  "('w, 'c) transport_env \<Rightarrow> config \<Rightarrow> 'c \<Rightarrow> string \<Rightarrow> 'w client \<Rightarrow> ('w, (string \<times> string) list) answer" where
  "GetSessionConfig env cfg ctx sessionHandle c =
     (case validateSessionHandle sessionHandle of Some err \<Rightarrow> (Inl err, c) | None \<Rightarrow>
      (case client_CheckAPIVersion env cfg ctx c of (Some err, c1) \<Rightarrow> (Inl err, c1) | (None, c1) \<Rightarrow>
       answer_of (doJSON env cfg ctx ''GET'' (endpointURL env cfg c1 True (session_path sessionHandle)) None
         (map_response ''properties'') True c1)))"

text \<open>The gate of a session as a caller meets it that nobody competes with: the two checks before the wait.
  The gate itself is in \<open>Session_Gate\<close>.\<close>

definition acquireSessionSetup :: "('w, 'c) transport_env \<Rightarrow> 'c \<Rightarrow> 'w client \<Rightarrow> goerr option" where
  "acquireSessionSetup env ctx c =
     (case ctx_err env ctx (world c) of
        Some err \<Rightarrow> Some err
      | None \<Rightarrow> if clientClosed c then Some (Sentinel ErrClientClosed) else None)"

definition configureSessionRequest ::
  "('w, 'c) transport_env \<Rightarrow> config \<Rightarrow> 'c \<Rightarrow> string \<Rightarrow> string \<Rightarrow> int \<Rightarrow> serverMessageRedaction \<Rightarrow> 'w client
    \<Rightarrow> goerr option \<times> 'w client" where
  "configureSessionRequest env cfg ctx sessionHandle statement executionTimeout redaction c =
     (let timeout = (if executionTimeout \<le> 0 then ExecutionTimeout cfg else executionTimeout);
          body = JObj ([(''statement'', JStr statement)] @ wire_timeout (selectedCapabilities cfg (versions c)) timeout);
          target = endpointURL env cfg c True (session_path sessionHandle @ ''/configure-session'');
          requestCtx = ctx_with_redaction env redaction (timed_ctx env timeout ctx c) in
      case error_of (doJSON env cfg requestCtx ''POST'' target (Some body) no_response False c) of
        (None, c1) \<Rightarrow> (None, c1)
      | (Some err, c1) \<Rightarrow>
          (case unknown_phase err of
             None \<Rightarrow> (Some err, c1)
           | Some phase \<Rightarrow> (Some (ConfigurationOutcomeUnknownError sessionHandle (- 1) StepUnset phase (Some err)), c1)))"

definition ConfigureSession ::
  "('w, 'c) transport_env \<Rightarrow> config \<Rightarrow> 'c \<Rightarrow> string \<Rightarrow> string \<Rightarrow> int \<Rightarrow> 'w client \<Rightarrow> goerr option \<times> 'w client" where
  "ConfigureSession env cfg ctx sessionHandle statement executionTimeout c =
     (case validateSessionHandle sessionHandle of Some err \<Rightarrow> (Some err, c) | None \<Rightarrow>
      (case validateStatement env ctx sessionHandle statement c of (Some err, c1) \<Rightarrow> (Some err, c1) | (None, c1) \<Rightarrow>
      (case client_compatibilityForCapability env cfg ctx ''configure-session'' capabilities.ConfigureSession c1 of
         (Inl err, c2) \<Rightarrow> (Some err, c2)
       | (Inr _, c2) \<Rightarrow>
           (case acquireSessionSetup env ctx c2 of
              Some err \<Rightarrow> (Some err, c2)
            | None \<Rightarrow> configureSessionRequest env cfg ctx sessionHandle statement executionTimeout
                \<lparr>fragments = [], redactAll = True\<rparr> c2))))"

definition CompleteStatement ::
  "('w, 'c) transport_env \<Rightarrow> config \<Rightarrow> 'c \<Rightarrow> string \<Rightarrow> string \<Rightarrow> int \<Rightarrow> 'w client \<Rightarrow> ('w, string list) answer" where
  "CompleteStatement env cfg ctx sessionHandle statement position c =
     (case validateSessionHandle sessionHandle of Some err \<Rightarrow> (Inl err, c) | None \<Rightarrow>
      (case client_compatibilityForCapability env cfg ctx ''complete-statement'' capabilities.CompleteStatement c of
         (Inl err, c1) \<Rightarrow> (Inl err, c1)
       | (Inr _, c1) \<Rightarrow>
           (let target = endpointURL env cfg c1 True (session_path sessionHandle @ ''/complete-statement'');
                target = target\<lparr>RawQuery := query_set env (RawQuery target) [(''statement'', statement), (''position'', itoa position)]\<rparr>;
                requestCtx = ctx_with_redaction env \<lparr>fragments = [statement], redactAll = False\<rparr> ctx in
            answer_of (doJSON env cfg requestCtx ''GET'' target None (strings_response ''candidates'') True c1))))"

definition Heartbeat :: "('w, 'c) transport_env \<Rightarrow> config \<Rightarrow> 'c \<Rightarrow> string \<Rightarrow> 'w client \<Rightarrow> goerr option \<times> 'w client" where
  "Heartbeat env cfg ctx sessionHandle c =
     (case validateSessionHandle sessionHandle of Some err \<Rightarrow> (Some err, c) | None \<Rightarrow>
      (case client_CheckAPIVersion env cfg ctx c of (Some err, c1) \<Rightarrow> (Some err, c1) | (None, c1) \<Rightarrow>
       error_of (doJSON env cfg ctx ''POST'' (endpointURL env cfg c1 True (session_path sessionHandle @ ''/heartbeat''))
         (Some (JObj [])) no_response True c1)))"

text \<open>Stopping a runner waits for it, and the runner takes itself off the map.\<close>

definition StopHeartbeat :: "string \<Rightarrow> 'w client \<Rightarrow> 'w client" where
  "StopHeartbeat handle c = c\<lparr>heartbeats := removeAll handle (heartbeats c)\<rparr>"

definition drop_session_gone :: "goerr option \<Rightarrow> goerr option" where
  "drop_session_gone err = (if err_is_opt err ErrSessionNotFound \<or> err_is_opt err ErrSessionExpired then None else err)"

text \<open>\<open>CloseSession\<close> for a caller that nobody competes with.\<close>

definition CloseSession :: "('w, 'c) transport_env \<Rightarrow> config \<Rightarrow> 'c \<Rightarrow> string \<Rightarrow> 'w client \<Rightarrow> goerr option \<times> 'w client" where
  "CloseSession env cfg ctx sessionHandle c =
     (case validateSessionHandle sessionHandle of Some err \<Rightarrow> (Some err, c) | None \<Rightarrow>
       if sessionHandle \<in> set (closedSessions c) then (None, c)
       else
         (case client_CheckAPIVersion env cfg ctx (StopHeartbeat sessionHandle c) of
            (Some err, c1) \<Rightarrow> (Some err, c1)
          | (None, c1) \<Rightarrow>
              (case error_of (doJSON env cfg ctx ''DELETE'' (endpointURL env cfg c1 True (session_path sessionHandle)) None no_response False c1) of
                 (err, c2) \<Rightarrow>
                   (case drop_session_gone err of
                      Some err \<Rightarrow> (Some err, c2)
                    | None \<Rightarrow>
                        (let c3 = rememberClosedSessionLocked sessionHandle c2 in
                         (None, c3\<lparr>sessions := delete_session sessionHandle (sessions c3)\<rparr>))))))"

section \<open>What the operations leave alone\<close>

text \<open>Only the cached versions and the world may have changed.\<close>

definition frame :: "'w client \<Rightarrow> 'w client \<Rightarrow> bool" where
  "frame c c' = (sessions c' = sessions c \<and> closedSessions c' = closedSessions c \<and> closedOrder c' = closedOrder c \<and>
    clientClosed c' = clientClosed c \<and> heartbeats c' = heartbeats c \<and> managed c' = managed c \<and> streams c' = streams c \<and>
    executions c' = executions c \<and> allocated c' = allocated c)"

lemma frame_refl [simp]: "frame c c"
  by (simp add: frame_def)

lemma frame_trans: "frame c c1 \<Longrightarrow> frame c1 c2 \<Longrightarrow> frame c c2"
  by (simp add: frame_def)

lemma appends_frame: "appends new c c' \<Longrightarrow> frame c c'"
  by (auto simp: appends_def frame_def)

lemma doJSON_frame: "doJSON (logged env) cfg ctx m t body dest safe c = (r, c') \<Longrightarrow> frame c c'"
  by (blast dest: doJSON_appends appends_frame)

lemma answer_of_frame: "answer_of (doJSON (logged env) cfg ctx m t body dest safe c) = (r, c') \<Longrightarrow> frame c c'"
  by (blast dest: answer_of_appends appends_frame)

lemma error_of_eq: "error_of r = (err, c') \<Longrightarrow> \<exists>n v. r = ((n, err, v), c')"
  by (auto simp: error_of_def split: prod.splits)

lemma error_of_frame: "error_of (doJSON (logged env) cfg ctx m t body dest safe c) = (err, c') \<Longrightarrow> frame c c'"
  by (blast dest: error_of_eq doJSON_frame)

lemma GetInfo_frame: "GetInfo (logged env) cfg ctx c = (r, c') \<Longrightarrow> frame c c'"
  unfolding GetInfo_def by (rule answer_of_frame)

lemma requestAPIVersions_frame: "requestAPIVersions (logged env) cfg ctx c = (r, c') \<Longrightarrow> frame c c'"
  unfolding requestAPIVersions_def by (rule answer_of_frame)

lemma check_frame:
  assumes "client_CheckAPIVersion (logged env) cfg ctx c = (r, c')"
  shows "frame c c'"
proof -
  let ?known = "\<not> is_ok (configuredCompatibility cfg) \<or> versionChecked (versions c)"
  obtain info c1 where 1: "(if \<not> ?known \<and> CompatibilityMode cfg = CompatibilityAuto
     then apfst (map_sum id giVersion) (GetInfo (logged env) cfg ctx c) else (Inr [], c)) = (info, c1)" by fastforce
  obtain adv c2 where 2: "(if \<not> ?known \<and> is_ok (chooseProfile cfg info) then requestAPIVersions (logged env) cfg ctx c1 else (Inr [], c1)) = (adv, c2)"
    by fastforce
  have "frame c c1"
    using 1 GetInfo_frame[of env cfg ctx c] by (cases "GetInfo (logged env) cfg ctx c") (auto split: if_splits)
  moreover have "frame c1 c2"
    using 2 requestAPIVersions_frame[of env cfg ctx c1] by (auto split: if_splits)
  moreover have "\<exists>st. c' = c2\<lparr>versions := st\<rparr>"
    using assms[unfolded client_CheckAPIVersion_def Let_def 1 prod.case 2] by (auto split: prod.splits)
  ultimately show ?thesis using frame_trans by (auto simp: frame_def)
qed

section \<open>The invariant of the session tables\<close>

definition session_inv :: "'w client \<Rightarrow> bool" where
  "session_inv c = (distinct (closedOrder c) \<and> set (closedOrder c) = set (closedSessions c) \<and>
     length (closedOrder c) \<le> maxRememberedClosedSessions \<and> (\<forall>h \<in> set (closedSessions c). map_of (sessions c) h = None))"

lemma frame_inv: "frame c c' \<Longrightarrow> session_inv c' = session_inv c"
  by (simp add: session_inv_def frame_def)

lemma map_of_delete: "map_of (delete_session h xs) k = (if k = h then None else map_of xs k)"
  by (induction xs) (auto simp: delete_session_def)

lemma forget_inv:
  assumes "session_inv c"
  shows "session_inv (forgetClosedSessionLocked h (c\<lparr>sessions := (h, r) # delete_session h (sessions c)\<rparr>))"
  using assms length_remove1[of h "closedOrder c"]
  by (auto simp: session_inv_def forgetClosedSessionLocked_def map_of_delete)

lemma remember_inv:
  assumes "session_inv c" "h \<notin> set (closedSessions c)"
  shows "session_inv ((rememberClosedSessionLocked h c)\<lparr>sessions := delete_session h (sessions c)\<rparr>)
    \<and> h \<in> set (closedSessions (rememberClosedSessionLocked h c))"
proof (cases "length (closedOrder c) + 1 \<le> maxRememberedClosedSessions")
  case True
  then show ?thesis using assms by (auto simp: session_inv_def rememberClosedSessionLocked_def map_of_delete)
next
  case False
  then obtain x xs where o: "closedOrder c = x # xs" by (cases "closedOrder c") (auto simp: maxRememberedClosedSessions_def)
  have "x \<noteq> h" "set xs = set (closedSessions c) - {x}" using assms o by (auto simp: session_inv_def)
  then show ?thesis using assms False o
    by (auto simp: session_inv_def rememberClosedSessionLocked_def map_of_delete)
qed

lemma OpenSession_ends:
  assumes "OpenSession (logged env) cfg ctx req c = (r, c')"
  shows "(\<exists>err. r = Inl err) \<and> frame c c' \<or>
    (\<exists>h c2. frame c c2 \<and> validateSessionHandle h = None \<and> r = Inr \<lparr>srHandle = h, srName = osName req, srProperties = osProperties req\<rparr> \<and>
      c' = forgetClosedSessionLocked h (c2\<lparr>sessions :=
        (h, \<lparr>srHandle = h, srName = osName req, srProperties = osProperties req\<rparr>) # delete_session h (sessions c2)\<rparr>))"
proof -
  obtain x c1 where 1: "client_CheckAPIVersion (logged env) cfg ctx c = (x, c1)" by fastforce
  obtain y c2 where 2: "answer_of (doJSON (logged env) cfg ctx ''POST'' (endpointURL (logged env) cfg c1 True ''/sessions'')
      (Some (open_session_body req)) (string_response ''sessionHandle'') False c1) = (y, c2)" by fastforce
  have f: "frame c c1" "frame c c2" using check_frame[OF 1] answer_of_frame[OF 2] frame_trans by blast+
  note eq = assms[unfolded OpenSession_def 1 prod.case 2 Let_def]
  show ?thesis
  proof (cases x)
    case (Some err)
    then show ?thesis using eq f by auto
  next
    case None
    note eq' = eq[unfolded None option.case]
    show ?thesis
    proof (cases y)
      case (Inl err)
      then show ?thesis using eq' f by auto
    next
      case (Inr h)
      show ?thesis
      proof (cases "h = []")
        case True
        then show ?thesis using eq' Inr f by auto
      next
        case False
        note eq'' = eq'[unfolded Inr sum.case if_not_P[OF False]]
        show ?thesis
        proof (cases "validateSessionHandle h")
          case v: None
          from eq''[unfolded v option.case] show ?thesis using f v by blast
        next
          case (Some err)
          then show ?thesis using eq'' f by auto
        qed
      qed
    qed
  qed
qed

lemma CloseSession_ends:
  assumes "CloseSession (logged env) cfg ctx h c = (err, c')"
  shows "c' = c \<and> (err = None \<longrightarrow> h \<in> set (closedSessions c)) \<or>
    h \<notin> set (closedSessions c) \<and> (\<exists>c2. frame (StopHeartbeat h c) c2 \<and>
      (err \<noteq> None \<and> c' = c2 \<or>
       err = None \<and> c' = (rememberClosedSessionLocked h c2)\<lparr>sessions := delete_session h (sessions c2)\<rparr>))"
proof -
  have s: "sessions (rememberClosedSessionLocked h d) = sessions d" for d :: "('a \<times> exchange_log) client"
    by (simp add: rememberClosedSessionLocked_def Let_def)
  obtain x c1 where 1: "client_CheckAPIVersion (logged env) cfg ctx (StopHeartbeat h c) = (x, c1)" by fastforce
  obtain e c2 where 2: "error_of (doJSON (logged env) cfg ctx ''DELETE'' (endpointURL (logged env) cfg c1 True (session_path h))
      None no_response False c1) = (e, c2)" by fastforce
  have f: "frame (StopHeartbeat h c) c1" "frame (StopHeartbeat h c) c2"
    using check_frame[OF 1] error_of_frame[OF 2] frame_trans by blast+
  note eq = assms[unfolded CloseSession_def 1 prod.case 2 Let_def]
  show ?thesis
  proof (cases "validateSessionHandle h = None \<and> h \<notin> set (closedSessions c)")
    case False
    then show ?thesis using eq by (cases "validateSessionHandle h") auto
  next
    case True
    then have v: "validateSessionHandle h = None" and n: "h \<notin> set (closedSessions c)" by auto
    note eq' = eq[unfolded v option.case if_not_P[OF n]]
    show ?thesis
    proof (cases x)
      case (Some z)
      then show ?thesis using eq' f n by auto
    next
      case None
      show ?thesis
      proof (cases "drop_session_gone e")
        case (Some z)
        then have "err = Some z \<and> c' = c2" using eq' None by simp
        then show ?thesis using f n by blast
      next
        case gone: None
        then have "err = None \<and> c' = (rememberClosedSessionLocked h c2)\<lparr>sessions := delete_session h (sessions c2)\<rparr>"
          using eq' None by (simp add: s)
        then show ?thesis using f n by blast
      qed
    qed
  qed
qed


section \<open>Properties\<close>

text \<open>The clients reached from a new one by opening and closing sessions, and by operations that leave the tables alone.\<close>

inductive session_reach :: "('w, 'c) transport_env \<Rightarrow> config \<Rightarrow> ('w \<times> exchange_log) client \<Rightarrow> bool" for env cfg where
  new_tables: "closedSessions c = [] \<Longrightarrow> closedOrder c = [] \<Longrightarrow> session_reach env cfg c"
| opened: "session_reach env cfg c \<Longrightarrow> OpenSession (logged env) cfg ctx req c = (r, c') \<Longrightarrow> session_reach env cfg c'"
| closed: "session_reach env cfg c \<Longrightarrow> CloseSession (logged env) cfg ctx h c = (err, c') \<Longrightarrow> session_reach env cfg c'"
| other: "session_reach env cfg c \<Longrightarrow> frame c c' \<Longrightarrow> session_reach env cfg c'"

lemma StopHeartbeat_inv [simp]: "session_inv (StopHeartbeat h c) = session_inv c"
  by (simp add: session_inv_def StopHeartbeat_def)

lemma StopHeartbeat_sel [simp]: "closedSessions (StopHeartbeat h c) = closedSessions c" "sessions (StopHeartbeat h c) = sessions c"
  by (simp_all add: StopHeartbeat_def)

lemma OpenSession_inv: "session_inv c \<Longrightarrow> OpenSession (logged env) cfg ctx req c = (r, c') \<Longrightarrow> session_inv c'"
  using OpenSession_ends[of env cfg ctx req c r c'] frame_inv forget_inv by blast

lemma CloseSession_inv: "session_inv c \<Longrightarrow> CloseSession (logged env) cfg ctx h c = (err, c') \<Longrightarrow> session_inv c'"
proof -
  assume a: "session_inv c" "CloseSession (logged env) cfg ctx h c = (err, c')"
  have d: "session_inv c2 \<and> closedSessions c2 = closedSessions c" if "frame (StopHeartbeat h c) c2" for c2
    using that a(1) frame_inv[OF that] by (simp add: frame_def)
  show "session_inv c'" using CloseSession_ends[OF a(2)] a(1) d remember_inv by metis
qed

text \<open>However many sessions a client opens and closes, it remembers at most 1024 closed handles, each once and in the
  order they were closed, and never a session it holds as open, even when the server hands out an old handle again.\<close>

theorem session_tables:
  assumes "session_reach env cfg c"
  shows "length (closedOrder c) \<le> 1024 \<and> distinct (closedOrder c) \<and> set (closedOrder c) = set (closedSessions c) \<and>
    (\<forall>h \<in> set (closedSessions c). map_of (sessions c) h = None)"
proof -
  have "session_inv c" using assms
  proof (induction rule: session_reach.induct)
    case (new_tables c)
    then show ?case by (simp add: session_inv_def)
  qed (blast dest: OpenSession_inv CloseSession_inv frame_inv)+
  then show ?thesis by (simp add: session_inv_def maxRememberedClosedSessions_def)
qed

theorem session_tables_witness:
  "distinct (closedOrder (snd (CloseSession (logged script_env) quick_cfg plain_ctx ''s'' (checked_client ([], [])))))"
proof -
  obtain err c' where r: "CloseSession (logged script_env) quick_cfg plain_ctx ''s'' (checked_client ([], [])) = (err, c')" by fastforce
  have "session_reach script_env quick_cfg (checked_client ([], []))"
    by (rule session_reach.new_tables) (simp_all add: checked_client_def example_client_def)
  from session_tables[OF session_reach.closed[OF this r]] r show ?thesis by simp
qed

lemma CloseSession_again: "h \<in> set (closedSessions c) \<Longrightarrow> validateSessionHandle h = None \<Longrightarrow> CloseSession env cfg ctx h c = (None, c)"
  by (simp only: CloseSession_def option.case if_True)

lemma CloseSession_valid: "CloseSession env cfg ctx h c = (None, c') \<Longrightarrow> validateSessionHandle h = None"
  by (cases "validateSessionHandle h") (auto simp: CloseSession_def)

lemma CloseSession_done:
  assumes "CloseSession (logged env) cfg ctx h c = (None, c1)" "session_inv c"
  shows "map_of (sessions c1) h = None \<and> CloseSession env' cfg' ctx' h c1 = (None, c1)"
proof -
  have "h \<in> set (closedSessions c1)"
    using CloseSession_ends[OF assms(1)]
  proof (elim disjE conjE exE)
    fix c2
    assume f: "h \<notin> set (closedSessions c)" "frame (StopHeartbeat h c) c2"
      "c1 = (rememberClosedSessionLocked h c2)\<lparr>sessions := delete_session h (sessions c2)\<rparr>"
    have "session_inv c2" "closedSessions c2 = closedSessions c" using f(2) frame_inv[OF f(2)] assms(2) by (simp_all add: frame_def)
    then show ?thesis using remember_inv[of c2 h] f(1,3) by simp
  qed auto
  moreover have "session_inv c1" by (rule CloseSession_inv[OF assms(2,1)])
  moreover have "validateSessionHandle h = None" by (rule CloseSession_valid[OF assms(1)])
  ultimately show "map_of (sessions c1) h = None \<and> CloseSession env' cfg' ctx' h c1 = (None, c1)"
    by (intro conjI CloseSession_again) (auto simp: session_inv_def)
qed

text \<open>Closing a session is idempotent: once it has succeeded the session is no longer registered, and closing the
  handle again sends nothing and changes nothing; a close that failed leaves the tables as they were, so it can be
  repeated.\<close>

theorem close_session_once:
  assumes "CloseSession (logged env) cfg ctx h c = (err, c1)" "session_inv c"
  shows "case err of None \<Rightarrow> map_of (sessions c1) h = None \<and> CloseSession env' cfg' ctx' h c1 = (None, c1)
    | Some e \<Rightarrow> sessions c1 = sessions c \<and> closedSessions c1 = closedSessions c"
proof (cases err)
  case None
  then show ?thesis using CloseSession_done[OF assms(1)[unfolded None] assms(2)] by simp
next
  case (Some e)
  then show ?thesis using CloseSession_ends[OF assms(1)] by (auto simp: frame_def)
qed

text \<open>A server that answers a request of the example client with an empty success.\<close>

lemma script_done:
  assumes "\<not> clientClosed c" "world c = (accepted [] # rest, log)" "body = None"
  shows "\<exists>c'. doJSON (logged script_env) quick_cfg ctx m t body dest safe c = ((0, None, fst dest), c')"
proof -
  have cfg: "RequestTimeout quick_cfg = 1" "MaxResponseBytes quick_cfg = 100"
    by (simp_all add: quick_cfg_def example_cfg_def example_config_def)
  have o: "ensureOpen (logged script_env) ctx c = None" using assms(1) by (simp add: ensureOpen_def)
  have n: "(if safe then 2 else 1) = Suc (if safe then 1 else 0)" by simp
  have rl: "readLimited [] None 100 = ([], None)" by (simp add: readLimited_def succ64_def)
  obtain c' where once: "doJSONOnce (logged script_env) quick_cfg ctx m t None dest c = ((0, False, None, fst dest), c')" for ctx
    using assms(2) by (cases c) (simp add: doJSONOnce_def logged_def script_env_def accepted_def handle_response_def rl cfg Let_def
        observed_request_def)
  have w: "c\<lparr>world := world c\<rparr> = c" by simp
  show ?thesis unfolding doJSON_def o n assms(3) by (simp add: Let_def w once)
qed

theorem close_session_once_witness:
  "\<exists>c1. CloseSession (logged script_env) quick_cfg plain_ctx ''s'' (checked_client ([accepted []], [])) = (None, c1) \<and>
    CloseSession (logged script_env) quick_cfg plain_ctx ''s'' c1 = (None, c1)"
proof -
  let ?c = "checked_client ([accepted []], []) :: (script \<times> exchange_log) client"
  have s: "StopHeartbeat ''s'' ?c = ?c" "settled ?c" "\<not> clientClosed ?c" "closedSessions ?c = []" "world ?c = (accepted [] # [], [])"
    by (simp_all add: StopHeartbeat_def checked_client_def example_client_def settled_def version_init_def)
  have v: "validateSessionHandle ''s'' = None" by (simp add: example_handles)
  obtain c2 where d: "doJSON (logged script_env) quick_cfg plain_ctx ''DELETE''
      (endpointURL (logged script_env) quick_cfg ?c True (session_path ''s'')) None no_response False ?c = ((0, None, fst no_response), c2)"
    using script_done[OF s(3,5) refl] by blast
  obtain c1 where c: "CloseSession (logged script_env) quick_cfg plain_ctx ''s'' ?c = (None, c1)"
    by (simp add: CloseSession_def v s settled_check[OF s(2)] d error_of_def drop_session_gone_def Let_def)
  have i: "session_inv ?c" by (simp add: session_inv_def checked_client_def example_client_def)
  from conjunct2[OF close_session_once[OF c i, of "logged script_env" quick_cfg plain_ctx, unfolded option.case]] c
  show ?thesis by blast
qed

end
