(* ===== verification/Heartbeats.thy ===== *)
theory Heartbeats
  imports Sessions
begin

text \<open>
  \<open>heartbeat.go\<close> and the health of a managed session in \<open>managed_session.go\<close>: the goroutine of \<open>runHeartbeat\<close> publishes an
  event for every heartbeat through a channel that holds one event, and the goroutine of \<open>monitorHeartbeat\<close> turns events
  into the health of the session.  A step is one channel operation, one heartbeat, or one event handled, so that the two
  goroutines may interleave between the three \<open>select\<close> statements of \<open>publishHeartbeatEvent\<close>.
\<close>

section \<open>The delay\<close>

text \<open>\<open>%\<close> of Go has the sign of the dividend.\<close>

definition go_rem :: "int \<Rightarrow> int \<Rightarrow> int" where
  "go_rem a b = (if a < 0 then - ((- a) mod b) else a mod b)"

text \<open>Durations are 64 bits of nanoseconds; \<open>now\<close> is \<open>time.Now().UnixNano()\<close>.\<close>

definition heartbeatDelay :: "int \<Rightarrow> int \<Rightarrow> int \<Rightarrow> int" where
  "heartbeatDelay now interval jitter =
     (if jitter \<le> 0 then interval
      else
        (let jitter = (if interval div 2 < jitter then interval div 2 else jitter);
             span = wrap64 (wrap64 (jitter * 2) + 1);
             offset = wrap64 (go_rem now span - jitter);
             delay = wrap64 (interval + offset) in
         if delay \<le> 0 then 1 else delay))"

lemma go_rem_bounds:
  assumes "0 < b"
  shows "go_rem a b < b" "- b < go_rem a b" "0 \<le> a \<Longrightarrow> 0 \<le> go_rem a b"
proof -
  have m: "0 \<le> c mod b \<and> c mod b < b \<and> - b < c mod b" for c
    using assms pos_mod_sign[of b c] pos_mod_bound[of b c] by linarith
  show "go_rem a b < b" "- b < go_rem a b" "0 \<le> a \<Longrightarrow> 0 \<le> go_rem a b"
    using m[of a] m[of "- a"] assms by (auto simp: go_rem_def)
qed

text \<open>Whatever the clock shows, a heartbeat is at most half an interval late and never more than an interval early, in a
  positive time; with a clock past 1970 it is at most half an interval early, and without jitter it is exact.\<close>

theorem delay_bounds:
  assumes "0 < interval" "interval \<le> 2 ^ 62"
  shows "1 \<le> heartbeatDelay now interval jitter \<and>
    heartbeatDelay now interval jitter \<le> interval + max 0 (min jitter (interval div 2)) \<and>
    (0 \<le> now \<longrightarrow> interval - max 0 (min jitter (interval div 2)) \<le> heartbeatDelay now interval jitter)"
proof (cases "jitter \<le> 0")
  case True
  then show ?thesis using assms by (simp add: heartbeatDelay_def)
next
  case False
  define j where "j = (if interval div 2 < jitter then interval div 2 else jitter)"
  have j: "0 \<le> j" "j * 2 \<le> interval" "j = max 0 (min jitter (interval div 2))" using False assms(1) by (auto simp: j_def)
  have "wrap64 (j * 2) = j * 2" using j(1,2) assms(2) by (intro wrap64_id) auto
  moreover have "wrap64 (j * 2 + 1) = j * 2 + 1" using j(1,2) assms(2) by (intro wrap64_id) auto
  ultimately have span: "wrap64 (wrap64 (j * 2) + 1) = j * 2 + 1" by simp
  define r where "r = go_rem now (j * 2 + 1)"
  have r: "r \<le> j * 2" "- (j * 2) \<le> r" "0 \<le> now \<longrightarrow> 0 \<le> r" using go_rem_bounds[of "j * 2 + 1" now] j(1) by (auto simp: r_def)
  have offset: "wrap64 (r - j) = r - j" using r(1,2) j(1,2) assms by (intro wrap64_id) auto
  have delay: "wrap64 (interval + (r - j)) = interval + (r - j)" using r(1,2) j(1,2) assms by (intro wrap64_id) auto
  have "heartbeatDelay now interval jitter = (if interval + (r - j) \<le> 0 then 1 else interval + (r - j))"
    using False by (simp add: heartbeatDelay_def Let_def j_def[symmetric] span r_def[symmetric] offset delay)
  moreover have "1 \<le> interval - j" if "0 \<le> now" "interval - j \<le> 0" using that j(1,2) assms(1) by linarith
  ultimately show ?thesis using r j(1,2) assms(1) unfolding j(3)[symmetric] by (smt (verit))
qed

theorem delay_bounds_witness: "heartbeatDelay 1700000000123456789 30000000000 5000000000 \<le> 30000000000 + 5000000000"
  using delay_bounds[of 30000000000 1700000000123456789 5000000000] by simp

section \<open>The runner\<close>

record heartbeatEvent =
  evError :: "goerr option"
  evFailures :: nat

definition session_gone :: "goerr option \<Rightarrow> bool" where
  "session_gone err = (err_is_opt err ErrSessionNotFound \<or> err_is_opt err ErrSessionExpired)"

text \<open>Where \<open>runHeartbeat\<close> is: in the delay, in the heartbeat, before the three channel operations of
  \<open>publishHeartbeatEvent\<close>, before the report on the error channel, and at its end.\<close>

datatype runner_place =
    Delaying | Beating | Sending heartbeatEvent | Draining heartbeatEvent | Resending heartbeatEvent
  | Reporting heartbeatEvent | Stopped

text \<open>\<open>SessionHealth\<close>.\<close>

datatype session_health = SessionHealthy | SessionDegraded | SessionExpired | SessionClosed

text \<open>The monitor waits for an event, handles one, or has seen the channel closed and empty.\<close>

datatype monitor_place = Ranging | Handling heartbeatEvent | MonitorDone

text \<open>\<open>published\<close> and \<open>handled\<close> are history variables: the events in the order in which their \<open>publishHeartbeatEvent\<close>
  returned, and in the order in which the monitor received them.\<close>

record heartbeat_state =
  runnerAt :: runner_place
  failures :: nat
  events :: "heartbeatEvent option"
  hbErrors :: "goerr option"
  runnerCtx :: "sentinel option"
  monitorAt :: monitor_place
  health :: session_health
  published :: "heartbeatEvent list"
  handled :: "heartbeatEvent list"

text \<open>\<open>Heartbeat\<close> returned \<open>err\<close>.\<close>

definition beat :: "goerr option \<Rightarrow> heartbeat_state \<Rightarrow> heartbeat_state" where
  "beat err s =
     (case err of
        None \<Rightarrow> s\<lparr>failures := 0, runnerAt := Sending \<lparr>evError = None, evFailures = 0\<rparr>\<rparr>
      | Some e \<Rightarrow>
          if runnerCtx s \<noteq> None then s\<lparr>runnerAt := Stopped\<rparr>
          else s\<lparr>failures := failures s + 1, runnerAt := Sending \<lparr>evError = err, evFailures = failures s + 1\<rparr>\<rparr>)"

text \<open>What follows once an event is published.\<close>

definition after_publish :: "heartbeatEvent \<Rightarrow> heartbeat_state \<Rightarrow> heartbeat_state" where
  "after_publish ev s = s\<lparr>published := published s @ [ev], runnerAt := if evError ev = None then Delaying else Reporting ev\<rparr>"

definition publish_send :: "heartbeatEvent \<Rightarrow> heartbeat_state \<Rightarrow> heartbeat_state" where
  "publish_send ev s = (if events s = None then after_publish ev (s\<lparr>events := Some ev\<rparr>) else s\<lparr>runnerAt := Draining ev\<rparr>)"

definition publish_drain :: "heartbeatEvent \<Rightarrow> heartbeat_state \<Rightarrow> heartbeat_state" where
  "publish_drain ev s = s\<lparr>events := None, runnerAt := Resending ev\<rparr>"

definition publish_resend :: "heartbeatEvent \<Rightarrow> heartbeat_state \<Rightarrow> heartbeat_state" where
  "publish_resend ev s = after_publish ev (if events s = None then s\<lparr>events := Some ev\<rparr> else s)"

definition report_error :: "heartbeatEvent \<Rightarrow> heartbeat_state \<Rightarrow> heartbeat_state" where
  "report_error ev s =
     s\<lparr>hbErrors := if hbErrors s = None then evError ev else hbErrors s,
       runnerAt := if session_gone (evError ev) then Stopped else Delaying\<rparr>"

section \<open>The monitor\<close>

text \<open>\<open>setHealth\<close> with the health change it observes.\<close>

definition setHealth :: "session_health \<Rightarrow> session_health \<Rightarrow> session_health \<times> (session_health \<times> session_health) list" where
  "setHealth new previous = (if previous = SessionClosed \<or> previous = new then (previous, []) else (new, [(previous, new)]))"

definition monitor_event :: "nat \<Rightarrow> heartbeatEvent \<Rightarrow> session_health \<Rightarrow> session_health" where
  "monitor_event threshold ev h =
     (if evError ev = None then (if h = SessionDegraded then fst (setHealth SessionHealthy h) else h)
      else if session_gone (evError ev) then fst (setHealth SessionExpired h)
      else if threshold \<le> evFailures ev then fst (setHealth SessionDegraded h)
      else h)"

definition executionAllowed :: "session_health \<Rightarrow> goerr option" where
  "executionAllowed h =
     (case h of SessionClosed \<Rightarrow> Some (Sentinel ErrSessionClosed) | SessionExpired \<Rightarrow> Some (Sentinel ErrSessionExpired) | _ \<Rightarrow> None)"

definition receive_event :: "heartbeatEvent \<Rightarrow> heartbeat_state \<Rightarrow> heartbeat_state" where
  "receive_event ev s = s\<lparr>events := None, monitorAt := Handling ev, handled := handled s @ [ev]\<rparr>"

definition handle_event :: "nat \<Rightarrow> heartbeatEvent \<Rightarrow> heartbeat_state \<Rightarrow> heartbeat_state" where
  "handle_event threshold ev s = s\<lparr>health := monitor_event threshold ev (health s), monitorAt := Ranging\<rparr>"

section \<open>The steps\<close>

text \<open>The runner closes its channels when it stops; \<open>closeWithContext\<close> sets the health once both goroutines are done.\<close>

inductive hb_step :: "nat \<Rightarrow> heartbeat_state \<Rightarrow> heartbeat_state \<Rightarrow> bool" for threshold where
  hb_cancel: "e = ContextCanceled \<or> e = ContextDeadlineExceeded \<Longrightarrow> hb_step threshold s (s\<lparr>runnerCtx := Some e\<rparr>)"
| hb_elapsed: "runnerAt s = Delaying \<Longrightarrow> hb_step threshold s (s\<lparr>runnerAt := Beating\<rparr>)"
| hb_cancelled: "runnerAt s = Delaying \<Longrightarrow> runnerCtx s \<noteq> None \<Longrightarrow> hb_step threshold s (s\<lparr>runnerAt := Stopped\<rparr>)"
| hb_beat: "runnerAt s = Beating \<Longrightarrow> hb_step threshold s (beat err s)"
| hb_send: "runnerAt s = Sending ev \<Longrightarrow> hb_step threshold s (publish_send ev s)"
| hb_drain: "runnerAt s = Draining ev \<Longrightarrow> hb_step threshold s (publish_drain ev s)"
| hb_resend: "runnerAt s = Resending ev \<Longrightarrow> hb_step threshold s (publish_resend ev s)"
| hb_report: "runnerAt s = Reporting ev \<Longrightarrow> hb_step threshold s (report_error ev s)"
| hb_take_error: "hb_step threshold s (s\<lparr>hbErrors := None\<rparr>)"
| hb_receive: "monitorAt s = Ranging \<Longrightarrow> events s = Some ev \<Longrightarrow> hb_step threshold s (receive_event ev s)"
| hb_handle: "monitorAt s = Handling ev \<Longrightarrow> hb_step threshold s (handle_event threshold ev s)"
| hb_monitor_done: "monitorAt s = Ranging \<Longrightarrow> events s = None \<Longrightarrow> runnerAt s = Stopped \<Longrightarrow> hb_step threshold s (s\<lparr>monitorAt := MonitorDone\<rparr>)"
| hb_closed: "runnerAt s = Stopped \<Longrightarrow> monitorAt s = MonitorDone \<Longrightarrow> hb_step threshold s (s\<lparr>health := SessionClosed\<rparr>)"

definition heartbeat_new :: heartbeat_state where
  "heartbeat_new = \<lparr>runnerAt = Delaying, failures = 0, events = None, hbErrors = None, runnerCtx = None, monitorAt = Ranging,
     health = SessionHealthy, published = [], handled = []\<rparr>"

inductive hb_reach :: "nat \<Rightarrow> heartbeat_state \<Rightarrow> bool" for threshold where
  hb_start: "hb_reach threshold heartbeat_new"
| hb_next: "hb_reach threshold s \<Longrightarrow> hb_step threshold s s' \<Longrightarrow> hb_reach threshold s'"

section \<open>What the monitor knows\<close>

abbreviation pending :: "heartbeat_state \<Rightarrow> heartbeatEvent list" where
  "pending s \<equiv> (case events s of None \<Rightarrow> [] | Some ev \<Rightarrow> [ev])"

text \<open>The failures at the end of a list of events.\<close>

definition trailing :: "heartbeatEvent list \<Rightarrow> nat" where
  "trailing evs = length (takeWhile (\<lambda>ev. evError ev \<noteq> None) (rev evs))"

lemma trailing_simps [simp]: "trailing [] = 0" "trailing (evs @ [ev]) = (if evError ev = None then 0 else trailing evs + 1)"
  by (simp_all add: trailing_def)

abbreviation gone_event :: "heartbeatEvent \<Rightarrow> bool" where
  "gone_event ev \<equiv> session_gone (evError ev)"

text \<open>The events the monitor is through with.\<close>

definition processed :: "heartbeat_state \<Rightarrow> heartbeatEvent list" where
  "processed s = (case monitorAt s of Handling ev \<Rightarrow> butlast (handled s) | _ \<Rightarrow> handled s)"

definition runner_ok :: "heartbeat_state \<Rightarrow> bool" where
  "runner_ok s =
     (case runnerAt s of
        Sending ev \<Rightarrow> failures s = trailing (published s @ [ev]) \<and> evFailures ev = failures s
      | Draining ev \<Rightarrow> failures s = trailing (published s @ [ev]) \<and> evFailures ev = failures s
      | Resending ev \<Rightarrow> failures s = trailing (published s @ [ev]) \<and> evFailures ev = failures s \<and> events s = None
      | Reporting ev \<Rightarrow> failures s = trailing (published s) \<and> published s \<noteq> [] \<and> last (published s) = ev
      | _ \<Rightarrow> failures s = trailing (published s))"

definition monitor_ok :: "nat \<Rightarrow> heartbeat_state \<Rightarrow> bool" where
  "monitor_ok threshold s =
     ((\<forall>ev. monitorAt s = Handling ev \<longrightarrow> handled s \<noteq> [] \<and> last (handled s) = ev) \<and>
      (monitorAt s = MonitorDone \<longrightarrow> runnerAt s = Stopped \<and> events s = None) \<and>
      (if health s = SessionClosed then monitorAt s = MonitorDone
       else health s = fold (monitor_event threshold) (processed s) SessionHealthy))"

definition channel_ok :: "heartbeat_state \<Rightarrow> bool" where
  "channel_ok s =
     (subseq (handled s @ pending s) (published s) \<and>
      (published s \<noteq> [] \<longrightarrow> (\<forall>ev. runnerAt s \<noteq> Resending ev) \<longrightarrow>
         handled s @ pending s \<noteq> [] \<and> last (handled s @ pending s) = last (published s)) \<and>
      (published s \<noteq> [] \<longrightarrow> evFailures (last (published s)) = trailing (published s)) \<and>
      (\<forall>ev \<in> set (butlast (published s)). \<not> gone_event ev) \<and>
      (published s \<noteq> [] \<longrightarrow> gone_event (last (published s)) \<longrightarrow> runnerAt s \<in> {Reporting (last (published s)), Stopped}))"

definition hb_inv :: "nat \<Rightarrow> heartbeat_state \<Rightarrow> bool" where
  "hb_inv threshold s = (runner_ok s \<and> monitor_ok threshold s \<and> channel_ok s)"

lemmas hb_inv_defs = hb_inv_def runner_ok_def monitor_ok_def channel_ok_def processed_def

lemmas hb_defs = beat_def after_publish_def publish_send_def publish_drain_def publish_resend_def report_error_def
  receive_event_def handle_event_def

lemma subseq_drop_last: "subseq (xs @ [x]) ys \<Longrightarrow> subseq xs ys"
  by (meson subseq_order.trans subseq_rev_drop_many subseq_order.refl)

lemma subseq_mem: "subseq xs ys \<Longrightarrow> x \<in> set xs \<Longrightarrow> x \<in> set ys"
  by (auto simp: subseq_conv_nths dest: in_set_nthsD)

lemma subseq_longer: "subseq xs ys \<Longrightarrow> subseq xs (ys @ [y])"
  by (rule list_emb_prefix)

lemma monitor_event_open: "h \<noteq> SessionClosed \<Longrightarrow> monitor_event threshold ev h \<noteq> SessionClosed"
  by (simp add: monitor_event_def setHealth_def)

lemma fold_monitor_open: "h \<noteq> SessionClosed \<Longrightarrow> fold (monitor_event threshold) evs h \<noteq> SessionClosed"
  by (induction evs arbitrary: h) (simp_all add: monitor_event_open)

text \<open>What the last event says of the health.\<close>

definition health_after :: "nat \<Rightarrow> heartbeatEvent list \<Rightarrow> session_health \<Rightarrow> bool" where
  "health_after threshold evs h =
     ((h = SessionExpired \<longleftrightarrow> evs \<noteq> [] \<and> gone_event (last evs)) \<and>
      (h = SessionDegraded \<longrightarrow> evs \<noteq> [] \<and> evError (last evs) \<noteq> None) \<and>
      (evs \<noteq> [] \<longrightarrow> evError (last evs) \<noteq> None \<longrightarrow> threshold \<le> evFailures (last evs) \<longrightarrow> h \<in> {SessionDegraded, SessionExpired}) \<and>
      h \<noteq> SessionClosed)"

lemma fold_monitor:
  assumes "\<And>ev. ev \<in> set (butlast evs) \<Longrightarrow> \<not> gone_event ev"
  shows "health_after threshold evs (fold (monitor_event threshold) evs SessionHealthy)"
  using assms
proof (induction evs rule: rev_induct)
  case (snoc ev evs)
  let ?h = "fold (monitor_event threshold) evs SessionHealthy"
  have before: "ev' \<in> set evs \<Longrightarrow> \<not> gone_event ev'" for ev' using snoc.prems by simp
  then have after: "health_after threshold evs ?h" using snoc.IH by (meson in_set_butlastD)
  then have h: "?h = SessionHealthy \<or> ?h = SessionDegraded"
    using before by (cases ?h) (auto simp: health_after_def)
  have "health_after threshold (evs @ [ev]) (monitor_event threshold ev g)" if "g = SessionHealthy \<or> g = SessionDegraded" for g
    using that by (cases "evError ev") (auto simp: health_after_def monitor_event_def setHealth_def session_gone_def)
  then show ?case using h by simp
qed (simp add: health_after_def)

text \<open>The steps of the runner.\<close>

lemma hb_invI: "runner_ok s \<Longrightarrow> monitor_ok threshold s \<Longrightarrow> channel_ok s \<Longrightarrow> hb_inv threshold s"
  by (simp add: hb_inv_def)

text \<open>A step that leaves the monitor's part alone.\<close>

lemma monitor_ok_same:
  assumes "monitor_ok threshold s" "monitorAt s' = monitorAt s" "health s' = health s" "handled s' = handled s"
    "runnerAt s = Stopped \<Longrightarrow> runnerAt s' = Stopped \<and> events s' = events s"
  shows "monitor_ok threshold s'"
proof -
  have "processed s' = processed s" using assms(2,4) by (simp add: processed_def split: monitor_place.split)
  then show ?thesis using assms unfolding monitor_ok_def by (metis (no_types))
qed

lemma in_butlast_or_last: "x \<in> set xs \<Longrightarrow> x \<in> set (butlast xs) \<or> x = last xs"
  by (cases xs rule: rev_cases) auto

lemma session_gone_None [simp]: "\<not> session_gone None"
  by (simp add: session_gone_def)

lemma gone_error: "gone_event ev \<Longrightarrow> evError ev \<noteq> None"
  by (cases "evError ev") (auto simp: session_gone_def)

lemma after_publish_inv:
  assumes "hb_inv threshold s" "runnerAt s = Sending ev \<or> runnerAt s = Resending ev" "events s = None"
  shows "hb_inv threshold (after_publish ev (s\<lparr>events := Some ev\<rparr>))"
proof (rule hb_invI)
  have run: "failures s = trailing (published s @ [ev])" "evFailures ev = failures s"
    using assms(1,2) by (auto simp: hb_inv_def runner_ok_def)
  have chan: "channel_ok s" using assms(1) by (simp add: hb_inv_def)
  have before: "\<not> gone_event e" if "e \<in> set (published s)" for e
  proof
    assume gone: "gone_event e"
    then have "e \<notin> set (butlast (published s))" using chan unfolding channel_ok_def by blast
    then have "e = last (published s)" "published s \<noteq> []" using that in_butlast_or_last by fastforce+
    then have "runnerAt s \<in> {Reporting e, Stopped}" using gone chan unfolding channel_ok_def by blast
    then show False using assms(2) by auto
  qed
  show "runner_ok (after_publish ev (s\<lparr>events := Some ev\<rparr>))" using run by (simp add: runner_ok_def after_publish_def)
  show "monitor_ok threshold (after_publish ev (s\<lparr>events := Some ev\<rparr>))"
    using assms(2) by (intro monitor_ok_same[OF assms(1)[unfolded hb_inv_def, THEN conjunct2, THEN conjunct1]]) (auto simp: after_publish_def)
  have "subseq (handled s) (published s)" using chan assms(3) by (simp add: channel_ok_def)
  then have "subseq (handled s @ [ev]) (published s @ [ev])" by simp
  moreover have "gone_event ev \<Longrightarrow> evError ev \<noteq> None" by (rule gone_error)
  ultimately show "channel_ok (after_publish ev (s\<lparr>events := Some ev\<rparr>))"
    using run before unfolding channel_ok_def after_publish_def by simp
qed

lemma hb_invD: "hb_inv threshold s \<Longrightarrow> runner_ok s" "hb_inv threshold s \<Longrightarrow> monitor_ok threshold s" "hb_inv threshold s \<Longrightarrow> channel_ok s"
  by (simp_all add: hb_inv_def)

text \<open>A step of the runner that publishes nothing.\<close>

lemma runner_moved:
  assumes "hb_inv threshold s" "runnerAt s \<noteq> Stopped" "runner_ok s'" "monitorAt s' = monitorAt s" "health s' = health s"
    "handled s' = handled s" "published s' = published s" "events s' = events s"
    "\<And>ev. runnerAt s \<noteq> Resending ev" "\<And>ev. runnerAt s = Reporting ev \<Longrightarrow> gone_event ev \<Longrightarrow> runnerAt s' = Stopped"
  shows "hb_inv threshold s'"
proof (rule hb_invI)
  show "monitor_ok threshold s'" using assms(2,4-6) by (intro monitor_ok_same[OF hb_invD(2)[OF assms(1)]]) auto
  show "channel_ok s'" using hb_invD(3)[OF assms(1)] assms(2,6-10) unfolding channel_ok_def by auto
qed (rule assms(3))

text \<open>A step of the monitor.\<close>

lemma monitor_moved:
  assumes "hb_inv threshold s" "monitor_ok threshold s'" "handled s' @ pending s' = handled s @ pending s"
    "published s' = published s" "runnerAt s' = runnerAt s" "failures s' = failures s" "events s = None \<Longrightarrow> events s' = None"
  shows "hb_inv threshold s'"
proof (rule hb_invI)
  show "runner_ok s'" using hb_invD(1)[OF assms(1)] assms(4-7) by (auto simp: runner_ok_def split: runner_place.splits)
  show "channel_ok s'" using hb_invD(3)[OF assms(1)] assms(3-5) unfolding channel_ok_def by simp
qed (rule assms(2))

lemma hb_step_inv:
  assumes "hb_step threshold s s'" "hb_inv threshold s"
  shows "hb_inv threshold s'"
  using assms
proof (induction rule: hb_step.induct)
  case (hb_cancel e s)
  show ?case by (rule monitor_moved[OF hb_cancel.prems monitor_ok_same[OF hb_invD(2)[OF hb_cancel.prems]]]) simp_all
next
  case (hb_elapsed s)
  then show ?case by (intro runner_moved[OF hb_elapsed.prems]) (use hb_invD(1)[OF hb_elapsed.prems] in \<open>auto simp: runner_ok_def\<close>)
next
  case (hb_cancelled s)
  then show ?case by (intro runner_moved[OF hb_cancelled.prems]) (use hb_invD(1)[OF hb_cancelled.prems] in \<open>auto simp: runner_ok_def\<close>)
next
  case (hb_beat s err)
  then show ?case by (intro runner_moved[OF hb_beat.prems])
      (use hb_invD(1)[OF hb_beat.prems] in \<open>auto simp: runner_ok_def beat_def split: option.split\<close>)
next
  case (hb_send s ev)
  show ?case
  proof (cases "events s = None")
    case True
    then show ?thesis using after_publish_inv[OF hb_send.prems] hb_send.hyps by (simp add: publish_send_def)
  next
    case False
    then show ?thesis using hb_send.hyps by (intro runner_moved[OF hb_send.prems])
        (use hb_invD(1)[OF hb_send.prems] in \<open>auto simp: runner_ok_def publish_send_def\<close>)
  qed
next
  case (hb_drain s ev)
  show ?case
  proof (rule hb_invI)
    show "runner_ok (publish_drain ev s)" using hb_invD(1)[OF hb_drain.prems] hb_drain.hyps by (simp add: runner_ok_def publish_drain_def)
    show "monitor_ok threshold (publish_drain ev s)"
      using hb_drain.hyps by (intro monitor_ok_same[OF hb_invD(2)[OF hb_drain.prems]]) (auto simp: publish_drain_def)
    have "subseq (handled s) (published s)"
      using hb_invD(3)[OF hb_drain.prems] by (cases "events s") (auto simp: channel_ok_def intro: subseq_drop_last)
    then show "channel_ok (publish_drain ev s)"
      using hb_invD(3)[OF hb_drain.prems] hb_drain.hyps unfolding channel_ok_def publish_drain_def by simp
  qed
next
  case (hb_resend s ev)
  then have "events s = None" using hb_invD(1)[OF hb_resend.prems] by (simp add: runner_ok_def)
  then show ?case using after_publish_inv[OF hb_resend.prems] hb_resend.hyps by (simp add: publish_resend_def)
next
  case (hb_report s ev)
  then show ?case by (intro runner_moved[OF hb_report.prems])
      (use hb_invD(1)[OF hb_report.prems] in \<open>auto simp: runner_ok_def report_error_def\<close>)
next
  case (hb_take_error s)
  show ?case by (rule monitor_moved[OF hb_take_error.prems monitor_ok_same[OF hb_invD(2)[OF hb_take_error.prems]]]) simp_all
next
  case (hb_receive s ev)
  show ?case
  proof (intro monitor_moved[OF hb_receive.prems])
    show "monitor_ok threshold (receive_event ev s)"
      using hb_invD(2)[OF hb_receive.prems] hb_receive.hyps by (auto simp: monitor_ok_def processed_def receive_event_def split: if_splits)
  qed (use hb_receive.hyps in \<open>simp_all add: receive_event_def\<close>)
next
  case (hb_handle s ev)
  have mon: "handled s \<noteq> []" "last (handled s) = ev" "health s = fold (monitor_event threshold) (butlast (handled s)) SessionHealthy"
    using hb_invD(2)[OF hb_handle.prems] hb_handle.hyps by (auto simp: monitor_ok_def processed_def split: if_splits)
  moreover have "handled s = butlast (handled s) @ [ev]" using mon(1,2) by (cases "handled s" rule: rev_cases) simp_all
  ultimately have "health (handle_event threshold ev s) = fold (monitor_event threshold) (handled s) SessionHealthy"
    using fold_append[of "monitor_event threshold" "butlast (handled s)" "[ev]"] by (simp add: handle_event_def comp_def)
  then show ?case using fold_monitor_open[of SessionHealthy threshold "handled s"] hb_handle.hyps
    by (intro monitor_moved[OF hb_handle.prems]) (auto simp: monitor_ok_def processed_def handle_event_def)
next
  case (hb_monitor_done s)
  show ?case
  proof (intro monitor_moved[OF hb_monitor_done.prems])
    show "monitor_ok threshold (s\<lparr>monitorAt := MonitorDone\<rparr>)"
      using hb_invD(2)[OF hb_monitor_done.prems] hb_monitor_done.hyps by (auto simp: monitor_ok_def processed_def split: if_splits)
  qed simp_all
next
  case (hb_closed s)
  show ?case
  proof (intro monitor_moved[OF hb_closed.prems])
    show "monitor_ok threshold (s\<lparr>health := SessionClosed\<rparr>)"
      using hb_invD(2)[OF hb_closed.prems] hb_closed.hyps by (simp add: monitor_ok_def)
  qed simp_all
qed

lemma hb_reach_inv: "hb_reach threshold s \<Longrightarrow> hb_inv threshold s"
proof (induction rule: hb_reach.induct)
  case hb_start
  then show ?case by (simp add: hb_inv_defs heartbeat_new_def)
qed (rule hb_step_inv)

lemma health_after_last:
  "(xs = [] \<longleftrightarrow> ys = []) \<Longrightarrow> (ys \<noteq> [] \<Longrightarrow> last xs = last ys) \<Longrightarrow> health_after threshold xs h \<Longrightarrow> health_after threshold ys h"
  by (cases "ys = []") (auto simp: health_after_def)

lemma subseq_gone_last:
  assumes "subseq xs ys" "\<And>ev. ev \<in> set (butlast ys) \<Longrightarrow> \<not> gone_event ev" "ev \<in> set (butlast xs)"
  shows "\<not> gone_event ev"
proof -
  have "ys \<noteq> []" using assms(1,3) by (cases xs) auto
  then have "subseq xs (butlast ys @ [last ys])" using assms(1) by simp
  then obtain us vs where v: "xs = us @ vs" "subseq us (butlast ys)" "subseq vs [last ys]" unfolding subseq_append_iff by blast
  have "length vs \<le> 1" using list_emb_length[OF v(3)] by simp
  then have "set (butlast xs) \<subseteq> set us" using v(1) by (cases vs) (auto dest: in_set_butlastD)
  then have "ev \<in> set (butlast ys)" using assms(3) subseq_mem[OF v(2), of ev] by auto
  then show ?thesis by (rule assms(2))
qed

lemma processed_health:
  assumes "hb_inv threshold s" "health s \<noteq> SessionClosed"
  shows "health_after threshold (processed s) (health s)"
proof -
  have chan: "subseq (handled s @ pending s) (published s)" "\<forall>ev \<in> set (butlast (published s)). \<not> gone_event ev"
    using hb_invD(3)[OF assms(1)] by (simp_all add: channel_ok_def)
  have h: "subseq (handled s) (published s)" using chan(1) by (cases "events s") (auto intro: subseq_drop_last)
  have "\<not> gone_event ev" if "ev \<in> set (butlast (processed s))" for ev
    using that subseq_gone_last[OF h] chan(2) by (auto simp: processed_def dest: in_set_butlastD split: monitor_place.splits)
  moreover have "health s = fold (monitor_event threshold) (processed s) SessionHealthy"
    using hb_invD(2)[OF assms(1)] assms(2) by (simp add: monitor_ok_def)
  ultimately show ?thesis using fold_monitor by metis
qed


lemma reach_after: "hb_reach threshold s \<Longrightarrow> hb_step threshold s s' \<Longrightarrow> s' = t \<Longrightarrow> hb_reach threshold t"
  using hb_next by blast

definition gone_beat :: heartbeat_state where
  "gone_beat = handle_event 3 \<lparr>evError = Some (Sentinel ErrSessionExpired), evFailures = 1\<rparr>
     (receive_event \<lparr>evError = Some (Sentinel ErrSessionExpired), evFailures = 1\<rparr>
       (publish_send \<lparr>evError = Some (Sentinel ErrSessionExpired), evFailures = 1\<rparr>
         (beat (Some (Sentinel ErrSessionExpired)) (heartbeat_new\<lparr>runnerAt := Beating\<rparr>))))"

lemma gone_beat_reach: "hb_reach 3 gone_beat"
proof -
  let ?ev = "\<lparr>evError = Some (Sentinel ErrSessionExpired), evFailures = 1\<rparr>"
  let ?s1 = "heartbeat_new\<lparr>runnerAt := Beating\<rparr>"
  let ?s2 = "beat (Some (Sentinel ErrSessionExpired)) ?s1"
  let ?s3 = "publish_send ?ev ?s2"
  let ?s4 = "receive_event ?ev ?s3"
  have "hb_reach 3 ?s1" using hb_next[OF hb_start hb_elapsed] by (simp add: heartbeat_new_def)
  then have "hb_reach 3 ?s2" by (rule hb_next) (rule hb_beat, simp)
  then have "hb_reach 3 ?s3" by (rule hb_next) (rule hb_send, simp add: beat_def heartbeat_new_def)
  then have "hb_reach 3 ?s4" by (rule hb_next) (rule hb_receive, simp_all add: hb_defs heartbeat_new_def)
  then show ?thesis unfolding gone_beat_def by (rule hb_next) (rule hb_handle, simp add: receive_event_def)
qed

lemma gone_beat_sel: "health gone_beat = SessionExpired" "published gone_beat = [\<lparr>evError = Some (Sentinel ErrSessionExpired), evFailures = 1\<rparr>]"
  by (simp_all add: gone_beat_def hb_defs heartbeat_new_def monitor_event_def session_gone_def sentinel_is_def setHealth_def)


text \<open>A session that was found expired admits no execution any more: its health only ever changes to \<open>CLOSED\<close>, and no further
  heartbeat is sent for it.\<close>

theorem expired_final:
  assumes "hb_reach threshold s" "health s = SessionExpired" "hb_step threshold s s'"
  shows "health s' \<in> {SessionExpired, SessionClosed} \<and> executionAllowed (health s') \<noteq> None \<and>
    runnerAt s' \<noteq> Delaying \<and> runnerAt s' \<noteq> Beating"
proof -
  have inv: "hb_inv threshold s" by (rule hb_reach_inv[OF assms(1)])
  have "processed s \<noteq> [] \<and> gone_event (last (processed s))"
    using processed_health[OF inv] assms(2) by (simp add: health_after_def)
  then have p: "last (processed s) \<in> set (processed s)" "gone_event (last (processed s))" by auto
  have "set (processed s) \<subseteq> set (handled s)" by (auto simp: processed_def dest: in_set_butlastD split: monitor_place.splits)
  note chan = hb_invD(3)[OF inv, unfolded channel_ok_def]
  have sub: "subseq (handled s) (published s)" using chan by (cases "events s") (auto intro: subseq_drop_last)
  have "last (processed s) \<in> set (handled s)" using p(1) \<open>set (processed s) \<subseteq> set (handled s)\<close> by blast
  then have known: "last (processed s) \<in> set (published s)" by (rule subseq_mem[OF sub])
  have "last (processed s) \<notin> set (butlast (published s))" using p(2) chan by blast
  then have "last (processed s) = last (published s)" using in_butlast_or_last[OF known] by blast
  then have at: "runnerAt s = Reporting (last (published s)) \<or> runnerAt s = Stopped" and gone: "gone_event (last (published s))"
    using chan p(2) known by auto
  have once: "\<not> gone_event ev" if "ev \<in> set (butlast (handled s @ pending s))" for ev
    using subseq_gone_last[of "handled s @ pending s" "published s"] that chan by blast
  have quiet: "monitorAt s \<noteq> Handling ev" for ev
  proof
    assume "monitorAt s = Handling ev"
    then have "last (processed s) \<in> set (butlast (handled s))" using p(1) by (simp add: processed_def)
    then have "last (processed s) \<in> set (butlast (handled s @ pending s))"
      by (cases "events s") (auto simp: butlast_append dest: in_set_butlastD)
    then show False using once p(2) by blast
  qed
  have none: "events s = None"
  proof (cases "events s")
    case (Some ev)
    then have "last (processed s) \<in> set (butlast (handled s @ pending s))"
      using p(1) \<open>set (processed s) \<subseteq> set (handled s)\<close> by auto
    then show ?thesis using once p(2) by blast
  qed
  show ?thesis
    using assms(3)
  proof cases
    case (hb_report ev)
    then show ?thesis using at gone assms(2) by (auto simp: report_error_def executionAllowed_def)
  qed (use at quiet none assms(2) in \<open>auto simp: executionAllowed_def\<close>)
qed

theorem expired_final_witness: "health (gone_beat\<lparr>runnerCtx := Some ContextCanceled\<rparr>) \<in> {SessionExpired, SessionClosed}"
proof -
  have "hb_step 3 gone_beat (gone_beat\<lparr>runnerCtx := Some ContextCanceled\<rparr>)" by (rule hb_cancel) simp
  from expired_final[OF gone_beat_reach gone_beat_sel(1) this] show ?thesis by blast
qed

end
