(* ===== verification/Serializer.thy ===== *)
theory Serializer
  imports Execution Tokens
begin

text \<open>
  \<open>serialized_session.go\<close>: the gate that lets one execution of a session run at a time.  A call of \<open>execute\<close> or \<open>stream\<close> is
  a place in a list; a step is one channel operation, one method of the activity group, or the end of the client's own
  work.  \<open>streaming i\<close> says that call \<open>i\<close> is a \<open>stream\<close>; it then holds the gate until its stream is finished.
\<close>

text \<open>Before the call, waiting for the token, with the token before the second look, before \<open>begin\<close>, running, with an open
  stream, in the three actions of \<open>onClose\<close>, and gone with the error that was returned.\<close>

datatype exec_place =
    Called | Queued | Granted | Entered | Running | Streaming
  | Finishing "goerr option" | Ending "goerr option" | Releasing "goerr option" | Left "goerr option"

fun has_gate :: "exec_place \<Rightarrow> bool" where
  "has_gate Called = False"
| "has_gate Queued = False"
| "has_gate (Left _) = False"
| "has_gate _ = True"

fun working :: "exec_place \<Rightarrow> bool" where
  "working Running = True"
| "working Streaming = True"
| "working (Finishing _) = True"
| "working (Ending _) = True"
| "working _ = False"

record sessionSerializer =
  serClient :: bool
  serHandle :: string
  serGate :: nat
  serActivity :: activity
  execs :: "exec_place list"

definition newSessionSerializer :: "bool \<Rightarrow> string \<Rightarrow> nat \<Rightarrow> sessionSerializer" where
  "newSessionSerializer client handle n =
     \<lparr>serClient = client, serHandle = handle, serGate = 1, serActivity = newActivityGroup ErrSessionClosed,
      execs = replicate n Called\<rparr>"

definition put_exec :: "nat \<Rightarrow> exec_place \<Rightarrow> sessionSerializer \<Rightarrow> sessionSerializer" where
  "put_exec i p s = s\<lparr>execs := (execs s)[i := p]\<rparr>"

definition serializer_isClosed :: "sessionSerializer \<Rightarrow> bool" where
  "serializer_isClosed s = ag_isClosed (serActivity s)"

definition serializer_validate :: "sessionSerializer \<Rightarrow> goerr option" where
  "serializer_validate s =
     (if \<not> serClient s then Some (Errorf ''flinksqlgateway: client is required'' [])
      else case validateSessionHandle (serHandle s) of
        Some err \<Rightarrow> Some err
      | None \<Rightarrow> if ag_isClosed (serActivity s) then Some (Sentinel ErrSessionClosed) else None)"

definition call_exec :: "nat \<Rightarrow> sessionSerializer \<Rightarrow> sessionSerializer" where
  "call_exec i s = put_exec i (case serializer_validate s of Some err \<Rightarrow> Left (Some err) | None \<Rightarrow> Queued) s"

text \<open>\<open>acquire\<close>: the token, the second look, and the context that ends first.\<close>

definition acquire_token :: "nat \<Rightarrow> sessionSerializer \<Rightarrow> sessionSerializer" where
  "acquire_token i s = put_exec i Granted (s\<lparr>serGate := serGate s - 1\<rparr>)"

definition acquire_look :: "nat \<Rightarrow> sessionSerializer \<Rightarrow> sessionSerializer" where
  "acquire_look i s = put_exec i (if serializer_isClosed s then Releasing (Some (Sentinel ErrSessionClosed)) else Entered) s"

definition acquire_cancelled :: "nat \<Rightarrow> sentinel \<Rightarrow> sessionSerializer \<Rightarrow> sessionSerializer" where
  "acquire_cancelled i ctxErr s = put_exec i (Left (Some (Sentinel (if serializer_isClosed s then ErrSessionClosed else ctxErr)))) s"

definition release_gate :: "nat \<Rightarrow> goerr option \<Rightarrow> sessionSerializer \<Rightarrow> sessionSerializer" where
  "release_gate i err s = put_exec i (Left err) (s\<lparr>serGate := serGate s + 1\<rparr>)"

definition begin_exec :: "nat \<Rightarrow> sessionSerializer \<Rightarrow> sessionSerializer" where
  "begin_exec i s =
     (case ag_begin (serActivity s) of
        (Some err, g) \<Rightarrow> put_exec i (Releasing (Some err)) (s\<lparr>serActivity := g\<rparr>)
      | (None, g) \<Rightarrow> put_exec i Running (s\<lparr>serActivity := g\<rparr>))"

definition end_exec :: "nat \<Rightarrow> goerr option \<Rightarrow> sessionSerializer \<Rightarrow> sessionSerializer" where
  "end_exec i err s = put_exec i (Releasing err) (s\<lparr>serActivity := ag_end (serActivity s)\<rparr>)"

text \<open>The stream is registered; when the session is closed by then, the wrapper is closed again.\<close>

definition register_exec :: "nat \<Rightarrow> sessionSerializer \<Rightarrow> sessionSerializer" where
  "register_exec i s =
     (case ag_registerStream i (serActivity s) of
        (Some err, g) \<Rightarrow> put_exec i (Finishing (Some err)) (s\<lparr>serActivity := g\<rparr>)
      | (None, g) \<Rightarrow> put_exec i Streaming (s\<lparr>serActivity := g\<rparr>))"

definition unregister_exec :: "nat \<Rightarrow> goerr option \<Rightarrow> sessionSerializer \<Rightarrow> sessionSerializer" where
  "unregister_exec i err s = put_exec i (Ending err) (s\<lparr>serActivity := ag_unregisterStream i (serActivity s)\<rparr>)"

definition closeLocal :: "sessionSerializer \<Rightarrow> nat list \<times> sessionSerializer" where
  "closeLocal s = (let (streams, g) = ag_stop (serActivity s) in (streams, s\<lparr>serActivity := g\<rparr>))"

text \<open>\<open>finish\<close> runs \<open>onClose\<close> under a \<open>sync.Once\<close>, so a stream leaves \<open>Streaming\<close> once, whichever of \<open>Next\<close>, \<open>Close\<close> and
  \<open>closeWithContext\<close> comes first.\<close>

inductive ser_step :: "(nat \<Rightarrow> bool) \<Rightarrow> sessionSerializer \<Rightarrow> sessionSerializer \<Rightarrow> bool" for streaming where
  ser_call: "i < length (execs s) \<Longrightarrow> execs s ! i = Called \<Longrightarrow> ser_step streaming s (call_exec i s)"
| ser_token: "i < length (execs s) \<Longrightarrow> execs s ! i = Queued \<Longrightarrow> 0 < serGate s \<Longrightarrow> ser_step streaming s (acquire_token i s)"
| ser_cancelled: "i < length (execs s) \<Longrightarrow> execs s ! i = Queued \<Longrightarrow> e = ContextCanceled \<or> e = ContextDeadlineExceeded \<Longrightarrow>
     ser_step streaming s (acquire_cancelled i e s)"
| ser_look: "i < length (execs s) \<Longrightarrow> execs s ! i = Granted \<Longrightarrow> ser_step streaming s (acquire_look i s)"
| ser_begin: "i < length (execs s) \<Longrightarrow> execs s ! i = Entered \<Longrightarrow> ser_step streaming s (begin_exec i s)"
| ser_over: "i < length (execs s) \<Longrightarrow> execs s ! i = Running \<Longrightarrow> \<not> streaming i \<or> err \<noteq> None \<Longrightarrow> ser_step streaming s (end_exec i err s)"
| ser_stream: "i < length (execs s) \<Longrightarrow> execs s ! i = Running \<Longrightarrow> streaming i \<Longrightarrow> ser_step streaming s (register_exec i s)"
| ser_finish: "i < length (execs s) \<Longrightarrow> execs s ! i = Streaming \<Longrightarrow> ser_step streaming s (put_exec i (Finishing None) s)"
| ser_unregister: "i < length (execs s) \<Longrightarrow> execs s ! i = Finishing err \<Longrightarrow> ser_step streaming s (unregister_exec i err s)"
| ser_end: "i < length (execs s) \<Longrightarrow> execs s ! i = Ending err \<Longrightarrow> ser_step streaming s (end_exec i err s)"
| ser_release: "i < length (execs s) \<Longrightarrow> execs s ! i = Releasing err \<Longrightarrow> serGate s < 1 \<Longrightarrow> ser_step streaming s (release_gate i err s)"
| ser_close: "ser_step streaming s (snd (closeLocal s))"

definition ser_reach :: "(nat \<Rightarrow> bool) \<Rightarrow> bool \<Rightarrow> string \<Rightarrow> nat \<Rightarrow> sessionSerializer \<Rightarrow> bool" where
  "ser_reach streaming client handle n = (ser_step streaming)\<^sup>*\<^sup>* (newSessionSerializer client handle n)"

section \<open>The invariant\<close>

definition ser_inv :: "sessionSerializer \<Rightarrow> bool" where
  "ser_inv s =
     (serGate s + count_at has_gate (execs s) = 1 \<and> active (serActivity s) = count_at working (execs s) \<and>
      closedErr (serActivity s) = ErrSessionClosed \<and>
      (\<forall>i < length (execs s). execs s ! i = Streaming \<longrightarrow> i \<in> set (agStreams (serActivity s))))"

lemma put_exec_sel [simp]: "execs (put_exec i p s) = (execs s)[i := p]" "serGate (put_exec i p s) = serGate s"
  "serActivity (put_exec i p s) = serActivity s"
  by (simp_all add: put_exec_def)

lemmas activity_defs = ag_begin_def ag_end_def ag_registerStream_def ag_unregisterStream_def ag_stop_def Let_def

lemmas exec_defs = call_exec_def acquire_token_def acquire_look_def acquire_cancelled_def begin_exec_def end_exec_def
  register_exec_def unregister_exec_def release_gate_def closeLocal_def

text \<open>A call that moves to \<open>p\<close>, with the gate and the group changed as the two counts require.\<close>

lemma moved_exec:
  assumes "ser_inv s" "i < length (execs s)" "execs s' = (execs s)[i := p]" "closedErr (serActivity s') = ErrSessionClosed"
    "serGate s' + (if has_gate p then 1 else 0) = serGate s + (if has_gate (execs s ! i) then 1 else 0)"
    "active (serActivity s') + (if working (execs s ! i) then 1 else 0) = active (serActivity s) + (if working p then 1 else 0)"
    "p = Streaming \<Longrightarrow> i \<in> set (agStreams (serActivity s'))"
    "\<And>j. j \<noteq> i \<Longrightarrow> j \<in> set (agStreams (serActivity s)) \<Longrightarrow> j \<in> set (agStreams (serActivity s'))"
  shows "ser_inv s'"
proof -
  note c = count_at_update[OF assms(2), of has_gate p] count_at_update[OF assms(2), of working p]
  have "serGate s' + count_at has_gate (execs s') = 1" using c(1) assms(1,3,5) by (auto simp: ser_inv_def split: if_splits)
  moreover have "active (serActivity s') = count_at working (execs s')"
    using c(2) assms(1,3,6) by (auto simp: ser_inv_def split: if_splits)
  moreover have "j \<in> set (agStreams (serActivity s'))" if "j < length (execs s')" "execs s' ! j = Streaming" for j
    using that assms(1,2,3,7,8) by (cases "j = i") (auto simp: ser_inv_def)
  ultimately show ?thesis using assms(4) by (simp add: ser_inv_def)
qed

lemma working_active: "ser_inv s \<Longrightarrow> i < length (execs s) \<Longrightarrow> working (execs s ! i) \<Longrightarrow> 0 < active (serActivity s)"
  using count_at_pos[of i "execs s" working] by (simp add: ser_inv_def)

lemma ser_inv_err: "ser_inv s \<Longrightarrow> closedErr (serActivity s) = ErrSessionClosed"
  by (simp add: ser_inv_def)

lemma ser_step_inv [go_inv]:
  assumes "ser_step streaming s s'" "ser_inv s"
  shows "ser_inv s'"
  using assms
proof (induction rule: ser_step.induct)
  case (ser_call i s)
  then show ?case by (intro moved_exec[OF ser_call.prems ser_call.hyps(1)])
      (auto simp: call_exec_def ser_inv_err split: option.splits)
next
  case (ser_token i s)
  then show ?case by (intro moved_exec[OF ser_token.prems ser_token.hyps(1)]) (auto simp: acquire_token_def ser_inv_err)
next
  case (ser_cancelled i s e)
  then show ?case by (intro moved_exec[OF ser_cancelled.prems ser_cancelled.hyps(1)]) (auto simp: acquire_cancelled_def ser_inv_err)
next
  case (ser_look i s)
  then show ?case by (intro moved_exec[OF ser_look.prems ser_look.hyps(1)]) (auto simp: acquire_look_def ser_inv_err split: if_splits)
next
  case (ser_begin i s)
  note moved = moved_exec[OF ser_begin.prems ser_begin.hyps(1)]
  show ?case
  proof (cases "agClosed (serActivity s)")
    case True
    then show ?thesis using ser_begin by (intro moved[of _ "Releasing (Some (Sentinel ErrSessionClosed))"])
        (simp_all add: begin_exec_def activity_defs ser_inv_err)
  next
    case False
    then show ?thesis using ser_begin by (intro moved[of _ Running]) (simp_all add: begin_exec_def activity_defs ser_inv_err)
  qed
next
  case (ser_over i s err)
  then show ?case using working_active[OF ser_over.prems ser_over.hyps(1)]
    by (intro moved_exec[OF ser_over.prems ser_over.hyps(1)]) (auto simp: end_exec_def activity_defs ser_inv_err)
next
  case (ser_stream i s)
  note moved = moved_exec[OF ser_stream.prems ser_stream.hyps(1)]
  show ?case
  proof (cases "agClosed (serActivity s)")
    case True
    then show ?thesis using ser_stream by (intro moved[of _ "Finishing (Some (Sentinel ErrSessionClosed))"])
        (simp_all add: register_exec_def activity_defs ser_inv_err)
  next
    case False
    then show ?thesis using ser_stream by (intro moved[of _ Streaming]) (simp_all add: register_exec_def activity_defs ser_inv_err)
  qed
next
  case (ser_finish i s)
  then show ?case by (intro moved_exec[OF ser_finish.prems ser_finish.hyps(1)]) (auto simp: ser_inv_err)
next
  case (ser_unregister i s err)
  then show ?case by (intro moved_exec[OF ser_unregister.prems ser_unregister.hyps(1)])
      (auto simp: unregister_exec_def activity_defs ser_inv_err)
next
  case (ser_end i s err)
  then show ?case using working_active[OF ser_end.prems ser_end.hyps(1)]
    by (intro moved_exec[OF ser_end.prems ser_end.hyps(1)]) (auto simp: end_exec_def activity_defs ser_inv_err)
next
  case (ser_release i s err)
  then show ?case by (intro moved_exec[OF ser_release.prems ser_release.hyps(1)]) (auto simp: release_gate_def ser_inv_err)
next
  case (ser_close s)
  then show ?case by (simp add: closeLocal_def ag_stop_def ser_inv_def)
qed

lemma ser_new_inv: "ser_inv (newSessionSerializer client handle n)"
  by (simp add: ser_inv_def newSessionSerializer_def newActivityGroup_def count_at_def)

lemma ser_steps_inv: "(ser_step streaming)\<^sup>*\<^sup>* s s' \<Longrightarrow> ser_inv s \<Longrightarrow> ser_inv s'"
  by (induction rule: rtranclp_induct) (auto intro: ser_step_inv)

lemma ser_reach_inv: "ser_reach streaming client handle n s \<Longrightarrow> ser_inv s"
  unfolding ser_reach_def by (blast intro: ser_steps_inv ser_new_inv)

interpretation serializer: token_lock "ser_reach streaming client handle n" "\<lambda>_ _. True" "\<lambda>s _. serGate s" execs "\<lambda>(_ :: unit). has_gate"
  by unfold_locales (use ser_reach_inv in \<open>auto simp: ser_inv_def\<close>)

section \<open>Closing\<close>

text \<open>The group of a serializer only takes the steps of an activity group.\<close>

lemma ser_step_group: "ser_step streaming s s' \<Longrightarrow> ag_step\<^sup>*\<^sup>* (serActivity s) (serActivity s')"
proof (induction rule: ser_step.induct)
  case (ser_begin i s)
  have "serActivity (begin_exec i s) = snd (ag_begin (serActivity s))"
    by (simp add: begin_exec_def split: prod.splits option.splits)
  then show ?case using step_begin[of "serActivity s"] by auto
next
  case (ser_stream i s)
  have "serActivity (register_exec i s) = snd (ag_registerStream i (serActivity s))"
    by (simp add: register_exec_def split: prod.splits option.splits)
  then show ?case using step_register[of "serActivity s" i] by auto
next
  case (ser_close s)
  have "serActivity (snd (closeLocal s)) = snd (ag_stop (serActivity s))" by (simp add: closeLocal_def ag_stop_def)
  then show ?case using step_stop[of "serActivity s"] by auto
next
  case (ser_over i s err)
  then show ?case using step_end[of "serActivity s"] by (simp add: end_exec_def r_into_rtranclp)
next
  case (ser_end i s err)
  then show ?case using step_end[of "serActivity s"] by (simp add: end_exec_def r_into_rtranclp)
next
  case (ser_unregister i s err)
  then show ?case using step_unregister[of "serActivity s" i] by (simp add: unregister_exec_def r_into_rtranclp)
qed (simp_all add: call_exec_def acquire_token_def acquire_look_def acquire_cancelled_def release_gate_def)

lemma ser_steps_group: "(ser_step streaming)\<^sup>*\<^sup>* s s' \<Longrightarrow> ag_step\<^sup>*\<^sup>* (serActivity s) (serActivity s')"
  by (induction rule: rtranclp_induct) (auto dest: ser_step_group)

text \<open>The state of a call that a closed session refuses.\<close>

definition turned_away :: "exec_place \<Rightarrow> bool" where
  "turned_away p = (p \<in> {Called, Queued, Granted, Entered, Releasing (Some (Sentinel ErrSessionClosed)), Left (Some (Sentinel ErrSessionClosed))})"

definition closed_serializer :: "sessionSerializer \<Rightarrow> bool" where
  "closed_serializer s = (serializer_isClosed s \<and> serClient s \<and> validateSessionHandle (serHandle s) = None)"

lemma put_exec_frame [simp]: "serClient (put_exec i p s) = serClient s" "serHandle (put_exec i p s) = serHandle s"
  by (simp_all add: put_exec_def)

lemma closed_serializer_validate: "closed_serializer s \<Longrightarrow> serializer_validate s = Some (Sentinel ErrSessionClosed)"
  unfolding closed_serializer_def serializer_isClosed_def serializer_validate_def by (simp del: validateSessionHandle_None_iff)

lemma closed_serializer_cong:
  "closed_serializer s \<Longrightarrow> serClient s' = serClient s \<Longrightarrow> serHandle s' = serHandle s \<Longrightarrow>
     agClosed (serActivity s') = agClosed (serActivity s) \<Longrightarrow> closed_serializer s'"
  by (simp add: closed_serializer_def serializer_isClosed_def ag_isClosed_def)

lemma ser_step_refused:
  assumes "ser_step streaming s s'" "ser_inv s" "closed_serializer s" "turned_away (execs s ! j)" "j < length (execs s)"
  shows "closed_serializer s' \<and> turned_away (execs s' ! j) \<and> length (execs s') = length (execs s)"
  using assms
proof -
  have closed: "serializer_isClosed s" "agClosed (serActivity s)"
    using assms(3) by (simp_all add: closed_serializer_def serializer_isClosed_def ag_isClosed_def)
  note facts = closed ser_inv_err[OF assms(2)] closed_serializer_validate[OF assms(3)] assms(4,5)
  have frame: "serClient s' = serClient s \<and> serHandle s' = serHandle s \<and> agClosed (serActivity s') = agClosed (serActivity s)"
    using assms(1) by cases (use closed in \<open>auto simp: exec_defs activity_defs split: prod.splits option.splits\<close>)
  have "turned_away (execs s' ! j) \<and> length (execs s') = length (execs s)"
    using assms(1) by cases (use facts in \<open>auto simp: exec_defs activity_defs turned_away_def nth_list_update\<close>)
  then show ?thesis using closed_serializer_cong[OF assms(3)] frame by blast
qed

lemma ser_steps_refused:
  assumes "(ser_step streaming)\<^sup>*\<^sup>* s s'" "ser_inv s" "closed_serializer s" "turned_away (execs s ! j)" "j < length (execs s)"
  shows "closed_serializer s' \<and> turned_away (execs s' ! j) \<and> length (execs s') = length (execs s)"
  using assms(1)
proof (induction rule: rtranclp_induct)
  case (step s1 s2)
  then show ?case using ser_step_refused[OF step.hyps(2) ser_steps_inv[OF step.hyps(1) assms(2)], of j] assms(5) by auto
qed (use assms in simp)

text \<open>C35: of the executions of a serialized session at most one holds the gate, from the moment it takes the token until its
  collected result is complete or its stream is finished; giving the gate back never blocks; a waiting call can go on
  when nobody holds it; and an open stream is always among those that closing the session will close.\<close>

theorem one_execution:
  assumes "ser_reach streaming client handle n s"
  shows "(\<forall>i < length (execs s). \<forall>j < length (execs s). has_gate (execs s ! i) \<longrightarrow> has_gate (execs s ! j) \<longrightarrow> i = j) \<and>
    active (serActivity s) \<le> 1 \<and>
    (\<forall>i < length (execs s). \<forall>err. execs s ! i = Releasing err \<longrightarrow> ser_step streaming s (release_gate i err s)) \<and>
    (\<forall>i < length (execs s). execs s ! i = Queued \<longrightarrow> list_all (\<lambda>p. \<not> has_gate p) (execs s) \<longrightarrow> ser_step streaming s (acquire_token i s)) \<and>
    (\<forall>i < length (execs s). execs s ! i = Streaming \<longrightarrow> i \<in> set (fst (closeLocal s)))"
proof -
  have inv: "ser_inv s" by (rule ser_reach_inv[OF assms])
  have one: "i = j" if "i < length (execs s)" "j < length (execs s)" "has_gate (execs s ! i)" "has_gate (execs s ! j)" for i j
    using serializer.exclusive[OF assms TrueI] that by blast
  have "count_at working (execs s) \<le> count_at has_gate (execs s)"
  proof -
    have "working p \<Longrightarrow> has_gate p" for p by (cases p) auto
    then have "set (filter working xs) \<subseteq> {p. has_gate p} \<and> length (filter working xs) \<le> length (filter has_gate xs)" for xs
      by (induction xs) auto
    then show ?thesis unfolding count_at_def by blast
  qed
  then have few: "active (serActivity s) \<le> 1" using inv by (simp add: ser_inv_def)
  have room: "ser_step streaming s (release_gate i err s)" if "i < length (execs s)" "execs s ! i = Releasing err" for i err
    using ser_release[OF that] serializer.room[OF assms TrueI that(1)] that(2) by simp
  have free: "ser_step streaming s (acquire_token i s)"
    if "i < length (execs s)" "execs s ! i = Queued" "list_all (\<lambda>p. \<not> has_gate p) (execs s)" for i
    using ser_token[OF that(1,2)] serializer.free[OF assms TrueI] that(3) by (auto simp: list_all_iff)
  have tracked: "i \<in> set (fst (closeLocal s))" if "i < length (execs s)" "execs s ! i = Streaming" for i
    using inv that by (simp add: ser_inv_def closeLocal_def ag_stop_def)
  show ?thesis using one few room free tracked by blast
qed

lemma example_session: "validateSessionHandle ''s'' = None"
  using example_handles(1) by simp

theorem one_execution_witness:
  "\<exists>s. ser_reach (\<lambda>_. False) True ''s'' 2 s \<and> execs s = [Running, Queued] \<and> active (serActivity s) \<le> 1"
proof -
  let ?step = "ser_step (\<lambda>_. False)"
  let ?s0 = "newSessionSerializer True ''s'' 2"
  let ?s1 = "call_exec 0 ?s0"
  let ?s2 = "call_exec 1 ?s1"
  let ?s3 = "acquire_token 0 ?s2"
  let ?s4 = "acquire_look 0 ?s3"
  let ?s5 = "begin_exec 0 ?s4"
  have v: "validateSessionHandle ''s'' = None" by (rule example_session)
  note defs = newSessionSerializer_def newActivityGroup_def exec_defs serializer_validate_def ag_isClosed_def ag_begin_def
    serializer_isClosed_def put_exec_def numeral_2_eq_2 v
  have "?step ?s0 ?s1" using ser_call[of 0 ?s0] by (simp add: defs)
  moreover have "?step ?s1 ?s2" using ser_call[of 1 ?s1] by (simp add: defs)
  moreover have "?step ?s2 ?s3" using ser_token[of 0 ?s2] by (simp add: defs)
  moreover have "?step ?s3 ?s4" using ser_look[of 0 ?s3] by (simp add: defs)
  moreover have "?step ?s4 ?s5" using ser_begin[of 0 ?s4] by (simp add: defs)
  ultimately have "?step\<^sup>*\<^sup>* ?s0 ?s5" by (meson rtranclp.rtrancl_into_rtrancl rtranclp.rtrancl_refl)
  then have r: "ser_reach (\<lambda>_. False) True ''s'' 2 ?s5" by (simp add: ser_reach_def)
  have "execs ?s5 = [Running, Queued]" by (simp add: defs)
  with one_execution[OF r] r show ?thesis by blast
qed

text \<open>C34: once a serialized session is closed and the wait of \<open>Close\<close> has returned, no execution of it runs and none ever
  will, so the session that is then closed at the server is idle; and a call that had not begun by the time the session was
  closed, whether it came later, waited for the gate or had just got it, only ever returns \<open>ErrSessionClosed\<close>.\<close>

theorem serialized_close:
  assumes "ser_reach streaming client handle n s" "closed_serializer s" "(ser_step streaming)\<^sup>*\<^sup>* s s1"
  shows "(wait_over (wait_channel (serActivity s)) (serActivity s1) \<longrightarrow>
      (\<forall>s2. (ser_step streaming)\<^sup>*\<^sup>* s1 s2 \<longrightarrow> list_all (\<lambda>p. \<not> working p) (execs s2))) \<and>
    (\<forall>j < length (execs s). \<forall>v. execs s ! j \<in> {Called, Queued, Granted, Entered} \<longrightarrow> execs s1 ! j = Left v \<longrightarrow>
       v = Some (Sentinel ErrSessionClosed))"
proof (intro conjI impI allI)
  fix s2
  assume over: "wait_over (wait_channel (serActivity s)) (serActivity s1)" and later: "(ser_step streaming)\<^sup>*\<^sup>* s1 s2"
  have start: "ag_step\<^sup>*\<^sup>* (newActivityGroup ErrSessionClosed) (serActivity s)"
    using ser_steps_group assms(1) unfolding ser_reach_def by (force simp: newSessionSerializer_def)
  have closed: "agClosed (serActivity s)" using assms(2) by (simp add: closed_serializer_def serializer_isClosed_def ag_isClosed_def)
  note one = ag_steps_closed[OF ser_steps_group[OF assms(3)] closed]
  have "ag_inv (serActivity s1)" using ag_steps_inv[OF ser_steps_group[OF assms(3)]] ag_steps_inv[OF start] by auto
  then have "active (serActivity s1) = 0" using over one by (simp add: ag_inv_def wait_over_def wait_channel_def)
  then have idle: "active (serActivity s2) = 0" using ag_steps_closed[OF ser_steps_group[OF later]] one by auto
  have "ser_inv s2" using ser_steps_inv[OF later ser_steps_inv[OF assms(3) ser_reach_inv[OF assms(1)]]] .
  then have "count_at working (execs s2) = 0" using idle by (simp add: ser_inv_def)
  then show "list_all (\<lambda>p. \<not> working p) (execs s2)" by (simp add: count_at_def filter_empty_conv list_all_iff)
next
  fix j v
  assume j: "j < length (execs s)" "execs s ! j \<in> {Called, Queued, Granted, Entered}" "execs s1 ! j = Left v"
  have "turned_away (execs s ! j)" using j(2) by (auto simp: turned_away_def)
  then have "turned_away (execs s1 ! j)" using ser_steps_refused[OF assms(3) ser_reach_inv[OF assms(1)] assms(2) _ j(1)] by blast
  then show "v = Some (Sentinel ErrSessionClosed)" using j(3) by (simp add: turned_away_def)
qed

theorem serialized_close_witness:
  "\<exists>s. ser_reach (\<lambda>_. False) True ''s'' 1 s \<and> list_all (\<lambda>p. \<not> working p) (execs s)"
proof -
  let ?step = "ser_step (\<lambda>_. False)"
  let ?s0 = "newSessionSerializer True ''s'' 1"
  let ?s1 = "snd (closeLocal ?s0)"
  have v: "validateSessionHandle ''s'' = None" by (rule example_session)
  have "?step\<^sup>*\<^sup>* ?s0 ?s1" using ser_close[of "\<lambda>_. False" ?s0] by blast
  then have r: "ser_reach (\<lambda>_. False) True ''s'' 1 ?s1" by (simp add: ser_reach_def)
  have c: "closed_serializer ?s1"
    by (simp add: closed_serializer_def serializer_isClosed_def ag_isClosed_def closeLocal_def ag_stop_def newSessionSerializer_def v)
  have w: "wait_over (wait_channel (serActivity ?s1)) (serActivity ?s1)"
    by (simp add: wait_over_def wait_channel_def closeLocal_def ag_stop_def newSessionSerializer_def newActivityGroup_def)
  from serialized_close[OF r c rtranclp.rtrancl_refl] w have "list_all (\<lambda>p. \<not> working p) (execs ?s1)" by blast
  with r show ?thesis by blast
qed

end
