(* ===== verification/Managed_Session.thy ===== *)
theory Managed_Session
  imports Heartbeats Serializer
begin

text \<open>
  \<open>managed_session.go\<close> and \<open>startHeartbeat\<close> of \<open>heartbeat.go\<close>, for one caller at a time: a managed session owns a session of
  the client, its heartbeat, the group of its executions and, if asked, a serializer.  How several callers interleave is in
  Serializer, how the heartbeat sets the health in Heartbeats, how concurrent closes share one call in Single_Flight.
\<close>

section \<open>Starting the heartbeat\<close>

text \<open>The new runner with its interval and jitter, or the runner the session already has.\<close>

definition startHeartbeat ::
  "('w, 'c) transport_env \<Rightarrow> config \<Rightarrow> 'c \<Rightarrow> string \<Rightarrow> int \<Rightarrow> int \<Rightarrow> 'w client \<Rightarrow> ('w, (int \<times> int) option) answer" where
  "startHeartbeat env cfg ctx h interval jitter c =
     (case validateSessionHandle h of Some err \<Rightarrow> (Inl err, c) | None \<Rightarrow>
     (case ensureOpen env ctx c of Some err \<Rightarrow> (Inl err, c) | None \<Rightarrow>
     (case client_CheckAPIVersion env cfg ctx c of
        (Some err, c1) \<Rightarrow> (Inl err, c1)
      | (None, c1) \<Rightarrow>
          (let interval = (if interval \<le> 0 then HeartbeatInterval cfg else interval) in
           if jitter < 0 then (Inl (Errorf ''flinksqlgateway: heartbeat jitter must not be negative'' []), c1)
           else if h \<in> set (heartbeats c1) then (Inr None, c1)
           else (Inr (Some (interval, jitter)), c1\<lparr>heartbeats := h # heartbeats c1\<rparr>)))))"

definition StartHeartbeat ::
  "('w, 'c) transport_env \<Rightarrow> config \<Rightarrow> 'c \<Rightarrow> string \<Rightarrow> 'w client \<Rightarrow> ('w, (int \<times> int) option) answer" where
  "StartHeartbeat env cfg ctx h c = startHeartbeat env cfg ctx h (HeartbeatInterval cfg) 0 c"

section \<open>Managed sessions\<close>

record managed_options =
  moInterval :: int
  moJitter :: int
  moThreshold :: int
  moCleanupTimeout :: int
  moSerialize :: bool

text \<open>The serializer is its activity group; the closed flag of \<open>shutdownOnce\<close> is \<open>msShutdown\<close>.\<close>

record managed_session =
  msNumber :: nat
  msHandle :: string
  msOptions :: managed_options
  msActivity :: activity
  msSerializer :: "activity option"
  msHealth :: session_health
  msRunner :: "(int \<times> int) option"
  msShutdown :: bool
  msCloseComplete :: bool

definition registerManaged :: "nat \<Rightarrow> 'w client \<Rightarrow> goerr option \<times> 'w client" where
  "registerManaged i c =
     (if clientClosed c then (Some (Sentinel ErrClientClosed), c) else (None, c\<lparr>managed := List.insert i (managed c)\<rparr>))"

definition unregisterManaged :: "nat \<Rightarrow> 'w client \<Rightarrow> 'w client" where
  "unregisterManaged i c = c\<lparr>managed := removeAll i (managed c)\<rparr>"

definition managed_defaults :: "config \<Rightarrow> managed_options \<Rightarrow> (goerr, managed_options) result" where
  "managed_defaults cfg o1 =
     (let o2 = (if moInterval o1 \<le> 0 then o1\<lparr>moInterval := HeartbeatInterval cfg\<rparr> else o1) in
      if moJitter o2 < 0 then Inl (Errorf ''flinksqlgateway: heartbeat jitter must not be negative'' [])
      else
        (let o3 = (if moThreshold o2 \<le> 0 then o2\<lparr>moThreshold := 3\<rparr> else o2) in
         Inr (if moCleanupTimeout o3 \<le> 0 then o3\<lparr>moCleanupTimeout := RequestTimeout cfg\<rparr> else o3)))"

definition new_managed :: "nat \<Rightarrow> string \<Rightarrow> managed_options \<Rightarrow> managed_session" where
  "new_managed i handle options =
     \<lparr>msNumber = i, msHandle = handle, msOptions = options, msActivity = newActivityGroup ErrSessionClosed,
      msSerializer = if moSerialize options then Some (newActivityGroup ErrSessionClosed) else None,
      msHealth = SessionHealthy, msRunner = None, msShutdown = False, msCloseComplete = False\<rparr>"

text \<open>The life of the session is a child of the client's; a context that ends with it is one merged with the client's.\<close>

definition session_ctx :: "('w, 'c) transport_env \<Rightarrow> 'c" where
  "session_ctx env = ctx_merge env (ctx_background env)"

definition managed_cleanup :: "('w, 'c) transport_env \<Rightarrow> config \<Rightarrow> managed_options \<Rightarrow> string \<Rightarrow> 'w client \<Rightarrow> 'w client" where
  "managed_cleanup env cfg options handle c =
     snd (CloseSession env cfg (ctx_with_cleanup env (ctx_with_timeout env (moCleanupTimeout options) (ctx_background env) (world c))) handle c)"

definition session_event :: "string \<Rightarrow> string \<Rightarrow> string \<Rightarrow> goerr option \<Rightarrow> lifecycle_observation" where
  "session_event event handle h err = no_observation\<lparr>loEvent := event, loSession := handle, loCurrentHealth := h, loError := err\<rparr>"

definition OpenManagedSession ::
  "('w, 'c) transport_env \<Rightarrow> config \<Rightarrow> 'c \<Rightarrow> open_session_request \<Rightarrow> managed_options \<Rightarrow> 'w client \<Rightarrow> ('w, managed_session) answer" where
  "OpenManagedSession env cfg ctx req options c =
     (case ensureOpen env ctx c of Some err \<Rightarrow> (Inl err, c) | None \<Rightarrow>
     (case managed_defaults cfg options of Inl err \<Rightarrow> (Inl err, c) | Inr options \<Rightarrow>
     (case OpenSession env cfg ctx req c of
        (Inl err, c1) \<Rightarrow> (Inl err, c1)
      | (Inr session, c1) \<Rightarrow>
          (let i = allocated c1; h = srHandle session; m = new_managed i h options in
           case registerManaged i (c1\<lparr>allocated := i + 1\<rparr>) of
             (Some err, c2) \<Rightarrow> (Inl err, managed_cleanup env cfg options h c2)
           | (None, c2) \<Rightarrow>
               (case startHeartbeat env cfg (session_ctx env) h (moInterval options) (moJitter options) c2 of
                  (Inl err, c3) \<Rightarrow> (Inl err, managed_cleanup env cfg options h (unregisterManaged i c3))
                | (Inr runner, c3) \<Rightarrow>
                    (Inr (m\<lparr>msRunner := runner\<rparr>), observeLifecycle env (session_event ''SessionOpened'' h ''HEALTHY'' None) c3))))))"

section \<open>Executions\<close>

text \<open>\<open>sessionSerializer.execute\<close> and its \<open>stream\<close>; \<open>acquired\<close> is the outcome of \<open>acquire\<close>.\<close>

definition serializer_refuses :: "string \<Rightarrow> goerr option \<Rightarrow> activity \<Rightarrow> goerr option" where
  "serializer_refuses handle acquired g =
     (case validateSessionHandle handle of Some err \<Rightarrow> Some err | None \<Rightarrow>
      if ag_isClosed g then Some (Sentinel ErrSessionClosed) else acquired)"

definition serializer_execute ::
  "('w, 'c) transport_env \<Rightarrow> config \<Rightarrow> 'c \<Rightarrow> string \<Rightarrow> string \<Rightarrow> execute_options \<Rightarrow> goerr option \<Rightarrow> activity \<Rightarrow> 'w client
    \<Rightarrow> (execution_result option \<times> goerr option) \<times> activity \<times> 'w client" where
  "serializer_execute env cfg ctx handle statement options acquired g c =
     (case serializer_refuses handle acquired g of
        Some err \<Rightarrow> ((None, Some err), g, c)
      | None \<Rightarrow>
          (case ag_begin g of
             (Some err, g1) \<Rightarrow> ((None, Some err), g1, c)
           | (None, g1) \<Rightarrow> (case ExecuteAndWait env cfg (ctx_merge env ctx) handle statement options c of (r, c1) \<Rightarrow> (r, ag_end g1, c1))))"

definition managed_Execute ::
  "('w, 'c) transport_env \<Rightarrow> config \<Rightarrow> 'c \<Rightarrow> string \<Rightarrow> execute_options \<Rightarrow> goerr option \<Rightarrow> managed_session \<Rightarrow> 'w client
    \<Rightarrow> (execution_result option \<times> goerr option) \<times> managed_session \<times> 'w client" where
  "managed_Execute env cfg ctx statement options acquired m c =
     (case executionAllowed (msHealth m) of Some err \<Rightarrow> ((None, Some err), m, c) | None \<Rightarrow>
     (case ag_begin (msActivity m) of
        (Some err, g) \<Rightarrow> ((None, Some err), m\<lparr>msActivity := g\<rparr>, c)
      | (None, g) \<Rightarrow>
          (case msSerializer m of
             Some sg \<Rightarrow>
               (case serializer_execute env cfg ctx (msHandle m) statement options acquired sg c of
                  (r, sg1, c1) \<Rightarrow> (r, m\<lparr>msActivity := ag_end g, msSerializer := Some sg1\<rparr>, c1))
           | None \<Rightarrow>
               (case ExecuteAndWait env cfg (ctx_merge env ctx) (msHandle m) statement options c of
                  (r, c1) \<Rightarrow> (r, m\<lparr>msActivity := ag_end g\<rparr>, c1)))))"

section \<open>Closing\<close>

text \<open>A stream of the group that is closed takes itself off the group.\<close>

definition close_stream :: "nat \<Rightarrow> activity \<Rightarrow> activity" where
  "close_stream i g = ag_end (ag_unregisterStream i g)"

definition stop_group :: "activity \<Rightarrow> nat list \<times> activity" where
  "stop_group g = (case ag_stop g of (ids, g1) \<Rightarrow> (ids, fold close_stream ids g1))"

text \<open>The body of \<open>shutdownOnce\<close>; \<open>closing\<close> closes the streams it is given at the server.\<close>

definition managed_shutdown :: "(nat list \<Rightarrow> 'w client \<Rightarrow> 'w client) \<Rightarrow> managed_session \<Rightarrow> 'w client \<Rightarrow> managed_session \<times> 'w client" where
  "managed_shutdown closing m c =
     (if msShutdown m then (m, c)
      else
        (let (outer, g) = stop_group (msActivity m);
             (inner, sg) = (case msSerializer m of None \<Rightarrow> ([], None) | Some sg \<Rightarrow> apsnd Some (stop_group sg));
             c1 = closing outer (closing inner c) in
         (m\<lparr>msActivity := g, msSerializer := sg, msHealth := SessionClosed, msShutdown := True\<rparr>,
          if msRunner m = None then c1 else StopHeartbeat (msHandle m) c1)))"

text \<open>\<open>closeWithContext\<close>; \<open>waited\<close> and \<open>idled\<close> are the outcomes of the two waits.\<close>

definition managed_closeWithContext ::
  "('w, 'c) transport_env \<Rightarrow> config \<Rightarrow> 'c \<Rightarrow> (nat list \<Rightarrow> 'w client \<Rightarrow> 'w client) \<Rightarrow> goerr option \<Rightarrow> goerr option \<Rightarrow> managed_session \<Rightarrow> 'w client
    \<Rightarrow> goerr option \<times> managed_session \<times> 'w client" where
  "managed_closeWithContext env cfg ctx closing waited idled m c =
     (case managed_shutdown closing m c of (m1, c1) \<Rightarrow>
     (case waited of Some err \<Rightarrow> (Some err, m1, c1) | None \<Rightarrow>
     (case (if msSerializer m1 = None then None else idled) of Some err \<Rightarrow> (Some err, m1, c1) | None \<Rightarrow>
      if msCloseComplete m1 then (None, m1, c1)
      else
        (let timeout = moCleanupTimeout (msOptions m1);
             closeCtx = (if 0 < timeout then ctx_with_timeout env timeout ctx (world c1) else ctx) in
         case CloseSession env cfg closeCtx (msHandle m1) c1 of
           (err, c2) \<Rightarrow>
             (let m2 = (if err = None then m1\<lparr>msCloseComplete := True\<rparr> else m1);
                  c3 = (if err = None then unregisterManaged (msNumber m1) c2 else c2) in
              (err, m2, observeLifecycle env (session_event ''SessionClosed'' (msHandle m1) ''CLOSED'' err) c3))))))"

section \<open>Opening\<close>

lemma table_sel [simp]: "managed (rememberClosedSessionLocked h c) = managed c" "managed (StopHeartbeat h c) = managed c"
  "managed (forgetClosedSessionLocked h c) = managed c" "allocated (forgetClosedSessionLocked h c) = allocated c"
  "heartbeats (forgetClosedSessionLocked h c) = heartbeats c"
  by (simp_all add: rememberClosedSessionLocked_def StopHeartbeat_def forgetClosedSessionLocked_def Let_def)

lemma frameD: "frame c c' \<Longrightarrow> managed c' = managed c" "frame c c' \<Longrightarrow> allocated c' = allocated c" "frame c c' \<Longrightarrow> heartbeats c' = heartbeats c"
  by (simp_all add: frame_def)

lemma CloseSession_managed:
  assumes "CloseSession (logged env) cfg ctx h c = (e, c')"
  shows "managed c' = managed c"
  using CloseSession_ends[OF assms] by (elim disjE conjE exE) (simp_all add: frameD(1))

lemma OpenSession_managed:
  assumes "OpenSession (logged env) cfg ctx req c = (r, c')"
  shows "managed c' = managed c \<and> allocated c' = allocated c \<and> heartbeats c' = heartbeats c"
  using OpenSession_ends[OF assms] by (elim disjE conjE exE) (simp_all add: frameD)

lemma startHeartbeat_ends:
  assumes "startHeartbeat (logged env) cfg ctx h interval jitter c = (r, c')"
  shows "managed c' = managed c \<and> session_inv c' = session_inv c \<and> set (heartbeats c) \<subseteq> set (heartbeats c') \<and>
    (\<forall>x. r = Inr x \<longrightarrow> h \<in> set (heartbeats c'))"
proof (cases "validateSessionHandle h = None \<and> ensureOpen (logged env) ctx c = None")
  case True
  obtain e c1 where k: "client_CheckAPIVersion (logged env) cfg ctx c = (e, c1)" by fastforce
  have "frame c c1" by (rule check_frame[OF k])
  then show ?thesis using assms True k
    by (auto simp: startHeartbeat_def frame_def session_inv_def Let_def split: option.splits if_splits)
next
  case False
  then show ?thesis using assms by (auto simp: startHeartbeat_def simp del: validateSessionHandle_None_iff split: option.splits)
qed

lemma managed_defaults_ok:
  assumes "managed_defaults cfg options = Inr o'" "0 < HeartbeatInterval cfg" "0 < RequestTimeout cfg"
  shows "0 < moInterval o' \<and> 0 \<le> moJitter o' \<and> 0 < moThreshold o' \<and> 0 < moCleanupTimeout o' \<and> moSerialize o' = moSerialize options"
  using assms by (auto simp: managed_defaults_def Let_def split: if_splits)

lemma managed_cleanup_ends:
  assumes "session_inv c"
  shows "managed (managed_cleanup (logged env) cfg options h c) = managed c \<and>
    (\<exists>ctx e. CloseSession (logged env) cfg ctx h c = (e, managed_cleanup (logged env) cfg options h c) \<and>
       (e = None \<longrightarrow> map_of (sessions (managed_cleanup (logged env) cfg options h c)) h = None))"
proof -
  define ctx where "ctx = ctx_with_cleanup (logged env) (ctx_with_timeout (logged env) (moCleanupTimeout options) (ctx_background (logged env)) (world c))"
  obtain e c1 where r: "CloseSession (logged env) cfg ctx h c = (e, c1)" by fastforce
  have c1: "managed_cleanup (logged env) cfg options h c = c1" using r by (simp add: managed_cleanup_def ctx_def)
  have "map_of (sessions c1) h = None" if n: "e = None" by (rule CloseSession_done[OF r[unfolded n] assms, THEN conjunct1])
  then show ?thesis using CloseSession_managed[OF r] r c1 by blast
qed


definition managed_ok :: "managed_session \<Rightarrow> bool" where
  "managed_ok m = ((msShutdown m \<longrightarrow> msHealth m = SessionClosed) \<and> (msCloseComplete m \<longrightarrow> msShutdown m))"

lemma new_managed_ok: "managed_ok (new_managed i h options)"
  by (simp add: managed_ok_def new_managed_def)

text \<open>Once \<open>Close\<close> was called the session is closed for its users: no execution is started any more and none of their calls
  reaches the server.  A close that cannot wait for the running executions sends no close request; one that succeeds takes
  the session off the client's list, and closing again then does nothing.\<close>

theorem managed_close:
  assumes "managed_closeWithContext (logged env) cfg ctx closing waited idled m c = (err, m', c')" "managed_ok m"
  shows "managed_ok m' \<and> msHealth m' = SessionClosed \<and>
    managed_Execute env' cfg' ctx' statement options acquired m' c'' = ((None, Some (Sentinel ErrSessionClosed)), m', c'') \<and>
    (waited \<noteq> None \<longrightarrow> err = waited \<and> c' = snd (managed_shutdown closing m c)) \<and>
    (err = None \<longrightarrow> msCloseComplete m' \<and> (\<not> msCloseComplete m \<longrightarrow> msNumber m' \<notin> set (managed c')) \<and>
       managed_closeWithContext env' cfg' ctx' closing None None m' c'' = (None, m', c''))"
proof -
  obtain m1 c1 where s: "managed_shutdown closing m c = (m1, c1)" by fastforce
  have m1: "msShutdown m1" "msHealth m1 = SessionClosed" "msCloseComplete m1 = msCloseComplete m" "msNumber m1 = msNumber m"
    using s assms(2) by (auto simp: managed_shutdown_def managed_ok_def Let_def split: if_splits prod.splits)
  have refuses: "managed_Execute env' cfg' ctx' statement options acquired x c'' = ((None, Some (Sentinel ErrSessionClosed)), x, c'')"
    if "msHealth x = SessionClosed" for x using that by (simp add: managed_Execute_def executionAllowed_def)
  have again: "managed_closeWithContext env' cfg' ctx' closing None None x c'' = (None, x, c'')"
    if "msShutdown x" "msCloseComplete x" for x using that by (simp add: managed_closeWithContext_def managed_shutdown_def)
  note eq = assms(1)[unfolded managed_closeWithContext_def s prod.case]
  consider (unfinished) e where "err = Some e" "m' = m1" "c' = c1" "waited \<noteq> None \<longrightarrow> waited = err"
    | (complete) "waited = None" "err = None" "m' = m1" "msCloseComplete m1"
    | (closed) ms where "waited = None" "err = None" "m' = m1\<lparr>msCloseComplete := True\<rparr>" "managed c' = removeAll (msNumber m1) ms"
    | (failed) e where "waited = None" "err = Some e" "m' = m1"
  proof (cases waited)
    case (Some e)
    then show ?thesis using eq that(1) by auto
  next
    case None
    define outcome where "outcome = (if msSerializer m1 = None then None else idled)"
    note eq1 = eq[unfolded None outcome_def[symmetric] option.case]
    show ?thesis
    proof (cases outcome)
      case (Some e)
      then show ?thesis using eq1 None that(1)[of e] by simp
    next
      case idle: None
      note eq2 = eq1[unfolded idle option.case]
      show ?thesis
      proof (cases "msCloseComplete m1")
        case True
        then show ?thesis using eq2 None that(2) by auto
      next
        case False
        define closeCtx where "closeCtx = (if 0 < moCleanupTimeout (msOptions m1)
          then ctx_with_timeout (logged env) (moCleanupTimeout (msOptions m1)) ctx (world c1) else ctx)"
        obtain e c2 where k: "CloseSession (logged env) cfg closeCtx (msHandle m1) c1 = (e, c2)" by fastforce
        note eq3 = eq2[unfolded if_not_P[OF False] Let_def closeCtx_def[symmetric] k prod.case]
        show ?thesis
        proof (cases e)
          case n: None
          then show ?thesis using eq3 None that(3)[of "managed c2"] by (auto simp: observeLifecycle_def unregisterManaged_def)
        next
          case (Some x)
          then show ?thesis using eq3 None that(4) by auto
        qed
      qed
    qed
  qed
  then show ?thesis
  proof cases
    case unfinished
    then show ?thesis using m1 refuses s by (auto simp: managed_ok_def)
  next
    case complete
    then show ?thesis using m1 refuses again by (auto simp: managed_ok_def)
  next
    case closed
    then show ?thesis using m1 refuses again by (auto simp: managed_ok_def)
  next
    case failed
    then show ?thesis using m1 refuses by (auto simp: managed_ok_def)
  qed
qed

theorem managed_close_witness:
  "\<exists>err m' c'. managed_closeWithContext (logged script_env) quick_cfg plain_ctx (\<lambda>_ c. c) None None (new_managed 0 ''s'' \<lparr>moInterval = 1, moJitter = 0,
     moThreshold = 3, moCleanupTimeout = 1, moSerialize = False\<rparr>) (checked_client ([], [])) = (err, m', c') \<and> msHealth m' = SessionClosed"
proof -
  let ?m = "new_managed 0 ''s'' \<lparr>moInterval = 1, moJitter = 0, moThreshold = 3, moCleanupTimeout = 1, moSerialize = False\<rparr>"
  obtain err m' c' where r: "managed_closeWithContext (logged script_env) quick_cfg plain_ctx (\<lambda>_ c. c) None None ?m
     (checked_client ([], [])) = (err, m', c')" by (metis surj_pair)
  from managed_close[OF r new_managed_ok, THEN conjunct2, THEN conjunct1] r show ?thesis by blast
qed


end
