(* ===== verification/Lifecycle.thy ===== *)
theory Lifecycle
  imports Managed_Session
begin

text \<open>
  The streams of serialized and managed sessions, and \<open>Close\<close> of \<open>lifecycle.go\<close>: what the client does with the streams,
  managed sessions and heartbeats it owns when it is closed.
\<close>

section \<open>Streams of a session\<close>

type_synonym 'w open_stream = "result_stream \<times> nat \<times> 'w client stream_env"

text \<open>The wrapper of a stream is registered with the group; a group closed by then closes the wrapper, whose \<open>onClose\<close> ends
  the activity.\<close>

definition close_opened :: "'w open_stream \<Rightarrow> 'w client \<Rightarrow> 'w client" where
  "close_opened s c = (case s of (st, i, senv) \<Rightarrow> snd (snd (Close senv st c)))"

definition wrap_stream :: "'w open_stream \<Rightarrow> activity \<Rightarrow> 'w client \<Rightarrow> (goerr, 'w open_stream) result \<times> activity \<times> 'w client" where
  "wrap_stream s g c =
     (case ag_registerStream (fst (snd s)) g of
        (Some err, g1) \<Rightarrow> (Inl err, close_stream (fst (snd s)) g1, close_opened s c)
      | (None, g1) \<Rightarrow> (Inr s, g1, c))"

definition serializer_stream ::
  "('w, 'c) transport_env \<Rightarrow> config \<Rightarrow> 'c \<Rightarrow> ('w \<Rightarrow> 'w) \<Rightarrow> string \<Rightarrow> string \<Rightarrow> execute_options \<Rightarrow> goerr option \<Rightarrow> activity \<Rightarrow> 'w client
    \<Rightarrow> (goerr, 'w open_stream) result \<times> activity \<times> 'w client" where
  "serializer_stream env cfg ctx stop handle statement options acquired g c =
     (case serializer_refuses handle acquired g of
        Some err \<Rightarrow> (Inl err, g, c)
      | None \<Rightarrow>
          (case ag_begin g of
             (Some err, g1) \<Rightarrow> (Inl err, g1, c)
           | (None, g1) \<Rightarrow>
               (case ExecuteStream env cfg (ctx_merge env ctx) stop handle statement options c of
                  (Inl err, c1) \<Rightarrow> (Inl err, ag_end g1, c1)
                | (Inr s, c1) \<Rightarrow> wrap_stream s g1 c1)))"

definition managed_Stream ::
  "('w, 'c) transport_env \<Rightarrow> config \<Rightarrow> 'c \<Rightarrow> ('w \<Rightarrow> 'w) \<Rightarrow> string \<Rightarrow> execute_options \<Rightarrow> goerr option \<Rightarrow> managed_session \<Rightarrow> 'w client
    \<Rightarrow> (goerr, 'w open_stream) result \<times> managed_session \<times> 'w client" where
  "managed_Stream env cfg ctx stop statement options acquired m c =
     (case executionAllowed (msHealth m) of Some err \<Rightarrow> (Inl err, m, c) | None \<Rightarrow>
     (case ag_begin (msActivity m) of
        (Some err, g) \<Rightarrow> (Inl err, m\<lparr>msActivity := g\<rparr>, c)
      | (None, g) \<Rightarrow>
          (case (case msSerializer m of
                   Some sg \<Rightarrow> (case serializer_stream env cfg ctx stop (msHandle m) statement options acquired sg c of
                     (r, sg1, c1) \<Rightarrow> (r, m\<lparr>msSerializer := Some sg1\<rparr>, c1))
                 | None \<Rightarrow> (case ExecuteStream env cfg (ctx_merge env ctx) stop (msHandle m) statement options c of (r, c1) \<Rightarrow> (r, m, c1))) of
             (Inl err, m1, c1) \<Rightarrow> (Inl err, m1\<lparr>msActivity := ag_end g\<rparr>, c1)
           | (Inr s, m1, c1) \<Rightarrow> (case wrap_stream s g c1 of (r, g1, c2) \<Rightarrow> (r, m1\<lparr>msActivity := g1\<rparr>, c2)))))"

text \<open>A stream that was refused leaves the count of the group's running activities as it was, one that was opened adds one and
  is among the streams the group will close.\<close>

definition stream_counted :: "(goerr, 'w open_stream) result \<Rightarrow> activity \<Rightarrow> activity \<Rightarrow> bool" where
  "stream_counted r g g1 =
     (case r of
        Inl err \<Rightarrow> active g1 = active g
      | Inr s \<Rightarrow> active g1 = active g + 1 \<and> fst (snd s) \<in> set (agStreams g1) \<and> agClosed g1 = agClosed g)"

lemma wrap_stream_counted:
  assumes "wrap_stream s g1 c = (r, g2, c2)" "active g1 = active g + 1" "agClosed g1 = agClosed g"
  shows "stream_counted r g g2"
  using assms by (cases "agClosed g1")
    (auto simp: wrap_stream_def ag_registerStream_def close_stream_def ag_unregisterStream_def ag_end_def stream_counted_def Let_def)

lemma begin_counted: "ag_begin g = (None, g1) \<Longrightarrow> active g1 = active g + 1 \<and> agClosed g1 = agClosed g"
  by (auto simp: ag_begin_def Let_def split: if_splits)

lemma end_counted: "active g1 = active g + 1 \<Longrightarrow> active (ag_end g1) = active g"
  by (simp add: ag_end_def Let_def)

lemma begin_refused: "ag_begin g = (Some err, g1) \<Longrightarrow> active g1 = active g"
  by (auto simp: ag_begin_def Let_def split: if_splits)

lemma serializer_stream_counted:
  assumes "serializer_stream env cfg ctx stop handle statement options acquired g c = (r, g', c')"
  shows "stream_counted r g g'"
proof (cases "serializer_refuses handle acquired g")
  case None
  obtain z g1 where b: "ag_begin g = (z, g1)" by fastforce
  obtain x c1 where e: "ExecuteStream env cfg (ctx_merge env ctx) stop handle statement options c = (x, c1)" by fastforce
  note eq = assms[unfolded serializer_stream_def None b option.case prod.case e]
  show ?thesis
  proof (cases z)
    case n: None
    note g1 = begin_counted[OF b[unfolded n]]
    show ?thesis
    proof (cases x)
      case (Inl err)
      then show ?thesis using eq n end_counted g1 by (auto simp: stream_counted_def)
    next
      case (Inr s)
      then have "wrap_stream s g1 c1 = (r, g', c')" using eq n by simp
      then show ?thesis using wrap_stream_counted g1 by blast
    qed
  next
    case (Some err)
    then show ?thesis using eq b begin_refused by (auto simp: stream_counted_def)
  qed
next
  case (Some err)
  then show ?thesis using assms by (auto simp: serializer_stream_def stream_counted_def)
qed

section \<open>Closing the client\<close>

fun close_all :: "('i \<Rightarrow> 'w client \<Rightarrow> goerr option \<times> 'w client) \<Rightarrow> 'i list \<Rightarrow> 'w client \<Rightarrow> goerr list \<times> 'w client" where
  "close_all f [] c = ([], c)"
| "close_all f (i # is) c = (case f i c of (err, c1) \<Rightarrow> case close_all f is c1 of (errs, c2) \<Rightarrow> (opt_list err @ errs, c2))"

text \<open>\<open>errors.Join\<close>: no error for none, else an error that wraps them all.\<close>

definition errors_Join :: "goerr list \<Rightarrow> goerr option" where
  "errors_Join errs = (if errs = [] then None else Some (Errorf (concat (map (\<lambda>_. ''%w'' @ [chr 10]) (butlast errs)) @ ''%w'') (map ArgWrap errs)))"

text \<open>The body of \<open>clientCloseOnce\<close>: \<open>shut\<close> and \<open>shut_managed\<close> are \<open>closeWithContext\<close> of a stream and of a managed session with a
  cleanup context of their own; \<open>waited\<close> is the outcome of the wait for the executions.\<close>

definition client_Close ::
  "(nat \<Rightarrow> 'w client \<Rightarrow> goerr option \<times> 'w client) \<Rightarrow> (nat \<Rightarrow> 'w client \<Rightarrow> goerr option \<times> 'w client) \<Rightarrow> goerr option \<Rightarrow> 'w client
    \<Rightarrow> goerr option \<times> 'w client" where
  "client_Close shut shut_managed waited c =
     (let c0 = c\<lparr>clientClosed := True, executions := snd (ag_stop (executions c))\<rparr>;
          (errs1, c1) = close_all shut (streams c) c0;
          (errs2, c2) = close_all shut_managed (managed c) c1;
          c3 = fold StopHeartbeat (heartbeats c) c2 in
      (errors_Join (errs1 @ errs2 @ opt_list waited), c3))"

text \<open>A closed client takes nothing on: no execution, stream or managed session, and no request that is not clean-up; its error
  matches what any of the closes or the wait matched.\<close>

lemma wrapped_ArgWrap [simp]: "wrapped_args (map ArgWrap errs) = errs"
  by (induction errs) simp_all

lemma Join_is: "err_is_opt (errors_Join errs) t \<longleftrightarrow> (\<exists>e \<in> set errs. err_is e t)"
  by (auto simp: errors_Join_def list_ex_iff)

lemma close_all_keeps:
  assumes "\<And>i c. I c \<Longrightarrow> I (snd (f i c))" "I c" "close_all f is c = (errs, c')"
  shows "I c'"
  using assms(2,3)
proof (induction "is" arbitrary: c errs)
  case (Cons i "is")
  obtain err c1 where 1: "f i c = (err, c1)" by fastforce
  obtain errs1 c2 where 2: "close_all f is c1 = (errs1, c2)" by fastforce
  have "I c1" using assms(1)[OF Cons.prems(1), of i] 1 by simp
  moreover have "c2 = c'" using Cons.prems(2) 1 2 by simp
  ultimately show ?case using Cons.IH[of c1 errs1] 2 by simp
qed simp

definition shut_client :: "'w client \<Rightarrow> bool" where
  "shut_client c = (clientClosed c \<and> agClosed (executions c))"

lemma fold_StopHeartbeat: "shut_client c \<Longrightarrow> shut_client (fold StopHeartbeat hs c)"
  by (induction hs arbitrary: c) (simp_all add: shut_client_def StopHeartbeat_def)

lemma client_Close_shut:
  assumes "client_Close shut shut_managed waited c = (err, c')"
    "\<And>i c. shut_client c \<Longrightarrow> shut_client (snd (shut i c))" "\<And>i c. shut_client c \<Longrightarrow> shut_client (snd (shut_managed i c))"
  shows "shut_client c' \<and> (\<not> ctx_internal env ctx \<longrightarrow> ensureOpen env ctx c' = Some (Sentinel ErrClientClosed)) \<and>
    registerManaged i c' = (Some (Sentinel ErrClientClosed), c') \<and> registerStream i c' = (Some (Sentinel ErrClientClosed), c') \<and>
    ExecuteAndWait env cfg ctx h statement options c' = ((None, Some (Sentinel (closedErr (executions c')))), c') \<and>
    (\<forall>t e. waited = Some e \<longrightarrow> err_is e t \<longrightarrow> err_is_opt err t)"
proof -
  let ?c0 = "c\<lparr>clientClosed := True, executions := snd (ag_stop (executions c))\<rparr>"
  obtain errs1 c1 where 1: "close_all shut (streams c) ?c0 = (errs1, c1)" by fastforce
  obtain errs2 c2 where 2: "close_all shut_managed (managed c) c1 = (errs2, c2)" by fastforce
  have "shut_client ?c0" by (simp add: shut_client_def ag_stop_def)
  then have "shut_client c1" using close_all_keeps[of shut_client shut, OF assms(2) _ 1] by blast
  then have "shut_client c2" using close_all_keeps[of shut_client shut_managed, OF assms(3) _ 2] by blast
  then have s: "shut_client c'" and err: "err = errors_Join (errs1 @ errs2 @ opt_list waited)"
    using assms(1) 1 2 fold_StopHeartbeat by (auto simp: client_Close_def)
  have "ExecuteAndWait env cfg ctx h statement options c' = ((None, Some (Sentinel (closedErr (executions c')))), c')"
    using s by (simp add: ExecuteAndWait_def ag_begin_def shut_client_def)
  moreover have "err_is_opt err t" if "waited = Some e" "err_is e t" for t e using that unfolding err Join_is by simp
  ultimately show ?thesis using s by (simp add: ensureOpen_def registerManaged_def registerStream_def shut_client_def)
qed

end
