(* ===== verification/Client_Life.thy ===== *)
theory Client_Life
  imports Lifecycle
begin

text \<open>
  The life of a client: \<open>NewClient\<close> of \<open>client.go\<close>, and what holds of every client that calls of any kind lead to from a new
  one.  The calls are whole calls; how they interleave is in Single_Flight, Session_Gate, Serializer and Heartbeats.
\<close>

section \<open>Requests leave the tables alone\<close>

lemma observe_frame: "frame c (observeLifecycle (logged env) ob c)"
  using observeLifecycle_appends by (rule appends_frame)

lemma world_frame: "frame c (c\<lparr>world := w\<rparr>)"
  by (simp add: frame_def)

lemma validateStatement_frame: "validateStatement env ctx h statement c = (x, c') \<Longrightarrow> frame c c'"
  by (auto simp: validateStatement_def frame_def split: if_splits prod.splits)

lemma with_operation_frame:
  assumes "with_operation (logged env) cfg ctx h op request c = (r, c')" "\<And>d x d'. request d = (x, d') \<Longrightarrow> frame d d'"
  shows "frame c c'"
proof -
  obtain y c1 where y: "client_CheckAPIVersion (logged env) cfg ctx c = (y, c1)" by fastforce
  from check_frame[OF y] show ?thesis using assms(1) y frame_trans[of c c1 c'] assms(2)
    by (auto simp: with_operation_def split: option.splits)
qed

lemma fetchResultsURL_frame: "fetchResultsURL (logged env) cfg ctx u c = (r, c') \<Longrightarrow> frame c c'"
  using doJSON_frame[of env cfg ctx "''GET''" u None "(no_page, Some decode_page)" True c]
  by (auto simp: fetchResultsURL_def split: prod.splits option.splits)

lemma FetchResults_frame:
  assumes "FetchResults (logged env) cfg ctx h op n fmt c = (r, c')"
  shows "frame c c'"
proof -
  obtain y c1 where y: "client_CheckAPIVersion (logged env) cfg ctx c = (y, c1)" by fastforce
  have f: "frame c c1" by (rule check_frame[OF y])
  have "c' = c \<or> c' = c1 \<or> (\<exists>u x. fetchResultsURL (logged env) cfg ctx u c1 = (x, c'))"
    using assms y by (auto simp: FetchResults_def Let_def split: option.splits if_splits)
  then show ?thesis using f frame_trans[OF f fetchResultsURL_frame] by (elim disjE exE) simp_all
qed

lemma GetOperationStatus_frame: "GetOperationStatus (logged env) cfg ctx h op c = (r, c') \<Longrightarrow> frame c c'"
  unfolding GetOperationStatus_def by (erule with_operation_frame) (rule answer_of_frame)

lemma CancelOperation_frame: "CancelOperation (logged env) cfg ctx h op c = (r, c') \<Longrightarrow> frame c c'"
  unfolding CancelOperation_def by (erule with_operation_frame) (rule answer_of_frame)

lemma CloseOperation_frame: "CloseOperation (logged env) cfg ctx h op c = (r, c') \<Longrightarrow> frame c c'"
  unfolding CloseOperation_def by (erule with_operation_frame) (auto split: prod.splits sum.splits dest: answer_of_frame)

lemma ExecuteStatement_frame:
  assumes "ExecuteStatement (logged env) cfg ctx h req c = (r, c')"
  shows "frame c c'"
proof -
  obtain y c1 where y: "validateStatement (logged env) ctx h (erStatement req) c = (y, c1)" by fastforce
  obtain z c2 where z: "client_CheckAPIVersion (logged env) cfg ctx c1 = (z, c2)" by fastforce
  have f: "frame c c1" "frame c c2" using validateStatement_frame[OF y] check_frame[OF z] frame_trans by blast+
  have "c' = c \<or> c' = c1 \<or> c' = c2 \<or> submitStatement (logged env) cfg ctx h req c2 = (r, c')"
    using assms y z by (auto simp: ExecuteStatement_def split: option.splits)
  moreover have "frame c2 c'" if "submitStatement (logged env) cfg ctx h req c2 = (r, c')"
    using submitStatement_ends(1)[OF that] appends_frame by blast
  ultimately show ?thesis using f frame_trans[OF f(2)] by (elim disjE) simp_all
qed

lemma cleanup_cancel_frame: "cleanup_cancel (logged env) cfg ctx op reason c = (x, c') \<Longrightarrow> frame c c'"
  by (auto simp: cleanup_cancel_def Let_def split: if_splits prod.splits dest!: CancelOperation_frame intro: frame_trans observe_frame)

lemma cleanupOperationContext_frame:
  assumes "cleanupOperationContext (logged env) cfg ctx op reason c = (e, c')"
  shows "frame c c'"
proof -
  obtain x c1 where 1: "cleanup_cancel (logged env) cfg ctx op reason c = (x, c1)" by fastforce
  obtain r c2 where 2: "CloseOperation (logged env) cfg ctx (opSessionHandle op) (opHandle op) c1 = (r, c2)" by fastforce
  have "\<exists>ob. c' = observeLifecycle (logged env) ob c2"
    using assms by (auto simp: cleanupOperationContext_def Let_def 1 2 split: if_splits)
  then show ?thesis using cleanup_cancel_frame[OF 1] CloseOperation_frame[OF 2] observe_frame frame_trans by metis
qed

text \<open>The paging loop over the client, from the laws of its environment.\<close>

lemma wait_frame: "env_wait (client_result_env env cfg ctx op fmt) d c = (x, c') \<Longrightarrow> frame c c'"
  by (auto simp: client_result_env_def frame_def split: prod.splits)

definition framing :: "'w client emitter \<Rightarrow> bool" where
  "framing emit = (\<forall>f e c x c'. emit = Some f \<longrightarrow> f e c = (x, c') \<longrightarrow> frame c c')"

lemma client_frame_env:
  assumes "framing emit"
  shows "keeps_env (client_result_env (logged env) cfg ctx op fmt) emit (frame c0)"
proof unfold_locales
  fix d c c' x
  assume a: "frame c0 c" "env_wait (client_result_env (logged env) cfg ctx op fmt) d c = (x, c')"
  show "frame c0 c'" by (rule frame_trans[OF a(1) wait_frame[OF a(2)]])
next
  fix c c' f e x
  assume a: "frame c0 c" "emit = Some f" "f e c = (x, c')"
  have "frame c c'" using assms a(2,3) by (simp add: framing_def)
  with a(1) show "frame c0 c'" by (rule frame_trans)
next
  fix c c' r
  assume a: "frame c0 c" "env_fetch_first (client_result_env (logged env) cfg ctx op fmt) c = (r, c')"
  show "frame c0 c'" by (rule frame_trans[OF a(1) FetchResults_frame]) (use a(2) in \<open>simp add: client_result_env_def\<close>)
next
  fix u c c' r
  assume a: "frame c0 c" "env_fetch_url (client_result_env (logged env) cfg ctx op fmt) u c = (r, c')"
  show "frame c0 c'" by (rule frame_trans[OF a(1) fetchResultsURL_frame]) (use a(2) in \<open>simp add: client_result_env_def\<close>)
next
  fix c c' t
  assume a: "frame c0 c" "env_status (client_result_env (logged env) cfg ctx op fmt) c = (t, c')"
  show "frame c0 c'" by (rule frame_trans[OF a(1) GetOperationStatus_frame]) (use a(2) in \<open>simp add: client_result_env_def\<close>)
qed (simp add: client_result_env_def)

interpretation paging_frame: keeps_env "client_result_env (logged env) cfg ctx op fmt" None "frame c0"
  by (rule client_frame_env) (simp add: framing_def)

lemma finish_execution_frame: "finish_execution (logged env) cfg ctx op result c = (r, c') \<Longrightarrow> frame c c'"
  by (auto simp: finish_execution_def split: prod.splits sum.splits dest!: CloseOperation_frame intro: frame_trans observe_frame)

lemma emit_event_frame: "framing emit \<Longrightarrow> emit_event emit e c = (x, c') \<Longrightarrow> frame c c'"
  by (cases emit) (auto simp: emit_event_def framing_def)

lemma consume_operation_frame:
  assumes "consume_operation (logged env) cfg ctx ectx limits collect emit op c = (r, c')" "framing emit"
  shows "frame c c'"
proof -
  obtain y c1 where 1: "emit_event emit (EventOperation op) c = (y, c1)" by fastforce
  note f1 = emit_event_frame[OF assms(2) 1]
  obtain result run c2 where 2: "consumeResults (client_result_env (logged env) cfg ectx op (rowFormat limits)) op limits collect emit c1 = (result, run, c2)"
    by (metis surj_pair)
  have f2: "frame c c2" by (rule keeps_env.consumeResults_keeps[OF client_frame_env[OF assms(2)] f1 2])
  note eq = assms(1)[unfolded consume_operation_def 1 prod.case 2]
  have cleaned: "frame c e" if "frame c d" "cleanupOperation (logged env) cfg op err d = (err', e)" for d e err err'
    by (rule frame_trans[OF that(1) cleanupOperationContext_frame[OF that(2)[unfolded cleanupOperation_def]]])
  show ?thesis
  proof (cases y)
    case (Some err)
    then show ?thesis using eq cleaned[OF f1, of err] by (cases "cleanupOperation (logged env) cfg op err c1") simp
  next
    case None
    note eq2 = eq[unfolded None option.case]
    show ?thesis
    proof (cases run)
      case (Some err)
      then show ?thesis using eq2 cleaned[OF f2, of err] by (cases "cleanupOperation (logged env) cfg op err c2") simp
    next
      case n: None
      have "finish_execution (logged env) cfg ctx op result c2 = (r, c')" using eq2 n by simp
      from frame_trans[OF f2 finish_execution_frame[OF this]] show ?thesis .
    qed
  qed
qed

lemma runExecution_frame:
  assumes "runExecution (logged env) cfg ctx h statement options limits collect emit c = (r, c')" "framing emit"
  shows "frame c c'"
proof -
  define ectx where "ectx = timed_ctx (logged env) (execution_timeout cfg options) ctx c"
  obtain x c1 where 1: "ExecuteStatement (logged env) cfg ectx h (execution_request statement options (execution_timeout cfg options)) c = (x, c1)"
    by fastforce
  note f1 = ExecuteStatement_frame[OF 1]
  note eq = assms(1)[unfolded runExecution_def Let_def ectx_def[symmetric] 1 prod.case]
  show ?thesis
  proof (cases x)
    case (Inl err)
    then show ?thesis using eq f1 by auto
  next
    case (Inr op)
    then have "consume_operation (logged env) cfg ctx ectx limits collect emit op c1 = (r, c')" using eq by simp
    from frame_trans[OF f1 consume_operation_frame[OF this assms(2)]] show ?thesis .
  qed
qed

text \<open>A collected execution leaves the count of running executions as it found it.\<close>

lemma ag_end_begin: "ag_begin g = (None, g1) \<Longrightarrow> ag_step\<^sup>*\<^sup>* g (ag_end g1) \<and> active (ag_end g1) = active g \<and> agClosed (ag_end g1) = agClosed g"
  using step_begin[of g] step_end[of g1] ag_begin_end[of g]
  by (auto simp: ag_begin_def ag_end_def Let_def intro: converse_rtranclp_into_rtranclp split: if_splits)

lemma ExecuteAndWait_ends:
  assumes "ExecuteAndWait (logged env) cfg ctx h statement options c = (r, c')"
  shows "\<exists>g. frame (c\<lparr>executions := g\<rparr>) c' \<and> ag_step\<^sup>*\<^sup>* (executions c) g \<and> active g = active (executions c) \<and> agClosed g = agClosed (executions c)"
proof -
  obtain x g where b: "ag_begin (executions c) = (x, g)" by fastforce
  note eq = assms[unfolded ExecuteAndWait_def b prod.case]
  show ?thesis
  proof (cases x)
    case (Some err)
    have "g = executions c" using b Some by (auto simp: ag_begin_def Let_def split: if_splits)
    then show ?thesis using eq Some by (auto intro!: exI[of _ "executions c"])
  next
    case None
    note b = b[unfolded None]
    have "\<exists>d. frame (c\<lparr>executions := g\<rparr>) d \<and> c' = executions_end d"
    proof (cases "executionSettings cfg options")
      case (Inl err)
      then show ?thesis using eq None by (auto intro!: exI[of _ "c\<lparr>executions := g\<rparr>"])
    next
      case (Inr settings)
      obtain q d where d: "runExecution (logged env) cfg (ctx_merge (logged env) ctx) h statement options settings True None (c\<lparr>executions := g\<rparr>) = (q, d)"
        by fastforce
      have "frame (c\<lparr>executions := g\<rparr>) d" by (rule runExecution_frame[OF d]) (simp add: framing_def)
      then show ?thesis using eq None Inr d by auto
    qed
    then show ?thesis using ag_end_begin[OF b] by (auto simp: executions_end_def frame_def intro!: exI[of _ "ag_end g"])
  qed
qed

section \<open>Iterators\<close>

text \<open>An environment whose calls keep an invariant of the state: \<open>Next\<close> and \<open>Close\<close> keep it too.\<close>

locale keeps_stream =
  fixes env :: "'s stream_env" and I :: "'s \<Rightarrow> bool"
  assumes ctx_keeps: "I s \<Longrightarrow> env_ctx_err env s = (x, s') \<Longrightarrow> I s'"
    and next_fetch_keeps: "I s \<Longrightarrow> fetch_next env n s = (r, s') \<Longrightarrow> I s'"
    and status_keeps: "I s \<Longrightarrow> env_status env s = (t, s') \<Longrightarrow> I s'"
    and wait_keeps: "I s \<Longrightarrow> env_wait env d s = (x, s') \<Longrightarrow> I s'"
    and cancel_keeps: "I s \<Longrightarrow> I (env_cancel env s)"
    and cancel_operation_keeps: "I s \<Longrightarrow> env_cancel_operation env i s = (x, s') \<Longrightarrow> I s'"
    and close_operation_keeps: "I s \<Longrightarrow> env_close_operation env i s = (x, s') \<Longrightarrow> I s'"
    and observe_keeps: "I s \<Longrightarrow> I (env_observe env ob s)"
    and unregister_keeps: "I s \<Longrightarrow> I (env_unregister env s)"
begin

lemma cancel_stage_keeps: "I s \<Longrightarrow> cancel_stage env i wanted s = (x, s') \<Longrightarrow> I s'"
  by (cases "env_cancel_operation env i s") (auto simp: cancel_stage_def Let_def intro: observe_keeps cancel_operation_keeps split: if_splits)

lemma finish_keeps:
  assumes "I s" "finish env i p f st s = (st', s')"
  shows "I s'"
proof (cases "stClosed st")
  case False
  obtain ca s2 where 1: "cancel_stage env i (f \<or> is_limit_error p) (env_cancel env s) = (ca, s2)" by fastforce
  obtain cl s3 where 2: "env_close_operation env i s2 = (cl, s3)" by fastforce
  have "I s3" using close_operation_keeps[OF cancel_stage_keeps[OF cancel_keeps[OF assms(1)] 1] 2] .
  moreover have "\<exists>ob. s' = env_observe env ob (env_unregister env (env_observe env (OperationClosed cl) s3))"
    using assms(2) False by (simp only: finish_def Let_def 1 2 prod.case if_False prod.inject) blast
  ultimately show ?thesis using observe_keeps unregister_keeps by metis
qed (use assms in simp)

definition iteration_keeps :: "'s iteration \<Rightarrow> bool" where
  "iteration_keeps it = (case it of Return b st s \<Rightarrow> I s | Continue st s \<Rightarrow> I s)"

lemma stop_keeps: "I s \<Longrightarrow> iteration_keeps (stop_with env p f st s)"
  by (cases "finish env True p f st s") (auto simp: finishFromNext_def iteration_keeps_def dest: finish_keeps)

lemma not_ready_keeps: "I s \<Longrightarrow> iteration_keeps (stream_not_ready env page st s)"
  by (cases "setNextURL env page False st"; cases "env_wait env (stInterval (snd (setNextURL env page False st))) s")
    (auto simp: stream_not_ready_def iteration_keeps_def dest: wait_keeps intro: stop_keeps[unfolded iteration_keeps_def] split: option.splits)

lemma page_keeps:
  assumes "I s"
  shows "iteration_keeps (stream_page env page st s)"
proof -
  have c: "iteration_keeps (Continue st' s)" for st' using assms by (simp add: iteration_keeps_def)
  show ?thesis unfolding stream_page_def Let_def using stop_keeps[OF assms] c
    by (auto split: option.splits prod.splits simp del: if_split split: if_split)
qed

lemma stream_fetch_keeps:
  assumes "I s"
  shows "iteration_keeps (stream_fetch env st s)"
proof -
  obtain r s1 where 1: "fetch_next env (nextURL st) s = (r, s1)" by fastforce
  have I1: "I s1" using next_fetch_keeps[OF assms 1] .
  show ?thesis
  proof (cases r)
    case (Inl err)
    obtain e s2 where 2: "operationFailure (env_status env) err s1 = (e, s2)" by fastforce
    have "I s2" using 2 I1 by (auto simp: operationFailure_def dest: status_keeps split: if_splits prod.splits sum.splits)
    then show ?thesis unfolding stream_fetch_def Let_def 1 prod.case Inl sum.case 2 by (rule stop_keeps)
  next
    case (Inr p)
    show ?thesis unfolding stream_fetch_def Let_def 1 prod.case Inr sum.case
      using not_ready_keeps[OF I1] page_keeps[OF I1] stop_keeps[OF I1] by (simp only: split: if_split) blast
  qed
qed

lemma stream_iteration_keeps:
  assumes "I s"
  shows "iteration_keeps (stream_iteration env st s)"
proof -
  obtain x s1 where 1: "env_ctx_err env s = (x, s1)" by fastforce
  have I1: "I s1" using ctx_keeps[OF assms 1] .
  have r: "iteration_keeps (Return b st' s')" if "I s'" for b st' s' using that by (simp add: iteration_keeps_def)
  show ?thesis
  proof (cases "stClosed st")
    case True
    then show ?thesis using r[OF assms] by (simp add: stream_iteration_def)
  next
    case False
    then show ?thesis using stop_keeps[OF I1] r[OF I1] stream_fetch_keeps[OF I1]
      by (cases x) (simp_all only: stream_iteration_def 1 prod.case option.case Let_def if_False split: if_split, blast+)
  qed
qed

lemma Next_keeps:
  assumes "I s" "Next env st s = (b, st', s')"
  shows "I s'"
  using assms(2) assms(1)
proof (rule Next_rule[where I = "\<lambda>st s. I s" and Q = "\<lambda>b st s. I s"])
  fix st s b st1 s1 assume "I s" "stream_iteration env st s = Return b st1 s1"
  then show "I s1" using stream_iteration_keeps[of s st] by (simp add: iteration_keeps_def)
next
  fix st s st1 s1 assume "I s" "stream_iteration env st s = Continue st1 s1"
  then show "I s1" using stream_iteration_keeps[of s st] by (simp add: iteration_keeps_def)
qed

lemma closeWithContext_keeps:
  assumes "I s" "closeWithContext env internal terminal st s = (err, st', s')"
  shows "I s'"
proof -
  obtain st1 where "finish env internal terminal True st (env_cancel env s) = (st1, s')"
    using assms(2) by (auto simp: closeWithContext_def split: prod.splits)
  from finish_keeps[OF cancel_keeps[OF assms(1)] this] show ?thesis .
qed

end

text \<open>What an iterator may do to the client: make requests, and take itself off the list of streams.\<close>

definition sheds :: "'w client \<Rightarrow> 'w client \<Rightarrow> bool" where
  "sheds c c' = (frame c (c'\<lparr>streams := streams c\<rparr>) \<and> set (streams c') \<subseteq> set (streams c))"

lemma frame_sheds: "frame c c' \<Longrightarrow> sheds c c'"
  by (simp add: sheds_def frame_def)

lemma sheds_trans: "sheds c c1 \<Longrightarrow> sheds c1 c2 \<Longrightarrow> sheds c c2"
  by (auto simp: sheds_def frame_def)

lemmas sheds_frame = sheds_trans[OF _ frame_sheds]

lemma apfst_frame: "apfst f p = (x, c') \<Longrightarrow> (\<And>r c'. p = (r, c') \<Longrightarrow> frame c c') \<Longrightarrow> frame c c'"
  by (cases p) simp

lemma stream_env_sel:
  "env_ctx_err (client_stream_env env cfg ctx stop op fmt i) = env_ctx_err (client_result_env env cfg ctx op fmt)"
  "env_status (client_stream_env env cfg ctx stop op fmt i) = env_status (client_result_env env cfg ctx op fmt)"
  "env_wait (client_stream_env env cfg ctx stop op fmt i) = env_wait (client_result_env env cfg ctx op fmt)"
  "env_fetch_first (client_stream_env env cfg ctx stop op fmt i) = env_fetch_first (client_result_env env cfg ctx op fmt)"
  "env_fetch_url (client_stream_env env cfg ctx stop op fmt i) = env_fetch_url (client_result_env env cfg ctx op fmt)"
  by (simp_all add: client_stream_env_def result_env.defs)

interpretation stream_frame: keeps_stream "client_stream_env (logged env) cfg ctx stop op fmt i" "sheds c0"
proof unfold_locales
  let ?e = "client_stream_env (logged env) cfg ctx stop op fmt i"
  fix s s' x d n r t ob iw
  assume a: "sheds c0 s"
  note step = sheds_frame[OF a]
  { assume "env_ctx_err ?e s = (x, s')" then show "sheds c0 s'" unfolding stream_env_sel by (rule step[OF paging_frame.ctx_keeps[OF frame_refl]]) }
  { assume "fetch_next ?e n s = (r, s')"
    then have "fetch_next (client_result_env (logged env) cfg ctx op fmt) n s = (r, s')" by (simp add: fetch_next_def stream_env_sel cong: option.case_cong)
    then show "sheds c0 s'" by (rule step[OF paging_frame.fetch_keeps[OF frame_refl]]) }
  { assume "env_status ?e s = (t, s')" then show "sheds c0 s'" unfolding stream_env_sel by (rule step[OF paging_frame.status_keeps[OF frame_refl]]) }
  { assume "env_wait ?e d s = (x, s')" then show "sheds c0 s'" unfolding stream_env_sel by (rule step[OF paging_frame.wait_keeps[OF frame_refl]]) }
  show "sheds c0 (env_cancel ?e s)" by (rule step) (simp add: client_stream_env_def result_env.defs frame_def)
  { assume "env_cancel_operation ?e iw s = (x, s')" then show "sheds c0 s'"
      unfolding client_stream_env_def result_env.defs stream_env.simps by (rule step[OF apfst_frame[OF _ CancelOperation_frame]]) }
  { assume "env_close_operation ?e iw s = (x, s')" then show "sheds c0 s'"
      unfolding client_stream_env_def result_env.defs stream_env.simps by (rule step[OF apfst_frame[OF _ CloseOperation_frame]]) }
  show "sheds c0 (env_observe ?e ob s)" by (rule step) (simp add: client_stream_env_def result_env.defs observe_frame)
  show "sheds c0 (env_unregister ?e s)" using a by (auto simp: client_stream_env_def result_env.defs sheds_def frame_def)
qed

section \<open>A new client\<close>

text \<open>The record of the model holds the state; the normalised configuration and the base URL come with it.\<close>

definition new_client :: "'w \<Rightarrow> 'w client" where
  "new_client w = \<lparr>versions = version_init, sessions = [], closedSessions = [], closedOrder = [], clientClosed = False, heartbeats = [],
     managed = [], streams = [], allocated = 0, executions = newActivityGroup ErrClientClosed, world = w\<rparr>"

definition NewClient ::
  "(string \<Rightarrow> (goerr, go_url) result) \<Rightarrow> config \<Rightarrow> 'w \<Rightarrow> (goerr, config \<times> go_url \<times> 'w client) result" where
  "NewClient parse cfg w = and_then (normalize parse cfg) (\<lambda>(normalized, base). Inr (normalized, base, new_client w))"

lemma NewClient_Inr: "NewClient parse cfg w = Inr (cfg', base, c) \<Longrightarrow> normalize parse cfg = Inr (cfg', base) \<and> c = new_client w"
  by (auto simp: NewClient_def and_then_Inr_iff)

section \<open>Every client that calls lead to\<close>

text \<open>The first stage of \<open>Close\<close>; what it does next is among the other calls: it closes streams and managed sessions and stops
  heartbeats.\<close>

definition begin_close :: "'w client \<Rightarrow> 'w client" where
  "begin_close c = c\<lparr>clientClosed := True, executions := snd (ag_stop (executions c))\<rparr>"

inductive client_reach :: "('w, 'c) transport_env \<Rightarrow> config \<Rightarrow> ('w \<times> exchange_log) client \<Rightarrow> bool" for env cfg where
  created: "NewClient (parse_url env) cfg0 w = Inr (cfg, base_url env, c) \<Longrightarrow> client_reach env cfg c"
| request: "client_reach env cfg c \<Longrightarrow> frame c c' \<Longrightarrow> client_reach env cfg c'"
| open_session: "client_reach env cfg c \<Longrightarrow> OpenSession (logged env) cfg ctx req c = (r, c') \<Longrightarrow> client_reach env cfg c'"
| close_session: "client_reach env cfg c \<Longrightarrow> CloseSession (logged env) cfg ctx h c = (err, c') \<Longrightarrow> client_reach env cfg c'"
| start_heartbeat: "client_reach env cfg c \<Longrightarrow> startHeartbeat (logged env) cfg ctx h interval jitter c = (runner, c') \<Longrightarrow> client_reach env cfg c'"
| stop_heartbeat: "client_reach env cfg c \<Longrightarrow> client_reach env cfg (StopHeartbeat h c)"
| execute: "client_reach env cfg c \<Longrightarrow> ExecuteAndWait (logged env) cfg ctx h statement options c = (result, c') \<Longrightarrow> client_reach env cfg c'"
| execute_stream: "client_reach env cfg c \<Longrightarrow> ExecuteStream (logged env) cfg ctx stop h statement options c = (stream, c') \<Longrightarrow>
    client_reach env cfg c'"
| stream_next: "client_reach env cfg c \<Longrightarrow> Next (client_stream_env (logged env) cfg ctx stop op fmt i) st c = (b, st', c') \<Longrightarrow> client_reach env cfg c'"
| stream_close: "client_reach env cfg c \<Longrightarrow>
    closeWithContext (client_stream_env (logged env) cfg ctx stop op fmt i) internal terminal st c = (err, st', c') \<Longrightarrow> client_reach env cfg c'"
| open_managed: "client_reach env cfg c \<Longrightarrow> OpenManagedSession (logged env) cfg ctx req mo c = (m, c') \<Longrightarrow> client_reach env cfg c'"
| close_managed: "client_reach env cfg c \<Longrightarrow>
    managed_closeWithContext (logged env) cfg ctx (\<lambda>_ c. c) waited idled ms c = (err, m', c') \<Longrightarrow> client_reach env cfg c'"
| close_client: "client_reach env cfg c \<Longrightarrow> client_reach env cfg (begin_close c)"

text \<open>The invariant: no execution is left counted, the group is closed with the client, the tables of sessions are consistent,
  and the numbers of what the client owns are used once.\<close>

definition client_inv :: "'w client \<Rightarrow> bool" where
  "client_inv c =
     (session_inv c \<and> ag_inv (executions c) \<and> active (executions c) = 0 \<and> (clientClosed c = agClosed (executions c)) \<and>
      (\<forall>i \<in> set (managed c) \<union> set (streams c). i < allocated c) \<and> set (managed c) \<inter> set (streams c) = {})"

definition owns_no_more :: "'w client \<Rightarrow> 'w client \<Rightarrow> bool" where
  "owns_no_more c c' =
     (executions c' = executions c \<and> clientClosed c' = clientClosed c \<and> allocated c \<le> allocated c' \<and>
      set (managed c') \<subseteq> set (managed c) \<and> set (streams c') \<subseteq> set (streams c))"

lemma owns_refl [simp]: "owns_no_more c c"
  by (simp add: owns_no_more_def)

lemma owns_trans: "owns_no_more c c1 \<Longrightarrow> owns_no_more c1 c2 \<Longrightarrow> owns_no_more c c2"
  by (auto simp: owns_no_more_def)

lemma owns_inv: "owns_no_more c c' \<Longrightarrow> session_inv c' \<Longrightarrow> client_inv c \<Longrightarrow> client_inv c'"
proof -
  assume a: "owns_no_more c c'" "session_inv c'" "client_inv c"
  have "i < allocated c'" if "i \<in> set (managed c') \<union> set (streams c')" for i
    using that a(1,3) unfolding owns_no_more_def client_inv_def by (meson Un_iff less_le_trans subsetD)
  moreover have "set (managed c') \<inter> set (streams c') = {}" using a(1,3) unfolding owns_no_more_def client_inv_def by blast
  ultimately show ?thesis using a by (simp add: owns_no_more_def client_inv_def)
qed

lemma frame_owns: "frame c c' \<Longrightarrow> owns_no_more c c'"
  by (simp add: owns_no_more_def frame_def)

lemma StopHeartbeat_owns: "owns_no_more c (StopHeartbeat h c)"
  by (simp add: owns_no_more_def StopHeartbeat_def)

lemma forget_owns: "owns_no_more c (forgetClosedSessionLocked h c)"
  by (simp add: owns_no_more_def forgetClosedSessionLocked_def Let_def)

lemma remember_owns: "owns_no_more c (rememberClosedSessionLocked h c)"
  by (simp add: owns_no_more_def rememberClosedSessionLocked_def Let_def)

lemma sessions_owns: "owns_no_more c (c\<lparr>sessions := s\<rparr>)"
  by (simp add: owns_no_more_def)

lemma OpenSession_owns:
  assumes "OpenSession (logged env) cfg ctx req c = (r, c')"
  shows "owns_no_more c c'"
  using OpenSession_ends[OF assms] by (auto intro: frame_owns owns_trans[OF frame_owns owns_trans[OF sessions_owns forget_owns]])

lemma CloseSession_owns:
  assumes "CloseSession (logged env) cfg ctx h c = (err, c')"
  shows "owns_no_more c c'"
  using CloseSession_ends[OF assms]
  by (auto intro: owns_trans[OF StopHeartbeat_owns frame_owns]
      owns_trans[OF owns_trans[OF StopHeartbeat_owns frame_owns] owns_trans[OF remember_owns sessions_owns]])

lemma startHeartbeat_owns:
  assumes "startHeartbeat (logged env) cfg ctx h interval jitter c = (r, c')"
  shows "owns_no_more c c'"
proof -
  obtain e c1 where k: "client_CheckAPIVersion (logged env) cfg ctx c = (e, c1)" by fastforce
  have f: "owns_no_more c c1" by (rule frame_owns[OF check_frame[OF k]])
  have "c' = c \<or> c' = c1 \<or> c' = c1\<lparr>heartbeats := h # heartbeats c1\<rparr>"
    using assms k by (auto simp: startHeartbeat_def Let_def split: option.splits if_splits)
  then show ?thesis using f by (elim disjE) (simp_all add: owns_no_more_def)
qed

lemma managed_cleanup_keeps:
  assumes "session_inv c"
  shows "owns_no_more c (managed_cleanup (logged env) cfg mo h c) \<and> session_inv (managed_cleanup (logged env) cfg mo h c)"
proof -
  obtain ctx e where "CloseSession (logged env) cfg ctx h c = (e, managed_cleanup (logged env) cfg mo h c)"
    using managed_cleanup_ends[OF assms, of env cfg mo h] by (elim conjE exE)
  from CloseSession_owns[OF this] CloseSession_inv[OF assms this] show ?thesis ..
qed

lemma observed_inv: "session_inv (observeLifecycle (logged env) ob c) = session_inv c"
  by (rule frame_inv[OF observe_frame])

lemma unregisterManaged_owns: "owns_no_more c (unregisterManaged i c)" and unregisterManaged_sessions: "session_inv (unregisterManaged i c) = session_inv c"
  by (auto simp: owns_no_more_def unregisterManaged_def session_inv_def)

text \<open>The next number is used by nothing the client owns.\<close>

lemma own_next:
  assumes "client_inv c"
  shows "client_inv (c\<lparr>allocated := allocated c + 1, managed := List.insert (allocated c) (managed c)\<rparr>)"
    "client_inv (c\<lparr>allocated := allocated c + 1, streams := List.insert (allocated c) (streams c)\<rparr>)"
    "client_inv (c\<lparr>allocated := allocated c + 1\<rparr>)"
  using assms unfolding client_inv_def session_inv_def by (fastforce simp: less_Suc_eq)+

lemma client_invD: "client_inv c \<Longrightarrow> session_inv c"
  by (simp add: client_inv_def)

lemma OpenManagedSession_client_inv:
  assumes "OpenManagedSession (logged env) cfg ctx req mo c = (r, c')" "client_inv c"
  shows "client_inv c'"
proof -
  obtain x c1 where s: "OpenSession (logged env) cfg ctx req c = (x, c1)" by fastforce
  have inv1: "client_inv c1" using owns_inv[OF OpenSession_owns[OF s] OpenSession_inv[OF client_invD[OF assms(2)] s] assms(2)] .
  let ?i = "allocated c1" let ?c1 = "c1\<lparr>allocated := ?i + 1\<rparr>"
  obtain y c2 where g: "registerManaged ?i ?c1 = (y, c2)" by fastforce
  have inv2: "client_inv c2" using g own_next(1,3)[OF inv1] by (auto simp: registerManaged_def split: if_splits)
  have cleaned: "client_inv (managed_cleanup (logged env) cfg o' h d)" if "client_inv d" for o' h d
    using managed_cleanup_keeps[OF client_invD[OF that]] that by (blast intro: owns_inv)
  have started: "client_inv c3" if "startHeartbeat (logged env) cfg ctx' h a b c2 = (z, c3)" for ctx' h a b z c3
    using owns_inv[OF startHeartbeat_owns[OF that] _ inv2] startHeartbeat_ends[OF that] inv2 by (simp add: client_inv_def)
  have unregistered: "client_inv (unregisterManaged i d)" if "client_inv d" for i d
    using owns_inv[OF unregisterManaged_owns _ that, of i] client_invD[OF that] by (simp add: unregisterManaged_sessions)
  have observed: "client_inv (observeLifecycle (logged env) ob d)" if "client_inv d" for ob d
    using owns_inv[OF frame_owns[OF observe_frame] _ that] frame_inv[OF observe_frame] client_invD[OF that] by blast
  note eq = assms(1)[unfolded OpenManagedSession_def Let_def s prod.case]
  show ?thesis
  proof (cases "ensureOpen (logged env) ctx c = None \<and> (\<exists>o'. managed_defaults cfg mo = Inr o') \<and> (\<exists>session. x = Inr session)")
    case True
    then obtain o' session where o: "ensureOpen (logged env) ctx c = None" "managed_defaults cfg mo = Inr o'" "x = Inr session" by blast
    obtain z c3 where b: "startHeartbeat (logged env) cfg (session_ctx (logged env)) (srHandle session) (moInterval o') (moJitter o') c2 = (z, c3)"
      by fastforce
    note eq2 = eq[unfolded o option.case sum.case prod.case g]
    show ?thesis
    proof (cases y)
      case (Some err)
      then show ?thesis using eq2 cleaned[OF inv2] by auto
    next
      case None
      note eq3 = eq2[unfolded None option.case b prod.case]
      show ?thesis
      proof (cases z)
        case (Inl err)
        then show ?thesis using eq3 cleaned[OF unregistered[OF started[OF b]]] by auto
      next
        case (Inr runner)
        then show ?thesis using eq3 observed[OF started[OF b]] by auto
      qed
    qed
  next
    case False
    then have "c' = c \<or> c' = c1" using eq by (auto split: option.splits sum.splits)
    then show ?thesis using assms(2) inv1 by blast
  qed
qed

lemma managed_shutdown_owns:
  assumes "managed_shutdown (\<lambda>_ c. c) m c = (m', c')"
  shows "owns_no_more c c' \<and> session_inv c' = session_inv c"
  using assms StopHeartbeat_owns[of c "msHandle m"] by (auto simp: managed_shutdown_def Let_def split: if_splits prod.splits)

lemma managed_close_owns:
  assumes "managed_closeWithContext (logged env) cfg ctx (\<lambda>_ c. c) waited idled m c = (err, m', c')" "session_inv c"
  shows "owns_no_more c c' \<and> session_inv c'"
proof -
  obtain m1 c1 where s: "managed_shutdown (\<lambda>_ c. c) m c = (m1, c1)" by fastforce
  note o1 = managed_shutdown_owns[OF s]
  define closeCtx where "closeCtx = (if 0 < moCleanupTimeout (msOptions m1)
    then ctx_with_timeout (logged env) (moCleanupTimeout (msOptions m1)) ctx (world c1) else ctx)"
  obtain e c2 where k: "CloseSession (logged env) cfg closeCtx (msHandle m1) c1 = (e, c2)" by fastforce
  have o2: "owns_no_more c c2" "session_inv c2"
    using owns_trans[OF _ CloseSession_owns[OF k]] CloseSession_inv[OF _ k] o1 assms(2) by blast+
  have "c' = c1 \<or> (\<exists>ob. c' = observeLifecycle (logged env) ob c2) \<or> (\<exists>ob. c' = observeLifecycle (logged env) ob (unregisterManaged (msNumber m1) c2))"
    using assms(1)[unfolded managed_closeWithContext_def s prod.case Let_def closeCtx_def[symmetric] k]
    by (cases waited; cases "if msSerializer m1 = None then None else idled"; cases e) (auto split: if_splits)
  then show ?thesis
  proof (elim disjE exE)
    fix ob assume e: "c' = observeLifecycle (logged env) ob c2"
    show ?thesis unfolding e observed_inv using owns_trans[OF o2(1) frame_owns[OF observe_frame]] o2(2) by blast
  next
    fix ob assume e: "c' = observeLifecycle (logged env) ob (unregisterManaged (msNumber m1) c2)"
    show ?thesis unfolding e observed_inv unregisterManaged_sessions
      using owns_trans[OF owns_trans[OF o2(1) unregisterManaged_owns] frame_owns[OF observe_frame]] o2(2) by blast
  qed (use o1 assms(2) in simp)
qed

lemma ExecuteAndWait_client_inv:
  assumes "ExecuteAndWait (logged env) cfg ctx h statement options c = (r, c')" "client_inv c"
  shows "client_inv c'"
proof -
  obtain g where g: "frame (c\<lparr>executions := g\<rparr>) c'" "ag_step\<^sup>*\<^sup>* (executions c) g" "active g = active (executions c)"
      "agClosed g = agClosed (executions c)"
    using ExecuteAndWait_ends[OF assms(1)] by blast
  have "ag_inv g" using ag_steps_inv[OF g(2)] assms(2) by (simp add: client_inv_def)
  then have "client_inv (c\<lparr>executions := g\<rparr>)" using assms(2) g(3,4) by (simp add: client_inv_def session_inv_def)
  then show ?thesis using owns_inv[OF frame_owns[OF g(1)]] frame_inv[OF g(1)] client_invD by blast
qed

lemma frame_client_inv: "frame c c' \<Longrightarrow> client_inv c \<Longrightarrow> client_inv c'"
  using owns_inv[OF frame_owns] frame_inv client_invD by blast

lemma ExecuteStream_client_inv:
  assumes "ExecuteStream (logged env) cfg ctx stop h statement options c = (r, c')" "client_inv c"
  shows "client_inv c'"
proof (cases "executionSettings cfg options")
  case (Inl err)
  then show ?thesis using assms by (simp add: ExecuteStream_def)
next
  case (Inr settings)
  define ectx where "ectx = timed_ctx (logged env) (execution_timeout cfg options) (ctx_merge (logged env) ctx) c"
  obtain x c1 where 1: "ExecuteStatement (logged env) cfg ectx h (execution_request statement options (execution_timeout cfg options)) c = (x, c1)"
    by fastforce
  have inv1: "client_inv c1" by (rule frame_client_inv[OF ExecuteStatement_frame[OF 1] assms(2)])
  note eq = assms(1)[unfolded ExecuteStream_def Inr sum.case Let_def ectx_def[symmetric] 1 prod.case]
  show ?thesis
  proof (cases x)
    case (Inl err)
    then have "c' = c1\<lparr>world := stop (world c1)\<rparr>" using eq by simp
    then show ?thesis using frame_client_inv[OF world_frame inv1] by (simp only:)
  next
    case (Inr op)
    obtain y c3 where 3: "registerStream (allocated c1) (c1\<lparr>allocated := allocated c1 + 1\<rparr>) = (y, c3)" by fastforce
    have inv3: "client_inv c3" using 3 own_next(2,3)[OF inv1] by (auto simp: registerStream_def split: if_splits)
    note eq2 = eq[unfolded Inr sum.case 3 prod.case]
    show ?thesis
    proof (cases y)
      case None
      then show ?thesis using eq2 inv3 by simp
    next
      case (Some err)
      obtain e c4 where 4: "cleanupOperationContext (logged env) cfg (internal_ctx (logged env) cfg c3) op err c3 = (e, c4)" by fastforce
      have "client_inv c4" by (rule frame_client_inv[OF cleanupOperationContext_frame[OF 4] inv3])
      moreover have "c' = c4\<lparr>world := stop (world c4)\<rparr>" using eq2 Some 4 by simp
      ultimately show ?thesis using frame_client_inv[OF world_frame] by (simp only:)
    qed
  qed
qed

lemma sheds_client_inv: "sheds c c' \<Longrightarrow> client_inv c \<Longrightarrow> client_inv c'"
  by (rule owns_inv) (auto simp: sheds_def owns_no_more_def frame_def client_inv_def session_inv_def)

lemma begin_close_inv: "client_inv c \<Longrightarrow> client_inv (begin_close c)"
  using ag_step_inv[OF step_stop, of "executions c"] by (simp add: client_inv_def begin_close_def ag_stop_def session_inv_def)

lemma new_client_inv: "client_inv (new_client w)"
  by (simp add: client_inv_def new_client_def session_inv_def ag_inv_new) (simp add: newActivityGroup_def)

lemma client_reach_inv: "client_reach env cfg c \<Longrightarrow> client_inv c"
proof (induction rule: client_reach.induct)
  case (created cfg0 w c)
  then show ?case using NewClient_Inr[of "parse_url env" cfg0 w cfg "base_url env" c] new_client_inv by simp
next
  case (stop_heartbeat c h)
  then show ?case using owns_inv[OF StopHeartbeat_owns _ stop_heartbeat.IH, of h] client_invD[OF stop_heartbeat.IH] by simp
next
  case (start_heartbeat c ctx h interval jitter runner c')
  show ?case using owns_inv[OF startHeartbeat_owns[OF start_heartbeat.hyps(2)] _ start_heartbeat.IH]
      startHeartbeat_ends[OF start_heartbeat.hyps(2)] client_invD[OF start_heartbeat.IH] by blast
next
  case (stream_next c ctx stop op fmt i st b st' c')
  show ?case by (rule sheds_client_inv[OF stream_frame.Next_keeps[OF frame_sheds[OF frame_refl] stream_next.hyps(2)] stream_next.IH])
next
  case (stream_close c ctx stop op fmt i internal terminal st err st' c')
  show ?case by (rule sheds_client_inv[OF stream_frame.closeWithContext_keeps[OF frame_sheds[OF frame_refl] stream_close.hyps(2)] stream_close.IH])
next
  case (close_managed c ctx waited idled ms err m' c')
  show ?case using managed_close_owns[OF close_managed.hyps(2) client_invD[OF close_managed.IH]] owns_inv close_managed.IH by blast
qed (blast intro: frame_client_inv owns_inv OpenSession_owns CloseSession_owns OpenSession_inv CloseSession_inv client_invD
    ExecuteAndWait_client_inv ExecuteStream_client_inv OpenManagedSession_client_inv begin_close_inv)+

text \<open>The configuration a client runs with is the one it was made with.\<close>

lemma client_reach_cfg: "client_reach env cfg c \<Longrightarrow> config_ok cfg \<and> base_url_ok (base_url env)"
  by (induction rule: client_reach.induct) (auto dest!: NewClient_Inr normalize_config_ok)

text \<open>C29: whatever sequence of calls a client made by \<open>NewClient\<close> has seen, and however they ended, its configuration is complete and
  its base URL clean; no execution is left counted, so a close never waits for one that is over; the group of executions
  is closed exactly when the client is; it remembers a bounded number of closed sessions, none of which it holds as open; and no
  two streams or managed sessions it owns share a number.\<close>

theorem client_sound:
  assumes "client_reach env cfg c"
  shows "config_ok cfg \<and> base_url_ok (base_url env) \<and>
    active (executions c) = 0 \<and> wait_over (wait_channel (executions c)) (executions c) \<and> clientClosed c = agClosed (executions c) \<and>
    length (closedOrder c) \<le> 1024 \<and> distinct (closedOrder c) \<and> (\<forall>h \<in> set (closedSessions c). map_of (sessions c) h = None) \<and>
    set (managed c) \<inter> set (streams c) = {} \<and> (\<forall>i \<in> set (managed c) \<union> set (streams c). i < allocated c)"
proof -
  have i: "client_inv c" by (rule client_reach_inv[OF assms])
  then have "idleChan (executions c) \<in> set (closedChans (executions c))" by (auto simp: client_inv_def ag_inv_def)
  then show ?thesis using i client_reach_cfg[OF assms]
    by (simp add: client_inv_def session_inv_def maxRememberedClosedSessions_def wait_over_def wait_channel_def)
qed

text \<open>A new client with the defaults, a statement on it, and a close.\<close>

definition default_config :: config where
  "default_config = \<lparr>BaseURL = ''g'', CompatibilityMode = [], APIVersionPolicy = [], APIVersion = [], RequestTimeout = 0,
     ExecutionTimeout = 0, PollInterval = 0, MaxPollInterval = 0, HeartbeatInterval = 0, MaxResultRows = 0, MaxResponseBytes = 0,
     DefaultRowFormat = [], UserAgent = [], Headers = [], CancelOnContextDone = False, MaxPolls = 0, StreamBuffer = 0,
     ObserverTimeout = 0, ObserverMaxInFlight = 0\<rparr>"

definition default_env :: "(script, serverMessageRedaction \<times> bool) transport_env" where
  "default_env = script_env\<lparr>base_url := example_url\<lparr>Path := ''g''\<rparr>\<rparr>"

theorem client_sound_witness:
  "\<exists>cfg c. client_reach default_env cfg (begin_close c) \<and> snd (ExecuteAndWait (logged default_env) cfg plain_ctx ''s'' ''X'' example_options (new_client ([], []))) = c \<and>
     wait_over (wait_channel (executions (begin_close c))) (executions (begin_close c)) \<and> config_ok cfg"
proof -
  let ?w = "([], []) :: script \<times> exchange_log"
  have "\<exists>cfg. NewClient (parse_url default_env) default_config ?w = Inr (cfg, base_url default_env, new_client ?w)"
    by (simp add: default_env_def default_config_def NewClient_def script_env_def example_url_def normalize_def trim_space_def byte_def is_space_def check_base_def
        trim_right_byte_def normalizeCompatibilityMode_def normalizeAPIVersionPolicy_def normalizeVersion_def to_lower_def map_runes_def
        fill_defaults_def default_defs check_limits_def row_format_valid_def)
  then obtain cfg where n: "NewClient (parse_url default_env) default_config ?w = Inr (cfg, base_url default_env, new_client ?w)" ..
  obtain r c where x: "ExecuteAndWait (logged default_env) cfg plain_ctx ''s'' ''X'' example_options (new_client ?w) = (r, c)" by fastforce
  have reach: "client_reach default_env cfg (begin_close c)" by (rule close_client[OF execute[OF created[OF n] x]])
  show ?thesis using client_sound[OF reach] reach x by (intro exI[of _ cfg] exI[of _ c]) simp
qed

end
