(* ===== verification/Close_Race.thy ===== *)
theory Close_Race
  imports Client_Life
begin

text \<open>
  What an execution meets that is still running when another goroutine closes the client: the end of \<open>runExecution\<close>
  (\<open>poller.go\<close>) against \<open>ensureOpen\<close> (\<open>lifecycle.go\<close>), which lets only internal clean-up through once the client is closed.
\<close>

lemma closed_operation_refused:
  assumes "clientClosed c" "\<not> ctx_internal env ctx" "settled c" "usable op"
  shows "CloseOperation env cfg ctx (opSessionHandle op) (opHandle op) c = (Inl (Sentinel ErrClientClosed), c)"
proof -
  have v: "validateSessionHandle (opSessionHandle op) = None" "validateOperationHandle (opHandle op) = None"
    using assms(4) by (simp_all only: usable_def)
  have o: "ensureOpen env ctx c = Some (Sentinel ErrClientClosed)" using assms(1,2) by (simp add: ensureOpen_def)
  show ?thesis
    unfolding CloseOperation_def with_operation_def v option.case settled_check[OF assms(3)] prod.case doJSON_def o
    by (simp add: answer_of_def sentinel_is_def)
qed

text \<open>C15: an execution whose results were read completely while the client was being closed does not close its operation: the
  request is refused by the client itself, nothing is sent, and the caller gets the result with an error that matches
  \<open>ErrClientClosed\<close>.  Had the same execution failed at that moment, its operation would have been closed, with the last request
  it sends: only the clean-up of a failure is marked as internal.\<close>

theorem completed_while_closing:
  assumes "clientClosed c" "settled c" "usable op" "\<not> ctx_internal env (cleanup_ctx (logged env) cfg c)"
    "\<And>m u. new_request_err env m u = None" "\<And>x. ctx_internal env (ctx_with_cleanup env x)" "\<not> list_ex (method_is ''DELETE'') (log_of c)"
  shows "\<exists>err. finish_execution (logged env) cfg ctx op result c = ((Some result, Some err), c) \<and> err_is err ErrClientClosed \<and>
      closed_once (log_of (snd (cleanupOperation (logged env) cfg op failure c)))"
proof -
  have n: "\<not> ctx_internal (logged env) (cleanup_ctx (logged env) cfg c)" using assms(4) by (simp add: logged_def)
  have i: "ctx_internal env (internal_ctx (logged env) cfg c)" using assms(6) by (simp add: internal_ctx_def logged_def)
  obtain e c' where k: "cleanupOperation (logged env) cfg op failure c = (e, c')" by fastforce
  have "closed_once (log_of c')"
    by (rule cleanupOperationContext_closes[OF k[unfolded cleanupOperation_def] assms(2,3,5) _ assms(7)]) (use i in simp)
  then show ?thesis
    by (simp add: finish_execution_def closed_operation_refused[OF assms(1) n assms(2,3)] k)
qed

theorem completed_while_closing_witness:
  "\<exists>err. finish_execution (logged script_env) quick_cfg plain_ctx \<lparr>opHandle = ''op'', opSessionHandle = ''s''\<rparr> (empty_result example_operation)
       (begin_close (checked_client ([], []))) = ((Some (empty_result example_operation), Some err), begin_close (checked_client ([], []))) \<and> err_is err ErrClientClosed"
proof -
  let ?c = "begin_close (checked_client ([], [])) :: (script \<times> exchange_log) client" and ?op = "\<lparr>opHandle = ''op'', opSessionHandle = ''s''\<rparr>"
  have c: "clientClosed ?c" "settled ?c" "\<not> list_ex (method_is ''DELETE'') (log_of ?c)"
    by (simp_all add: begin_close_def checked_client_def example_client_def settled_def version_init_def)
  have o: "usable ?op" by (simp add: usable_def example_handles)
  have n: "\<not> ctx_internal script_env (cleanup_ctx (logged script_env) quick_cfg ?c)"
    by (simp add: cleanup_ctx_def logged_def script_env_def)
  show ?thesis
    using completed_while_closing[OF c(1,2) o n _ _ c(3), of plain_ctx "empty_result example_operation"] by (fastforce simp: script_env_def)
qed

end
