(* ===== verification/Contexts.thy ===== *)
theory Contexts
  imports Close_Race
begin

text \<open>
  The contexts of the client.  The other theories take contexts as values of any type with the operations of
  \<open>transport_env\<close>; here they are Go's, with the functions the client defines on them: \<open>withInternalCleanup\<close> and
  \<open>isInternalCleanup\<close> (\<open>lifecycle.go\<close>), the redaction rules and \<open>waitContext\<close> (\<open>transport.go\<close>) and \<open>mergeContext\<close>
  (\<open>serialized_session.go\<close>).  The locale \<open>contexts\<close> states what the client relies on, the interpretation shows that Go's
  contexts with these functions provide it.

  What a context answers depends on the moments at which cancel functions are called.  A \<open>schedule\<close> holds the clock and
  these moments, past and future, for every cancel function, a number; \<open>lag\<close> is how long after the end of the lifecycle
  context the goroutine of \<open>context.AfterFunc\<close> has run.
\<close>

section \<open>Contexts of Go\<close>

datatype context_key = InternalCleanupKey | RedactionKey

datatype context_any = AnyBool bool | AnyRedaction serverMessageRedaction

datatype go_ctx =
    Background
  | WithValue context_key context_any go_ctx
  | WithCancel nat go_ctx
  | WithDeadline int go_ctx
  | Merged nat go_ctx go_ctx

record schedule =
  clock :: int
  cancelled :: "nat \<Rightarrow> int option"
  lag :: "nat \<Rightarrow> nat"

text \<open>\<open>ctx.Value\<close>: the innermost value stored under the key.\<close>

fun ctx_Value :: "go_ctx \<Rightarrow> context_key \<Rightarrow> context_any option" where
  "ctx_Value Background k = None"
| "ctx_Value (WithValue k' v ctx) k = (if k' = k then Some v else ctx_Value ctx k)"
| "ctx_Value (WithCancel n ctx) k = ctx_Value ctx k"
| "ctx_Value (WithDeadline d ctx) k = ctx_Value ctx k"
| "ctx_Value (Merged n primary lifecycle) k = ctx_Value primary k"

text \<open>When a context ends, and its error from then on.  A child ends with its parent or by itself, whatever is first; a
  merged context is cancelled by the goroutine that waits for the other parent, whatever the error of that parent.\<close>

definition earliest :: "(int \<times> goerr) option \<Rightarrow> (int \<times> goerr) option \<Rightarrow> (int \<times> goerr) option" where
  "earliest a b = (case a of None \<Rightarrow> b | Some (t, e) \<Rightarrow> (case b of None \<Rightarrow> a | Some (u, f) \<Rightarrow> if u < t then b else a))"

definition cancel_end :: "'z schedule_scheme \<Rightarrow> nat \<Rightarrow> (int \<times> goerr) option" where
  "cancel_end w n = map_option (\<lambda>t. (t, Sentinel ContextCanceled)) (cancelled w n)"

definition after_func :: "'z schedule_scheme \<Rightarrow> nat \<Rightarrow> (int \<times> goerr) option \<Rightarrow> (int \<times> goerr) option" where
  "after_func w n lifecycleEnd = map_option (\<lambda>(t, e). (t + int (lag w n), Sentinel ContextCanceled)) lifecycleEnd"

fun ends :: "'z schedule_scheme \<Rightarrow> go_ctx \<Rightarrow> (int \<times> goerr) option" where
  "ends w Background = None"
| "ends w (WithValue k v ctx) = ends w ctx"
| "ends w (WithCancel n ctx) = earliest (ends w ctx) (cancel_end w n)"
| "ends w (WithDeadline d ctx) = earliest (ends w ctx) (Some (d, Sentinel ContextDeadlineExceeded))"
| "ends w (Merged n primary lifecycle) =
     earliest (earliest (ends w primary) (cancel_end w n)) (after_func w n (ends w lifecycle))"

definition ctx_Err :: "'z schedule_scheme \<Rightarrow> go_ctx \<Rightarrow> goerr option" where
  "ctx_Err w ctx = (case ends w ctx of None \<Rightarrow> None | Some (t, e) \<Rightarrow> if t \<le> clock w then Some e else None)"

fun ctx_Deadline :: "go_ctx \<Rightarrow> int option" where
  "ctx_Deadline Background = None"
| "ctx_Deadline (WithValue k v ctx) = ctx_Deadline ctx"
| "ctx_Deadline (WithCancel n ctx) = ctx_Deadline ctx"
| "ctx_Deadline (WithDeadline d ctx) = Some (case ctx_Deadline ctx of None \<Rightarrow> d | Some d' \<Rightarrow> min d' d)"
| "ctx_Deadline (Merged n primary lifecycle) = ctx_Deadline primary"

definition context_WithTimeout :: "int \<Rightarrow> go_ctx \<Rightarrow> 'z schedule_scheme \<Rightarrow> go_ctx" where
  "context_WithTimeout d ctx w = WithDeadline (clock w + d) ctx"

section \<open>The client's functions\<close>

definition withInternalCleanup :: "go_ctx \<Rightarrow> go_ctx" where
  "withInternalCleanup ctx = WithValue InternalCleanupKey (AnyBool True) ctx"

definition isInternalCleanup :: "go_ctx \<Rightarrow> bool" where
  "isInternalCleanup ctx = (case ctx_Value ctx InternalCleanupKey of Some (AnyBool allowed) \<Rightarrow> allowed | _ \<Rightarrow> False)"

definition withServerMessageRedaction :: "serverMessageRedaction \<Rightarrow> go_ctx \<Rightarrow> go_ctx" where
  "withServerMessageRedaction redaction ctx = WithValue RedactionKey (AnyRedaction redaction) ctx"

definition serverMessageRedactionFromContext :: "go_ctx \<Rightarrow> serverMessageRedaction" where
  "serverMessageRedactionFromContext ctx =
     (case ctx_Value ctx RedactionKey of Some (AnyRedaction redaction) \<Rightarrow> redaction | _ \<Rightarrow> \<lparr>fragments = [], redactAll = False\<rparr>)"

text \<open>The context \<open>mergeContext\<close> returns, and what the returned function does: the cancel function \<open>n\<close> is called now, unless
  it has been called.\<close>

definition mergeContext :: "nat \<Rightarrow> go_ctx \<Rightarrow> go_ctx \<Rightarrow> go_ctx" where
  "mergeContext n primary lifecycle = Merged n primary lifecycle"

definition merge_release :: "nat \<Rightarrow> 'z schedule_scheme \<Rightarrow> 'z schedule_scheme" where
  "merge_release n w =
     (case cancelled w n of
        Some t \<Rightarrow> if t \<le> clock w then w else w\<lparr>cancelled := (cancelled w)(n \<mapsto> clock w)\<rparr>
      | None \<Rightarrow> w\<lparr>cancelled := (cancelled w)(n \<mapsto> clock w)\<rparr>)"

text \<open>\<open>waitContext\<close>: the \<open>select\<close> takes the case that is ready first, and either one, \<open>pick\<close>, when both become ready at
  the same moment.\<close>

definition waitContext :: "bool \<Rightarrow> go_ctx \<Rightarrow> int \<Rightarrow> 'z schedule_scheme \<Rightarrow> goerr option \<times> 'z schedule_scheme" where
  "waitContext pick ctx duration w =
     (let timer = clock w + max 0 duration in
      case ends w ctx of
        None \<Rightarrow> (None, w\<lparr>clock := timer\<rparr>)
      | Some (t, e) \<Rightarrow>
          let done = max t (clock w) in
          if done < timer \<or> done = timer \<and> pick then (Some e, w\<lparr>clock := done\<rparr>) else (None, w\<lparr>clock := timer\<rparr>))"

section \<open>Ends and errors\<close>

lemma earliest_simps [simp]:
  "earliest None b = b" "earliest a None = a"
  "earliest (Some (t, e)) (Some (u, f)) = (if u < t then Some (u, f) else Some (t, e))"
  by (auto simp: earliest_def split: option.splits)

lemma earliest_None: "earliest a b = None \<longleftrightarrow> a = None \<and> b = None"
  by (cases a; cases b) (auto simp: earliest_def split: if_splits)

lemma earliest_bounds:
  "a = Some (t, e) \<Longrightarrow> \<exists>u f. earliest a b = Some (u, f) \<and> u \<le> t"
  "b = Some (t, e) \<Longrightarrow> \<exists>u f. earliest a b = Some (u, f) \<and> u \<le> t"
  by (cases b; cases a; force)+

lemma ends_clock [simp]: "ends (w\<lparr>clock := t\<rparr>) ctx = ends w ctx"
  by (induction ctx) (simp_all add: cancel_end_def after_func_def)

text \<open>The errors of a context are the two errors of the library, which the classifier of the client recognises.\<close>

lemma earliest_cases: "earliest a b = Some x \<Longrightarrow> a = Some x \<or> b = Some x"
  by (auto simp: earliest_def split: option.splits prod.splits if_splits)

lemma ends_error: "ends w ctx = Some (t, e) \<Longrightarrow> e = Sentinel ContextCanceled \<or> e = Sentinel ContextDeadlineExceeded"
  by (induction ctx arbitrary: t e) (auto simp: cancel_end_def after_func_def dest!: earliest_cases)

lemma ctx_Err_error: "ctx_Err w ctx = Some e \<Longrightarrow> e = Sentinel ContextCanceled \<or> e = Sentinel ContextDeadlineExceeded"
  unfolding ctx_Err_def by (force dest: ends_error split: option.splits prod.splits if_splits)

text \<open>An ended context stays ended, with the same error.\<close>

lemma ctx_Err_stays: "ctx_Err w ctx = Some e \<Longrightarrow> clock w \<le> t \<Longrightarrow> ctx_Err (w\<lparr>clock := t\<rparr>) ctx = Some e"
  by (auto simp: ctx_Err_def split: option.splits if_splits)

text \<open>Whether an end has come.\<close>

definition over :: "'z schedule_scheme \<Rightarrow> (int \<times> goerr) option \<Rightarrow> bool" where
  "over w x = (case x of None \<Rightarrow> False | Some (t, e) \<Rightarrow> t \<le> clock w)"

lemma over_simps [simp]: "\<not> over w None" "over w (Some (t, e)) \<longleftrightarrow> t \<le> clock w"
  by (simp_all add: over_def)

lemma over_earliest [simp]: "over w (earliest a b) \<longleftrightarrow> over w a \<or> over w b"
  by (cases a; cases b) (auto simp: over_def split: if_splits)

lemma ctx_Err_over: "ctx_Err w ctx \<noteq> None \<longleftrightarrow> over w (ends w ctx)"
  by (cases "ends w ctx") (auto simp: ctx_Err_def split: if_splits)

lemma over_cancel: "over w (cancel_end w n) \<longleftrightarrow> (\<exists>t. cancelled w n = Some t \<and> t \<le> clock w)"
  by (cases "cancelled w n") (simp_all add: cancel_end_def)

lemma over_after: "over w (after_func w n x) \<longleftrightarrow> (\<exists>t e. x = Some (t, e) \<and> t + int (lag w n) \<le> clock w)"
  by (cases x) (auto simp: after_func_def)

text \<open>Derived contexts end with their parents.\<close>

lemma child_ends:
  "ctx_Err w ctx \<noteq> None \<Longrightarrow> ctx_Err w (WithValue k v ctx) \<noteq> None"
  "ctx_Err w ctx \<noteq> None \<Longrightarrow> ctx_Err w (WithCancel n ctx) \<noteq> None"
  "ctx_Err w ctx \<noteq> None \<Longrightarrow> ctx_Err w (WithDeadline d ctx) \<noteq> None"
  "ctx_Err w ctx \<noteq> None \<Longrightarrow> ctx_Err w (mergeContext n ctx lifecycle) \<noteq> None"
  by (simp_all only: ctx_Err_over mergeContext_def ends.simps over_earliest simp_thms)

text \<open>\<open>mergeContext\<close>: the merged context has ended exactly when the caller's has, the returned function was called, or the
  goroutine has seen the end of the lifecycle; it keeps the error of the caller's context when only that has ended.\<close>

lemma merged_ended:
  "ctx_Err w (mergeContext n primary lifecycle) \<noteq> None \<longleftrightarrow>
     ctx_Err w primary \<noteq> None \<or> (\<exists>t. cancelled w n = Some t \<and> t \<le> clock w) \<or>
     (\<exists>t e. ends w lifecycle = Some (t, e) \<and> t + int (lag w n) \<le> clock w)"
  by (simp only: ctx_Err_over mergeContext_def ends.simps over_earliest over_cancel over_after disj_assoc)

lemma merged_primary_error:
  "ctx_Err w primary = Some e \<Longrightarrow> cancelled w n = None \<Longrightarrow> ctx_Err w lifecycle = None \<Longrightarrow>
   ctx_Err w (mergeContext n primary lifecycle) = Some e"
  by (cases "ends w lifecycle")
    (auto simp: ctx_Err_def mergeContext_def cancel_end_def after_func_def split: option.splits if_splits)

lemma merged_lifecycle_error:
  "ends w primary = None \<Longrightarrow> cancelled w n = None \<Longrightarrow> ctx_Err w (mergeContext n primary lifecycle) = Some e \<Longrightarrow> e = Sentinel ContextCanceled"
  by (auto simp: ctx_Err_def mergeContext_def cancel_end_def after_func_def split: option.splits if_splits)

lemma merge_release_ends: "ctx_Err (merge_release n w) (mergeContext n primary lifecycle) \<noteq> None"
  unfolding merged_ended by (auto simp: merge_release_def split: option.splits)

lemma merge_release_once: "merge_release n (merge_release n w) = merge_release n w"
  by (auto simp: merge_release_def split: option.splits)

text \<open>A timeout ends a context in time and never extends it.\<close>

lemma timeout_deadline:
  "\<exists>d'. ctx_Deadline (context_WithTimeout d ctx w) = Some d' \<and> d' \<le> clock w + d"
  "ctx_Deadline ctx = Some d0 \<Longrightarrow> ctx_Deadline (context_WithTimeout d ctx w) = Some (min d0 (clock w + d))"
  by (auto simp: context_WithTimeout_def split: option.splits)

lemma deadline_ends: "ctx_Deadline ctx = Some d \<Longrightarrow> \<exists>t e. ends w ctx = Some (t, e) \<and> t \<le> d"
proof (induction ctx arbitrary: d)
  case (WithDeadline d' ctx)
  then show ?case
    by (cases "ctx_Deadline ctx") (fastforce simp: earliest_def split: option.splits)+
next
  case (WithCancel n ctx)
  then show ?case using earliest_bounds(1) by (metis ctx_Deadline.simps(3) ends.simps(3) order.trans)
next
  case (Merged n primary lifecycle)
  then obtain t e where "ends w primary = Some (t, e)" "t \<le> d" by auto
  then show ?case using earliest_bounds(1) by (metis ends.simps(5) order.trans)
qed simp_all

text \<open>\<open>waitContext\<close> returns an error only of a context that has ended, no error only after the time it was to wait, and
  after that time at the latest.\<close>

lemma waitContext_outcome:
  assumes "waitContext pick ctx d w = (err, w')"
  shows "case err of Some e \<Rightarrow> ctx_Err w' ctx = Some e | None \<Rightarrow> clock w' = clock w + max 0 d"
  using assms by (auto simp: waitContext_def ctx_Err_def Let_def split: option.splits if_splits)

lemma waitContext_time:
  assumes "waitContext pick ctx d w = (err, w')"
  shows "w' = w\<lparr>clock := clock w'\<rparr>" "clock w \<le> clock w'" "clock w' \<le> clock w + max 0 d"
  using assms by (auto simp: waitContext_def Let_def split: option.splits if_splits)

lemma waitContext_ended:
  assumes "ctx_Err w ctx = Some e" "0 < d"
  shows "waitContext pick ctx d w = (Some e, w)"
  using assms by (auto simp: waitContext_def ctx_Err_def Let_def max_def split: option.splits if_splits)


section \<open>The operations of the environment\<close>

text \<open>An environment whose contexts are Go's: the world holds the schedule, the server's state behind it; \<open>lifecycle\<close> is the
  cancel function of the client, \<open>lifecycleCtx\<close> its context, \<open>n\<close> the cancel function of a merge.\<close>

definition lifecycleCtx :: "nat \<Rightarrow> go_ctx" where
  "lifecycleCtx lifecycle = WithCancel lifecycle Background"

definition go_contexts :: "nat \<Rightarrow> nat \<Rightarrow> bool \<Rightarrow> ('z schedule_scheme, go_ctx) transport_env \<Rightarrow> ('z schedule_scheme, go_ctx) transport_env" where
  "go_contexts lifecycle n pick env = env\<lparr>
     ctx_err := \<lambda>ctx w. ctx_Err w ctx,
     ctx_with_timeout := context_WithTimeout,
     ctx_merge := \<lambda>ctx. mergeContext n ctx (lifecycleCtx lifecycle),
     ctx_internal := isInternalCleanup,
     ctx_redaction := serverMessageRedactionFromContext,
     ctx_with_redaction := withServerMessageRedaction,
     ctx_background := Background,
     ctx_with_cleanup := withInternalCleanup,
     ctx_remaining := \<lambda>ctx w. map_option (\<lambda>d. d - clock w) (ctx_Deadline ctx),
     wait := waitContext pick\<rparr>"

lemma go_contexts_sel [simp]:
  "ctx_err (go_contexts l n p env) = (\<lambda>ctx w. ctx_Err w ctx)"
  "ctx_with_timeout (go_contexts l n p env) = context_WithTimeout"
  "ctx_merge (go_contexts l n p env) ctx = mergeContext n ctx (lifecycleCtx l)"
  "ctx_internal (go_contexts l n p env) = isInternalCleanup"
  "ctx_redaction (go_contexts l n p env) = serverMessageRedactionFromContext"
  "ctx_with_redaction (go_contexts l n p env) = withServerMessageRedaction"
  "ctx_background (go_contexts l n p env) = Background"
  "ctx_with_cleanup (go_contexts l n p env) = withInternalCleanup"
  "ctx_remaining (go_contexts l n p env) ctx w = map_option (\<lambda>d. d - clock w) (ctx_Deadline ctx)"
  "wait (go_contexts l n p env) = waitContext p"
  by (simp_all add: go_contexts_def)

section \<open>What the client relies on\<close>

text \<open>The values a context carries: they are those stored in it, derived contexts keep them.\<close>

locale context_values =
  fixes env :: "('w, 'c) transport_env"
  assumes background_plain: "\<not> ctx_internal env (ctx_background env)"
    and cleanup_marks: "ctx_internal env (ctx_with_cleanup env ctx)"
    and redaction_read: "ctx_redaction env (ctx_with_redaction env r ctx) = r"
    and timeout_internal: "ctx_internal env (ctx_with_timeout env d ctx w) = ctx_internal env ctx"
    and merge_internal: "ctx_internal env (ctx_merge env ctx) = ctx_internal env ctx"
    and redaction_internal: "ctx_internal env (ctx_with_redaction env r ctx) = ctx_internal env ctx"
    and timeout_redaction: "ctx_redaction env (ctx_with_timeout env d ctx w) = ctx_redaction env ctx"
    and merge_redaction: "ctx_redaction env (ctx_merge env ctx) = ctx_redaction env ctx"
    and cleanup_redaction: "ctx_redaction env (ctx_with_cleanup env ctx) = ctx_redaction env ctx"
begin

lemma keep_values: "contexts_keep_values env"
  by (simp add: contexts_keep_values_def merge_redaction timeout_redaction)

lemma secret_everywhere:
  "redactAll (ctx_redaction env (secret_ctx env ctx))"
  "redactAll (ctx_redaction env (ctx_merge env (secret_ctx env ctx)))"
  "redactAll (ctx_redaction env (ctx_with_timeout env d (ctx_merge env (secret_ctx env ctx)) w))"
  by (simp_all add: secret_ctx_def redaction_read merge_redaction timeout_redaction)

text \<open>Only the clean-up the client marks passes a client that is closed.\<close>

lemma closed_client_contexts:
  assumes "clientClosed c"
  shows "ensureOpen env (internal_ctx env cfg c0) c = None"
    and "ensureOpen env (cleanup_ctx env cfg c0) c = Some (Sentinel ErrClientClosed)"
    and "ensureOpen env (cancelStageContext env cfg (internal_ctx env cfg c0) c1) c = None"
    and "\<not> ctx_internal env ctx \<Longrightarrow> ensureOpen env (timed_ctx env t (ctx_merge env ctx) c0) c = Some (Sentinel ErrClientClosed)"
  using assms
  by (simp_all add: ensureOpen_def internal_ctx_def cleanup_ctx_def cancelStageContext_def timed_ctx_def
      cleanup_marks timeout_internal merge_internal background_plain)

lemma secret_context_internal: "ctx_internal env (secret_ctx env ctx) = ctx_internal env ctx"
  by (simp add: secret_ctx_def redaction_internal)

end

text \<open>The times: a context with a timeout is over after it, waiting respects the context, and the errors are the library's.\<close>

locale context_times = context_values +
  fixes time :: "'w \<Rightarrow> int"
  assumes timeout_over: "time w + d \<le> time w' \<Longrightarrow> ctx_err env (ctx_with_timeout env d ctx w) w' \<noteq> None"
    and remaining_timeout: "\<exists>r. ctx_remaining env (ctx_with_timeout env d ctx w) w = Some r \<and> r \<le> d"
    and remaining_over: "ctx_remaining env ctx w' = Some r \<Longrightarrow> r \<le> 0 \<Longrightarrow> ctx_err env ctx w' \<noteq> None"
    and wait_outcome: "wait env ctx d w = (y, w') \<Longrightarrow>
      (case y of None \<Rightarrow> time w' = time w + max 0 d | Some e \<Rightarrow> ctx_err env ctx w' = Some e)"
    and library_error: "ctx_err env ctx w = Some e \<Longrightarrow> isContextError e \<and> shown_texts e = []"
begin

lemma wait_hidden: "wait env ctx d w = (y, w') \<Longrightarrow> hidden y"
  using wait_outcome library_error by (fastforce simp: hidden_def split: option.splits)

lemma wait_refused: "wait env ctx d w = (Some e, w') \<Longrightarrow> isContextError e"
  using wait_outcome library_error by fastforce

text \<open>The cancel stage of a clean-up is over when half of the time the clean-up had left has passed, so the close has the
  other half.\<close>

lemma cancel_stage_half:
  assumes "ctx_remaining env parent (world c) = Some r" "2 \<le> r" "2 * time w' \<ge> 2 * time (world c) + r"
  shows "ctx_err env (cancelStageContext env cfg parent c) w' \<noteq> None"
proof -
  have "2 * cancel_budget (RequestTimeout cfg) (Some r) \<le> r" using cancel_budget_bounds(2)[OF refl assms(2)] .
  then show ?thesis using assms(1,3) unfolding cancelStageContext_def by (intro timeout_over) simp
qed

text \<open>A clean-up has at most the request timeout.\<close>

lemma cleanup_over: "time (world c) + RequestTimeout cfg \<le> time w' \<Longrightarrow> ctx_err env (cleanup_ctx env cfg c) w' \<noteq> None"
  unfolding cleanup_ctx_def by (rule timeout_over)

end

section \<open>Go's contexts provide it\<close>

lemmas context_functions = isInternalCleanup_def withInternalCleanup_def serverMessageRedactionFromContext_def
  withServerMessageRedaction_def context_WithTimeout_def mergeContext_def

interpretation go_values: context_values "go_contexts l n p env" for l n p env
  by unfold_locales (simp_all add: context_functions)

text \<open>Recording the requests leaves contexts as they are.\<close>

lemma logged_values: "context_values env \<Longrightarrow> context_values (logged env)"
  by (auto simp: context_values_def logged_def)

interpretation go_logged: context_values "logged (go_contexts l n p env)" for l n p env
  by (rule logged_values) unfold_locales

lemma context_WithTimeout_over: "clock w + d \<le> clock w' \<Longrightarrow> ctx_Err w' (context_WithTimeout d ctx w) \<noteq> None"
  unfolding ctx_Err_over context_WithTimeout_def by simp

lemma ctx_Deadline_over: "ctx_Deadline ctx = Some d \<Longrightarrow> d \<le> clock w \<Longrightarrow> ctx_Err w ctx \<noteq> None"
  unfolding ctx_Err_over by (drule deadline_ends[of _ _ w]) auto

lemma ctx_Err_library: "ctx_Err w ctx = Some e \<Longrightarrow> isContextError e \<and> shown_texts e = []"
  by (auto dest!: ctx_Err_error simp: isContextError_def)

interpretation go_times: context_times "go_contexts l n p env" clock for l n p env
  by unfold_locales
    (use timeout_deadline(1) in \<open>fastforce simp: context_WithTimeout_over ctx_Deadline_over
       dest: ctx_Deadline_over ctx_Err_library waitContext_outcome split: option.splits\<close>)+

text \<open>Closing the client: once the goroutines of the merges have run every context derived from a caller's has ended, with
  \<open>context.Canceled\<close> unless the caller's own had ended, while the context of a clean-up lives until its own timeout.\<close>

lemma closing_ends_callers:
  assumes "cancelled w l = Some t" "t + int (lag w n) \<le> clock w"
  shows "ctx_Err w (ctx_merge (go_contexts l n p env) ctx) \<noteq> None"
    and "ctx_Err w (timed_ctx (go_contexts l n p env) d (ctx_merge (go_contexts l n p env) ctx) c) \<noteq> None"
proof -
  show m: "ctx_Err w (ctx_merge (go_contexts l n p env) ctx) \<noteq> None"
    using assms by (simp only: go_contexts_sel merged_ended) (simp add: lifecycleCtx_def cancel_end_def)
  show "ctx_Err w (timed_ctx (go_contexts l n p env) d (ctx_merge (go_contexts l n p env) ctx) c) \<noteq> None"
    using m child_ends(3)[OF m] by (simp only: timed_ctx_def go_contexts_sel context_WithTimeout_def) simp
qed

lemma closing_spares_cleanup:
  "ctx_Err w (internal_ctx (go_contexts l n p env) cfg c) = None \<longleftrightarrow> clock w < clock (world c) + RequestTimeout cfg"
  by (auto simp: internal_ctx_def cleanup_ctx_def withInternalCleanup_def context_WithTimeout_def ctx_Err_def)

text \<open>The close of an execution that was read completely is refused by a closed client, with no assumption on contexts.\<close>

lemma plain_close_refused:
  assumes "clientClosed c" "settled c" "usable op"
  shows "CloseOperation (go_contexts l n p env) cfg (cleanup_ctx (go_contexts l n p env) cfg c) (opSessionHandle op) (opHandle op) c =
     (Inl (Sentinel ErrClientClosed), c)"
  by (rule closed_operation_refused[OF assms(1) _ assms(2,3)])
    (simp add: cleanup_ctx_def go_values.timeout_internal[simplified] isInternalCleanup_def context_WithTimeout_def)

end
