(* ===== verification/Observers.thy ===== *)
theory Observers
  imports Tokens
begin

text \<open>
  \<open>runObserver\<close> of \<open>flinksqlgateway/lifecycle.go\<close> with any number of observations at once.  The buffered channel
  \<open>observerSlots\<close> is the number of its elements; every observation that gets a slot has a goroutine for its callback, which
  may run for ever, return or panic.  A step is one channel operation, the end of a callback, or the timer.
\<close>

datatype observer_caller = ObsIdle | ObsWaiting | ObsDropped | ObsLeft

text \<open>The goroutine: not started, in the callback, before \<open><-c.observerSlots\<close>, before \<open>close(done)\<close>, gone.\<close>

datatype observer_callback = CbNone | CbRunning | CbReleasing | CbClosing | CbGone

record observer_state =
  observerSlots :: nat
  observations :: "(observer_caller \<times> observer_callback) list"

definition put_observation :: "nat \<Rightarrow> observer_caller \<Rightarrow> observer_callback \<Rightarrow> observer_state \<Rightarrow> observer_state" where
  "put_observation i caller cb s = s\<lparr>observations := (observations s)[i := (caller, cb)]\<rparr>"

text \<open>The first \<open>select\<close>: a slot and a goroutine, or at once away.\<close>

definition claim_slot :: "nat \<Rightarrow> nat \<Rightarrow> observer_state \<Rightarrow> observer_state" where
  "claim_slot cap i s =
     (if observerSlots s < cap then put_observation i ObsWaiting CbRunning (s\<lparr>observerSlots := observerSlots s + 1\<rparr>)
      else put_observation i ObsDropped CbNone s)"

definition release_slot :: "nat \<Rightarrow> observer_caller \<Rightarrow> observer_state \<Rightarrow> observer_state" where
  "release_slot i caller s = put_observation i caller CbClosing (s\<lparr>observerSlots := observerSlots s - 1\<rparr>)"

inductive obs_step :: "nat \<Rightarrow> observer_state \<Rightarrow> observer_state \<Rightarrow> bool" for cap where
  claim: "i < length (observations s) \<Longrightarrow> observations s ! i = (ObsIdle, CbNone) \<Longrightarrow> obs_step cap s (claim_slot cap i s)"
| callback_over: "i < length (observations s) \<Longrightarrow> observations s ! i = (caller, CbRunning) \<Longrightarrow> obs_step cap s (put_observation i caller CbReleasing s)"
| slot_back: "i < length (observations s) \<Longrightarrow> observations s ! i = (caller, CbReleasing) \<Longrightarrow> 0 < observerSlots s \<Longrightarrow>
    obs_step cap s (release_slot i caller s)"
| close_done: "i < length (observations s) \<Longrightarrow> observations s ! i = (caller, CbClosing) \<Longrightarrow> obs_step cap s (put_observation i caller CbGone s)"
| saw_done: "i < length (observations s) \<Longrightarrow> observations s ! i = (ObsWaiting, CbGone) \<Longrightarrow> obs_step cap s (put_observation i ObsLeft CbGone s)"
| timer: "i < length (observations s) \<Longrightarrow> observations s ! i = (ObsWaiting, cb) \<Longrightarrow> obs_step cap s (put_observation i ObsLeft cb s)"

definition observers_new :: "nat \<Rightarrow> observer_state" where
  "observers_new n = \<lparr>observerSlots = 0, observations = replicate n (ObsIdle, CbNone)\<rparr>"

inductive obs_reach :: "nat \<Rightarrow> nat \<Rightarrow> observer_state \<Rightarrow> bool" for cap n where
  obs_start: "obs_reach cap n (observers_new n)"
| obs_next: "obs_reach cap n s \<Longrightarrow> obs_step cap s s' \<Longrightarrow> obs_reach cap n s'"

section \<open>The invariant\<close>

fun has_slot :: "observer_caller \<times> observer_callback \<Rightarrow> bool" where
  "has_slot (caller, cb) = (cb = CbRunning \<or> cb = CbReleasing)"

definition obs_inv :: "nat \<Rightarrow> nat \<Rightarrow> observer_state \<Rightarrow> bool" where
  "obs_inv cap n s = (length (observations s) = n \<and> observerSlots s = count_at has_slot (observations s) \<and> observerSlots s \<le> cap)"

lemma obs_new_inv: "obs_inv cap n (observers_new n)"
  by (simp add: obs_inv_def observers_new_def count_at_def)

lemma obs_step_inv: "obs_step cap s s' \<Longrightarrow> obs_inv cap n s \<Longrightarrow> obs_inv cap n s'"
proof (induction rule: obs_step.induct)
  case (claim i s)
  then show ?case using count_at_update[OF claim.hyps(1), of has_slot "(ObsWaiting, CbRunning)"] count_at_update[OF claim.hyps(1), of has_slot "(ObsDropped, CbNone)"]
    by (auto simp: obs_inv_def claim_slot_def put_observation_def)
next
  case (callback_over i s caller)
  then show ?case using count_at_update[OF callback_over.hyps(1), of has_slot "(caller, CbReleasing)"] by (auto simp: obs_inv_def put_observation_def)
next
  case (slot_back i s caller)
  then show ?case using count_at_update[OF slot_back.hyps(1), of has_slot "(caller, CbClosing)"]
    by (auto simp: obs_inv_def release_slot_def put_observation_def)
next
  case (close_done i s caller)
  then show ?case using count_at_update[OF close_done.hyps(1), of has_slot "(caller, CbGone)"] by (auto simp: obs_inv_def put_observation_def)
next
  case (saw_done i s)
  then show ?case using count_at_update[OF saw_done.hyps(1), of has_slot "(ObsLeft, CbGone)"] by (auto simp: obs_inv_def put_observation_def)
next
  case (timer i s cb)
  then show ?case using count_at_update[OF timer.hyps(1), of has_slot "(ObsLeft, cb)"] by (auto simp: obs_inv_def put_observation_def)
qed

lemma obs_reach_inv: "obs_reach cap n s \<Longrightarrow> obs_inv cap n s"
  by (induction rule: obs_reach.induct) (auto intro: obs_new_inv obs_step_inv)

text \<open>C38: at most as many callbacks run as the configuration allows, each gives its slot back and never waits for that, an
  observation is dropped only while that many run, and a caller never depends on a callback: it may leave when its timer
  is over.\<close>

theorem observer_bounded:
  assumes "obs_reach cap n s"
  shows "count_at (\<lambda>x. snd x = CbRunning) (observations s) \<le> cap \<and>
    ((\<forall>x \<in> set (observations s). snd x = CbNone \<or> snd x = CbGone) \<longrightarrow> observerSlots s = 0) \<and>
    (\<forall>i < n. snd (observations s ! i) = CbReleasing \<longrightarrow> 0 < observerSlots s) \<and>
    (\<forall>i < n. fst (observations s ! i) = ObsWaiting \<longrightarrow> (\<exists>s'. obs_step cap s s' \<and> fst (observations s' ! i) = ObsLeft)) \<and>
    (\<forall>i s'. i < n \<longrightarrow> observations s ! i = (ObsIdle, CbNone) \<longrightarrow> s' = claim_slot cap i s \<longrightarrow> fst (observations s' ! i) = ObsDropped \<longrightarrow>
       count_at has_slot (observations s) = cap)"
proof -
  note inv = obs_reach_inv[OF assms, unfolded obs_inv_def]
  have "count_at (\<lambda>x. snd x = CbRunning) xs \<le> count_at has_slot xs" for xs
    by (induction xs) (auto simp: count_at_def)
  from this[of "observations s"] have "count_at (\<lambda>x. snd x = CbRunning) (observations s) \<le> cap" using inv by linarith
  moreover have "observerSlots s = 0" if "\<forall>x \<in> set (observations s). snd x = CbNone \<or> snd x = CbGone"
    using that inv count_at_none[of "observations s" has_slot] by (metis has_slot.simps observer_callback.distinct prod.collapse)
  moreover have "0 < observerSlots s" if "i < n" "snd (observations s ! i) = CbReleasing" for i
    using that inv count_at_pos[of i "observations s" has_slot] by (metis has_slot.simps prod.collapse)
  moreover have "\<exists>s'. obs_step cap s s' \<and> fst (observations s' ! i) = ObsLeft" if "i < n" "fst (observations s ! i) = ObsWaiting" for i
  proof -
    have "observations s ! i = (ObsWaiting, snd (observations s ! i))" using that(2) by (metis prod.collapse)
    then show ?thesis using obs_step.timer[of i s "snd (observations s ! i)" cap] that(1) inv by (force simp: put_observation_def)
  qed
  moreover have "count_at has_slot (observations s) = cap" if "i < n" "fst (observations (claim_slot cap i s) ! i) = ObsDropped" for i
    using that inv by (auto simp: claim_slot_def put_observation_def split: if_splits)
  ultimately show ?thesis by blast
qed

text \<open>Two observations and one slot: the second is dropped while the first callback runs.\<close>

lemma observer_bounded_witness:
  "count_at has_slot (observations (claim_slot 1 0 (observers_new 2))) = 1 \<and>
   fst (observations (claim_slot 1 1 (claim_slot 1 0 (observers_new 2))) ! 1) = ObsDropped"
proof -
  have "obs_reach 1 2 (claim_slot 1 0 (observers_new 2))"
    by (rule obs_next[OF obs_start], rule obs_step.claim) (simp_all add: observers_new_def)
  from observer_bounded[OF this] show ?thesis
    by (auto simp: claim_slot_def observers_new_def put_observation_def numeral_2_eq_2)
qed

end
