(* ===== verification/Serialized_Session.thy ===== *)
theory Serialized_Session
  imports Lifecycle
begin

text \<open>
  \<open>SerializedSession\<close> of \<open>serialized_session.go\<close>: the methods of the session over the client, for one caller at a time, and the
  wrapper \<open>callbackResultStream\<close> that keeps the gate of the session while a stream is open.
\<close>

section \<open>The wrapper of a stream\<close>

text \<open>What the wrapper gives back: the tokens in the gate and the group of the session's executions.\<close>

record exec_gate =
  egTokens :: nat
  egActivity :: activity

record callback_stream =
  cbStream :: result_stream
  cbNumber :: nat
  cbOnce :: bool

definition on_close :: "nat \<Rightarrow> exec_gate \<Rightarrow> exec_gate" where
  "on_close i k = k\<lparr>egActivity := ag_end (ag_unregisterStream i (egActivity k)), egTokens := egTokens k + 1\<rparr>"

definition callback_finish :: "callback_stream \<Rightarrow> exec_gate \<Rightarrow> callback_stream \<times> exec_gate" where
  "callback_finish x k = (if cbOnce x then (x, k) else (x\<lparr>cbOnce := True\<rparr>, on_close (cbNumber x) k))"

definition callback_Next :: "'s stream_env \<Rightarrow> callback_stream \<Rightarrow> exec_gate \<Rightarrow> 's \<Rightarrow> bool \<times> callback_stream \<times> exec_gate \<times> 's" where
  "callback_Next env x k s =
     (case Next env (cbStream x) s of (ok, st, s1) \<Rightarrow>
        (let x1 = x\<lparr>cbStream := st\<rparr>; (x2, k2) = (if ok then (x1, k) else callback_finish x1 k) in (ok, x2, k2, s1)))"

definition callback_Close :: "'s stream_env \<Rightarrow> callback_stream \<Rightarrow> exec_gate \<Rightarrow> 's \<Rightarrow> goerr option \<times> callback_stream \<times> exec_gate \<times> 's" where
  "callback_Close env x k s =
     (case Close env (cbStream x) s of (err, st, s1) \<Rightarrow> (case callback_finish (x\<lparr>cbStream := st\<rparr>) k of (x2, k2) \<Rightarrow> (err, x2, k2, s1)))"

definition callback_closeWithContext ::
  "'s stream_env \<Rightarrow> bool \<Rightarrow> goerr option \<Rightarrow> callback_stream \<Rightarrow> exec_gate \<Rightarrow> 's \<Rightarrow> goerr option \<times> callback_stream \<times> exec_gate \<times> 's" where
  "callback_closeWithContext env internal terminalErr x k s =
     (case closeWithContext env internal terminalErr (cbStream x) s of
        (err, st, s1) \<Rightarrow> (case callback_finish (x\<lparr>cbStream := st\<rparr>) k of (x2, k2) \<Rightarrow> (err, x2, k2, s1)))"

text \<open>Any sequence of calls by the user and by a session that is closed meanwhile, from the moment the stream is registered.\<close>

inductive wrapped_reach ::
  "'s stream_env \<Rightarrow> operation \<Rightarrow> execution_limits \<Rightarrow> nat \<Rightarrow> callback_stream \<Rightarrow> exec_gate \<Rightarrow> 's watched \<Rightarrow> bool"
  for env op limits i where
  wrapped_new: "k = \<lparr>egTokens = 0, egActivity = g\<rparr> \<Longrightarrow> active g = 1 \<Longrightarrow> i \<in> set (agStreams g) \<Longrightarrow>
    wrapped_reach env op limits i \<lparr>cbStream = new_stream env op limits, cbNumber = i, cbOnce = False\<rparr> k
      (s, \<lparr>wPages = [], wCancels = 0, wCloses = 0\<rparr>)"
| wrapped_next: "wrapped_reach env op limits i x k (s, w) \<Longrightarrow> callback_Next (watch env) x k (s, w) = (b, x', k', sw) \<Longrightarrow>
    wrapped_reach env op limits i x' k' sw"
| wrapped_close: "wrapped_reach env op limits i x k (s, w) \<Longrightarrow> callback_Close (watch env) x k (s, w) = (err, x', k', sw) \<Longrightarrow>
    wrapped_reach env op limits i x' k' sw"
| wrapped_closeWith: "wrapped_reach env op limits i x k (s, w) \<Longrightarrow>
    callback_closeWithContext (watch env) internal terminal x k (s, w) = (err, x', k', sw) \<Longrightarrow> wrapped_reach env op limits i x' k' sw"
| wrapped_stop: "wrapped_reach env op limits i x k sw \<Longrightarrow>
    wrapped_reach env op limits i x (k\<lparr>egActivity := snd (ag_stop (egActivity k))\<rparr>) sw"
| wrapped_other: "wrapped_reach env op limits i x k (s, w) \<Longrightarrow> wrapped_reach env op limits i x k (s', w)"

text \<open>The stream inside is one the calls of an iterator reach.\<close>

definition held_until_closed :: "nat \<Rightarrow> callback_stream \<Rightarrow> exec_gate \<Rightarrow> bool" where
  "held_until_closed i x k =
     (cbNumber x = i \<and> cbOnce x = stClosed (cbStream x) \<and>
      (if cbOnce x then egTokens k = 1 \<and> active (egActivity k) = 0 \<and> i \<notin> set (agStreams (egActivity k))
       else egTokens k = 0 \<and> active (egActivity k) = 1 \<and> i \<in> set (agStreams (egActivity k))))"

lemma callback_finish_held:
  assumes "held_until_closed i x k" "callback_finish (x\<lparr>cbStream := st\<rparr>) k = (x', k')" "stClosed st"
  shows "held_until_closed i x' k' \<and> cbStream x' = st"
  using assms by (cases "cbOnce x") (auto simp: held_until_closed_def callback_finish_def on_close_def ag_end_def ag_unregisterStream_def Let_def)

lemma held_stop: "held_until_closed i x k \<Longrightarrow> held_until_closed i x (k\<lparr>egActivity := snd (ag_stop (egActivity k))\<rparr>)"
  by (simp add: held_until_closed_def ag_stop_def)

lemma Next_open:
  assumes "stream_reach env op l ys st (s, w)" "0 \<le> limMaxRows l" "0 \<le> limMaxPolls l" "Next (watch env) st (s, w) = (b, st', sw')"
  shows "stClosed st' = (\<not> b)"
proof -
  from stream_reach_ok[OF assms(1-3)] show ?thesis
  proof
    assume "tracked l ys st (snd (s, w))"
    then have "tracked l ys st w" by simp
    from Next_ok[OF assms(4) this] show ?thesis by (auto simp: tracked_def finished_def split: if_splits)
  next
    assume "finished l ys st (snd (s, w))"
    then have "stClosed st" by (simp add: finished_def)
    then show ?thesis using assms(4) by (auto simp: Next_closed)
  qed
qed

lemma closed_after_close: "closeWithContext env internal terminal st s = (err, st', s') \<Longrightarrow> stClosed st'"
  by (cases "stClosed st") (auto simp: closeWithContext_def split: prod.splits dest: finish_sel(1))

lemma wrapped_ok:
  assumes "wrapped_reach env op l i x k sw" "0 \<le> limMaxRows l" "0 \<le> limMaxPolls l"
  shows "held_until_closed i x k \<and> (\<exists>ys. stream_reach env op l ys (cbStream x) sw)"
  using assms(1)
proof (induction rule: wrapped_reach.induct)
  case (wrapped_new k g s)
  then show ?case using reach_new[of env op l s] by (auto simp: held_until_closed_def new_stream_def)
next
  case (wrapped_next x k s w b x' k' sw)
  then obtain ys where r: "stream_reach env op l ys (cbStream x) (s, w)" and h: "held_until_closed i x k" by blast
  obtain st sw1 where n: "Next (watch env) (cbStream x) (s, w) = (b, st, sw1)"
    using wrapped_next.hyps(2) by (auto simp: callback_Next_def Let_def split: prod.splits)
  note next1 = reach_next[OF r n] and c = Next_open[OF r assms(2,3) n]
  have eq: "sw = sw1 \<and> (x', k') = (if b then (x\<lparr>cbStream := st\<rparr>, k) else callback_finish (x\<lparr>cbStream := st\<rparr>) k)"
    using wrapped_next.hyps(2) by (auto simp: callback_Next_def Let_def n split: prod.splits if_splits)
  show ?case
  proof (cases b)
    case True
    have "\<not> stClosed (cbStream x)" using n True by (auto simp: Next_closed)
    then have "held_until_closed i x' k'" using h eq c True by (simp add: held_until_closed_def)
    then show ?thesis using eq next1 True by auto
  next
    case False
    then show ?thesis using callback_finish_held[OF h, of st x' k'] eq c next1 by auto
  qed
next
  case (wrapped_close x k s w err x' k' sw)
  then obtain ys where r: "stream_reach env op l ys (cbStream x) (s, w)" and h: "held_until_closed i x k" by blast
  obtain st where n: "closeWithContext (watch env) False None (cbStream x) (s, w) = (err, st, sw)"
      "callback_finish (x\<lparr>cbStream := st\<rparr>) k = (x', k')"
    using wrapped_close.hyps(2) by (auto simp: callback_Close_def Close_def split: prod.splits)
  show ?case using reach_close[OF r n(1)] callback_finish_held[OF h n(2) closed_after_close[OF n(1)]] by auto
next
  case (wrapped_closeWith x k s w internal terminal err x' k' sw)
  then obtain ys where r: "stream_reach env op l ys (cbStream x) (s, w)" and h: "held_until_closed i x k" by blast
  obtain st where n: "closeWithContext (watch env) internal terminal (cbStream x) (s, w) = (err, st, sw)"
      "callback_finish (x\<lparr>cbStream := st\<rparr>) k = (x', k')"
    using wrapped_closeWith.hyps(2) by (auto simp: callback_closeWithContext_def split: prod.splits)
  show ?case using reach_close[OF r n(1)] callback_finish_held[OF h n(2) closed_after_close[OF n(1)]] by auto
next
  case (wrapped_stop x k sw)
  then show ?case using held_stop by blast
next
  case (wrapped_other x k s w s')
  then show ?case using reach_other[of env op l _ "cbStream x" s w s'] by auto
qed



section \<open>The session\<close>

text \<open>The serializer is its activity group; the gate shows in \<open>acquired\<close>, the outcome of \<open>acquire\<close>.  A nil session is \<open>None\<close>.\<close>

record serialized_session =
  ssClient :: bool
  ssHandle :: string
  ssActivity :: activity
  ssLocal :: bool
  ssCloseComplete :: bool

definition NewSerializedSession :: "bool \<Rightarrow> string \<Rightarrow> serialized_session option" where
  "NewSerializedSession client handle =
     Some \<lparr>ssClient = client, ssHandle = handle, ssActivity = newActivityGroup ErrSessionClosed, ssLocal = False, ssCloseComplete = False\<rparr>"

definition serialized_Handle :: "serialized_session option \<Rightarrow> string" where
  "serialized_Handle x = (case x of None \<Rightarrow> [] | Some s \<Rightarrow> ssHandle s)"

definition nil_session :: goerr where
  "nil_session = Errorf ''flinksqlgateway: serialized session is nil'' []"

definition no_client :: goerr where
  "no_client = Errorf ''flinksqlgateway: client is required'' []"

definition serialized_Execute ::
  "('w, 'c) transport_env \<Rightarrow> config \<Rightarrow> 'c \<Rightarrow> string \<Rightarrow> execute_options \<Rightarrow> goerr option \<Rightarrow> serialized_session option \<Rightarrow> 'w client
    \<Rightarrow> (execution_result option \<times> goerr option) \<times> serialized_session option \<times> 'w client" where
  "serialized_Execute env cfg ctx statement options acquired x c =
     (case x of None \<Rightarrow> ((None, Some nil_session), x, c)
      | Some s \<Rightarrow>
          if \<not> ssClient s then ((None, Some no_client), x, c)
          else (case serializer_execute env cfg ctx (ssHandle s) statement options acquired (ssActivity s) c of
             (r, g, c1) \<Rightarrow> (r, Some (s\<lparr>ssActivity := g\<rparr>), c1)))"

definition serialized_Stream ::
  "('w, 'c) transport_env \<Rightarrow> config \<Rightarrow> 'c \<Rightarrow> ('w \<Rightarrow> 'w) \<Rightarrow> string \<Rightarrow> execute_options \<Rightarrow> goerr option \<Rightarrow> serialized_session option \<Rightarrow> 'w client
    \<Rightarrow> (goerr, 'w open_stream) result \<times> serialized_session option \<times> 'w client" where
  "serialized_Stream env cfg ctx stop statement options acquired x c =
     (case x of None \<Rightarrow> (Inl nil_session, x, c)
      | Some s \<Rightarrow>
          if \<not> ssClient s then (Inl no_client, x, c)
          else (case serializer_stream env cfg ctx stop (ssHandle s) statement options acquired (ssActivity s) c of
             (r, g, c1) \<Rightarrow> (r, Some (s\<lparr>ssActivity := g\<rparr>), c1)))"

text \<open>\<open>closeLocal\<close>; \<open>closing\<close> closes the streams it is given at the server.\<close>

definition serialized_closeLocal ::
  "(nat list \<Rightarrow> 'w client \<Rightarrow> 'w client) \<Rightarrow> serialized_session \<Rightarrow> 'w client \<Rightarrow> serialized_session \<times> 'w client" where
  "serialized_closeLocal closing s c =
     (if ssLocal s then (s, c)
      else (case stop_group (ssActivity s) of (ids, g) \<Rightarrow> (s\<lparr>ssActivity := g, ssLocal := True\<rparr>, closing ids c)))"

text \<open>\<open>Close\<close>; \<open>idled\<close> is the outcome of \<open>waitIdle\<close>.\<close>

definition serialized_Close ::
  "('w, 'c) transport_env \<Rightarrow> config \<Rightarrow> 'c \<Rightarrow> (nat list \<Rightarrow> 'w client \<Rightarrow> 'w client) \<Rightarrow> goerr option \<Rightarrow> serialized_session option \<Rightarrow> 'w client
    \<Rightarrow> goerr option \<times> serialized_session option \<times> 'w client" where
  "serialized_Close env cfg ctx closing idled x c =
     (case x of None \<Rightarrow> (None, x, c)
      | Some s \<Rightarrow>
          (case serialized_closeLocal closing s c of (s1, c1) \<Rightarrow>
             (case idled of Some err \<Rightarrow> (Some err, Some s1, c1) | None \<Rightarrow>
              if \<not> ssClient s1 then (Some no_client, Some s1, c1)
              else if ssCloseComplete s1 then (None, Some s1, c1)
              else (case CloseSession env cfg ctx (ssHandle s1) c1 of
                 (err, c2) \<Rightarrow> (err, Some (if err = None then s1\<lparr>ssCloseComplete := True\<rparr> else s1), c2)))))"

lemma close_stream_closed [simp]: "agClosed (fold close_stream is g) = agClosed g"
  by (induction "is" arbitrary: g) (simp_all add: close_stream_def ag_end_def ag_unregisterStream_def Let_def)

lemma stop_group_closed: "agClosed (snd (stop_group g))"
  by (simp add: stop_group_def ag_stop_def)

definition serialized_ok :: "serialized_session \<Rightarrow> bool" where
  "serialized_ok s = ((ssLocal s \<longrightarrow> agClosed (ssActivity s)) \<and> (ssCloseComplete s \<longrightarrow> ssLocal s))"

lemma new_serialized_ok: "NewSerializedSession client handle = Some s \<Longrightarrow> serialized_ok s"
  by (auto simp: NewSerializedSession_def serialized_ok_def)

lemma closeLocal_ok:
  assumes "serialized_closeLocal closing s c = (s1, c1)" "serialized_ok s"
  shows "serialized_ok s1 \<and> ssLocal s1 \<and> agClosed (ssActivity s1) \<and> ssClient s1 = ssClient s \<and> ssHandle s1 = ssHandle s \<and>
    ssCloseComplete s1 = ssCloseComplete s"
  using assms stop_group_closed[of "ssActivity s"]
  by (auto simp: serialized_closeLocal_def serialized_ok_def split: if_splits prod.splits)

lemma closed_refuses:
  assumes "agClosed (ssActivity s)" "ssClient s" "validateSessionHandle (ssHandle s) = None"
  shows "serialized_Execute env cfg ctx statement options acquired (Some s) c = ((None, Some (Sentinel ErrSessionClosed)), Some s, c)"
    "serialized_Stream env cfg ctx stop statement options acquired (Some s) c = (Inl (Sentinel ErrSessionClosed), Some s, c)"
  using assms by (simp_all add: serialized_Execute_def serialized_Stream_def serializer_execute_def serializer_stream_def
      serializer_refuses_def ag_isClosed_def del: validateSessionHandle_None_iff)

lemma closed_again:
  "ssLocal s \<Longrightarrow> ssClient s \<Longrightarrow> ssCloseComplete s \<Longrightarrow> serialized_Close env cfg ctx closing None (Some s) c = (None, Some s, c)"
  by (simp add: serialized_Close_def serialized_closeLocal_def)

text \<open>What \<open>Close\<close> of a serialized session does: from then on its executions and streams are refused without a request; while an
  execution runs that cannot be waited for, no close request is sent; once the session is closed at the server it is
  forgotten there, and closing it again does nothing.\<close>

theorem serialized_session_closed:
  assumes "serialized_Close (logged env) cfg ctx closing idled (Some s) c = (err, x, c')" "serialized_ok s" "ssClient s"
    "validateSessionHandle (ssHandle s) = None"
  shows "\<exists>s1. x = Some s1 \<and> serialized_ok s1 \<and>
    serialized_Execute env' cfg' ctx' statement options acquired x c'' = ((None, Some (Sentinel ErrSessionClosed)), x, c'') \<and>
    serialized_Stream env' cfg' ctx' stop statement options acquired x c'' = (Inl (Sentinel ErrSessionClosed), x, c'') \<and>
    (idled \<noteq> None \<longrightarrow> err = idled \<and> c' = snd (serialized_closeLocal closing s c)) \<and>
    (err = None \<longrightarrow> ssCloseComplete s1 \<and> serialized_Close env' cfg' ctx' closing None x c'' = (None, x, c''))"
proof -
  obtain s1 c1 where l: "serialized_closeLocal closing s c = (s1, c1)" by fastforce
  note ok = closeLocal_ok[OF l assms(2)]
  have v: "validateSessionHandle (ssHandle s1) = None" and cl: "ssClient s1" using ok assms(3,4) by (simp_all del: validateSessionHandle_None_iff)
  note eq = assms(1)[unfolded serialized_Close_def option.case l prod.case]
  show ?thesis
  proof (cases idled)
    case (Some e)
    then have "err = Some e" "x = Some s1" "c' = c1" using eq by simp_all
    then show ?thesis using ok Some l by (simp add: closed_refuses[OF _ cl v])
  next
    case None
    show ?thesis
    proof (cases "ssCloseComplete s1")
      case True
      then have "err = None" "x = Some s1" "c' = c1" using eq None cl by simp_all
      then show ?thesis using ok None True cl by (simp add: closed_refuses[OF _ cl v] serialized_Close_def serialized_closeLocal_def)
    next
      case False
      obtain e c2 where k: "CloseSession (logged env) cfg ctx (ssHandle s1) c1 = (e, c2)" by fastforce
      show ?thesis
      proof (cases e)
        case n: None
        let ?s2 = "s1\<lparr>ssCloseComplete := True\<rparr>"
        have r: "err = None" "x = Some ?s2" using eq None cl False k n by auto
        have s2: "serialized_ok ?s2" "agClosed (ssActivity ?s2)" "ssClient ?s2" "validateSessionHandle (ssHandle ?s2) = None" "ssLocal ?s2" "ssCloseComplete ?s2"
          using ok v cl by (simp_all add: serialized_ok_def del: validateSessionHandle_None_iff)
        show ?thesis unfolding r using s2(1,6) None by (simp only: closed_refuses[OF s2(2-4)] closed_again[OF s2(5,3,6)]) simp
      next
        case (Some e1)
        then have r: "err = Some e1" "x = Some s1" using eq None cl False k by auto
        show ?thesis unfolding r using ok None by (simp add: closed_refuses[OF _ cl v])
      qed
    qed
  qed
qed

end
