(* ===== verification/Decoder_Round.thy ===== *)
theory Decoder_Round
  imports Decoder
begin

text \<open>
  Reading back the texts Flink writes: the default decoder inverts the wire form of every scalar value, with \<open>base64\<close> and
  the texts of times as reference encoders.
\<close>

section \<open>Base 64\<close>

definition b64_char :: "nat \<Rightarrow> char" where
  "b64_char n = chr (if n < 26 then n + 65 else if n < 52 then n + 71 else if n < 62 then n - 4 else if n = 62 then 43 else 47)"

fun base64_encode :: "string \<Rightarrow> string" where
  "base64_encode [] = []"
| "base64_encode [a] = [b64_char (byte a div 4), b64_char (byte a mod 4 * 16), b64_pad, b64_pad]"
| "base64_encode [a, b] = [b64_char (byte a div 4), b64_char (byte a mod 4 * 16 + byte b div 16), b64_char (byte b mod 16 * 4), b64_pad]"
| "base64_encode (a # b # c # rest) =
     b64_char (byte a div 4) # b64_char (byte a mod 4 * 16 + byte b div 16) # b64_char (byte b mod 16 * 4 + byte c div 64)
       # b64_char (byte c mod 64) # base64_encode rest"

lemma byte_b64_char: "n < 64 \<Longrightarrow> byte (b64_char n) = (if n < 26 then n + 65 else if n < 52 then n + 71 else if n < 62 then n - 4 else if n = 62 then 43 else 47)"
  by (simp add: b64_char_def)

lemma b64_value_char [simp]: "n < 64 \<Longrightarrow> b64_value (b64_char n) = Some n"
  by (auto simp: b64_value_def byte_b64_char Let_def)

lemma b64_char_plain: "n < 64 \<Longrightarrow> b64_char n \<noteq> b64_pad \<and> 43 \<le> byte (b64_char n) \<and> byte (b64_char n) < 0x80"
  using byte_b64_char[of n] by (auto simp: byte_def split: if_splits)

lemma byte_parts [simp]: "byte c div 4 < 64" "byte c div 16 < 16" "byte c div 64 < 4"
  by (simp_all add: less_mult_imp_div_less)

lemma b64_indices [simp]: "byte a mod 4 * 16 < 64" "byte a mod 4 * 16 + byte b div 16 < 64" "byte b mod 16 * 4 < 64"
    "byte b mod 16 * 4 + byte c div 64 < 64"
proof -
  have "byte a mod 4 < 4" "byte b mod 16 < 16" by simp_all
  then show "byte a mod 4 * 16 < 64" "byte a mod 4 * 16 + byte b div 16 < 64" "byte b mod 16 * 4 < 64" "byte b mod 16 * 4 + byte c div 64 < 64"
    using byte_parts(2)[of b] byte_parts(3)[of c] by linarith+
qed

lemma b64_bytes_encode:
  "b64_bytes (byte a div 4) (byte a mod 4 * 16 + byte b div 16) (byte b mod 16 * 4 + byte c div 64) (byte c mod 64) = [a, b, c]"
proof -
  have m: "(x * 16 + y) mod 16 = y mod 16" "(x * 4 + y) mod 4 = y mod 4" for x y :: nat by simp_all
  have a: "byte a div 4 * 4 + (byte a mod 4 * 16 + byte b div 16) div 16 = byte a" by (simp add: div_add1_eq)
  have b: "(byte a mod 4 * 16 + byte b div 16) mod 16 * 16 + (byte b mod 16 * 4 + byte c div 64) div 4 = byte b"
    by (simp add: m div_add1_eq)
  have c: "(byte b mod 16 * 4 + byte c div 64) mod 4 * 64 + byte c mod 64 = byte c" by (simp add: m)
  show ?thesis unfolding b64_bytes_def a b c by (simp add: chr_def byte_def)
qed

lemma b64_quanta_encode: "b64_quanta (base64_encode s) = Some s"
proof (induction s rule: base64_encode.induct)
  case (2 a)
  then show ?case using b64_bytes_encode[of a "chr 0" "chr 0"] by (simp add: b64_char_plain)
next
  case (3 a b)
  then show ?case using b64_bytes_encode[of a b "chr 0"] by (simp add: b64_char_plain)
next
  case (4 a b c rest)
  then show ?case using b64_bytes_encode[of a b c] by (simp add: b64_char_plain)
qed simp

lemma base64_encode_chars: "list_all (\<lambda>d. 43 \<le> byte d \<and> byte d < 0x80) (base64_encode s)"
  by (induction s rule: base64_encode.induct) (simp_all add: b64_char_plain, simp_all add: byte_def)

lemma no_newline: "43 \<le> byte d \<Longrightarrow> d \<noteq> chr 10 \<and> d \<noteq> chr 13"
  by (auto simp del: byte_chr) simp_all

lemma base64_decode_encode: "base64_decode (base64_encode s) = Some s"
proof -
  have "filter (\<lambda>c. c \<noteq> chr 10 \<and> c \<noteq> chr 13) (base64_encode s) = base64_encode s"
    using base64_encode_chars[of s] no_newline by (auto simp: list_all_iff filter_id_conv)
  then show ?thesis by (simp add: base64_decode_def b64_quanta_encode)
qed

section \<open>The texts of values are not trimmed\<close>

lemma valid_escape_rune:
  assumes "step_ok rb"
  shows "valid_utf8 (escape_rune rb)"
proof -
  have rb: "valid_utf8 (snd rb)" using valid_utf8_concat[of "[rb]"] assms by simp
  have inv: "\<not> invalid_step rb" using assms by (simp add: step_ok_def)
  have hex: "byte (hex_lower n) < 0x80" if "n < 16" for n using that by (simp add: hex_lower_def)
  have b: "byte bslash < 0x80" "byte (CHR ''u'') < 0x80" "byte (CHR ''0'') < 0x80" "byte (CHR ''2'') < 0x80" by (simp_all add: byte_def)
  have c: "valid_utf8 ''b''" "valid_utf8 ''f''" "valid_utf8 ''n''" "valid_utf8 ''r''" "valid_utf8 ''t''" by (simp_all add: byte_def)
  show ?thesis using rb inv b c hex[of "fst rb div 16"] hex[of "fst rb mod 16"]
    by (auto simp: escape_rune_def Let_def less_mult_imp_div_less)
qed

lemma valid_escape_str: "valid_utf8 s \<Longrightarrow> valid_utf8 (escape_str s)"
proof -
  assume "valid_utf8 s"
  then have "list_all step_ok (runes s)" by (rule valid_utf8_steps)
  then have "valid_utf8 (concat (map escape_rune rs))" if "rs = runes s" for rs
    unfolding that[symmetric] by (induction rs) (simp_all add: valid_escape_rune valid_utf8_append)
  then show ?thesis by (simp add: escape_str_def)
qed

lemma runes_append: "valid_utf8 s \<Longrightarrow> runes (s @ t) = runes s @ runes t"
  using runes_concat[OF valid_utf8_steps, of s t] by (simp add: concat_runes)

lemma trim_space_quoted: "valid_utf8 s \<Longrightarrow> trim_space (quot # s @ [quot]) = quot # s @ [quot]"
proof -
  assume s: "valid_utf8 s"
  have q: "byte quot = 34" by (simp add: byte_def)
  have "runes (quot # s @ [quot]) = (34, [quot]) # runes s @ [(34, [quot])]" using q s by (simp add: runes_append)
  then show ?thesis using concat_runes[of s] by (simp add: trim_space_def is_space_def)
qed

lemma trim_marshal_str: "valid_utf8 s \<Longrightarrow> trim_space (marshal (JStr s)) = marshal (JStr s)"
  by (simp add: trim_space_quoted valid_escape_str)

definition num_char :: "char \<Rightarrow> bool" where
  "num_char c = (is_digit c \<or> c \<in> set ''+-.eE'')"

lemma num_char_plain: "num_char c \<Longrightarrow> byte c < 0x80 \<and> \<not> is_space (byte c) \<and> c \<noteq> quot"
  by (auto simp: num_char_def is_digit_def is_space_def byte_def)

lemma takeWhile_num: "list_all num_char (takeWhile is_digit s)"
  by (auto simp: list_all_iff num_char_def dest: set_takeWhileD)

lemma parse_num_chars: "parse_num s = Some (t, r) \<Longrightarrow> list_all num_char t"
proof -
  have i: "list_all num_char i" if "parse_int s = Some (i, r)" for s i r
    using that takeWhile_num[of s] by (auto simp: parse_int_def num_char_def is_digit_def byte_def split: if_splits)
  have f: "list_all num_char f" if "parse_frac s = Some (f, r)" for s f r
    using that takeWhile_num[of "tl s"] by (auto simp: parse_frac_def num_char_def Let_def split: if_splits)
  have e: "list_all num_char e" if "parse_exp s = Some (e, r)" for s e r
    using that takeWhile_num by (auto simp: parse_exp_def num_char_def Let_def split: if_splits)
  show "parse_num s = Some (t, r) \<Longrightarrow> list_all num_char t"
    unfolding parse_num_def Let_def by (auto split: option.splits if_splits dest!: i f e simp: num_char_def[of "CHR ''-''"])
qed

lemma trim_num:
  assumes "num_ok s"
  shows "trim_space s = s" "s \<noteq> []" "hd s \<noteq> quot"
proof -
  have c: "list_all num_char s" using assms parse_num_chars by (simp add: num_ok_def)
  show ne: "s \<noteq> []" using num_ok_hd[OF assms] by blast
  have p: "num_char (hd s)" "num_char (last s)" using c ne by (auto simp: list_all_iff)
  show "hd s \<noteq> quot" using num_char_plain[OF p(1)] by blast
  show "trim_space s = s"
    by (rule trim_space_ascii_id) (use c p num_char_plain in \<open>auto simp: ascii_def list_all_iff\<close>)
qed

lemma show_nat_hd_zero: "hd (show_nat n) = CHR ''0'' \<Longrightarrow> show_nat n = ''0''"
proof (induction n rule: show_nat.induct)
  case (1 n)
  show ?case
  proof (cases "n < 10")
    case True
    then show ?thesis using 1(2) by (simp add: show_nat.simps[of n])
  next
    case False
    then have h: "hd (show_nat (n div 10)) = CHR ''0''" using 1(2) by (simp add: show_nat.simps[of n])
    then have "show_nat (n div 10) = ''0''" using 1(1) False by blast
    then have "n div 10 = 0" using read_show_nat[of "n div 10"] by (simp add: read_nat_def byte_def)
    then show ?thesis using False by simp
  qed
qed

lemma num_ok_show_nat: "num_ok (show_nat n)"
proof -
  obtain c cs where s: "show_nat n = c # cs" by (meson neq_Nil_conv show_nat_nonempty)
  have d: "is_digit c" by (rule show_nat_hd[OF s])
  have all: "\<forall>x \<in> set (show_nat n). is_digit x" using show_nat_digits[of n] by (simp add: list_all_iff)
  then have "takeWhile is_digit (show_nat n) = show_nat n" "dropWhile is_digit (show_nat n) = []" by simp_all
  moreover have "c \<noteq> CHR ''-''" using d by (auto simp: is_digit_def byte_def)
  ultimately show ?thesis using d s show_nat_hd_zero[of n]
    by (auto simp: num_ok_def parse_num_def parse_int_def parse_frac_def parse_exp_def)
qed

lemma num_ok_neg: "num_ok (show_nat n) \<Longrightarrow> num_ok (CHR ''-'' # show_nat n)"
proof -
  assume n: "num_ok (show_nat n)"
  obtain c cs where s: "show_nat n = c # cs" by (meson neq_Nil_conv show_nat_nonempty)
  have "c \<noteq> CHR ''-''" using show_nat_hd[OF s] by (auto simp: is_digit_def byte_def)
  then show ?thesis using n by (auto simp: s num_ok_def parse_num_def split: option.splits)
qed

lemma num_ok_itoa: "num_ok (itoa n)"
  by (simp add: itoa_def num_ok_show_nat num_ok_neg)

lemma atoi_itoa_int64: "int64 n \<Longrightarrow> atoi (itoa n) = Some n"
proof (cases "n < 0")
  case True
  assume "int64 n"
  then show ?thesis using True show_nat_digits[of "nat (- n)"] by (simp add: atoi_def itoa_def)
qed (simp add: itoa_def atoi_show_nat)

section \<open>The wire form\<close>

definition show_timestamp :: "char \<Rightarrow> go_time \<Rightarrow> string" where
  "show_timestamp c t = show_date t @ [c] @ show_clock t"

text \<open>The JSON value Flink writes for a scalar.\<close>

definition wire :: "'f decoded \<Rightarrow> json" where
  "wire v =
     (case v of
        VBool b \<Rightarrow> JBool b
      | VInt64 n \<Rightarrow> JNum (itoa n)
      | VDecimal s \<Rightarrow> JNum s
      | VString s \<Rightarrow> JStr s
      | VLocalDate t s \<Rightarrow> JStr s
      | VLocalTime t s \<Rightarrow> JStr s
      | VLocalTimestamp t s \<Rightarrow> JStr s
      | VTimestampLTZ t s \<Rightarrow> JStr s
      | VBytes b \<Rightarrow> JStr (base64_encode b)
      | _ \<Rightarrow> JNull)"

text \<open>The scalars with a wire form of their own: the text of a time is one of its texts.\<close>

definition canonical :: "'f decoded \<Rightarrow> bool" where
  "canonical v =
     (case v of
        VBool b \<Rightarrow> True
      | VInt64 n \<Rightarrow> True
      | VDecimal s \<Rightarrow> num_ok s
      | VString s \<Rightarrow> valid_utf8 s
      | VLocalDate t s \<Rightarrow> s = show_date t
      | VLocalTime t s \<Rightarrow> s = show_clock t
      | VLocalTimestamp t s \<Rightarrow> s = show_timestamp (CHR '' '') t \<or> s = show_timestamp (CHR ''T'') t
      | VTimestampLTZ t s \<Rightarrow> tOffset t = 0 \<and> s = show_timestamp (CHR ''T'') t @ ''Z''
      | VBytes b \<Rightarrow> True
      | _ \<Rightarrow> False)"

lemma ascii_pad [simp]: "n < 100 \<Longrightarrow> ascii (pad2 n)" "m < 10000 \<Longrightarrow> ascii (pad4 m)" "k < 10 ^ 9 \<Longrightarrow> ascii (pad9 k)"
  using pad2_digits[of n] pad4_digits[of m] pad9_digits[of k] by (auto simp: ascii_def list_all_iff is_digit_def)

lemma ascii_append [simp]: "ascii (a @ b) = (ascii a \<and> ascii b)" "ascii (c # b) = (byte c < 0x80 \<and> ascii b)" "ascii []"
  by (auto simp: ascii_def)

lemma valid_utf8_of_ascii: "ascii s \<Longrightarrow> valid_utf8 s"
  by (induction s) auto

lemma time_bounds: "time_ok t \<Longrightarrow> tDay t < 100 \<and> tMonth t < 100 \<and> tHour t < 100 \<and> tMin t < 100 \<and> tSec t < 100"
  using daysIn_31[of "tMonth t" "tYear t"] by (auto simp: time_ok_def)

lemma ascii_times: "time_ok t \<Longrightarrow> ascii (show_date t)" "time_ok t \<Longrightarrow> ascii (show_clock t)"
  using time_bounds[of t] by (simp_all add: show_date_def show_clock_def time_ok_def, simp_all add: byte_def)

lemma parse_show_date:
  assumes "local_time t" "no_clock t"
  shows "time_Parse date_layout (show_date t) = Some t"
proof -
  have d: "tDay t < 100" "tYear t < 10000" "tMonth t < 100" "1 \<le> tMonth t" "tMonth t \<le> 12"
    using assms(1) time_bounds[of t] by (simp_all add: time_ok_def local_time_def)
  have "getnum True (pad2 (tDay t)) = Some (tDay t, [])" using getnum_pad2[OF d(1), of True "[]"] by simp
  then have "run_layout date_layout (show_date t) unparsed = Some t"
    using d assms by (cases t) (simp add: show_date_def unparsed_def local_time_def no_clock_def)
  then show ?thesis using assms(1) by (simp add: time_Parse_def time_ok_def local_time_def)
qed

lemma frac_texts:
  assumes "time_ok t" "r = [] \<or> hd r = CHR ''Z''"
  shows "get_fraction (CHR ''.'' # pad9 (tNsec t) @ r) = (tNsec t, r)" "has_fraction (CHR ''.'' # pad9 (tNsec t) @ r)"
proof -
  have n: "tNsec t < 10 ^ 9" "r = [] \<or> \<not> is_digit (hd r)" using assms by (auto simp: time_ok_def is_digit_def byte_def)
  show "get_fraction (CHR ''.'' # pad9 (tNsec t) @ r) = (tNsec t, r)" by (rule get_fraction_pad9[OF n])
  show "has_fraction (CHR ''.'' # pad9 (tNsec t) @ r)" by (rule has_fraction_pad9[OF n(1)])
qed

lemma run_clock:
  assumes "time_ok t" "r = [] \<or> hd r = CHR ''Z''"
  shows "run_layout (clock_layout @ Fraction # cs) (show_clock t @ r) u =
    run_layout cs r (u\<lparr>tHour := tHour t, tMin := tMin t, tSec := tSec t, tNsec := tNsec t\<rparr>)"
proof -
  have "tHour t < 100" "tMin t < 100" "tSec t < 100" "tHour t \<le> 23" "tMin t \<le> 59" "tSec t \<le> 59" using assms(1) by (auto simp: time_ok_def)
  then show ?thesis using frac_texts[OF assms] by (simp add: show_clock_def step_chunk_def next_is_fraction_def)
qed

lemma run_date:
  assumes "time_ok t" "c = CHR '' '' \<or> c = CHR ''T''"
  shows "run_layout (stamp_layout c @ Fraction # cs) (show_date t @ c # show_clock t @ r) u =
    run_layout (clock_layout @ Fraction # cs) (show_clock t @ r) (u\<lparr>tYear := tYear t, tMonth := tMonth t, tDay := tDay t\<rparr>)"
proof -
  have "tDay t < 100" "tYear t < 10000" "tMonth t < 100" "1 \<le> tMonth t" "tMonth t \<le> 12" "tHour t < 100"
    using assms(1) time_bounds[of t] by (simp_all add: time_ok_def)
  then show ?thesis using assms(2) by (auto simp: show_date_def show_clock_def simp del: run_layout.simps(1))
qed

lemma run_date_other:
  assumes "time_ok t"
  shows "run_layout (stamp_layout (CHR '' '') @ cs) (show_date t @ CHR ''T'' # r) u = None"
proof -
  have "tDay t < 100" "tYear t < 10000" "tMonth t < 100" "1 \<le> tMonth t" "tMonth t \<le> 12"
    using assms time_bounds[of t] by (simp_all add: time_ok_def)
  then show ?thesis by (simp add: show_date_def skip_lit_def)
qed

lemma parse_show_clock:
  assumes "local_time t" "no_date t"
  shows "parseLocalTime (show_clock t) = Inr t"
proof -
  have "run_layout (clock_layout @ [Fraction]) (show_clock t) unparsed = Some t"
    using run_clock[of t "[]" "[]" unparsed] assms by (cases t) (simp add: local_time_def no_date_def unparsed_def)
  then show ?thesis using assms by (simp add: parseLocalTime_def time_Parse_def time_ok_def local_time_def)
qed

lemma time_Parse_show:
  assumes "time_ok t" "c = CHR '' '' \<or> c = CHR ''T''" "tOffset t = 0"
  shows "time_Parse (stamp_layout c @ [Fraction]) (show_timestamp c t) = Some t"
    "time_Parse (stamp_layout c @ [Fraction, Zone]) (show_timestamp c t @ ''Z'') = Some t"
proof -
  have "run_layout (stamp_layout c @ [Fraction]) (show_timestamp c t) unparsed = Some t"
    unfolding show_timestamp_def using run_date[OF assms(1,2), of "[]" "[]" unparsed] run_clock[of t "[]" "[]"] assms(1,3)
    by (cases t) (simp add: unparsed_def del: run_layout.simps append.simps, simp)
  moreover have "run_layout (stamp_layout c @ [Fraction, Zone]) (show_timestamp c t @ ''Z'') unparsed = Some t"
    unfolding show_timestamp_def using run_date[OF assms(1,2), of "[Zone]" "''Z''" unparsed] run_clock[of t "''Z''" "[Zone]"] assms(1,3)
    by (cases t) (simp add: unparsed_def del: run_layout.simps append.simps, simp add: step_chunk_def get_zone_def)
  ultimately show "time_Parse (stamp_layout c @ [Fraction]) (show_timestamp c t) = Some t"
    "time_Parse (stamp_layout c @ [Fraction, Zone]) (show_timestamp c t @ ''Z'') = Some t"
    using assms(1) by (simp_all add: time_Parse_def time_ok_def)
qed

lemma parse_show_timestamp:
  assumes "local_time t" "c = CHR '' '' \<or> c = CHR ''T''"
  shows "parseLocalTimestamp (show_timestamp c t) = Inr t"
proof (cases "c = CHR '' ''")
  case True
  then show ?thesis using time_Parse_show(1)[of t c] assms by (simp add: parseLocalTimestamp_def local_time_def del: append.simps)
next
  case False
  then have c: "c = CHR ''T''" using assms(2) by blast
  have "time_Parse (stamp_layout (CHR '' '') @ cs) (show_timestamp (CHR ''T'') t) = None" for cs
    using run_date_other[of t cs "show_clock t" unparsed] assms(1) by (simp add: time_Parse_def show_timestamp_def local_time_def del: append.simps) simp
  from this[of "[Fraction]"] this[of "[]"] show ?thesis
    using time_Parse_show(1)[of t c] assms c by (simp add: parseLocalTimestamp_def local_time_def)
qed

lemma parse_show_ltz:
  assumes "time_ok t" "tOffset t = 0"
  shows "parseTimestampLTZ (show_timestamp (CHR ''T'') t @ ''Z'') = Inr t"
  using time_Parse_show(2)[OF assms(1) _ assms(2), of "CHR ''T''"] by (simp add: parseTimestampLTZ_def del: append.simps)

section \<open>Reading a wire form\<close>

lemma parse_json_marshal: "json_ok maxNestingDepth v \<Longrightarrow> parse_json (marshal v) = Some v"
  by (simp add: parse_json_def parse_first_marshal skip_ws_def)

lemma quotedText_str: "valid_utf8 s \<Longrightarrow> quotedText (marshal (JStr s)) = Inr s"
  by (simp add: quotedText_def parse_json_marshal[of "JStr s", simplified])

lemma wire_ok:
  assumes "canonical v" "scalar_ok tn v"
  shows "json_ok maxNestingDepth (wire v)" "trim_space (marshal (wire v)) = marshal (wire v)" "marshal (wire v) \<noteq> []" "marshal (wire v) \<noteq> ''null''"
proof -
  have stamp: "valid_utf8 (show_timestamp (CHR '' '') t)" "valid_utf8 (show_timestamp (CHR ''T'') t)" "valid_utf8 (show_timestamp (CHR ''T'') t @ ''Z'')"
    "valid_utf8 (show_date t)" "valid_utf8 (show_clock t)" if "time_ok t" for t
    using ascii_times[OF that] by (auto simp: show_timestamp_def intro!: valid_utf8_of_ascii) (auto simp: byte_def)
  have b64: "valid_utf8 (base64_encode b)" for b
    using base64_encode_chars[of b] by (intro valid_utf8_of_ascii) (auto simp: ascii_def list_all_iff)
  have texts: "valid_utf8 s" if "wire v = JStr s" for s
    using assms that stamp b64 by (cases v) (auto simp: wire_def canonical_def scalar_ok_def local_time_def)
  have nums: "num_ok s" if "wire v = JNum s" for s
    using assms that num_ok_itoa by (cases v) (auto simp: wire_def canonical_def)
  have shape: "wire v \<noteq> JNull \<and> (\<forall>xs. wire v \<noteq> JArr xs) \<and> (\<forall>kvs. wire v \<noteq> JObj kvs)"
    using assms by (cases v) (auto simp: wire_def canonical_def)
  then show "json_ok maxNestingDepth (wire v)" using texts nums by (cases "wire v") auto
  have "ascii (marshal (JBool b))" for b by (simp add: ascii_def byte_def)
  then have "trim_space (marshal (JBool b)) = marshal (JBool b)" for b by (intro trim_space_ascii_id) (simp_all add: byte_def is_space_def)
  then show "trim_space (marshal (wire v)) = marshal (wire v)"
    using shape texts nums trim_marshal_str trim_num by (cases "wire v") auto
  have "s \<noteq> [] \<and> s \<noteq> ''null''" if "num_ok s" for s
    using num_ok_hd[OF that] by (auto simp: is_digit_def byte_def)
  then show "marshal (wire v) \<noteq> []" "marshal (wire v) \<noteq> ''null''" using shape nums by (cases "wire v"; simp)+
qed

text \<open>The text after the checks, decoded by the case of its type.\<close>

lemma to_lower_bool: "to_lower ''true'' = ''true''" "to_lower ''false'' = ''false''"
  by (rule to_lower_ascii_id; simp add: byte_def)+

lemma decode_scalar_cases:
  "tn \<in> {''CHAR'', ''VARCHAR'', ''STRING''} \<Longrightarrow> decode_scalar env tn raw = Some (map_sum id VString (quotedText raw))"
  "tn \<in> {''DATE''} \<Longrightarrow> decode_scalar env tn raw = Some (with_text VLocalDate (\<lambda>s. of_option ''time.Parse'' s (time_Parse date_layout s)) raw)"
  "tn \<in> {''TIME'', ''TIME_WITHOUT_TIME_ZONE''} \<Longrightarrow> decode_scalar env tn raw = Some (with_text VLocalTime parseLocalTime raw)"
  "tn \<in> {''TIMESTAMP'', ''TIMESTAMP_WITHOUT_TIME_ZONE''} \<Longrightarrow> decode_scalar env tn raw = Some (with_text VLocalTimestamp parseLocalTimestamp raw)"
  "tn \<in> {''TIMESTAMP_LTZ'', ''TIMESTAMP_WITH_LOCAL_TIME_ZONE''} \<Longrightarrow> decode_scalar env tn raw = Some (with_text VTimestampLTZ parseTimestampLTZ raw)"
  "tn \<in> {''BINARY'', ''VARBINARY'', ''BYTES''} \<Longrightarrow> decode_scalar env tn raw =
    Some (and_then (quotedText raw) (\<lambda>s. map_sum id VBytes (of_option ''base64.DecodeString'' s (base64_decode s))))"
  by (elim insertE emptyE; simp only: decode_scalar_def; simp)+

lemma decode_scalar_wire:
  assumes v: "canonical v" and ok: "scalar_ok tn v"
  shows "decode_scalar env tn (marshal (wire v)) = Some (Inr v)"
proof -
  have json: "json_ok maxNestingDepth (wire v)" by (rule wire_ok(1)[OF assms])
  have q: "quotedText (marshal (JStr s)) = Inr s" if "wire v = JStr s" for s using json that by (intro quotedText_str) simp
  have n: "scalarText s = Inr s" if "wire v = JNum s" for s using json that trim_num(3)[of s] by (simp add: scalarText_def)
  have timed: "decode_scalar env tn (marshal (JStr s)) = Some (Inr v)"
    if "wire v = JStr s" "decode_scalar env tn (marshal (JStr s)) = Some (with_text con parse (marshal (JStr s)))" "parse s = Inr t" "v = con t s" for s con parse t
    using that q[OF that(1)] by (simp add: with_text_def del: marshal.simps)
  show ?thesis
  proof (cases v)
    case (VBool b)
    then show ?thesis using ok by (cases b) (simp_all add: wire_def scalar_ok_def decode_scalar_def scalarText_def to_lower_bool parse_bool_def of_option_def)
  next
    case (VInt64 i)
    then have t: "tn \<in> {''TINYINT'', ''SMALLINT'', ''INTEGER'', ''INT'', ''BIGINT''}" "int64 i" using ok by (simp_all add: scalar_ok_def)
    have "scalarText (itoa i) = Inr (itoa i)" using n by (simp add: VInt64 wire_def)
    then show ?thesis using t by (auto simp: VInt64 wire_def decode_scalar_def of_option_def atoi_itoa_int64)
  next
    case (VDecimal s)
    then have "validJSONNumber s" using v parse_json_marshal[of "JNum s"] by (simp add: canonical_def validJSONNumber_def)
    then show ?thesis using n ok by (simp add: VDecimal wire_def scalar_ok_def decode_scalar_def)
  next
    case (VString s)
    then have w: "wire v = JStr s" by (simp add: wire_def)
    then show ?thesis using q[OF w] ok by (simp add: w VString scalar_ok_def decode_scalar_cases(1) del: marshal.simps)
  next
    case (VLocalDate t s)
    then have w: "wire v = JStr s" by (simp add: wire_def)
    show ?thesis unfolding w using VLocalDate v ok
      by (intro timed[OF w decode_scalar_cases(2) _ VLocalDate]) (simp_all add: canonical_def scalar_ok_def of_option_def parse_show_date)
  next
    case (VLocalTime t s)
    then have w: "wire v = JStr s" by (simp add: wire_def)
    show ?thesis unfolding w using VLocalTime v ok
      by (intro timed[OF w decode_scalar_cases(3) _ VLocalTime]) (simp_all add: canonical_def scalar_ok_def parse_show_clock)
  next
    case (VLocalTimestamp t s)
    then have w: "wire v = JStr s" by (simp add: wire_def)
    have "parseLocalTimestamp s = Inr t" using VLocalTimestamp v ok parse_show_timestamp by (auto simp: canonical_def scalar_ok_def)
    then show ?thesis unfolding w using VLocalTimestamp ok
      by (intro timed[OF w decode_scalar_cases(4) _ VLocalTimestamp]) (simp_all add: scalar_ok_def)
  next
    case (VTimestampLTZ t s)
    then have w: "wire v = JStr s" by (simp add: wire_def)
    show ?thesis unfolding w using VTimestampLTZ v ok
      by (intro timed[OF w decode_scalar_cases(5) _ VTimestampLTZ]) (simp_all add: canonical_def scalar_ok_def parse_show_ltz)
  next
    case (VBytes b)
    then have w: "wire v = JStr (base64_encode b)" by (simp add: wire_def)
    then show ?thesis using q[OF w] ok
      by (simp add: w VBytes scalar_ok_def decode_scalar_cases(6) of_option_def base64_decode_encode del: marshal.simps)
  qed (use v in \<open>simp_all add: canonical_def\<close>)
qed


text \<open>A ROW of a number and a date, written as an array.\<close>

definition example_type :: "string \<Rightarrow> logical_type_field list \<Rightarrow> logical_type" where
  "example_type n fs = LogicalType n True None None None None [] None None None fs []"

definition example_row_type :: logical_type where
  "example_row_type = example_type ''ROW''
     [LogicalTypeField ''n'' (Some (example_type ''INT'' [])) None [], LogicalTypeField ''d'' None (Some (example_type ''DATE'' [])) []]"

definition example_env :: "string decoder_env" where
  "example_env = \<lparr>parse_float = Some, range_fields = id\<rparr>"

definition example_day :: go_time where
  "example_day = unparsed\<lparr>tYear := 2024, tMonth := 2, tDay := 29\<rparr>"

lemma to_upper_ascii_id:
  assumes "ascii s" "\<forall>c \<in> set s. \<not> (97 \<le> byte c \<and> byte c \<le> 122)"
  shows "to_upper s = s"
proof -
  have "map (\<lambda>rb. encode_rune (upper_rune (fst rb))) (runes s) = map (\<lambda>c. [c]) s"
    using assms by (auto simp: runes_of_ascii upper_rune_def encode_rune_def ascii_def list_all_iff)
  then show ?thesis by (simp add: to_upper_def map_runes_def)
qed

lemma example_names: "type_name (example_type ''INT'' fs) = ''INT''" "type_name (example_type ''DATE'' fs) = ''DATE''" "type_name (example_type ''ROW'' fs) = ''ROW''"
proof -
  have t: "trim_space s = s" if "s \<in> {''INT'', ''DATE'', ''ROW''}" for s
    using that by (intro trim_space_ascii_id) (auto simp: byte_def is_space_def)
  show "type_name (example_type ''INT'' fs) = ''INT''" "type_name (example_type ''DATE'' fs) = ''DATE''" "type_name (example_type ''ROW'' fs) = ''ROW''"
    by (simp_all add: type_name_def example_type_def t to_upper_ascii_id ascii_def byte_def)
qed

lemma example_elements: "parse_json ''[7,\"2024-02-29\"]'' = Some (JArr [JNum ''7'', JStr ''2024-02-29''])"
  using parse_json_marshal[of "JArr [JNum ''7'', JStr ''2024-02-29'']"]
  by (simp add: num_ok_def parse_num_def parse_int_def parse_frac_def parse_exp_def is_digit_def byte_def maxNestingDepth_def
      escape_str_def escape_rune_def invalid_step_def rune_error_def)

lemma example_raw: "raw_elements ''[7,\"2024-02-29\"]'' = Some [''7'', ''\"2024-02-29\"'']"
proof -
  have n: "parse_scalar ''7,\"2024-02-29\"]'' = Some (JNum ''7'', '',\"2024-02-29\"]'')"
    using parse_scalar_num[of "''7''" "'',\"2024-02-29\"]''"] by (simp add: sep_def num_ok_def parse_num_def parse_int_def parse_frac_def parse_exp_def is_digit_def byte_def)
  have s: "parse_scalar ''\"2024-02-29\"]'' = Some (JStr ''2024-02-29'', '']'')"
    using parse_str_escape[of "''2024-02-29''" "'']''"]
    by (simp add: parse_scalar_def byte_def escape_str_def escape_rune_def invalid_step_def rune_error_def)
  show ?thesis by (simp add: raw_elements_def parse_raw_def example_elements n s skip_ws_def json_ws_def byte_def text_between_def Let_def)
qed

lemma Decode_row:
  assumes "validateRawJSONField (trim_space raw) = None" "trim_space raw \<noteq> ''null''" "type_name ty = ''ROW''"
  shows "Decode env name ty raw = decodeNestedRow (\<lambda>n t x. Decode env n t x) name ty (trim_space raw)"
  by (subst Decode.simps) (use assms decode_scalar_None[of env "''ROW''"] in \<open>simp add: Let_def scalar_types_def\<close>)

lemma example_parts:
  "Decode example_env n (example_type ''INT'' []) ''7'' = Inr (VInt64 7)"
  "Decode example_env n (example_type ''DATE'' []) ''\"2024-02-29\"'' = Inr (VLocalDate example_day ''2024-02-29'')"
proof -
  have w: "Decode example_env n ty (marshal (wire v)) = Inr v" if "canonical v" "scalar_ok (type_name ty) v" for ty v
    using wire_ok[OF that] parse_json_marshal Decode_scalar[of "marshal (wire v)" example_env ty _ n] decode_scalar_wire[OF that]
    by (simp add: validateRawJSONField_None json_valid_def)
  show "Decode example_env n (example_type ''INT'' []) ''7'' = Inr (VInt64 7)"
    using w[of "VInt64 7" "example_type ''INT'' []"] chr_byte[of "CHR ''7''"]
    by (simp add: canonical_def scalar_ok_def example_names wire_def itoa_def show_nat.simps digit_def byte_def)
  have t: "show_date example_day = ''2024-02-29''" using chr_byte[of "CHR ''2''"] chr_byte[of "CHR ''0''"] chr_byte[of "CHR ''4''"] chr_byte[of "CHR ''9''"]
    by (simp add: show_date_def example_day_def unparsed_def pad4_def pad2_def digit_def byte_def)
  have "local_time example_day \<and> no_clock example_day"
    by (simp add: local_time_def no_clock_def time_ok_def example_day_def unparsed_def daysIn_def isLeap_def)
  then show "Decode example_env n (example_type ''DATE'' []) ''\"2024-02-29\"'' = Inr (VLocalDate example_day ''2024-02-29'')"
    using w[of "VLocalDate example_day ''2024-02-29''" "example_type ''DATE'' []"]
    by (simp add: canonical_def scalar_ok_def example_names wire_def t escape_str_def escape_rune_def invalid_step_def rune_error_def byte_def)
qed

lemma example_decoded:
  "Decode example_env ''r'' example_row_type ''[7,\"2024-02-29\"]'' = Inr (VList [VInt64 7, VLocalDate example_day ''2024-02-29''])"
proof -
  let ?s = "''[7,\"2024-02-29\"]''"
  have t: "trim_space ?s = ?s" by (rule trim_space_ascii_id) (simp_all add: ascii_def byte_def is_space_def)
  have v: "validateRawJSONField (trim_space ?s) = None" by (simp only: t validateRawJSONField_None json_valid_def example_elements) simp
  have "Decode example_env ''r'' example_row_type ?s = map_sum id VList (map_result (row_element (Decode example_env))
      (zip [''7'', ''\"2024-02-29\"''] (map Some (ltFields example_row_type) @ [None, None])))"
    using Decode_row[OF v, of example_row_type example_env "''r''"] by (simp add: t example_row_type_def example_names decodeNestedRow_def example_raw)
  also have "ltFields example_row_type = [LogicalTypeField ''n'' (Some (example_type ''INT'' [])) None [],
      LogicalTypeField ''d'' None (Some (example_type ''DATE'' [])) []]"
    by (simp add: example_row_type_def example_type_def)
  finally show ?thesis by (simp add: row_element_def field_type_def example_parts)
qed

lemma decode_conforms_witness: "conforms example_row_type (VList [VInt64 7, VLocalDate example_day ''2024-02-29''] :: string decoded)"
  using decode_conforms[OF example_decoded] .


end
