(* ===== verification/Job_Types.thy ===== *)
theory Job_Types
  imports Page_Decoding
begin

text \<open>
  \<open>flinkrest/types.go\<close>: the answers of the JobManager REST API and their \<open>UnmarshalJSON\<close>, which decode the known fields
  into a fresh value and keep the whole text.
\<close>

section \<open>Fields\<close>

text \<open>\<open>int64\<close>, \<open>json.RawMessage\<close> (also for \<open>null\<close>) and \<open>map[string]int64\<close>, into which every object is merged.\<close>

fun put_int64 :: "rjson \<Rightarrow> int \<Rightarrow> int option" where
  "put_int64 (RScalar raw (JNum s)) old = atoi s"
| "put_int64 (RScalar raw JNull) old = Some old"
| "put_int64 _ old = None"

fun put_int_members :: "(string \<times> rjson) list \<Rightarrow> (string \<times> int) list \<Rightarrow> (string \<times> int) list option" where
  "put_int_members [] m = Some m"
| "put_int_members ((k, x) # kvs) m = (case put_int64 x 0 of None \<Rightarrow> None | Some n \<Rightarrow> put_int_members kvs (AList.update k n m))"

fun put_int_map :: "rjson \<Rightarrow> (string \<times> int) list \<Rightarrow> (string \<times> int) list option" where
  "put_int_map (RObj raw kvs) old = put_int_members kvs old"
| "put_int_map (RScalar raw JNull) old = Some []"
| "put_int_map _ old = None"

section \<open>Jobs\<close>

record job =
  jbID :: string
  jbName :: string
  jbState :: string
  jbStartTime :: int
  jbEndTime :: int
  jbDuration :: int
  jbNow :: int
  jbTimestamps :: "(string \<times> int) list"
  jbRaw :: string

definition no_job :: job where
  "no_job = \<lparr>jbID = [], jbName = [], jbState = [], jbStartTime = 0, jbEndTime = 0, jbDuration = 0, jbNow = 0, jbTimestamps = [], jbRaw = []\<rparr>"

definition put_job :: "string \<Rightarrow> rjson \<Rightarrow> job \<Rightarrow> job option" where
  "put_job k x j =
     (if equal_fold k ''jid'' then map_option (\<lambda>s. j\<lparr>jbID := s\<rparr>) (put_string x (jbID j))
      else if equal_fold k ''name'' then map_option (\<lambda>s. j\<lparr>jbName := s\<rparr>) (put_string x (jbName j))
      else if equal_fold k ''state'' then map_option (\<lambda>s. j\<lparr>jbState := s\<rparr>) (put_string x (jbState j))
      else if equal_fold k ''start-time'' then map_option (\<lambda>n. j\<lparr>jbStartTime := n\<rparr>) (put_int64 x (jbStartTime j))
      else if equal_fold k ''end-time'' then map_option (\<lambda>n. j\<lparr>jbEndTime := n\<rparr>) (put_int64 x (jbEndTime j))
      else if equal_fold k ''duration'' then map_option (\<lambda>n. j\<lparr>jbDuration := n\<rparr>) (put_int64 x (jbDuration j))
      else if equal_fold k ''now'' then map_option (\<lambda>n. j\<lparr>jbNow := n\<rparr>) (put_int64 x (jbNow j))
      else if equal_fold k ''timestamps'' then map_option (\<lambda>m. j\<lparr>jbTimestamps := m\<rparr>) (put_int_map x (jbTimestamps j))
      else Some j)"

definition UnmarshalJob :: "rjson \<Rightarrow> job option" where
  "UnmarshalJob x = map_option (\<lambda>j. j\<lparr>jbRaw := raw_text x\<rparr>) (put_struct put_job x no_job)"

record trigger_response =
  trRequestID :: string
  trRaw :: string

definition put_trigger :: "string \<Rightarrow> rjson \<Rightarrow> trigger_response \<Rightarrow> trigger_response option" where
  "put_trigger k x r = (if equal_fold k ''request-id'' then map_option (\<lambda>s. r\<lparr>trRequestID := s\<rparr>) (put_string x (trRequestID r)) else Some r)"

definition UnmarshalTriggerResponse :: "rjson \<Rightarrow> trigger_response option" where
  "UnmarshalTriggerResponse x = map_option (\<lambda>r. r\<lparr>trRaw := raw_text x\<rparr>) (put_struct put_trigger x \<lparr>trRequestID = [], trRaw = []\<rparr>)"

record job_exceptions =
  jeRootException :: string
  jeTimestamp :: int
  jeTruncated :: bool
  jeExceptionHistory :: string
  jeRaw :: string

definition put_exceptions :: "string \<Rightarrow> rjson \<Rightarrow> job_exceptions \<Rightarrow> job_exceptions option" where
  "put_exceptions k x e =
     (if equal_fold k ''root-exception'' then map_option (\<lambda>s. e\<lparr>jeRootException := s\<rparr>) (put_string x (jeRootException e))
      else if equal_fold k ''timestamp'' then map_option (\<lambda>n. e\<lparr>jeTimestamp := n\<rparr>) (put_int64 x (jeTimestamp e))
      else if equal_fold k ''truncated'' then map_option (\<lambda>b. e\<lparr>jeTruncated := b\<rparr>) (put_bool x (jeTruncated e))
      else if equal_fold k ''exceptionHistory'' then Some (e\<lparr>jeExceptionHistory := raw_text x\<rparr>)
      else Some e)"

definition no_exceptions :: job_exceptions where
  "no_exceptions = \<lparr>jeRootException = [], jeTimestamp = 0, jeTruncated = False, jeExceptionHistory = [], jeRaw = []\<rparr>"

definition UnmarshalJobExceptions :: "rjson \<Rightarrow> job_exceptions option" where
  "UnmarshalJobExceptions x = map_option (\<lambda>e. e\<lparr>jeRaw := raw_text x\<rparr>) (put_struct put_exceptions x no_exceptions)"

section \<open>Checkpoints and plans\<close>

record checkpoint_counts =
  ccRestored :: int
  ccTotal :: int
  ccInProgress :: int
  ccCompleted :: int
  ccFailed :: int

definition put_counts :: "string \<Rightarrow> rjson \<Rightarrow> checkpoint_counts \<Rightarrow> checkpoint_counts option" where
  "put_counts k x c =
     (if equal_fold k ''restored'' then map_option (\<lambda>n. c\<lparr>ccRestored := n\<rparr>) (put_int64 x (ccRestored c))
      else if equal_fold k ''total'' then map_option (\<lambda>n. c\<lparr>ccTotal := n\<rparr>) (put_int64 x (ccTotal c))
      else if equal_fold k ''in_progress'' then map_option (\<lambda>n. c\<lparr>ccInProgress := n\<rparr>) (put_int64 x (ccInProgress c))
      else if equal_fold k ''completed'' then map_option (\<lambda>n. c\<lparr>ccCompleted := n\<rparr>) (put_int64 x (ccCompleted c))
      else if equal_fold k ''failed'' then map_option (\<lambda>n. c\<lparr>ccFailed := n\<rparr>) (put_int64 x (ccFailed c))
      else Some c)"

record checkpoint =
  cpID :: int
  cpStatus :: string
  cpIsSavepoint :: bool
  cpTriggerTime :: int
  cpDuration :: int

definition put_checkpoint :: "string \<Rightarrow> rjson \<Rightarrow> checkpoint \<Rightarrow> checkpoint option" where
  "put_checkpoint k x c =
     (if equal_fold k ''id'' then map_option (\<lambda>n. c\<lparr>cpID := n\<rparr>) (put_int64 x (cpID c))
      else if equal_fold k ''status'' then map_option (\<lambda>s. c\<lparr>cpStatus := s\<rparr>) (put_string x (cpStatus c))
      else if equal_fold k ''is_savepoint'' then map_option (\<lambda>b. c\<lparr>cpIsSavepoint := b\<rparr>) (put_bool x (cpIsSavepoint c))
      else if equal_fold k ''trigger_timestamp'' then map_option (\<lambda>n. c\<lparr>cpTriggerTime := n\<rparr>) (put_int64 x (cpTriggerTime c))
      else if equal_fold k ''end_to_end_duration'' then map_option (\<lambda>n. c\<lparr>cpDuration := n\<rparr>) (put_int64 x (cpDuration c))
      else Some c)"

record checkpoints =
  csCounts :: checkpoint_counts
  csHistory :: "checkpoint list"
  csRaw :: string

definition no_checkpoints :: checkpoints where
  "no_checkpoints = \<lparr>csCounts = \<lparr>ccRestored = 0, ccTotal = 0, ccInProgress = 0, ccCompleted = 0, ccFailed = 0\<rparr>, csHistory = [], csRaw = []\<rparr>"

definition put_checkpoints :: "string \<Rightarrow> rjson \<Rightarrow> checkpoints \<Rightarrow> checkpoints option" where
  "put_checkpoints k x c =
     (if equal_fold k ''counts'' then map_option (\<lambda>n. c\<lparr>csCounts := n\<rparr>) (put_struct put_counts x (csCounts c))
      else if equal_fold k ''history'' then map_option (\<lambda>h. c\<lparr>csHistory := h\<rparr>)
        (put_slice (put_struct put_checkpoint) \<lparr>cpID = 0, cpStatus = [], cpIsSavepoint = False, cpTriggerTime = 0, cpDuration = 0\<rparr> x (csHistory c))
      else Some c)"

definition UnmarshalCheckpoints :: "rjson \<Rightarrow> checkpoints option" where
  "UnmarshalCheckpoints x = map_option (\<lambda>c. c\<lparr>csRaw := raw_text x\<rparr>) (put_struct put_checkpoints x no_checkpoints)"

record job_plan =
  jpPlan :: string
  jpRaw :: string

definition put_plan :: "string \<Rightarrow> rjson \<Rightarrow> job_plan \<Rightarrow> job_plan option" where
  "put_plan k x p = (if equal_fold k ''plan'' then Some (p\<lparr>jpPlan := raw_text x\<rparr>) else Some p)"

definition UnmarshalJobPlan :: "rjson \<Rightarrow> job_plan option" where
  "UnmarshalJobPlan x = map_option (\<lambda>p. p\<lparr>jpRaw := raw_text x\<rparr>) (put_struct put_plan x \<lparr>jpPlan = [], jpRaw = []\<rparr>)"

text \<open>The whole answer is kept.\<close>

lemma raw_kept:
  "UnmarshalJob x = Some j \<Longrightarrow> jbRaw j = raw_text x" "UnmarshalTriggerResponse x = Some r \<Longrightarrow> trRaw r = raw_text x"
  "UnmarshalJobExceptions x = Some e \<Longrightarrow> jeRaw e = raw_text x" "UnmarshalCheckpoints x = Some c \<Longrightarrow> csRaw c = raw_text x"
  "UnmarshalJobPlan x = Some p \<Longrightarrow> jpRaw p = raw_text x"
  by (auto simp: UnmarshalJob_def UnmarshalTriggerResponse_def UnmarshalJobExceptions_def UnmarshalCheckpoints_def UnmarshalJobPlan_def)

end
