(* ===== verification/Job_Client.thy ===== *)
theory Job_Client
  imports Job_Types Transport
begin

text \<open>
  \<open>flinkrest/client.go\<close>, \<open>config.go\<close> and \<open>errors.go\<close>: the client of the JobManager REST API.  It shares the environment of the
  gateway client: the HTTP exchange, the clock, contexts and the URL library are its arguments.
\<close>

section \<open>Errors\<close>

datatype job_sentinel = JobClientClosed | JobResponseTooLarge | JobInvalidID

text \<open>\<open>Outside\<close> is an error of a library, of the transport or of a context.\<close>

datatype job_error =
    JobSentinel job_sentinel
  | JobErrorf string "job_error option"
  | JobAPIError string string int string "job_error option"
  | Outside goerr

definition sentinel_text :: "job_sentinel \<Rightarrow> string" where
  "sentinel_text s = (case s of JobClientClosed \<Rightarrow> ''flink job REST client is closed'' | JobResponseTooLarge \<Rightarrow> ''flink job REST response too large''
     | JobInvalidID \<Rightarrow> ''invalid Flink job ID'')"

text \<open>\<open>Unwrap\<close> and \<open>errors.Is\<close>.\<close>

fun job_unwrap :: "job_error \<Rightarrow> job_error option" where
  "job_unwrap (JobErrorf m e) = e"
| "job_unwrap (JobAPIError me ep st m e) = e"
| "job_unwrap _ = None"

fun job_is :: "job_error \<Rightarrow> job_sentinel \<Rightarrow> bool" where
  "job_is (JobSentinel s) t = (s = t)"
| "job_is (JobErrorf m (Some e)) t = job_is e t"
| "job_is (JobAPIError me ep st m (Some e)) t = job_is e t"
| "job_is _ t = False"

text \<open>\<open>Error()\<close>; a wrapping \<open>Errorf\<close> of this package puts the wrapped text where its \<open>%w\<close> is, which is at an end of the
  format: \<open>m\<close> is the format without it.  \<open>text\<close> gives the texts of outside errors.\<close>

fun job_error_text :: "(goerr \<Rightarrow> string) \<Rightarrow> job_error \<Rightarrow> string" where
  "job_error_text tx (JobSentinel s) = sentinel_text s"
| "job_error_text tx (JobErrorf m None) = m"
| "job_error_text tx (JobErrorf m (Some e)) = (if has_prefix m '': '' then job_error_text tx e @ m else m @ job_error_text tx e)"
| "job_error_text tx (JobAPIError me ep st m cause) =
     (let stat = (if st \<noteq> 0 then '' status='' @ itoa st else []);
          m1 = (if m = [] then (case cause of None \<Rightarrow> [] | Some e \<Rightarrow> job_error_text tx e) else m);
          m2 = (if m1 = [] then ''request failed'' else m1)
      in ''flink job REST '' @ me @ '' '' @ ep @ stat @ '': '' @ m2)"
| "job_error_text tx (Outside e) = tx e"

section \<open>Configuration\<close>

record job_config =
  jcBaseURL :: string
  jcRequestTimeout :: int
  jcMaxResponseBytes :: int
  jcHeaders :: "(string \<times> string) list"
  jcUserAgent :: string
  jcHasHTTPClient :: bool
  jcOwnHTTPTransport :: bool
  jcValidateJobID :: bool

definition jobUserAgent :: string where "jobUserAgent = ''flink-sql-go/flinkrest''"

definition job_fill_defaults :: "job_config \<Rightarrow> job_config" where
  "job_fill_defaults cfg = cfg\<lparr>
     jcRequestTimeout := (if jcRequestTimeout cfg = 0 then 10 * second else jcRequestTimeout cfg),
     jcMaxResponseBytes := (if jcMaxResponseBytes cfg = 0 then 8 * 1048576 else jcMaxResponseBytes cfg),
     jcUserAgent := (if jcUserAgent cfg = [] then jobUserAgent else jcUserAgent cfg)\<rparr>"

text \<open>\<open>normalize\<close>: the configuration, the base URL and whether \<open>Close\<close> may drop the connections.\<close>

definition job_normalize :: "(string \<Rightarrow> (goerr, go_url) result) \<Rightarrow> job_config \<Rightarrow> (job_error, job_config \<times> go_url \<times> bool) result" where
  "job_normalize parse cfg =
     (case parse (trim_space (jcBaseURL cfg)) of
        Inl err \<Rightarrow> Inl (JobErrorf ''flinkrest: parse BaseURL: '' (Some (Outside err)))
      | Inr base \<Rightarrow>
          if (Scheme base \<noteq> ''http'' \<and> Scheme base \<noteq> ''https'') \<or> Host base = []
          then Inl (JobErrorf ''flinkrest: BaseURL must be an http or https URL with a host'' None)
          else if User base \<noteq> None \<or> RawQuery base \<noteq> [] \<or> Fragment base \<noteq> []
          then Inl (JobErrorf ''flinkrest: BaseURL must not contain user information, query, or fragment'' None)
          else
            let filled = job_fill_defaults cfg in
            if jcRequestTimeout filled < 0 \<or> jcMaxResponseBytes filled \<le> 0
            then Inl (JobErrorf ''flinkrest: timeout must not be negative and response limit must be positive'' None)
            else if list_ex (\<lambda>kv. equal_fold (fst kv) ''Host'') (jcHeaders filled)
            then Inl (JobErrorf ''flinkrest: Host must not be supplied through Headers'' None)
            else Inr (filled, base\<lparr>Path := trim_right_byte CHR ''/'' (Path base)\<rparr>, \<not> jcHasHTTPClient cfg \<or> jcOwnHTTPTransport cfg))"

text \<open>The \<open>CheckRedirect\<close> closure.\<close>

definition job_checkRedirect :: "go_url \<Rightarrow> (go_url \<Rightarrow> nat \<Rightarrow> job_error option) option \<Rightarrow> go_url \<Rightarrow> nat \<Rightarrow> job_error option" where
  "job_checkRedirect base originalRedirect req via =
     (if \<not> equal_fold (Scheme req) (Scheme base) \<or> \<not> equal_fold (Host req) (Host base)
      then Some (JobErrorf ''flinkrest: redirect left configured origin'' None)
      else case originalRedirect of
        Some f \<Rightarrow> f req via
      | None \<Rightarrow> if via \<ge> 10 then Some (JobErrorf ''flinkrest: stopped after 10 redirects'' None) else None)"

section \<open>The client\<close>

text \<open>\<open>jobIdleClosed\<close> counts the calls of \<open>CloseIdleConnections\<close>; \<open>closeOnce\<close> has run exactly when the client is closed.\<close>

record 'w job_client =
  jobCfg :: job_config
  jobBase :: go_url
  jobOwned :: bool
  jobClosed :: bool
  jobIdleClosed :: nat
  jobWorld :: 'w

definition NewJobClient :: "(string \<Rightarrow> (goerr, go_url) result) \<Rightarrow> job_config \<Rightarrow> 'w \<Rightarrow> (job_error, 'w job_client) result" where
  "NewJobClient parse cfg w =
     (case job_normalize parse cfg of
        Inl err \<Rightarrow> Inl err
      | Inr (normalized, base, owned) \<Rightarrow>
          Inr \<lparr>jobCfg = normalized, jobBase = base, jobOwned = owned, jobClosed = False, jobIdleClosed = 0, jobWorld = w\<rparr>)"

definition job_Close :: "'w job_client \<Rightarrow> 'w job_client" where
  "job_Close c = (if jobClosed c then c
     else c\<lparr>jobClosed := True, jobIdleClosed := jobIdleClosed c + (if jobOwned c then 1 else 0)\<rparr>)"

definition validateJobID :: "job_config \<Rightarrow> string \<Rightarrow> job_error option" where
  "validateJobID cfg jobID =
     (if jobID = [] then Some (JobErrorf '': value is empty'' (Some (JobSentinel JobInvalidID)))
      else if \<not> jcValidateJobID cfg then None
      else if length jobID \<noteq> 32 then Some (JobErrorf '': expected 32 hexadecimal characters'' (Some (JobSentinel JobInvalidID)))
      else if \<not> list_all is_hex jobID then Some (JobErrorf '': expected hexadecimal characters'' (Some (JobSentinel JobInvalidID)))
      else None)"

definition jobURL :: "'w job_client \<Rightarrow> string \<Rightarrow> string \<Rightarrow> go_url option" where
  "jobURL c jobID route =
     (if validateJobID (jobCfg c) jobID \<noteq> None then None
      else Some ((jobBase c)\<lparr>Path := trim_right_byte CHR ''/'' (Path (jobBase c)) @ ''/jobs/'' @ pathSegment jobID @ route\<rparr>))"

definition job_readLimited :: "string \<Rightarrow> goerr option \<Rightarrow> int \<Rightarrow> string \<times> job_error option" where
  "job_readLimited body body_err limit =
     (let n = succ64 limit; data = take (nat n) body in
      if int (length body) < n \<and> body_err \<noteq> None then (data, map_option Outside body_err)
      else if int (length data) > limit then (take (nat limit) data, Some (JobSentinel JobResponseTooLarge))
      else (data, None))"

text \<open>\<open>decodeAPIError\<close>: the message is trimmed, made valid, cut at the first line end and at 512 bytes.\<close>

definition job_message :: "string \<Rightarrow> string" where
  "job_message raw =
     (let line = takeWhile (\<lambda>c. c \<noteq> chr 13 \<and> c \<noteq> chr 10) (to_valid_utf8 (trim_space raw)) in
      if length line > 512 then take (valid_limit line 512) line @ ''...'' else line)"

definition job_decodeAPIError :: "('w, 'c) transport_env \<Rightarrow> string \<Rightarrow> go_url \<Rightarrow> int \<Rightarrow> string \<Rightarrow> job_error" where
  "job_decodeAPIError env method target code data =
     JobAPIError method (escaped_path env target) code (job_message (error_message (error_payload_of data) data)) None"

section \<open>Requests\<close>

definition job_headers :: "job_config \<Rightarrow> string option \<Rightarrow> (string \<times> string) list" where
  "job_headers cfg payload =
     (if payload \<noteq> None then [(''Content-Type'', ''application/json'')] else []) @
     [(''Accept'', ''application/json''), (''User-Agent'', jcUserAgent cfg)] @ jcHeaders cfg"

text \<open>A destination is its zero value and how a text is decoded to it.\<close>

definition job_response ::
  "('w, 'c) transport_env \<Rightarrow> job_config \<Rightarrow> string \<Rightarrow> go_url \<Rightarrow> 'd \<times> (string \<Rightarrow> 'd option) option \<Rightarrow> http_response \<Rightarrow> (job_error, 'd) result" where
  "job_response env cfg method target dest resp =
     (let code = StatusCode resp; endpoint = escaped_path env target;
          (data, readErr) = job_readLimited (Body resp) (BodyErr resp) (jcMaxResponseBytes cfg) in
      case readErr of
        Some err \<Rightarrow> Inl (JobAPIError method endpoint code [] (Some err))
      | None \<Rightarrow>
          if code < 200 \<or> code \<ge> 300 then Inl (job_decodeAPIError env method target code data)
          else
            (case (if trim_space data = [] then None else map_option (\<lambda>decode. decode data) (snd dest)) of
               Some None \<Rightarrow> Inl (JobAPIError method endpoint code ''invalid JSON response'' (Some (Outside (Errorf ''json.Unmarshal'' []))))
             | Some (Some value) \<Rightarrow> Inr value
             | None \<Rightarrow> Inr (fst dest)))"

definition job_doJSON ::
  "('w, 'c) transport_env \<Rightarrow> 'c \<Rightarrow> string \<Rightarrow> go_url option \<Rightarrow> json option \<Rightarrow> 'd \<times> (string \<Rightarrow> 'd option) option
    \<Rightarrow> 'w job_client \<Rightarrow> (job_error, 'd) result \<times> 'w job_client" where
  "job_doJSON env ctx method target_or_nil body dest c =
     (case target_or_nil of
        None \<Rightarrow> (Inl (JobSentinel JobInvalidID), c)
      | Some target \<Rightarrow>
          if jobClosed c then (Inl (JobSentinel JobClientClosed), c)
          else
            let cfg = jobCfg c; payload = map_option marshal body;
                requestCtx = (if jcRequestTimeout cfg > 0 then ctx_with_timeout env (jcRequestTimeout cfg) ctx (jobWorld c) else ctx) in
            case new_request_err env method target of
              Some err \<Rightarrow> (Inl (JobErrorf ''flinkrest: create request: '' (Some (Outside err))), c)
            | None \<Rightarrow>
                let ((events, outcome), w) = exchange env requestCtx \<lparr>reqMethod = method, reqTarget = target, reqBody = payload,
                      reqHeaders = job_headers cfg payload\<rparr> (jobWorld c) in
                (case outcome of
                   Inl failure \<Rightarrow>
                     Inl (JobAPIError method (escaped_path env target) 0 []
                       (Some (Outside (case ctx_err env requestCtx w of Some e \<Rightarrow> e | None \<Rightarrow> tfErr failure))))
                 | Inr resp \<Rightarrow> job_response env cfg method target dest resp, c\<lparr>jobWorld := w\<rparr>))"

section \<open>Operations\<close>

text \<open>\<open>json.Unmarshal\<close> into a value with an \<open>UnmarshalJSON\<close>.\<close>

definition decode_with :: "(rjson \<Rightarrow> 'd option) \<Rightarrow> string \<Rightarrow> 'd option" where
  "decode_with f data = Option.bind (parse_raw data) f"

definition GetJob :: "('w, 'c) transport_env \<Rightarrow> 'c \<Rightarrow> string \<Rightarrow> 'w job_client \<Rightarrow> (job_error, job) result \<times> 'w job_client" where
  "GetJob env ctx jobID c = job_doJSON env ctx ''GET'' (jobURL c jobID []) None (no_job, Some (decode_with UnmarshalJob)) c"

definition put_status :: "string \<Rightarrow> rjson \<Rightarrow> string \<Rightarrow> string option" where
  "put_status k x s = (if equal_fold k ''status'' then put_string x s else Some s)"

definition GetJobStatus :: "('w, 'c) transport_env \<Rightarrow> 'c \<Rightarrow> string \<Rightarrow> 'w job_client \<Rightarrow> (job_error, string) result \<times> 'w job_client" where
  "GetJobStatus env ctx jobID c =
     job_doJSON env ctx ''GET'' (jobURL c jobID ''/status'') None ([], Some (decode_with (\<lambda>x. put_struct put_status x []))) c"

definition CancelJob :: "('w, 'c) transport_env \<Rightarrow> 'c \<Rightarrow> string \<Rightarrow> 'w job_client \<Rightarrow> (job_error, unit) result \<times> 'w job_client" where
  "CancelJob env ctx jobID c =
     (case jobURL c jobID [] of
        None \<Rightarrow> ((case validateJobID (jobCfg c) jobID of Some err \<Rightarrow> Inl err | None \<Rightarrow> Inr ()), c)
      | Some target \<Rightarrow>
          job_doJSON env ctx ''PATCH'' (Some (target\<lparr>RawQuery := query_set env (RawQuery target) [(''mode'', ''cancel'')]\<rparr>)) None ((), None) c)"

record stop_options =
  soDrain :: bool
  soFormatType :: string
  soTargetDirectory :: string
  soTriggerID :: string

abbreviation "SavepointCanonical \<equiv> ''CANONICAL''"
abbreviation "SavepointNative \<equiv> ''NATIVE''"

text \<open>The anonymous struct with \<open>omitempty\<close>.\<close>

definition stop_body :: "stop_options \<Rightarrow> json" where
  "stop_body o1 = JObj ((''drain'', JBool (soDrain o1)) # map (apsnd JStr) (filter (\<lambda>kv. snd kv \<noteq> [])
     [(''formatType'', soFormatType o1), (''targetDirectory'', soTargetDirectory o1), (''triggerId'', soTriggerID o1)]))"

definition StopJob :: "('w, 'c) transport_env \<Rightarrow> 'c \<Rightarrow> string \<Rightarrow> stop_options \<Rightarrow> 'w job_client \<Rightarrow> (job_error, trigger_response) result \<times> 'w job_client" where
  "StopJob env ctx jobID options c =
     (if soFormatType options \<noteq> [] \<and> soFormatType options \<noteq> SavepointCanonical \<and> soFormatType options \<noteq> SavepointNative
      then (Inl (JobErrorf (''flinkrest: unsupported savepoint format '' @ go_quote (is_print env) (soFormatType options)) None), c)
      else job_doJSON env ctx ''POST'' (jobURL c jobID ''/stop'') (Some (stop_body options))
        (\<lparr>trRequestID = [], trRaw = []\<rparr>, Some (decode_with UnmarshalTriggerResponse)) c)"

definition GetJobExceptions :: "('w, 'c) transport_env \<Rightarrow> 'c \<Rightarrow> string \<Rightarrow> 'w job_client \<Rightarrow> (job_error, job_exceptions) result \<times> 'w job_client" where
  "GetJobExceptions env ctx jobID c =
     job_doJSON env ctx ''GET'' (jobURL c jobID ''/exceptions'') None (no_exceptions, Some (decode_with UnmarshalJobExceptions)) c"

definition GetCheckpoints :: "('w, 'c) transport_env \<Rightarrow> 'c \<Rightarrow> string \<Rightarrow> 'w job_client \<Rightarrow> (job_error, checkpoints) result \<times> 'w job_client" where
  "GetCheckpoints env ctx jobID c =
     job_doJSON env ctx ''GET'' (jobURL c jobID ''/checkpoints'') None (no_checkpoints, Some (decode_with UnmarshalCheckpoints)) c"

definition GetJobPlan :: "('w, 'c) transport_env \<Rightarrow> 'c \<Rightarrow> string \<Rightarrow> 'w job_client \<Rightarrow> (job_error, job_plan) result \<times> 'w job_client" where
  "GetJobPlan env ctx jobID c =
     job_doJSON env ctx ''GET'' (jobURL c jobID ''/plan'') None (\<lparr>jpPlan = [], jpRaw = []\<rparr>, Some (decode_with UnmarshalJobPlan)) c"

section \<open>What the operations send\<close>

datatype job_op = OpJob | OpStatus | OpExceptions | OpCheckpoints | OpPlan | OpCancel | OpStop stop_options

definition run_job_op :: "('w, 'c) transport_env \<Rightarrow> 'c \<Rightarrow> string \<Rightarrow> job_op \<Rightarrow> 'w job_client \<Rightarrow> (job_error, unit) result \<times> 'w job_client" where
  "run_job_op env ctx jobID op c =
     (case op of
        OpJob \<Rightarrow> apfst (map_sum id (\<lambda>_. ())) (GetJob env ctx jobID c)
      | OpStatus \<Rightarrow> apfst (map_sum id (\<lambda>_. ())) (GetJobStatus env ctx jobID c)
      | OpExceptions \<Rightarrow> apfst (map_sum id (\<lambda>_. ())) (GetJobExceptions env ctx jobID c)
      | OpCheckpoints \<Rightarrow> apfst (map_sum id (\<lambda>_. ())) (GetCheckpoints env ctx jobID c)
      | OpPlan \<Rightarrow> apfst (map_sum id (\<lambda>_. ())) (GetJobPlan env ctx jobID c)
      | OpCancel \<Rightarrow> CancelJob env ctx jobID c
      | OpStop options \<Rightarrow> apfst (map_sum id (\<lambda>_. ())) (StopJob env ctx jobID options c))"

text \<open>The method, the end of the path, the query and the body of an operation's request.\<close>

definition op_method :: "job_op \<Rightarrow> string" where
  "op_method op = (case op of OpCancel \<Rightarrow> ''PATCH'' | OpStop options \<Rightarrow> ''POST'' | _ \<Rightarrow> ''GET'')"

definition op_route :: "job_op \<Rightarrow> string" where
  "op_route op = (case op of OpJob \<Rightarrow> [] | OpStatus \<Rightarrow> ''/status'' | OpExceptions \<Rightarrow> ''/exceptions'' | OpCheckpoints \<Rightarrow> ''/checkpoints''
     | OpPlan \<Rightarrow> ''/plan'' | OpCancel \<Rightarrow> [] | OpStop options \<Rightarrow> ''/stop'')"

definition op_body :: "job_op \<Rightarrow> string option" where
  "op_body op = (case op of OpStop options \<Rightarrow> Some (marshal (stop_body options)) | _ \<Rightarrow> None)"

definition op_request :: "('w, 'c) transport_env \<Rightarrow> 'x job_client \<Rightarrow> string \<Rightarrow> job_op \<Rightarrow> http_request" where
  "op_request env c jobID op =
     \<lparr>reqMethod = op_method op,
      reqTarget = (jobBase c)\<lparr>Path := trim_right_byte CHR ''/'' (Path (jobBase c)) @ ''/jobs/'' @ pathSegment jobID @ op_route op,
        RawQuery := (if op = OpCancel then query_set env (RawQuery (jobBase c)) [(''mode'', ''cancel'')] else RawQuery (jobBase c))\<rparr>,
      reqBody = op_body op, reqHeaders = job_headers (jobCfg c) (op_body op)\<rparr>"

lemma job_doJSON_logged:
  assumes "job_doJSON (logged env) ctx method target body dest c = (r, c')" "jobWorld c = (w0, log)"
  obtains e where "c' = c" "r = Inl e" "target = None \<or> jobClosed c \<or> new_request_err env method (the target) \<noteq> None"
      "target = None \<Longrightarrow> job_is e JobInvalidID" "target \<noteq> None \<Longrightarrow> jobClosed c \<Longrightarrow> job_is e JobClientClosed"
  | w t ev out where "target = Some t" "\<not> jobClosed c"
      "c' = c\<lparr>jobWorld := (w, log @ [(\<lparr>reqMethod = method, reqTarget = t, reqBody = map_option marshal body,
         reqHeaders = job_headers (jobCfg c) (map_option marshal body)\<rparr>, ev, out)])\<rparr>"
      "r = (case out of Inl failure \<Rightarrow> r | Inr resp \<Rightarrow> job_response (logged env) (jobCfg c) method t dest resp)"
      "\<And>failure. out = Inl failure \<Longrightarrow> \<exists>e. r = Inl e"
proof (cases target)
  case None
  then show ?thesis using assms that(1) by (auto simp: job_doJSON_def)
next
  case (Some t)
  consider "jobClosed c" | err where "\<not> jobClosed c" "new_request_err env method t = Some err" | "\<not> jobClosed c" "new_request_err env method t = None" by fastforce
  then show ?thesis
  proof cases
    case 1
    then show ?thesis using assms that(1) Some by (auto simp: job_doJSON_def)
  next
    case 2
    then show ?thesis using assms that(1) Some by (auto simp: job_doJSON_def Let_def)
  next
    case 3
    define rc where "rc = (if jcRequestTimeout (jobCfg c) > 0 then ctx_with_timeout (logged env) (jcRequestTimeout (jobCfg c)) ctx (jobWorld c) else ctx)"
    let ?req = "\<lparr>reqMethod = method, reqTarget = t, reqBody = map_option marshal body, reqHeaders = job_headers (jobCfg c) (map_option marshal body)\<rparr>"
    obtain ev out wl where x: "exchange (logged env) rc ?req (w0, log) = ((ev, out), wl)" by (metis prod.exhaust)
    obtain w where w: "wl = (w, log @ [(?req, ev, out)])" using exchange_logged[OF x] by blast
    show ?thesis
      by (rule that(2)[of t w ev out])
        (use assms 3 Some x w rc_def in \<open>auto simp: job_doJSON_def Let_def split: sum.splits\<close>)
  qed
qed

lemma job_response_2xx: "job_response env cfg method t dest resp = Inr v \<Longrightarrow> 200 \<le> StatusCode resp \<and> StatusCode resp < 300"
  by (auto simp: job_response_def Let_def split: prod.splits option.splits if_splits)

definition op_format_ok :: "job_op \<Rightarrow> bool" where
  "op_format_ok op = (case op of OpStop o1 \<Rightarrow> soFormatType o1 \<in> {[], SavepointCanonical, SavepointNative} | _ \<Rightarrow> True)"

lemma query_set_logged [simp]: "query_set (logged env) = query_set env"
  by (simp add: logged_def)

lemma validateJobID_is: "validateJobID cfg jobID = Some e \<Longrightarrow> job_is e JobInvalidID"
  by (auto simp: validateJobID_def split: if_splits)

lemma jobURL_None [simp]: "jobURL c jobID route = None \<longleftrightarrow> validateJobID (jobCfg c) jobID \<noteq> None"
  by (simp add: jobURL_def)

lemma jobURL_Some: "jobURL c jobID route = Some t \<longleftrightarrow> validateJobID (jobCfg c) jobID = None \<and>
    t = (jobBase c)\<lparr>Path := trim_right_byte CHR ''/'' (Path (jobBase c)) @ ''/jobs/'' @ pathSegment jobID @ route\<rparr>"
  by (auto simp: jobURL_def)

definition same_origin :: "go_url \<Rightarrow> go_url \<Rightarrow> bool" where
  "same_origin u v = (Scheme u = Scheme v \<and> Host u = Host v)"

text \<open>What an operation may do: refuse without a request, or make exactly its request.\<close>

definition job_op_outcome ::
  "('w, 'c) transport_env \<Rightarrow> string \<Rightarrow> job_op \<Rightarrow> (job_error, 'd) result \<Rightarrow> exchange_log \<Rightarrow> ('w \<times> exchange_log) job_client \<Rightarrow> ('w \<times> exchange_log) job_client \<Rightarrow> bool" where
  "job_op_outcome env jobID op r log c c' =
     (let req = op_request env c jobID op; id_ok = (validateJobID (jobCfg c) jobID = None) in
      c' = c \<and> (\<exists>e. r = Inl e \<and> (op_format_ok op \<longrightarrow> \<not> id_ok \<longrightarrow> job_is e JobInvalidID) \<and> (op_format_ok op \<longrightarrow> id_ok \<longrightarrow> jobClosed c \<longrightarrow> job_is e JobClientClosed)) \<and>
        (\<not> op_format_ok op \<or> \<not> id_ok \<or> jobClosed c \<or> new_request_err env (reqMethod req) (reqTarget req) \<noteq> None)
      \<or> (\<exists>w ev out. op_format_ok op \<and> id_ok \<and> \<not> jobClosed c \<and> c' = c\<lparr>jobWorld := (w, log @ [(req, ev, out)])\<rparr> \<and>
          (\<forall>v. r = Inr v \<longrightarrow> (\<exists>resp. out = Inr resp \<and> 200 \<le> StatusCode resp \<and> StatusCode resp < 300))))"

lemma job_op_outcome_doJSON:
  assumes d: "job_doJSON (logged env) ctx (op_method op) target body dest c = (r, c')" and w: "jobWorld c = (w0, log)"
    and t: "target = (if validateJobID (jobCfg c) jobID = None then Some (reqTarget (op_request env c jobID op)) else None)"
    and b: "map_option marshal body = op_body op" and f: "op_format_ok op"
  shows "job_op_outcome env jobID op r log c c'"
  using d w
proof (cases rule: job_doJSON_logged)
  case (1 e)
  then show ?thesis using t f by (auto simp: job_op_outcome_def op_request_def Let_def split: if_splits)
next
  case (2 w t' ev out)
  have "validateJobID (jobCfg c) jobID = None" "t' = reqTarget (op_request env c jobID op)" using 2(1) t by (auto split: if_splits)
  moreover have "c' = c\<lparr>jobWorld := (w, log @ [(op_request env c jobID op, ev, out)])\<rparr>"
    using 2(3) b calculation(2) by (simp add: op_request_def)
  moreover have "\<exists>resp. out = Inr resp \<and> 200 \<le> StatusCode resp \<and> StatusCode resp < 300" if "r = Inr v" for v
  proof (cases out)
    case (Inl failure)
    then show ?thesis using 2(5)[OF Inl] that by auto
  next
    case (Inr resp)
    then have "job_response (logged env) (jobCfg c) (op_method op) t' dest resp = Inr v" using 2(4) that by (simp only: sum.case)
    from job_response_2xx[OF this] show ?thesis using Inr by simp
  qed
  ultimately show ?thesis using 2(2) f unfolding job_op_outcome_def Let_def by blast
qed

lemma job_op_outcome_map: "job_op_outcome env jobID op r log c c' \<Longrightarrow> job_op_outcome env jobID op (map_sum id f r) log c c'"
  by (cases r) (auto simp: job_op_outcome_def Let_def)

lemma jobURL_request:
  "op \<noteq> OpCancel \<Longrightarrow> jobURL c jobID (op_route op) = (if validateJobID (jobCfg c) jobID = None then Some (reqTarget (op_request env c jobID op)) else None)"
  by (auto simp: jobURL_def op_request_def)

lemma job_op_outcome_get:
  assumes r: "apfst (map_sum id (\<lambda>_. ())) (job_doJSON (logged env) ctx (op_method op) (jobURL c jobID (op_route op)) body dest c) = (r, c')"
    and op: "map_option marshal body = op_body op" "op_format_ok op" "op \<noteq> OpCancel" and w: "jobWorld c = (w0, log)"
  shows "job_op_outcome env jobID op r log c c'"
proof -
  obtain r0 c0 where d: "job_doJSON (logged env) ctx (op_method op) (jobURL c jobID (op_route op)) body dest c = (r0, c0)" by fastforce
  then have "r = map_sum id (\<lambda>_. ()) r0" "c' = c0" using r by simp_all
  then show ?thesis using job_op_outcome_map[OF job_op_outcome_doJSON[OF d w jobURL_request[OF op(3)] op(1,2)]] by simp
qed

lemma run_job_op_outcome:
  assumes r: "run_job_op (logged env) ctx jobID op c = (r, c')" and w: "jobWorld c = (w0, log)"
  shows "job_op_outcome env jobID op r log c c'"
proof -
  note get = job_op_outcome_get[OF _ _ _ _ w]
  show ?thesis
  proof (cases op)
    case OpCancel
    show ?thesis
    proof (cases "validateJobID (jobCfg c) jobID")
      case None
      then have t: "jobURL c jobID [] = Some ((jobBase c)\<lparr>Path := trim_right_byte CHR ''/'' (Path (jobBase c)) @ ''/jobs/'' @ pathSegment jobID\<rparr>)"
        by (simp add: jobURL_def)
      show ?thesis
        by (rule job_op_outcome_doJSON[OF _ w])
          (use r OpCancel None in \<open>simp_all add: run_job_op_def CancelJob_def t op_method_def op_request_def op_route_def op_body_def op_format_ok_def\<close>)
    next
      case (Some e)
      then show ?thesis using r OpCancel validateJobID_is[OF Some]
        by (auto simp: run_job_op_def CancelJob_def jobURL_def job_op_outcome_def)
    qed
  next
    case (OpStop o1)
    show ?thesis
    proof (cases "op_format_ok op")
      case True
      then show ?thesis using r OpStop
        by (intro get[where body = "Some (stop_body o1)"]) (auto simp: run_job_op_def StopJob_def op_method_def op_route_def op_body_def op_format_ok_def)
    next
      case False
      then show ?thesis using r OpStop by (auto simp: run_job_op_def StopJob_def op_format_ok_def job_op_outcome_def)
    qed
  next
    case OpJob
    show ?thesis by (rule get[where body = None]) (use r OpJob in \<open>simp_all add: run_job_op_def GetJob_def op_method_def op_route_def op_body_def op_format_ok_def\<close>)
  next
    case OpStatus
    show ?thesis by (rule get[where body = None]) (use r OpStatus in \<open>simp_all add: run_job_op_def GetJobStatus_def op_method_def op_route_def op_body_def op_format_ok_def\<close>)
  next
    case OpExceptions
    show ?thesis by (rule get[where body = None]) (use r OpExceptions in \<open>simp_all add: run_job_op_def GetJobExceptions_def op_method_def op_route_def op_body_def op_format_ok_def\<close>)
  next
    case OpCheckpoints
    show ?thesis by (rule get[where body = None]) (use r OpCheckpoints in \<open>simp_all add: run_job_op_def GetCheckpoints_def op_method_def op_route_def op_body_def op_format_ok_def\<close>)
  next
    case OpPlan
    show ?thesis by (rule get[where body = None]) (use r OpPlan in \<open>simp_all add: run_job_op_def GetJobPlan_def op_method_def op_route_def op_body_def op_format_ok_def\<close>)
  qed
qed

section \<open>The properties\<close>

lemma base_path_ok: "base_url_ok (u\<lparr>Path := p\<rparr>) = base_url_ok u"
  by (simp add: base_url_ok_def)

lemma job_defaults: "jcRequestTimeout (job_fill_defaults cfg) \<noteq> 0" "jcMaxResponseBytes (job_fill_defaults cfg) \<noteq> 0" "jcUserAgent (job_fill_defaults cfg) \<noteq> []"
  by (simp_all add: job_fill_defaults_def jobUserAgent_def second_def)

lemma job_normalize_cases:
  assumes "job_normalize parse cfg = Inr (cfg', base, owned)"
  obtains parsed where "parse (trim_space (jcBaseURL cfg)) = Inr parsed" "base = parsed\<lparr>Path := trim_right_byte CHR ''/'' (Path parsed)\<rparr>"
    "base_url_ok parsed" "cfg' = job_fill_defaults cfg" "0 \<le> jcRequestTimeout cfg'" "0 < jcMaxResponseBytes cfg'"
    "\<not> list_ex (\<lambda>kv. equal_fold (fst kv) ''Host'') (jcHeaders cfg')" "owned = (\<not> jcHasHTTPClient cfg \<or> jcOwnHTTPTransport cfg)"
proof (cases "parse (trim_space (jcBaseURL cfg))")
  case (Inl e)
  then show ?thesis using assms by (simp add: job_normalize_def)
next
  case (Inr parsed)
  then show ?thesis using assms that[OF Inr]
    by (simp add: job_normalize_def base_url_ok_def Let_def split: if_split_asm)
qed

lemma job_normalize_base:
  assumes "job_normalize parse cfg = Inr (cfg', base, owned)"
  shows "base_url_ok base \<and> 0 < jcRequestTimeout cfg' \<and> 0 < jcMaxResponseBytes cfg' \<and> jcUserAgent cfg' \<noteq> []"
  using job_normalize_cases[OF assms] job_defaults[of cfg] by (metis (no_types) base_path_ok order_le_less)

text \<open>C19: an operation on a job sends at most one request, the one of that operation and job, to the origin it was configured
  with and without credentials; an invalid job ID or a closed client sends none and is reported as such; success means
  a 2xx answer.\<close>

theorem job_requests:
  assumes "job_normalize parse cfg = Inr (jobCfg c, jobBase c, owned)"
    and "run_job_op (logged env) ctx jobID op c = (r, c')" and "jobWorld c = (w0, log)"
  shows "\<exists>w new. c' = c\<lparr>jobWorld := (w, log @ new)\<rparr> \<and> length new \<le> 1 \<and>
    (\<forall>x \<in> set new. fst x = op_request env c jobID op \<and> same_origin (reqTarget (fst x)) (jobBase c) \<and> User (reqTarget (fst x)) = None) \<and>
    (validateJobID (jobCfg c) jobID \<noteq> None \<longrightarrow> new = [] \<and> (op_format_ok op \<longrightarrow> (\<exists>e. r = Inl e \<and> job_is e JobInvalidID))) \<and>
    (jobClosed c \<longrightarrow> new = [] \<and> (op_format_ok op \<and> validateJobID (jobCfg c) jobID = None \<longrightarrow> (\<exists>e. r = Inl e \<and> job_is e JobClientClosed))) \<and>
    (r = Inr () \<longrightarrow> (\<exists>req ev resp. new = [(req, ev, Inr resp)] \<and> 200 \<le> StatusCode resp \<and> StatusCode resp < 300))"
proof -
  have o1: "same_origin (reqTarget (op_request env c jobID op)) (jobBase c)" "User (reqTarget (op_request env c jobID op)) = None"
    using job_normalize_base[OF assms(1)] by (simp_all add: op_request_def same_origin_def base_url_ok_def)
  note out = run_job_op_outcome[OF assms(2,3), unfolded job_op_outcome_def Let_def]
  have same: "c = c\<lparr>jobWorld := (w0, log @ [])\<rparr>" using assms(3) by simp
  from out show ?thesis
  proof
    assume "c' = c \<and> (\<exists>e. r = Inl e \<and> (op_format_ok op \<longrightarrow> validateJobID (jobCfg c) jobID \<noteq> None \<longrightarrow> job_is e JobInvalidID) \<and>
        (op_format_ok op \<longrightarrow> validateJobID (jobCfg c) jobID = None \<longrightarrow> jobClosed c \<longrightarrow> job_is e JobClientClosed)) \<and>
      (\<not> op_format_ok op \<or> validateJobID (jobCfg c) jobID \<noteq> None \<or> jobClosed c \<or>
        new_request_err env (reqMethod (op_request env c jobID op)) (reqTarget (op_request env c jobID op)) \<noteq> None)"
    then show ?thesis using same by (intro exI[of _ w0] exI[of _ "[]"]) auto
  next
    assume "\<exists>w ev out. op_format_ok op \<and> validateJobID (jobCfg c) jobID = None \<and> \<not> jobClosed c \<and>
      c' = c\<lparr>jobWorld := (w, log @ [(op_request env c jobID op, ev, out)])\<rparr> \<and>
      (\<forall>v. r = Inr v \<longrightarrow> (\<exists>resp. out = Inr resp \<and> 200 \<le> StatusCode resp \<and> StatusCode resp < 300))"
    then show ?thesis using o1 by fastforce
  qed
qed

text \<open>\<open>readLimited\<close> returns a body that fits as it is and refuses a longer one, except that the greatest limit reads
  nothing: every body is taken for an empty one.\<close>

lemma job_readLimited_exact:
  assumes "0 < limit" "limit < 2 ^ 63"
  shows "job_readLimited body None limit =
    (if limit = 2 ^ 63 - 1 then ([], None) else if int (length body) \<le> limit then (body, None)
     else (take (nat limit) body, Some (JobSentinel JobResponseTooLarge)))"
proof (cases "limit = 2 ^ 63 - 1")
  case True
  then show ?thesis by (simp add: job_readLimited_def succ64_def)
next
  case False
  then have s: "succ64 limit = limit + 1" by (simp add: succ64_def)
  have m: "min (length body) (nat (limit + 1)) = (if int (length body) \<le> limit then length body else nat (limit + 1))"
    using assms by auto
  show ?thesis using False assms unfolding job_readLimited_def s Let_def by (auto simp: m)
qed

text \<open>The message of an error answer is valid UTF-8, one line and at most 512 bytes and an ellipsis long.\<close>

lemma job_message_safe: "valid_utf8 (job_message m) \<and> length (job_message m) \<le> 515 \<and> chr 10 \<notin> set (job_message m) \<and> chr 13 \<notin> set (job_message m)"
  unfolding job_message_def Let_def by (rule exposed_line_safe) (rule valid_utf8_to_valid)

section \<open>The job ID in the path\<close>

text \<open>\<open>URL.String\<close> escapes the path that \<open>jobURL\<close> built from an escaped ID once more: \<open>url.URL\<close> keeps paths unescaped.\<close>

definition escape_path :: "string \<Rightarrow> string" where
  "escape_path s = concat (map (\<lambda>c. if path_unreserved c \<or> c \<in> set ''/;,'' then [c]
     else [CHR ''%'', hex_digit (byte c div 16), hex_digit (byte c mod 16)]) s)"

lemma escape_path_Cons:
  "escape_path (c # s) = (if path_unreserved c \<or> c \<in> set ''/;,'' then [c]
     else [CHR ''%'', hex_digit (byte c div 16), hex_digit (byte c mod 16)]) @ escape_path s"
  by (simp add: escape_path_def)

lemma path_unescape_escape_path: "path_unescape (escape_path s) = Some s"
proof (induction s)
  case Nil
  then show ?case by (simp add: escape_path_def)
next
  case (Cons c s)
  then show ?case
    using not_unreserved hex_digit_facts[of "byte c div 16"] hex_digit_facts[of "byte c mod 16"]
    by (auto simp: escape_path_Cons byte_hex_split)
qed

lemma pathSegment_length: "length s \<le> length (pathSegment s)"
proof (induction s)
  case Nil
  then show ?case by simp
next
  case (Cons c s)
  then show ?case by (simp add: pathSegment_Cons)
qed

lemma pathSegment_id: "pathSegment s = s \<longleftrightarrow> list_all path_unreserved s"
proof (induction s)
  case Nil
  then show ?case by (simp add: pathSegment_def)
next
  case (Cons c s)
  have "length (c # s) < length (pathSegment (c # s))" if "\<not> path_unreserved c"
    using that pathSegment_length[of s] by (simp add: pathSegment_Cons)
  then have "pathSegment (c # s) \<noteq> c # s" if "\<not> path_unreserved c" using that by fastforce
  then show ?case using Cons by (auto simp: pathSegment_Cons)
qed

lemma hex_unreserved: "is_hex c \<Longrightarrow> path_unreserved c"
  by (auto simp: is_hex_def path_unreserved_def)


definition example_job_cfg :: job_config where
  "example_job_cfg = \<lparr>jcBaseURL = ''http://h/'', jcRequestTimeout = 1, jcMaxResponseBytes = 100, jcHeaders = [], jcUserAgent = ''u'',
     jcHasHTTPClient = False, jcOwnHTTPTransport = False, jcValidateJobID = True\<rparr>"

definition example_job_client :: "'w \<Rightarrow> 'w job_client" where
  "example_job_client w = \<lparr>jobCfg = example_job_cfg, jobBase = example_url\<lparr>Path := []\<rparr>, jobOwned = True, jobClosed = False, jobIdleClosed = 0, jobWorld = w\<rparr>"

definition example_job_id :: string where
  "example_job_id = replicate 32 (CHR ''a'')"

lemma example_id_valid: "validateJobID example_job_cfg example_job_id = None"
  by (simp add: validateJobID_def example_job_id_def example_job_cfg_def is_hex_def is_digit_def byte_def list_all_iff)


lemma job_requests_witness:
  "\<exists>c' w new. run_job_op (logged script_env) plain_ctx example_job_id OpCancel
      (example_job_client ([([], Inr \<lparr>StatusCode = 202, Body = [], BodyErr = None\<rparr>)], [])) = (Inr (), c') \<and>
    c' = example_job_client (w, new) \<and> length new = 1 \<and> (\<forall>x \<in> set new. reqMethod (fst x) = ''PATCH'')"
proof -
  let ?c = "example_job_client ([([], Inr \<lparr>StatusCode = 202, Body = [], BodyErr = None\<rparr>)], [])"
  have n: "job_normalize (\<lambda>s. Inr example_url) example_job_cfg = Inr (jobCfg ?c, jobBase ?c, True)"
    by (simp add: job_normalize_def example_url_def example_job_cfg_def example_job_client_def job_fill_defaults_def Let_def trim_right_byte_def)
  have "\<exists>c'. run_job_op (logged script_env) plain_ctx example_job_id OpCancel ?c = (Inr (), c')"
    using example_id_valid
    by (simp add: run_job_op_def CancelJob_def jobURL_def example_job_client_def job_doJSON_def Let_def logged_def script_env_def
        job_response_def job_readLimited_def succ64_def example_job_cfg_def)
  then obtain c' where r: "run_job_op (logged script_env) plain_ctx example_job_id OpCancel ?c = (Inr (), c')" by blast
  have w: "jobWorld ?c = ([([], Inr \<lparr>StatusCode = 202, Body = [], BodyErr = None\<rparr>)], [])" by (simp add: example_job_client_def)
  show ?thesis using job_requests[OF n r w] r by (auto simp: example_job_client_def op_request_def op_method_def)
qed

end
