(* ===== verification/Changelog.thy ===== *)
theory Changelog
  imports Rows
begin

text \<open>
  \<open>flinksqlgateway/changelog/materializer.go\<close>: the table that a stream of changelog rows
  builds.  The Go maps are association lists with distinct keys, so that their length is
  \<open>len\<close>; a method takes the \<open>Materializer\<close> and returns it changed, and on an error nothing
  is returned, as no method writes before its last check.  \<open>ordered_store\<close> is the contract
  of an insertion-ordered store, provided by the rows, order, index and tombstones together.
\<close>

section \<open>Errors and state\<close>

datatype changelog_sentinel =
    ErrPrimaryKeyRequired | ErrColumnsRequired | ErrPrimaryKeyMissing | ErrDuplicateKey
  | ErrRowNotFound | ErrUpdateOrder | ErrMaxRows | ErrUnsupportedRowKind

text \<open>\<open>fmt.Errorf("%w...", sentinel, ...)\<close>: the sentinel, the rest of the format, its operands.\<close>

datatype changelog_error = ChangelogError changelog_sentinel string "fmt_arg list"

fun changelog_is :: "changelog_error \<Rightarrow> changelog_sentinel \<Rightarrow> bool" where
  "changelog_is (ChangelogError s f as) t = (s = t)"

definition DefaultMaxRows :: nat where
  "DefaultMaxRows = 100000"

record materializer =
  primaryKey :: "string list"
  columns :: "column_info list"
  maxRows :: nat
  rows :: "(string \<times> row) list"
  order :: "string list"
  orderIndex :: "(string \<times> nat) list"
  tombstones :: nat
  pending :: "string list"

section \<open>Options\<close>

text \<open>The internal configuration an \<open>Option\<close> changes; an \<open>Option\<close> is its constructor call.\<close>

datatype changelog_option = PrimaryKey "string list" | ColumnsOption "column_info list" | MaxRows int

record changelog_config =
  cfgPrimaryKey :: "string list"
  cfgColumns :: "column_info list"
  cfgMaxRows :: nat

fun check_key_columns :: "string list \<Rightarrow> string list \<Rightarrow> changelog_error option" where
  "check_key_columns seen [] = None"
| "check_key_columns seen (c # cs) =
     (if trim_space c = [] then Some (ChangelogError ErrPrimaryKeyRequired '': column name is empty'' [])
      else if c \<in> set seen
      then Some (ChangelogError ErrPrimaryKeyRequired '': duplicate column %q'' [ArgText c])
      else check_key_columns (c # seen) cs)"

fun apply_option :: "changelog_option \<Rightarrow> changelog_config \<Rightarrow> (changelog_error, changelog_config) result" where
  "apply_option (PrimaryKey cs) cfg =
     (if cs = [] then Inl (ChangelogError ErrPrimaryKeyRequired [] [])
      else case check_key_columns [] cs of
        Some err \<Rightarrow> Inl err
      | None \<Rightarrow> Inr (cfg\<lparr>cfgPrimaryKey := cs\<rparr>))"
| "apply_option (ColumnsOption cs) cfg =
     (if cs = [] then Inl (ChangelogError ErrColumnsRequired [] []) else Inr (cfg\<lparr>cfgColumns := cs\<rparr>))"
| "apply_option (MaxRows limit) cfg =
     (if limit \<le> 0 then Inl (ChangelogError ErrMaxRows '': limit must be positive'' [])
      else Inr (cfg\<lparr>cfgMaxRows := nat limit\<rparr>))"

fun apply_options :: "changelog_option option list \<Rightarrow> changelog_config \<Rightarrow> (changelog_error, changelog_config) result" where
  "apply_options [] cfg = Inr cfg"
| "apply_options (None # os) cfg = apply_options os cfg"
| "apply_options (Some opt # os) cfg = and_then (apply_option opt cfg) (apply_options os)"

definition NewMaterializer :: "changelog_option option list \<Rightarrow> (changelog_error, materializer) result" where
  "NewMaterializer options =
     and_then (apply_options options \<lparr>cfgPrimaryKey = [], cfgColumns = [], cfgMaxRows = DefaultMaxRows\<rparr>) (\<lambda>cfg.
       if cfgPrimaryKey cfg = [] then Inl (ChangelogError ErrPrimaryKeyRequired [] [])
       else if cfgColumns cfg = [] then Inl (ChangelogError ErrColumnsRequired [] [])
       else case List.find (\<lambda>k. \<not> list_ex (\<lambda>c. colName c = k) (cfgColumns cfg)) (cfgPrimaryKey cfg) of
         Some k \<Rightarrow> Inl (ChangelogError ErrPrimaryKeyMissing '': column %q'' [ArgText k])
       | None \<Rightarrow> Inr \<lparr>primaryKey = cfgPrimaryKey cfg, columns = cfgColumns cfg, maxRows = cfgMaxRows cfg,
           rows = [], order = [], orderIndex = [], tombstones = 0, pending = []\<rparr>)"

section \<open>Keys\<close>

text \<open>One column of the key: the length of the canonical JSON, a colon, the JSON, a bar.\<close>

definition key_part :: "string \<Rightarrow> string" where
  "key_part compact = show_nat (length compact) @ '':'' @ compact @ ''|''"

definition key_column :: "row_accessor \<Rightarrow> string \<Rightarrow> (changelog_error, string) result" where
  "key_column accessor column =
     (case Raw accessor column of
        Inl err \<Rightarrow> Inl (ChangelogError ErrPrimaryKeyMissing '': column %q: %v'' [ArgText column, ArgVal err])
      | Inr (raw, isNull) \<Rightarrow>
          if isNull \<or> trim_space raw = []
          then Inl (ChangelogError ErrPrimaryKeyMissing '': column %q is NULL'' [ArgText column])
          else
            (case canonicalJSON raw of
               None \<Rightarrow> Inl (ChangelogError ErrPrimaryKeyMissing '': column %q is invalid JSON: %v'' [ArgText column])
             | Some compact \<Rightarrow> Inr (key_part compact)))"

definition rowKey :: "materializer \<Rightarrow> row \<Rightarrow> (changelog_error, string) result" where
  "rowKey m r = and_then (map_result (key_column (WithColumns r (columns m))) (primaryKey m)) (\<lambda>parts. Inr (concat parts))"

section \<open>The ordered store\<close>

text \<open>The statements of \<open>Apply\<close> that write, and the helpers they call.\<close>

definition insert_row :: "string \<Rightarrow> row \<Rightarrow> materializer \<Rightarrow> materializer" where
  "insert_row key r m = m\<lparr>rows := AList.update key r (rows m),
     orderIndex := AList.update key (length (order m)) (orderIndex m), order := order m @ [key]\<rparr>"

definition replace_row :: "string \<Rightarrow> row \<Rightarrow> materializer \<Rightarrow> materializer" where
  "replace_row key r m = m\<lparr>rows := AList.update key r (rows m)\<rparr>"

fun compact_loop :: "string list \<Rightarrow> string list \<Rightarrow> (string \<times> nat) list \<Rightarrow> string list \<times> (string \<times> nat) list" where
  "compact_loop [] compacted index = (compacted, index)"
| "compact_loop (k # ks) compacted index =
     (if k = [] then compact_loop ks compacted index
      else compact_loop ks (compacted @ [k]) (AList.update k (length compacted) index))"

definition compactOrderLocked :: "materializer \<Rightarrow> materializer" where
  "compactOrderLocked m =
     (let (compacted, index) = compact_loop (order m) [] (orderIndex m)
      in m\<lparr>orderIndex := index, order := compacted, tombstones := 0\<rparr>)"

definition removeOrder :: "string \<Rightarrow> materializer \<Rightarrow> materializer" where
  "removeOrder key m =
     (case map_of (orderIndex m) key of
        None \<Rightarrow> m
      | Some index \<Rightarrow>
          (let m1 = m\<lparr>orderIndex := AList.delete key (orderIndex m), order := (order m)[index := []],
                      tombstones := tombstones m + 1\<rparr>
           in if tombstones m1 > 1024 \<and> tombstones m1 * 2 > length (order m1)
              then compactOrderLocked m1 else m1))"

definition remove_row :: "string \<Rightarrow> materializer \<Rightarrow> materializer" where
  "remove_row key m = removeOrder key (m\<lparr>rows := AList.delete key (rows m)\<rparr>)"

section \<open>Methods\<close>

definition sameFields :: "row \<Rightarrow> row \<Rightarrow> bool" where
  "sameFields l r = (length (Fields l) = length (Fields r)
     \<and> list_all2 (\<lambda>a b. trim_space a = trim_space b) (Fields l) (Fields r))"

abbreviation "clerr \<equiv> ChangelogError"

definition Apply :: "row \<Rightarrow> materializer \<Rightarrow> (changelog_error, materializer) result" where
  "Apply r m = and_then (rowKey m r) (\<lambda>key.
     let existing = map_of (rows m) key; updatePending = (key \<in> set (pending m)) in
     if Kind r = RowInsert
     then (if existing \<noteq> None \<or> updatePending then Inl (clerr ErrDuplicateKey [] [])
           else if length (rows m) \<ge> maxRows m
           then Inl (clerr ErrMaxRows '': limit=%d'' [ArgText (show_nat (maxRows m))])
           else Inr (insert_row key r m))
     else if Kind r = RowUpdateBefore
     then (case existing of
             None \<Rightarrow> Inl (clerr ErrRowNotFound '': UPDATE_BEFORE'' [])
           | Some e \<Rightarrow>
               if updatePending then Inl (clerr ErrUpdateOrder '': duplicate UPDATE_BEFORE'' [])
               else if \<not> sameFields e r
               then Inl (clerr ErrUpdateOrder '': UPDATE_BEFORE does not match current row'' [])
               else Inr (m\<lparr>pending := key # pending m\<rparr>))
     else if Kind r = RowUpdateAfter
     then (if existing = None then Inl (clerr ErrRowNotFound '': UPDATE_AFTER'' [])
           else if \<not> updatePending
           then Inl (clerr ErrUpdateOrder '': UPDATE_AFTER without UPDATE_BEFORE'' [])
           else Inr (replace_row key r m\<lparr>pending := removeAll key (pending m)\<rparr>))
     else if Kind r = RowDelete
     then (if existing = None then Inl (clerr ErrRowNotFound '': DELETE'' [])
           else if updatePending then Inl (clerr ErrUpdateOrder '': DELETE during pending update'' [])
           else Inr (remove_row key m))
     else Inl (clerr ErrUnsupportedRowKind '': %q'' [ArgText (Kind r)]))"

definition ApplyUpdate :: "row \<Rightarrow> row \<Rightarrow> materializer \<Rightarrow> (changelog_error, materializer) result" where
  "ApplyUpdate before after m =
     (if Kind before \<noteq> RowUpdateBefore \<or> Kind after \<noteq> RowUpdateAfter
      then Inl (clerr ErrUpdateOrder '': ApplyUpdate requires UPDATE_BEFORE and UPDATE_AFTER'' [])
      else
        and_then (rowKey m before) (\<lambda>beforeKey.
        and_then (rowKey m after) (\<lambda>afterKey.
          if beforeKey \<noteq> afterKey then Inl (clerr ErrUpdateOrder '': primary key changed'' [])
          else case map_of (rows m) beforeKey of
            None \<Rightarrow> Inl (clerr ErrRowNotFound '': UPDATE_BEFORE'' [])
          | Some e \<Rightarrow>
              if beforeKey \<in> set (pending m)
              then Inl (clerr ErrUpdateOrder '': update is already pending'' [])
              else if \<not> sameFields e before
              then Inl (clerr ErrUpdateOrder '': UPDATE_BEFORE does not match current row'' [])
              else Inr (replace_row beforeKey after m))))"

definition RollbackPending :: "materializer \<Rightarrow> nat \<times> materializer" where
  "RollbackPending m = (length (pending m), m\<lparr>pending := []\<rparr>)"

definition PendingUpdates :: "materializer \<Rightarrow> nat" where
  "PendingUpdates m = length (pending m)"

fun snapshot_loop :: "(string \<times> row) list \<Rightarrow> string list \<Rightarrow> row list" where
  "snapshot_loop rs [] = []"
| "snapshot_loop rs (k # ks) =
     (case map_of rs k of
        None \<Rightarrow> snapshot_loop rs ks
      | Some r \<Rightarrow> r\<lparr>Kind := RowInsert\<rparr> # snapshot_loop rs ks)"

definition Snapshot :: "materializer \<Rightarrow> row list" where
  "Snapshot m = snapshot_loop (rows m) (order m)"

section \<open>The invariant\<close>

text \<open>The rows of the table in the order of their insertion.\<close>

definition entries :: "materializer \<Rightarrow> (string \<times> row) list" where
  "entries m = map (\<lambda>k. (k, the (map_of (rows m) k))) (filter (\<lambda>k. k \<noteq> []) (order m))"

definition store_inv :: "materializer \<Rightarrow> bool" where
  "store_inv m = (distinct (map fst (rows m)) \<and> distinct (map fst (orderIndex m))
     \<and> [] \<notin> fst ` set (rows m)
     \<and> fst ` set (rows m) = set (filter (\<lambda>k. k \<noteq> []) (order m))
     \<and> (\<forall>k i. map_of (orderIndex m) k = Some i \<longleftrightarrow> i < length (order m) \<and> order m ! i = k \<and> k \<noteq> [])
     \<and> tombstones m = count_list (order m) [])"

definition materializer_inv :: "materializer \<Rightarrow> bool" where
  "materializer_inv m = (store_inv m \<and> primaryKey m \<noteq> [] \<and> length (rows m) \<le> maxRows m
     \<and> distinct (pending m) \<and> set (pending m) \<subseteq> fst ` set (rows m))"

section \<open>The store keeps its invariant\<close>

lemma distinct_filter_nth:
  "(\<And>i j. i < length xs \<Longrightarrow> j < length xs \<Longrightarrow> xs ! i = xs ! j \<Longrightarrow> P (xs ! i) \<Longrightarrow> i = j) \<Longrightarrow>
     distinct (filter P xs)"
proof (induction xs)
  case Nil
  then show ?case by simp
next
  case (Cons x xs)
  have "i = j" if "i < length xs" "j < length xs" "xs ! i = xs ! j" "P (xs ! i)" for i j
    using Cons.prems[of "Suc i" "Suc j"] that by simp
  then have d: "distinct (filter P xs)" by (rule Cons.IH)
  have "x \<notin> set xs" if "P x"
  proof
    assume "x \<in> set xs"
    then obtain j where "j < length xs" "xs ! j = x" by (auto simp: in_set_conv_nth)
    then show False using Cons.prems[of 0 "Suc j"] that by simp
  qed
  with d show ?case by auto
qed

lemma store_inv_index:
  "store_inv m \<Longrightarrow> map_of (orderIndex m) k = Some i \<longleftrightarrow> i < length (order m) \<and> order m ! i = k \<and> k \<noteq> []"
  by (simp add: store_inv_def)

lemma store_inv_order_inj:
  "store_inv m \<Longrightarrow> i < length (order m) \<Longrightarrow> j < length (order m) \<Longrightarrow> order m ! i = order m ! j \<Longrightarrow>
     order m ! i \<noteq> [] \<Longrightarrow> i = j"
  using store_inv_index[of m "order m ! i" i] store_inv_index[of m "order m ! i" j] by auto

lemma store_inv_distinct: "store_inv m \<Longrightarrow> distinct (filter (\<lambda>k. k \<noteq> []) (order m))"
  by (rule distinct_filter_nth) (auto dest: store_inv_order_inj)

lemma store_inv_keys: "store_inv m \<Longrightarrow> fst ` set (rows m) = {k \<in> set (order m). k \<noteq> []}"
  by (auto simp: store_inv_def)

lemma map_of_None: "map_of xs k = None \<longleftrightarrow> k \<notin> fst ` set xs"
  by (simp add: map_of_eq_None_iff)

lemma entries_fst: "map fst (entries m) = filter (\<lambda>k. k \<noteq> []) (order m)"
  by (simp add: entries_def o_def)

lemma map_of_map_keys: "map_of (map (\<lambda>k. (k, f k)) ks) k = (if k \<in> set ks then Some (f k) else None)"
  by (induction ks) auto

lemma map_of_entries: "store_inv m \<Longrightarrow> map_of (entries m) k = map_of (rows m) k"
proof -
  assume inv: "store_inv m"
  have "k \<in> set (filter (\<lambda>k. k \<noteq> []) (order m)) \<longleftrightarrow> map_of (rows m) k \<noteq> None"
    using store_inv_keys[OF inv] by (auto simp: map_of_None)
  then show ?thesis unfolding entries_def map_of_map_keys by auto
qed

lemma insert_row_store:
  assumes inv: "store_inv m" and k: "k \<noteq> []" and new: "map_of (rows m) k = None"
  shows "store_inv (insert_row k r m)" "entries (insert_row k r m) = entries m @ [(k, r)]"
proof -
  have nk: "k \<notin> fst ` set (rows m)" using new by (simp add: map_of_None)
  then have no: "k \<notin> set (order m)" using store_inv_keys[OF inv] k by auto
  have rows: "AList.update k r (rows m) = rows m @ [(k, r)]" by (rule update_append[OF nk])
  have idx: "map_of (AList.update k (length (order m)) (orderIndex m)) k' = Some i \<longleftrightarrow>
      i < length (order m @ [k]) \<and> (order m @ [k]) ! i = k' \<and> k' \<noteq> []" for k' i
    using store_inv_index[OF inv, of k' i] k no
    by (cases "k' = k") (auto simp: update_conv nth_append less_Suc_eq)
  have d: "distinct (map fst (orderIndex m))" "distinct (map fst (rows m))" "[] \<notin> fst ` set (rows m)"
    "fst ` set (rows m) = set (filter (\<lambda>k. k \<noteq> []) (order m))" "tombstones m = count_list (order m) []"
    using inv unfolding store_inv_def by blast+
  show "store_inv (insert_row k r m)"
    unfolding store_inv_def
    using d k nk idx by (simp add: insert_row_def rows distinct_update)
  have known: "map_of (rows m) x \<noteq> None" if "x \<in> set (filter (\<lambda>k. k \<noteq> []) (order m))" for x
    using that store_inv_keys[OF inv] by (auto simp: map_of_None)
  have "map (\<lambda>k'. (k', the (map_of (rows m @ [(k, r)]) k'))) (filter (\<lambda>k. k \<noteq> []) (order m))
      = map (\<lambda>k'. (k', the (map_of (rows m) k'))) (filter (\<lambda>k. k \<noteq> []) (order m))"
  proof (intro map_cong refl)
    fix x assume "x \<in> set (filter (\<lambda>k. k \<noteq> []) (order m))"
    from known[OF this] show "(x, the (map_of (rows m @ [(k, r)]) x)) = (x, the (map_of (rows m) x))"
      by (auto simp: map_add_def split: option.splits)
  qed
  then show "entries (insert_row k r m) = entries m @ [(k, r)]"
    using new k by (simp add: entries_def insert_row_def rows map_add_def)
qed

lemma update_map_keys:
  assumes "distinct ks" "k \<in> set ks"
  shows "AList.update k r (map (\<lambda>x. (x, f x)) ks) = map (\<lambda>x. (x, if x = k then r else f x)) ks"
  using assms
proof (induction ks)
  case Nil
  then show ?case by simp
next
  case (Cons x ks)
  have "map (\<lambda>y. (y, if y = k then r else f y)) ks = map (\<lambda>y. (y, f y)) ks" if "k \<notin> set ks"
    using that by (intro map_cong) auto
  then show ?case using Cons by (cases "x = k") auto
qed

lemma replace_row_store:
  assumes inv: "store_inv m" and old: "map_of (rows m) k \<noteq> None"
  shows "store_inv (replace_row k r m)" "entries (replace_row k r m) = AList.update k r (entries m)"
proof -
  have k: "k \<in> fst ` set (rows m)" using old by (simp add: map_of_None)
  then have ko: "k \<in> set (filter (\<lambda>k. k \<noteq> []) (order m))" using store_inv_keys[OF inv] by auto
  have keys: "fst ` set (AList.update k r (rows m)) = fst ` set (rows m)"
    using k dom_update[of k r "rows m"] by auto
  have d: "distinct (map fst (orderIndex m))" "distinct (map fst (rows m))" "[] \<notin> fst ` set (rows m)"
    "fst ` set (rows m) = set (filter (\<lambda>k. k \<noteq> []) (order m))" "tombstones m = count_list (order m) []"
    using inv unfolding store_inv_def by blast+
  show "store_inv (replace_row k r m)"
    unfolding store_inv_def
    using d keys store_inv_index[OF inv] by (simp add: replace_row_def distinct_update)
  have "entries (replace_row k r m) = map (\<lambda>x. (x, if x = k then r else the (map_of (rows m) x)))
      (filter (\<lambda>k. k \<noteq> []) (order m))"
    by (simp add: entries_def replace_row_def update_conv)
  then show "entries (replace_row k r m) = AList.update k r (entries m)"
    unfolding entries_def[of m] update_map_keys[OF store_inv_distinct[OF inv] ko] .
qed

text \<open>Compaction renumbers the kept keys and forgets the tombstones.\<close>

lemma compact_loop_order: "fst (compact_loop ks c idx) = c @ filter (\<lambda>k. k \<noteq> []) ks"
  by (induction ks c idx rule: compact_loop.induct) auto

lemma compact_loop_distinct:
  "distinct (map fst idx) \<Longrightarrow> distinct (map fst (snd (compact_loop ks c idx)))"
  by (induction ks c idx rule: compact_loop.induct) (auto simp: distinct_update)

lemma compact_loop_other:
  "k \<notin> set (filter (\<lambda>k. k \<noteq> []) ks) \<Longrightarrow> map_of (snd (compact_loop ks c idx)) k = map_of idx k"
  by (induction ks c idx rule: compact_loop.induct) (auto simp: update_conv split: if_splits)

lemma compact_loop_index:
  assumes "distinct (c @ filter (\<lambda>k. k \<noteq> []) ks)"
    and "\<And>k i. k \<in> set c \<Longrightarrow> map_of idx k = Some i \<longleftrightarrow> i < length c \<and> c ! i = k"
    and "k \<in> set (c @ filter (\<lambda>k. k \<noteq> []) ks)"
  shows "map_of (snd (compact_loop ks c idx)) k = Some i \<longleftrightarrow>
      i < length (c @ filter (\<lambda>k. k \<noteq> []) ks) \<and> (c @ filter (\<lambda>k. k \<noteq> []) ks) ! i = k"
  using assms
proof (induction ks c idx rule: compact_loop.induct)
  case (1 c idx)
  then show ?case by simp
next
  case (2 x ks c idx)
  show ?case
  proof (cases "x = []")
    case True
    then show ?thesis using "2.IH"(1)[OF True] "2.prems" by simp
  next
    case False
    have "map_of (AList.update x (length c) idx) k = Some i \<longleftrightarrow> i < length (c @ [x]) \<and> (c @ [x]) ! i = k"
      if "k \<in> set (c @ [x])" for k i
      using that 2(3) 2(4)[of k i] False
      by (cases "k = x") (auto simp: update_conv nth_append less_Suc_eq)
    then show ?thesis using "2.IH"(2)[OF False] "2.prems" False by simp
  qed
qed

lemma compactOrderLocked_store:
  assumes inv: "store_inv m"
  shows "store_inv (compactOrderLocked m)" "entries (compactOrderLocked m) = entries m"
    "rows (compactOrderLocked m) = rows m"
proof -
  let ?ks = "filter (\<lambda>k. k \<noteq> []) (order m)"
  obtain idx where loop: "compact_loop (order m) [] (orderIndex m) = (?ks, idx)"
    using compact_loop_order[of "order m" "[]" "orderIndex m"] by (cases "compact_loop (order m) [] (orderIndex m)") auto
  have m': "compactOrderLocked m = m\<lparr>orderIndex := idx, order := ?ks, tombstones := 0\<rparr>"
    by (simp add: compactOrderLocked_def loop)
  have d: "distinct (map fst (orderIndex m))" "distinct (map fst (rows m))" "[] \<notin> fst ` set (rows m)"
    "fst ` set (rows m) = set ?ks"
    using inv unfolding store_inv_def by blast+
  have di: "distinct (map fst idx)"
    using compact_loop_distinct[OF d(1), of "order m" "[]"] by (simp add: loop)
  have idx: "map_of idx k = Some i \<longleftrightarrow> i < length ?ks \<and> ?ks ! i = k \<and> k \<noteq> []" for k i
  proof (cases "k \<in> set ?ks")
    case True
    then show ?thesis
      using compact_loop_index[of "[]" "order m" "orderIndex m" k i] store_inv_distinct[OF inv]
      by (simp add: loop)
  next
    case False
    have "map_of (orderIndex m) k \<noteq> Some j" for j
      using store_inv_index[OF inv, of k j] False by auto
    then have "map_of (orderIndex m) k = None" by (cases "map_of (orderIndex m) k") auto
    then have "map_of idx k = None"
      using compact_loop_other[OF False, of "[]" "orderIndex m"] by (simp add: loop)
    moreover have "\<not> (i < length ?ks \<and> ?ks ! i = k)" using False nth_mem by blast
    ultimately show ?thesis by auto
  qed
  have "count_list ?ks [] = 0" by (simp add: count_list_0_iff)
  then show "store_inv (compactOrderLocked m)"
    unfolding store_inv_def m' using d di idx by simp
  show "entries (compactOrderLocked m) = entries m" "rows (compactOrderLocked m) = rows m"
    by (simp_all add: entries_def m')
qed

lemma filter_update_nth:
  assumes "i < length xs" "xs ! i = k" "k \<noteq> []" "\<And>j. j < length xs \<Longrightarrow> xs ! j = k \<Longrightarrow> j = i"
  shows "filter (\<lambda>x. x \<noteq> []) (xs[i := []]) = filter (\<lambda>x. x \<noteq> k) (filter (\<lambda>x. x \<noteq> []) xs)"
    "count_list (xs[i := []]) [] = count_list xs [] + 1"
proof -
  have xs: "xs = take i xs @ k # drop (Suc i) xs" using assms(1,2) id_take_nth_drop by metis
  have up: "xs[i := []] = take i xs @ [] # drop (Suc i) xs" using assms(1) by (simp add: upd_conv_take_nth_drop)
  have nk: "k \<notin> set (take i xs)" "k \<notin> set (drop (Suc i) xs)"
  proof -
    show "k \<notin> set (take i xs)"
    proof
      assume "k \<in> set (take i xs)"
      then obtain j where "j < i" "xs ! j = k" using assms(1) by (auto simp: in_set_conv_nth)
      then show False using assms(4)[of j] assms(1) by simp
    qed
    show "k \<notin> set (drop (Suc i) xs)"
    proof
      assume "k \<in> set (drop (Suc i) xs)"
      then obtain j where "j < length xs - Suc i" "xs ! (Suc i + j) = k" by (auto simp: in_set_conv_nth)
      moreover have "Suc i + j < length xs" using calculation(1) by linarith
      ultimately show False using assms(4)[of "Suc i + j"] by simp
    qed
  qed
  have f: "filter (\<lambda>x. x \<noteq> [] \<and> x \<noteq> k) ys = filter (\<lambda>x. x \<noteq> []) ys" if "k \<notin> set ys" for ys
    using that by (induction ys) auto
  show "filter (\<lambda>x. x \<noteq> []) (xs[i := []]) = filter (\<lambda>x. x \<noteq> k) (filter (\<lambda>x. x \<noteq> []) xs)"
    unfolding up by (subst (3) xs) (use assms(3) in \<open>simp add: f[OF nk(1)] f[OF nk(2)]\<close>)
  show "count_list (xs[i := []]) [] = count_list xs [] + 1"
    unfolding up by (subst (3) xs) (use assms(3) in simp)
qed

lemma delete_map_keys:
  "AList.delete k (map (\<lambda>x. (x, f x)) ks) = map (\<lambda>x. (x, f x)) (filter (\<lambda>x. x \<noteq> k) ks)"
  by (induction ks) (auto simp: AList.delete_eq)

lemma remove_row_store:
  assumes inv: "store_inv m" and old: "map_of (rows m) k \<noteq> None"
  shows "store_inv (remove_row k m)" "entries (remove_row k m) = AList.delete k (entries m)"
    "rows (remove_row k m) = AList.delete k (rows m)"
proof -
  have k: "k \<in> set (order m)" "k \<noteq> []" using old store_inv_keys[OF inv] by (auto simp: map_of_None)
  then obtain i where i: "i < length (order m)" "order m ! i = k" by (auto simp: in_set_conv_nth)
  have uniq: "j = i" if "j < length (order m)" "order m ! j = k" for j
    using store_inv_order_inj[OF inv that(1) i(1)] that i k by simp
  note upd = filter_update_nth[OF i k(2) uniq]
  have oi: "map_of (orderIndex m) k = Some i" using store_inv_index[OF inv] i k by simp
  define m1 where "m1 = m\<lparr>rows := AList.delete k (rows m), orderIndex := AList.delete k (orderIndex m),
    order := (order m)[i := []], tombstones := tombstones m + 1\<rparr>"
  have rm: "remove_row k m = (if tombstones m1 > 1024 \<and> tombstones m1 * 2 > length (order m1)
      then compactOrderLocked m1 else m1)"
    by (simp add: remove_row_def removeOrder_def oi m1_def Let_def)
  have d: "distinct (map fst (orderIndex m))" "distinct (map fst (rows m))" "[] \<notin> fst ` set (rows m)"
    "fst ` set (rows m) = set (filter (\<lambda>k. k \<noteq> []) (order m))" "tombstones m = count_list (order m) []"
    using inv unfolding store_inv_def by blast+
  have idx: "map_of (AList.delete k (orderIndex m)) k' = Some j \<longleftrightarrow>
      j < length ((order m)[i := []]) \<and> (order m)[i := []] ! j = k' \<and> k' \<noteq> []" for k' j
  proof (cases "k' = k")
    case True
    have "\<not> (j < length ((order m)[i := []]) \<and> (order m)[i := []] ! j = k)"
      using uniq[of j] k(2) i(1) by (cases "j = i") auto
    then show ?thesis using True by (auto simp: delete_conv)
  next
    case False
    then show ?thesis
      using store_inv_index[OF inv, of k' j] i by (cases "j = i") (auto simp: delete_conv)
  qed
  have keys: "fst ` set (AList.delete k (rows m)) = fst ` set (rows m) - {k}"
    by (auto simp: AList.delete_eq)
  have s1: "store_inv m1"
    unfolding store_inv_def
  proof (intro conjI)
    show "distinct (map fst (rows m1))" "distinct (map fst (orderIndex m1))"
      using d by (simp_all add: m1_def distinct_delete)
    show "[] \<notin> fst ` set (rows m1)" using d(3) keys by (simp add: m1_def)
    show "fst ` set (rows m1) = set (filter (\<lambda>k. k \<noteq> []) (order m1))"
      using d(4) keys upd(1) by (auto simp: m1_def)
    show "\<forall>k' j. map_of (orderIndex m1) k' = Some j \<longleftrightarrow> j < length (order m1) \<and> order m1 ! j = k' \<and> k' \<noteq> []"
      using idx by (simp add: m1_def)
    show "tombstones m1 = count_list (order m1) []" using d(5) upd(2) by (simp add: m1_def)
  qed
  have e1: "entries m1 = AList.delete k (entries m)"
    unfolding entries_def delete_map_keys
    using upd(1) by (auto simp: m1_def delete_conv' intro!: map_cong)
  show "store_inv (remove_row k m)" using s1 compactOrderLocked_store(1)[OF s1] by (simp add: rm)
  show "entries (remove_row k m) = AList.delete k (entries m)"
    using e1 compactOrderLocked_store(2)[OF s1] by (simp add: rm)
  show "rows (remove_row k m) = AList.delete k (rows m)"
    using compactOrderLocked_store(3)[OF s1] by (simp add: rm m1_def)
qed

section \<open>The contract of the store, and its client\<close>

text \<open>What the methods rely on: a store lists its entries in insertion order.\<close>

locale ordered_store =
  fixes inv :: "'s \<Rightarrow> bool" and list_of :: "'s \<Rightarrow> (string \<times> 'r) list" and get :: "'s \<Rightarrow> string \<Rightarrow> 'r option"
    and put :: "string \<Rightarrow> 'r \<Rightarrow> 's \<Rightarrow> 's" and repl :: "string \<Rightarrow> 'r \<Rightarrow> 's \<Rightarrow> 's" and del :: "string \<Rightarrow> 's \<Rightarrow> 's"
  assumes get_list: "inv s \<Longrightarrow> get s k = map_of (list_of s) k"
    and list_distinct: "inv s \<Longrightarrow> distinct (map fst (list_of s))"
    and put_list: "inv s \<Longrightarrow> k \<noteq> [] \<Longrightarrow> get s k = None \<Longrightarrow>
          inv (put k r s) \<and> list_of (put k r s) = list_of s @ [(k, r)]"
    and repl_list: "inv s \<Longrightarrow> get s k \<noteq> None \<Longrightarrow>
          inv (repl k r s) \<and> list_of (repl k r s) = AList.update k r (list_of s)"
    and del_list: "inv s \<Longrightarrow> get s k \<noteq> None \<Longrightarrow>
          inv (del k s) \<and> list_of (del k s) = AList.delete k (list_of s)"
begin

lemma get_put: "inv s \<Longrightarrow> k \<noteq> [] \<Longrightarrow> get s k = None \<Longrightarrow> get (put k r s) k' = (if k' = k then Some r else get s k')"
  using put_list[of s k r] by (auto simp: get_list map_add_def split: option.splits)

lemma get_repl: "inv s \<Longrightarrow> get s k \<noteq> None \<Longrightarrow> get (repl k r s) k' = (if k' = k then Some r else get s k')"
  using repl_list[of s k r] by (simp add: get_list update_conv)

lemma get_del: "inv s \<Longrightarrow> get s k \<noteq> None \<Longrightarrow> get (del k s) k' = (if k' = k then None else get s k')"
  using del_list[of s k] by (simp add: get_list delete_conv)

lemma dom_get: "inv s \<Longrightarrow> get s k \<noteq> None \<longleftrightarrow> k \<in> fst ` set (list_of s)"
  by (simp add: get_list map_of_None)

text \<open>Replacing keeps the position, deleting keeps the order of the rest.\<close>

lemma repl_keys: "inv s \<Longrightarrow> get s k \<noteq> None \<Longrightarrow> map fst (list_of (repl k r s)) = map fst (list_of s)"
  using repl_list[of s k r] dom_get[of s k] by (auto simp: update_keys)

lemma repl_twice:
  "inv s \<Longrightarrow> get s k \<noteq> None \<Longrightarrow> list_of (repl k r' (repl k r s)) = list_of (repl k r' s)"
  using repl_list[of s k r] repl_list[of "repl k r s" k r'] repl_list[of s k r'] get_repl[of s k r k]
  by simp

end

interpretation mstore: ordered_store store_inv entries "\<lambda>m. map_of (rows m)" insert_row replace_row remove_row
proof unfold_locales
  fix s :: materializer and k r
  assume s: "store_inv s"
  show "map_of (rows s) k = map_of (entries s) k" by (simp add: map_of_entries[OF s])
  show "distinct (map fst (entries s))" using store_inv_distinct[OF s] by (simp add: entries_fst)
  show "store_inv (insert_row k r s) \<and> entries (insert_row k r s) = entries s @ [(k, r)]"
    if "k \<noteq> []" "map_of (rows s) k = None"
    using insert_row_store[OF s that] by simp
  show "store_inv (replace_row k r s) \<and> entries (replace_row k r s) = AList.update k r (entries s)"
    if "map_of (rows s) k \<noteq> None"
    using replace_row_store[OF s that] by simp
  show "store_inv (remove_row k s) \<and> entries (remove_row k s) = AList.delete k (entries s)"
    if "map_of (rows s) k \<noteq> None"
    using remove_row_store[OF s that] by simp
qed

section \<open>Keys are injective\<close>

lemma key_part_split:
  assumes "key_part a @ x = key_part b @ y"
  shows "a = b \<and> x = y"
proof -
  have tw: "takeWhile (\<lambda>c. c \<noteq> CHR '':'') (show_nat n @ CHR '':'' # z) = show_nat n" for n z
    using show_nat_no_char[of "CHR '':''" n] by (subst takeWhile_append2) auto
  have eq: "show_nat (length a) @ CHR '':'' # a @ ''|'' @ x = show_nat (length b) @ CHR '':'' # b @ ''|'' @ y"
    using assms by (simp add: key_part_def)
  then have "show_nat (length a) = show_nat (length b)" by (metis tw)
  then have len: "length a = length b" by simp
  then have "a @ ''|'' @ x = b @ ''|'' @ y" using eq by simp
  then show ?thesis using len by simp
qed

lemma concat_key_parts:
  "length as = length bs \<Longrightarrow> concat (map key_part as) = concat (map key_part bs) \<Longrightarrow> as = bs"
proof (induction as bs rule: list_induct2)
  case Nil
  then show ?case by simp
next
  case (Cons a as b bs)
  then show ?case using key_part_split[of a "concat (map key_part as)" b "concat (map key_part bs)"] by simp
qed

definition column_form :: "materializer \<Rightarrow> row \<Rightarrow> string \<Rightarrow> string option" where
  "column_form m r column =
     (case Raw (WithColumns r (columns m)) column of Inl _ \<Rightarrow> None | Inr (raw, _) \<Rightarrow> canonicalJSON raw)"

lemma key_column_Inr: "key_column (WithColumns r (columns m)) c = Inr p \<Longrightarrow> \<exists>f. column_form m r c = Some f \<and> p = key_part f"
  by (auto simp: key_column_def column_form_def split: sum.splits if_splits option.splits prod.splits)

lemma rowKey_parts:
  assumes "rowKey m r = Inr k"
  obtains fs where "k = concat (map key_part fs)" "map (column_form m r) (primaryKey m) = map Some fs"
proof -
  from assms obtain ps where ps: "map_result (key_column (WithColumns r (columns m))) (primaryKey m) = Inr ps"
    and k: "k = concat ps" by (auto simp: rowKey_def and_then_Inr_iff)
  have "\<exists>fs. ps = map key_part fs \<and> map (column_form m r) cs = map Some fs"
    if "map_result (key_column (WithColumns r (columns m))) cs = Inr ps" for cs ps
    using that
  proof (induction cs arbitrary: ps)
    case Nil
    then show ?case by simp
  next
    case (Cons c cs)
    then obtain p ps' where p: "key_column (WithColumns r (columns m)) c = Inr p"
      "map_result (key_column (WithColumns r (columns m))) cs = Inr ps'" "ps = p # ps'"
      by (auto simp: and_then_Inr_iff)
    from Cons.IH[OF p(2)] obtain fs where "ps' = map key_part fs" "map (column_form m r) cs = map Some fs" by blast
    moreover from key_column_Inr[OF p(1)] obtain f where "column_form m r c = Some f" "p = key_part f" by blast
    ultimately show ?case using p(3) by (intro exI[of _ "f # fs"]) simp
  qed
  from this[OF ps] obtain fs where "ps = map key_part fs" "map (column_form m r) (primaryKey m) = map Some fs"
    by blast
  with k that show ?thesis by blast
qed

lemma rowKey_nonempty: "rowKey m r = Inr k \<Longrightarrow> primaryKey m \<noteq> [] \<Longrightarrow> k \<noteq> []"
proof -
  assume k: "rowKey m r = Inr k" and ne: "primaryKey m \<noteq> []"
  from k obtain fs where "k = concat (map key_part fs)" "map (column_form m r) (primaryKey m) = map Some fs"
    by (rule rowKey_parts)
  then show ?thesis using ne by (cases fs) (auto simp: key_part_def)
qed

text \<open>C17: two rows get the same internal key exactly when every primary-key column holds the
  same JSON value in both: no two different key tuples collide, whatever bytes they contain.\<close>

theorem rowKey_injective:
  assumes "rowKey m r = Inr k" "rowKey m r' = Inr k'"
  shows "k = k' \<longleftrightarrow> list_all (\<lambda>c. column_form m r c = column_form m r' c) (primaryKey m)"
proof -
  from assms(1) obtain fs where fs: "k = concat (map key_part fs)" "map (column_form m r) (primaryKey m) = map Some fs"
    by (rule rowKey_parts)
  from assms(2) obtain gs where gs: "k' = concat (map key_part gs)" "map (column_form m r') (primaryKey m) = map Some gs"
    by (rule rowKey_parts)
  have len: "length fs = length gs" using fs(2) gs(2) by (metis length_map)
  have "k = k' \<longleftrightarrow> fs = gs" using concat_key_parts[OF len] fs(1) gs(1) by blast
  also have "fs = gs \<longleftrightarrow> map Some fs = map Some gs" by (simp add: inj_map_eq_map)
  also have "\<dots> \<longleftrightarrow> map (column_form m r) (primaryKey m) = map (column_form m r') (primaryKey m)"
    using fs(2) gs(2) by simp
  also have "\<dots> \<longleftrightarrow> list_all (\<lambda>c. column_form m r c = column_form m r' c) (primaryKey m)"
    by (simp add: list_all_iff)
  finally show ?thesis .
qed

section \<open>The table a changelog describes\<close>

text \<open>The specification: an insertion-ordered table and the set of keys with half an update.\<close>

type_synonym table = "(string \<times> row) list \<times> string set"

definition spec_apply :: "nat \<Rightarrow> string \<Rightarrow> row \<Rightarrow> table \<Rightarrow> (changelog_error, table) result" where
  "spec_apply limit key r t =
     (let tbl = fst t; pend = snd t; existing = map_of tbl key in
      if Kind r = RowInsert
      then (if existing \<noteq> None \<or> key \<in> pend then Inl (clerr ErrDuplicateKey [] [])
            else if length tbl \<ge> limit then Inl (clerr ErrMaxRows '': limit=%d'' [ArgText (show_nat limit)])
            else Inr (tbl @ [(key, r)], pend))
      else if Kind r = RowUpdateBefore
      then (case existing of
              None \<Rightarrow> Inl (clerr ErrRowNotFound '': UPDATE_BEFORE'' [])
            | Some e \<Rightarrow>
                if key \<in> pend then Inl (clerr ErrUpdateOrder '': duplicate UPDATE_BEFORE'' [])
                else if \<not> sameFields e r
                then Inl (clerr ErrUpdateOrder '': UPDATE_BEFORE does not match current row'' [])
                else Inr (tbl, insert key pend))
      else if Kind r = RowUpdateAfter
      then (if existing = None then Inl (clerr ErrRowNotFound '': UPDATE_AFTER'' [])
            else if key \<notin> pend then Inl (clerr ErrUpdateOrder '': UPDATE_AFTER without UPDATE_BEFORE'' [])
            else Inr (AList.update key r tbl, pend - {key}))
      else if Kind r = RowDelete
      then (if existing = None then Inl (clerr ErrRowNotFound '': DELETE'' [])
            else if key \<in> pend then Inl (clerr ErrUpdateOrder '': DELETE during pending update'' [])
            else Inr (AList.delete key tbl, pend))
      else Inl (clerr ErrUnsupportedRowKind '': %q'' [ArgText (Kind r)]))"

definition abs_table :: "materializer \<Rightarrow> table" where
  "abs_table m = (entries m, set (pending m))"

lemma insert_row_fields [simp]:
  "primaryKey (insert_row k r m) = primaryKey m" "columns (insert_row k r m) = columns m"
  "maxRows (insert_row k r m) = maxRows m" "pending (insert_row k r m) = pending m"
  by (simp_all add: insert_row_def)

lemma replace_row_fields [simp]:
  "primaryKey (replace_row k r m) = primaryKey m" "columns (replace_row k r m) = columns m"
  "maxRows (replace_row k r m) = maxRows m" "pending (replace_row k r m) = pending m"
  by (simp_all add: replace_row_def)

lemma remove_row_fields [simp]:
  "primaryKey (remove_row k m) = primaryKey m" "columns (remove_row k m) = columns m"
  "maxRows (remove_row k m) = maxRows m" "pending (remove_row k m) = pending m"
  by (simp_all add: remove_row_def removeOrder_def compactOrderLocked_def Let_def
      split: option.splits prod.splits)

lemma entries_pending [simp]: "entries (m\<lparr>pending := p\<rparr>) = entries m"
  by (simp add: entries_def)

lemma store_inv_pending [simp]: "store_inv (m\<lparr>pending := p\<rparr>) = store_inv m"
  by (simp add: store_inv_def)

lemma rows_keys: "store_inv m \<Longrightarrow> fst ` set (rows m) = fst ` set (entries m)"
proof -
  assume inv: "store_inv m"
  have "x \<in> fst ` set (rows m) \<longleftrightarrow> x \<in> fst ` set (entries m)" for x
    using map_of_None[of "rows m" x] map_of_None[of "entries m" x] map_of_entries[OF inv, of x] by simp
  then show ?thesis by blast
qed

lemma store_inv_length: "store_inv m \<Longrightarrow> length (rows m) = length (entries m)"
proof -
  assume inv: "store_inv m"
  have "length (rows m) = card (fst ` set (rows m))"
    using inv distinct_card[of "map fst (rows m)"] by (simp add: store_inv_def)
  moreover have "length (entries m) = card (fst ` set (entries m))"
    using mstore.list_distinct[OF inv] distinct_card[of "map fst (entries m)"] by simp
  ultimately show ?thesis using rows_keys[OF inv] by simp
qed

text \<open>C2: the materializer implements that table: on every row, with every error, \<open>Apply\<close> does
  to the stored maps, order, index and tombstones exactly what the specification does to the
  table.\<close>

theorem Apply_refines:
  assumes "materializer_inv m"
  shows "map_sum id abs_table (Apply r m) =
    and_then (rowKey m r) (\<lambda>key. spec_apply (maxRows m) key r (abs_table m))"
proof (cases "rowKey m r")
  case (Inl e)
  then show ?thesis by (simp add: Apply_def)
next
  case (Inr key)
  have inv: "store_inv m" and k: "key \<noteq> []"
    using assms rowKey_nonempty[OF Inr] by (simp_all add: materializer_inv_def)
  note get = mstore.get_list[OF inv] and len = store_inv_length[OF inv]
  note put = mstore.put_list[OF inv k] and repl = mstore.repl_list[OF inv] and del = mstore.del_list[OF inv]
  note defs = Apply_def spec_apply_def abs_table_def Inr Let_def
  consider "Kind r = RowInsert" | "Kind r = RowUpdateBefore" | "Kind r = RowUpdateAfter"
    | "Kind r = RowDelete"
    | "Kind r \<notin> {RowInsert, RowUpdateBefore, RowUpdateAfter, RowDelete}" by blast
  then show ?thesis
  proof cases
    case 1
    then show ?thesis using get[of key] len put[of r] by (simp add: defs)
  next
    case 2
    then show ?thesis using get[of key] by (cases "map_of (entries m) key") (simp_all add: defs)
  next
    case 3
    then show ?thesis using get[of key] repl[of key r]
      by (cases "map_of (entries m) key") (auto simp: defs)
  next
    case 4
    then show ?thesis using get[of key] del[of key]
      by (cases "map_of (entries m) key") (auto simp: defs)
  next
    case 5
    then show ?thesis by (simp add: defs)
  qed
qed

text \<open>Every method keeps the invariant.\<close>

lemma materializer_inv_keys: "materializer_inv m \<Longrightarrow> set (pending m) \<subseteq> fst ` set (entries m)"
  using rows_keys[of m] by (simp add: materializer_inv_def)

lemma materializer_invI:
  assumes "store_inv m" "primaryKey m \<noteq> []" "length (entries m) \<le> maxRows m" "distinct (pending m)"
    "set (pending m) \<subseteq> fst ` set (entries m)"
  shows "materializer_inv m"
  using assms rows_keys[OF assms(1)] store_inv_length[OF assms(1)] by (simp add: materializer_inv_def)

lemma insert_row_inv:
  assumes inv: "materializer_inv m" and "k \<noteq> []" "map_of (rows m) k = None" "length (rows m) < maxRows m"
  shows "materializer_inv (insert_row k r m)"
proof -
  have s: "store_inv m" using inv by (simp add: materializer_inv_def)
  have put: "store_inv (insert_row k r m)" "entries (insert_row k r m) = entries m @ [(k, r)]"
    using mstore.put_list[OF s assms(2,3)] by auto
  show ?thesis
    using put inv materializer_inv_keys[OF inv] assms(4) store_inv_length[OF s]
    by (intro materializer_invI) (auto simp: materializer_inv_def)
qed

lemma replace_row_inv:
  assumes inv: "materializer_inv m" and "map_of (rows m) k \<noteq> None"
  shows "materializer_inv (replace_row k r m)"
proof -
  have s: "store_inv m" using inv by (simp add: materializer_inv_def)
  have rep: "store_inv (replace_row k r m)" "map fst (entries (replace_row k r m)) = map fst (entries m)"
    using mstore.repl_list[OF s assms(2)] mstore.repl_keys[OF s assms(2)] by auto
  then have "length (entries (replace_row k r m)) = length (entries m)"
    "fst ` set (entries (replace_row k r m)) = fst ` set (entries m)"
    by (metis length_map, metis list.set_map)
  then show ?thesis
    using rep(1) inv materializer_inv_keys[OF inv] store_inv_length[OF s]
    by (intro materializer_invI) (auto simp: materializer_inv_def)
qed

lemma remove_row_inv:
  assumes inv: "materializer_inv m" and "map_of (rows m) k \<noteq> None" "k \<notin> set (pending m)"
  shows "materializer_inv (remove_row k m)"
proof -
  have s: "store_inv m" using inv by (simp add: materializer_inv_def)
  have del: "store_inv (remove_row k m)" "entries (remove_row k m) = AList.delete k (entries m)"
    using mstore.del_list[OF s assms(2)] by auto
  have "fst ` set (AList.delete k (entries m)) = fst ` set (entries m) - {k}"
    by (auto simp: AList.delete_eq)
  then show ?thesis
    using del inv materializer_inv_keys[OF inv] assms(3) store_inv_length[OF s]
      le_trans[OF length_delete_le[of k "entries m"], of "maxRows m"]
    by (intro materializer_invI) (auto simp: materializer_inv_def)
qed

lemma materializer_inv_pending:
  "materializer_inv m \<Longrightarrow> distinct p \<Longrightarrow> set p \<subseteq> fst ` set (rows m) \<Longrightarrow> materializer_inv (m\<lparr>pending := p\<rparr>)"
  by (simp add: materializer_inv_def)

lemma Apply_inv:
  assumes inv: "materializer_inv m" and step: "Apply r m = Inr m'"
  shows "materializer_inv m'"
proof -
  from step obtain key where key: "rowKey m r = Inr key" by (auto simp: Apply_def and_then_Inr_iff)
  have k: "key \<noteq> []" using inv rowKey_nonempty[OF key] by (simp add: materializer_inv_def)
  have pend: "distinct (pending m)" "set (pending m) \<subseteq> fst ` set (rows m)"
    using inv by (simp_all add: materializer_inv_def)
  note defs = Apply_def key Let_def
  consider (ins) "m' = insert_row key r m" "map_of (rows m) key = None" "length (rows m) < maxRows m"
    | (bef) "m' = m\<lparr>pending := key # pending m\<rparr>" "map_of (rows m) key \<noteq> None" "key \<notin> set (pending m)"
    | (aft) "m' = replace_row key r m\<lparr>pending := removeAll key (pending m)\<rparr>" "map_of (rows m) key \<noteq> None"
    | (del) "m' = remove_row key m" "map_of (rows m) key \<noteq> None" "key \<notin> set (pending m)"
    using step by (auto simp: defs split: if_splits option.splits)
  then show ?thesis
  proof cases
    case ins
    then show ?thesis using insert_row_inv[OF inv k] by simp
  next
    case bef
    then have "key \<in> fst ` set (rows m)" by (simp add: map_of_None)
    then show ?thesis using bef pend materializer_inv_pending[OF inv] by simp
  next
    case aft
    let ?m = "replace_row key r m\<lparr>pending := removeAll key (pending m)\<rparr>"
    have eq: "?m = replace_row key r (m\<lparr>pending := removeAll key (pending m)\<rparr>)" by (simp add: replace_row_def)
    have "materializer_inv (m\<lparr>pending := removeAll key (pending m)\<rparr>)"
      using pend by (intro materializer_inv_pending[OF inv]) (auto simp: distinct_removeAll)
    then show ?thesis unfolding aft(1) eq using aft(2) by (intro replace_row_inv) simp_all
  next
    case del
    then show ?thesis using remove_row_inv[OF inv] by simp
  qed
qed

lemma ApplyUpdate_inv: "materializer_inv m \<Longrightarrow> ApplyUpdate b a m = Inr m' \<Longrightarrow> materializer_inv m'"
  by (auto simp: ApplyUpdate_def and_then_Inr_iff intro: replace_row_inv split: if_splits option.splits)

lemma RollbackPending_inv: "materializer_inv m \<Longrightarrow> materializer_inv (snd (RollbackPending m))"
  by (simp add: RollbackPending_def materializer_inv_pending)

lemma NewMaterializer_inv: "NewMaterializer opts = Inr m \<Longrightarrow> materializer_inv m"
  by (auto simp: NewMaterializer_def and_then_Inr_iff materializer_inv_def store_inv_def
      split: if_splits option.splits)

inductive reachable :: "materializer \<Rightarrow> bool" where
  new: "NewMaterializer opts = Inr m \<Longrightarrow> reachable m"
| apply_row: "reachable m \<Longrightarrow> Apply r m = Inr m' \<Longrightarrow> reachable m'"
| apply_update: "reachable m \<Longrightarrow> ApplyUpdate b a m = Inr m' \<Longrightarrow> reachable m'"
| rollback: "reachable m \<Longrightarrow> RollbackPending m = (n, m') \<Longrightarrow> reachable m'"

text \<open>C18: in every state the exported methods can reach, the rows, the insertion order, its index
  and the tombstone count agree, the key of every half update is in the table, and the table
  never exceeds its limit.\<close>

theorem reachable_inv:
  assumes "reachable m"
  shows "materializer_inv m"
  using assms
proof (induction rule: reachable.induct)
  case (new opts m)
  then show ?case by (rule NewMaterializer_inv)
next
  case (apply_row m r m')
  then show ?case by (blast intro: Apply_inv)
next
  case (apply_update m b a m')
  then show ?case by (blast intro: ApplyUpdate_inv)
next
  case (rollback m n m')
  then show ?case using RollbackPending_inv[of m] by simp
qed

text \<open>\<open>Snapshot\<close> lists the rows in the order they were inserted, one for each key, updated in
  place, with the kind \<open>INSERT\<close>.\<close>

theorem Snapshot_entries:
  assumes "materializer_inv m"
  shows "Snapshot m = map (\<lambda>kr. (snd kr)\<lparr>Kind := RowInsert\<rparr>) (entries m)"
proof -
  have inv: "store_inv m" using assms by (simp add: materializer_inv_def)
  have loop: "snapshot_loop (rows m) ks =
      map (\<lambda>kr. (snd kr)\<lparr>Kind := RowInsert\<rparr>) (map (\<lambda>k. (k, the (map_of (rows m) k))) (filter (\<lambda>k. k \<noteq> []) ks))"
    if "set ks \<subseteq> set (order m)" for ks
    using that
  proof (induction ks)
    case Nil
    then show ?case by simp
  next
    case (Cons k ks)
    have "map_of (rows m) k = None \<longleftrightarrow> k = []"
      using Cons.prems store_inv_keys[OF inv] by (auto simp: map_of_None)
    then show ?case using Cons by (auto split: option.splits)
  qed
  show ?thesis unfolding Snapshot_def using loop[of "order m"] by (simp add: entries_def)
qed

text \<open>\<open>ApplyUpdate\<close> is the pair of \<open>Apply\<close> calls with no state between them: for two rows
  with one key it succeeds exactly when both do, with the same result.\<close>

theorem ApplyUpdate_is_pair:
  assumes "rowKey m b = Inr key" "rowKey m a = Inr key" "Kind b = RowUpdateBefore" "Kind a = RowUpdateAfter"
  shows "ApplyUpdate b a m = Inr m' \<longleftrightarrow> (\<exists>m1. Apply b m = Inr m1 \<and> Apply a m1 = Inr m')"
proof -
  have key': "rowKey (m\<lparr>pending := p\<rparr>) a = Inr key" for p
    using assms(2) by (simp add: rowKey_def)
  have rep: "replace_row key a (m\<lparr>pending := key # pending m\<rparr>)\<lparr>pending := removeAll key (pending m)\<rparr>
      = replace_row key a m" if "key \<notin> set (pending m)"
    using that by (simp add: replace_row_def)
  show ?thesis
    using assms key' rep
    by (cases "map_of (rows m) key") (auto simp: ApplyUpdate_def Apply_def Let_def)
qed

section \<open>Examples\<close>

text \<open>A table with one key column, and rows with the key 1.\<close>

definition example_materializer :: "nat \<Rightarrow> materializer" where
  "example_materializer limit = \<lparr>primaryKey = [''a''], columns = [example_column ''a''], maxRows = limit,
     rows = [], order = [], orderIndex = [], tombstones = 0, pending = []\<rparr>"

definition example_row :: "string \<Rightarrow> row" where
  "example_row kind = \<lparr>Kind = kind, Fields = [''1'']\<rparr>"

lemma example_new:
  "NewMaterializer [Some (PrimaryKey [''a'']), None, Some (ColumnsOption [example_column ''a'']), Some (MaxRows 2)]
     = Inr (example_materializer 2)"
  by (simp add: NewMaterializer_def example_materializer_def example_column_def trim_space_def byte_def is_space_def)

lemma example_inv: "materializer_inv (example_materializer n)"
  by (simp add: materializer_inv_def store_inv_def example_materializer_def)

lemma example_canonical: "canonicalJSON ''1'' = Some ''1''" "json_valid ''1''"
proof -
  have "parse_val (Suc 0) maxNestingDepth ''1'' = Some (JNum ''1'', [])"
    by (simp add: skip_ws_def json_ws_def byte_def parse_scalar_def
        parse_num_def parse_int_def parse_frac_def parse_exp_def is_digit_def)
  from parse_first_enough[OF this] show "canonicalJSON ''1'' = Some ''1''" "json_valid ''1''"
    by (simp_all add: canonicalJSON_def json_valid_def parse_json_def skip_ws_def)
qed

lemma example_key:
  "primaryKey m = [''a''] \<Longrightarrow> columns m = [example_column ''a''] \<Longrightarrow> rowKey m (example_row kind) = Inr ''1:1|''"
proof -
  assume m: "primaryKey m = [''a'']" "columns m = [example_column ''a'']"
  have t: "trim_space ''1'' = ''1''" by (simp add: trim_space_def byte_def is_space_def)
  have "show_nat (Suc 0) = ''1''" by code_simp
  moreover have "Raw (WithColumns (example_row kind) [example_column ''a'']) ''a'' = Inr (''1'', False)"
    by (simp add: Raw_def columnIndex_def RawAt_def WithColumns_def example_column_def example_row_def
        validateRawJSONField_def t example_canonical)
  ultimately show ?thesis
    by (simp add: rowKey_def m key_column_def t example_canonical key_part_def)
qed

lemma example_keys [simp]: "rowKey (example_materializer n) (example_row kind) = Inr ''1:1|''"
  by (rule example_key) (simp_all add: example_materializer_def)

definition example_state :: materializer where
  "example_state = insert_row ''1:1|'' (example_row RowInsert) (example_materializer 2)"

lemma example_apply: "Apply (example_row RowInsert) (example_materializer 2) = Inr example_state"
  by (simp add: Apply_def Let_def example_state_def) (simp add: example_row_def example_materializer_def)

lemma example_state_inv: "materializer_inv example_state"
  by (rule Apply_inv[OF example_inv example_apply])

theorem rowKey_injective_witness:
  "column_form (example_materializer 2) (example_row RowInsert) ''a'' = column_form (example_materializer 2) (example_row RowDelete) ''a''"
proof -
  have "list_all (\<lambda>c. column_form (example_materializer 2) (example_row RowInsert) c
      = column_form (example_materializer 2) (example_row RowDelete) c) (primaryKey (example_materializer 2))"
    using rowKey_injective[of "example_materializer 2" "example_row RowInsert" "''1:1|''" "example_row RowDelete" "''1:1|''"]
    by simp
  then show ?thesis by (simp add: example_materializer_def)
qed

theorem Apply_refines_witness:
  "map_sum id abs_table (Apply (example_row RowInsert) (example_materializer 2)) =
     Inr ([(''1:1|'', example_row RowInsert)], {})"
  unfolding Apply_refines[OF example_inv]
  by (simp add: spec_apply_def abs_table_def entries_def)
    (simp add: example_row_def example_materializer_def)

theorem reachable_inv_witness: "materializer_inv example_state"
proof -
  have "reachable example_state"
    by (rule reachable.apply_row[OF reachable.new[OF example_new] example_apply])
  then show ?thesis by (rule reachable_inv)
qed

theorem Snapshot_entries_witness: "Snapshot example_state = [example_row RowInsert]"
  unfolding Snapshot_entries[OF example_state_inv]
  by (simp add: example_state_def entries_def insert_row_def example_row_def example_materializer_def)

theorem ApplyUpdate_is_pair_witness:
  "\<exists>m1 m'. Apply (example_row RowUpdateBefore) example_state = Inr m1
     \<and> Apply (example_row RowUpdateAfter) m1 = Inr m'"
proof -
  have key: "rowKey example_state (example_row kind) = Inr ''1:1|''" for kind
    by (rule example_key) (simp_all add: example_state_def insert_row_def example_materializer_def)
  have "\<exists>m'. ApplyUpdate (example_row RowUpdateBefore) (example_row RowUpdateAfter) example_state = Inr m'"
    by (simp add: ApplyUpdate_def key)
      (simp add: example_state_def insert_row_def example_materializer_def example_row_def sameFields_def)
  then obtain m' where "ApplyUpdate (example_row RowUpdateBefore) (example_row RowUpdateAfter) example_state = Inr m'" ..
  then show ?thesis
    using ApplyUpdate_is_pair[OF key key, of RowUpdateBefore RowUpdateAfter m'] by (auto simp: example_row_def)
qed

end
