(* ===== verification/Metadata.thy ===== *)
theory Metadata
  imports Execution
begin

text \<open>
  \<open>flinksqlgateway/metadata.go\<close>: the metadata queries.  Each runs a \<open>SHOW\<close>, \<open>DESCRIBE\<close> or \<open>EXPLAIN\<close> statement with
  \<open>ExecuteAndWait\<close> and reads texts from the rows of its result; names in a statement are quoted.
\<close>

section \<open>Fields of a row\<close>

text \<open>\<open>strconv.Unquote\<close> of a text that does not start with a double quote: raw strings lose their carriage returns, and
  a rune literal is one character, written out or escaped.\<close>

definition digits_value :: "nat \<Rightarrow> (char \<Rightarrow> bool) \<Rightarrow> nat \<Rightarrow> string \<Rightarrow> nat option" where
  "digits_value base ok n s =
     (if length s < n \<or> \<not> list_all ok (take n s) then None else Some (foldl (\<lambda>v c. base * v + unhex c) 0 (take n s)))"

definition is_octal :: "char \<Rightarrow> bool" where
  "is_octal c = (48 \<le> byte c \<and> byte c \<le> 55)"

definition escape_letter :: "char \<Rightarrow> nat option" where
  "escape_letter c = map_of [(CHR ''a'', 7), (CHR ''b'', 8), (CHR ''f'', 12), (CHR ''n'', 10), (CHR ''r'', 13),
     (CHR ''t'', 9), (CHR ''v'', 11), (bslash, 0x5C), (CHR 0x27, 0x27)] c"

definition valid_rune :: "nat \<Rightarrow> bool" where
  "valid_rune r = (r < 0xD800 \<or> 0xDFFF < r \<and> r < 0x110000)"

text \<open>\<open>strconv.UnquoteChar\<close> after a backslash, for a single quote: the bytes and the rest.\<close>

definition unquote_escape :: "char \<Rightarrow> string \<Rightarrow> (string \<times> string) option" where
  "unquote_escape c s =
     (case escape_letter c of
        Some r \<Rightarrow> Some ([chr r], s)
      | None \<Rightarrow>
          if c = CHR ''x'' then map_option (\<lambda>v. ([chr v], drop 2 s)) (digits_value 16 is_hex 2 s)
          else if c = CHR ''u'' \<or> c = CHR ''U''
          then (let n = (if c = CHR ''u'' then 4 else 8) in
            case digits_value 16 is_hex n s of
              None \<Rightarrow> None
            | Some v \<Rightarrow> if valid_rune v then Some (encode_rune v, drop n s) else None)
          else if is_octal c
          then (case digits_value 8 is_octal 3 (c # s) of
              None \<Rightarrow> None
            | Some v \<Rightarrow> if v > 255 then None else Some ([chr v], drop 2 s))
          else None)"

definition unquote_char :: "string \<Rightarrow> (string \<times> string) option" where
  "unquote_char s =
     (case s of
        [] \<Rightarrow> None
      | c # t \<Rightarrow>
          if c = CHR 0x27 \<or> c = CHR 0x0A then None
          else if byte c \<ge> 0x80 then (case decode_rune s of (r, n) \<Rightarrow> Some (encode_rune r, drop n s))
          else if c \<noteq> bslash then Some ([c], t)
          else (case t of [] \<Rightarrow> None | e # t' \<Rightarrow> unquote_escape e t'))"

definition unquote_rune :: "string \<Rightarrow> string option" where
  "unquote_rune s =
     (let content = takeWhile (\<lambda>c. c \<noteq> CHR 0x27) s; n = snd (decode_rune content) in
      if CHR 0x27 \<notin> set s then None
      else if bslash \<notin> set content \<and> CHR 0x0A \<notin> set content \<and> n = length content \<and> \<not> invalid_step (fst (decode_rune content), content)
      then (if length s = length content + 1 then Some content else None)
      else (case unquote_char s of None \<Rightarrow> None | Some (r, rest) \<Rightarrow> if rest = [CHR 0x27] then Some r else None))"

definition unquote :: "string \<Rightarrow> string option" where
  "unquote s =
     (case s of
        [] \<Rightarrow> None
      | c # t \<Rightarrow>
          if c = CHR ''`''
          then (if t \<noteq> [] \<and> last t = CHR ''`'' \<and> CHR ''`'' \<notin> set (butlast t)
                then Some (filter (\<lambda>b. b \<noteq> CHR 0x0D) (butlast t)) else None)
          else if c = CHR 0x27 then unquote_rune t
          else None)"

definition unmarshal_text :: "string \<Rightarrow> (goerr, string) result" where
  "unmarshal_text data =
     (case parse_json data of
        None \<Rightarrow> Inl json_syntax_error
      | Some JNull \<Rightarrow> Inr []
      | Some (JStr s) \<Rightarrow> Inr s
      | Some _ \<Rightarrow> Inl json_type_error)"

definition rowFieldText :: "row \<Rightarrow> nat \<Rightarrow> (goerr, string) result" where
  "rowFieldText row index =
     (if index \<ge> length (Fields row)
      then Inl (Errorf ''flinksqlgateway: metadata row field %d is missing'' [ArgText (show_nat index)])
      else
        (let raw = trim_space (Fields row ! index) in
         if raw = ''null'' then Inr []
         else if raw \<noteq> [] \<and> hd raw = quot
         then (case unmarshal_text raw of
             Inl err \<Rightarrow> Inl (Errorf ''flinksqlgateway: decode metadata field %d: %w'' [ArgText (show_nat index), ArgWrap err])
           | Inr value \<Rightarrow> Inr value)
         else (case unquote raw of Some value \<Rightarrow> Inr value | None \<Rightarrow> Inr raw)))"

section \<open>Quoted names\<close>

text \<open>The loop over the parts of a name, shared by \<open>qualifiedObject\<close> and \<open>qualifiedScope\<close>.\<close>

fun quoted_parts :: "string list \<Rightarrow> (goerr, string list) result" where
  "quoted_parts [] = Inr []"
| "quoted_parts (value # values) =
     (if value = [] then quoted_parts values
      else and_then (QuoteIdentifier value) (\<lambda>quoted. and_then (quoted_parts values) (\<lambda>parts. Inr (quoted # parts))))"

definition qualifiedObject :: "sql_ident \<Rightarrow> (goerr, string) result" where
  "qualifiedObject identifier =
     (if Object identifier = [] then Inl (Errorf ''flinksqlgateway: object identifier is required'' [])
      else if Catalog identifier \<noteq> [] \<and> Database identifier = []
      then Inl (Errorf ''flinksqlgateway: database is required when catalog is set'' [])
      else and_then (quoted_parts [Catalog identifier, Database identifier, Object identifier]) (\<lambda>parts. Inr (join ''.'' parts)))"

definition qualifiedScope :: "string \<Rightarrow> string \<Rightarrow> (goerr, string) result" where
  "qualifiedScope catalog database =
     and_then (quoted_parts [catalog, database]) (\<lambda>parts.
       if parts = [] then Inl (Errorf ''flinksqlgateway: database scope is required'' []) else Inr (join ''.'' parts))"

section \<open>Queries\<close>

definition no_options :: execute_options where
  "no_options = \<lparr>eoConfig = [], eoTimeout = 0, eoRowFormat = [], eoMaxRows = 0, eoMaxPolls = 0\<rparr>"

text \<open>The rows of a statement, and what a query reads of them; an execution without an error has a result.\<close>

definition query ::
  "('w, 'c) transport_env \<Rightarrow> config \<Rightarrow> 'c \<Rightarrow> string \<Rightarrow> string \<Rightarrow> (row list \<Rightarrow> (goerr, 'a) result) \<Rightarrow> 'w client \<Rightarrow> ('w, 'a) answer" where
  "query env cfg ctx sessionHandle statement decode c =
     (case ExecuteAndWait env cfg ctx sessionHandle statement no_options c of
        ((res, Some err), c1) \<Rightarrow> (Inl err, c1)
      | ((res, None), c1) \<Rightarrow> (decode (case res of None \<Rightarrow> [] | Some r \<Rightarrow> resRows r), c1))"

definition listMetadataNames ::
  "('w, 'c) transport_env \<Rightarrow> config \<Rightarrow> 'c \<Rightarrow> string \<Rightarrow> string \<Rightarrow> 'w client \<Rightarrow> ('w, string list) answer" where
  "listMetadataNames env cfg ctx sessionHandle statement =
     query env cfg ctx sessionHandle statement (map_result (\<lambda>row. rowFieldText row 0))"

definition ListCatalogs :: "('w, 'c) transport_env \<Rightarrow> config \<Rightarrow> 'c \<Rightarrow> string \<Rightarrow> 'w client \<Rightarrow> ('w, string list) answer" where
  "ListCatalogs env cfg ctx sessionHandle = listMetadataNames env cfg ctx sessionHandle ''SHOW CATALOGS''"

definition ListFunctions :: "('w, 'c) transport_env \<Rightarrow> config \<Rightarrow> 'c \<Rightarrow> string \<Rightarrow> 'w client \<Rightarrow> ('w, string list) answer" where
  "ListFunctions env cfg ctx sessionHandle = listMetadataNames env cfg ctx sessionHandle ''SHOW FUNCTIONS''"

definition ListDatabases ::
  "('w, 'c) transport_env \<Rightarrow> config \<Rightarrow> 'c \<Rightarrow> string \<Rightarrow> string \<Rightarrow> 'w client \<Rightarrow> ('w, string list) answer" where
  "ListDatabases env cfg ctx sessionHandle catalog c =
     (case (if catalog = [] then Inr ''SHOW DATABASES''
            else and_then (QuoteIdentifier catalog) (\<lambda>quoted. Inr (''SHOW DATABASES IN '' @ quoted))) of
        Inl err \<Rightarrow> (Inl err, c)
      | Inr statement \<Rightarrow> listMetadataNames env cfg ctx sessionHandle statement c)"

record table_metadata =
  tmCatalog :: string
  tmDatabase :: string
  tmName :: string
  tmIsView :: bool

definition list_scope :: "string \<Rightarrow> sql_ident \<Rightarrow> (goerr, string) result" where
  "list_scope command identifier =
     (if Object identifier \<noteq> [] then Inl (Errorf ''flinksqlgateway: list scope must not include an object name'' [])
      else if Catalog identifier \<noteq> [] \<and> Database identifier = []
      then Inl (Errorf ''flinksqlgateway: database is required when catalog is set'' [])
      else if Database identifier = [] then Inr command
      else and_then (qualifiedScope (Catalog identifier) (Database identifier)) (\<lambda>scope. Inr (command @ '' IN '' @ scope)))"

definition listTablesOrViews ::
  "('w, 'c) transport_env \<Rightarrow> config \<Rightarrow> 'c \<Rightarrow> string \<Rightarrow> string \<Rightarrow> bool \<Rightarrow> sql_ident \<Rightarrow> 'w client \<Rightarrow> ('w, table_metadata list) answer" where
  "listTablesOrViews env cfg ctx sessionHandle command is_view identifier c =
     (case list_scope command identifier of
        Inl err \<Rightarrow> (Inl err, c)
      | Inr statement \<Rightarrow>
          apfst (map_sum id (map (\<lambda>name. \<lparr>tmCatalog = Catalog identifier, tmDatabase = Database identifier, tmName = name, tmIsView = is_view\<rparr>)))
            (listMetadataNames env cfg ctx sessionHandle statement c))"

definition ListTables ::
  "('w, 'c) transport_env \<Rightarrow> config \<Rightarrow> 'c \<Rightarrow> string \<Rightarrow> sql_ident \<Rightarrow> 'w client \<Rightarrow> ('w, table_metadata list) answer" where
  "ListTables env cfg ctx sessionHandle = listTablesOrViews env cfg ctx sessionHandle ''SHOW TABLES'' False"

definition ListViews ::
  "('w, 'c) transport_env \<Rightarrow> config \<Rightarrow> 'c \<Rightarrow> string \<Rightarrow> sql_ident \<Rightarrow> 'w client \<Rightarrow> ('w, table_metadata list) answer" where
  "ListViews env cfg ctx sessionHandle = listTablesOrViews env cfg ctx sessionHandle ''SHOW VIEWS'' True"

record column_metadata =
  cmName :: string
  cmDataType :: string
  cmNullable :: bool
  cmKey :: string
  cmExtras :: string
  cmWatermark :: string
  cmComment :: string

text \<open>The fields after the third are optional; the loop stops at the first one the row does not have.\<close>

definition optional_field :: "string list \<Rightarrow> nat \<Rightarrow> string" where
  "optional_field texts i = (if i < length texts then texts ! i else [])"

definition described_column :: "row \<Rightarrow> (goerr, column_metadata) result" where
  "described_column row =
     and_then (rowFieldText row 0) (\<lambda>name.
     and_then (rowFieldText row 1) (\<lambda>dataType.
     and_then (rowFieldText row 2) (\<lambda>nullable.
     and_then (map_result (rowFieldText row) [3..<min 7 (length (Fields row))]) (\<lambda>optional.
       Inr \<lparr>cmName = name, cmDataType = dataType, cmNullable = (equal_fold nullable ''true'' \<or> equal_fold nullable ''yes''),
         cmKey = optional_field optional 0, cmExtras = optional_field optional 1, cmWatermark = optional_field optional 2,
         cmComment = optional_field optional 3\<rparr>))))"

definition DescribeTable ::
  "('w, 'c) transport_env \<Rightarrow> config \<Rightarrow> 'c \<Rightarrow> string \<Rightarrow> sql_ident \<Rightarrow> 'w client \<Rightarrow> ('w, column_metadata list) answer" where
  "DescribeTable env cfg ctx sessionHandle identifier c =
     (case qualifiedObject identifier of
        Inl err \<Rightarrow> (Inl err, c)
      | Inr qualified \<Rightarrow> query env cfg ctx sessionHandle (''DESCRIBE '' @ qualified) (map_result described_column) c)"

definition Explain ::
  "('w, 'c) transport_env \<Rightarrow> config \<Rightarrow> 'c \<Rightarrow> string \<Rightarrow> string \<Rightarrow> 'w client \<Rightarrow> ('w, string) answer" where
  "Explain env cfg ctx sessionHandle statement c =
     (if trim_space statement = [] then (Inl (Errorf ''flinksqlgateway: statement is required'' []), c)
      else query env cfg ctx sessionHandle (''EXPLAIN PLAN FOR '' @ statement)
        (\<lambda>rows. and_then (map_result (\<lambda>row. rowFieldText row 0) rows) (\<lambda>lines. Inr (join [CHR 0x0A] lines))) c)"

section \<open>A quoted name reads back\<close>

text \<open>The reading of a dotted name: quoted tokens separated by dots.\<close>

fun read_qualified :: "nat \<Rightarrow> string \<Rightarrow> string list option" where
  "read_qualified 0 s = None"
| "read_qualified (Suc n) s =
     (case scan_quoted CHR ''`'' s of
        None \<Rightarrow> None
      | Some (part, r) \<Rightarrow>
          if r = [] then Some [part]
          else if hd r = CHR ''.'' then map_option ((#) part) (read_qualified n (tl r)) else None)"

lemma quoted_parts_Inr: "quoted_parts vals = Inr parts \<Longrightarrow> parts = map quote_ident (filter (\<lambda>v. v \<noteq> []) vals)"
  by (induction vals arbitrary: parts) (auto simp: and_then_Inr_iff QuoteIdentifier_Inr split: if_splits)

lemma read_qualified_join:
  "vals \<noteq> [] \<Longrightarrow> length vals \<le> n \<Longrightarrow> read_qualified n (join ''.'' (map quote_ident vals)) = Some vals"
proof (induction vals arbitrary: n)
  case Nil
  then show ?case by simp
next
  case (Cons v vs)
  then obtain m where n: "n = Suc m" by (cases n) auto
  show ?case
  proof (cases vs)
    case Nil
    then show ?thesis using ident_quoting.scan_quote[of "[]" v] n by simp
  next
    case (Cons v' rest)
    let ?tail = "join ''.'' (map quote_ident vs)"
    have "join ''.'' (map quote_ident (v # vs)) = quote_ident v @ ''.'' @ ?tail" using Cons by simp
    moreover have "scan_quoted CHR ''`'' (quote_ident v @ ''.'' @ ?tail) = Some (v, ''.'' @ ?tail)"
      by (rule ident_quoting.scan_quote) simp
    ultimately show ?thesis using Cons.IH[of m] Cons Cons.prems n by simp
  qed
qed

lemma qualifiedObject_parts:
  assumes "qualifiedObject i = Inr q"
  shows "read_qualified 3 q = Some (filter (\<lambda>v. v \<noteq> []) [Catalog i, Database i, Object i])"
proof -
  let ?vs = "filter (\<lambda>v. v \<noteq> []) [Catalog i, Database i, Object i]"
  from assms obtain parts where p: "Object i \<noteq> []" "quoted_parts [Catalog i, Database i, Object i] = Inr parts" "q = join ''.'' parts"
    by (auto simp del: quoted_parts.simps simp: qualifiedObject_def and_then_Inr_iff split: if_splits)
  have "?vs \<noteq> []" "length ?vs \<le> 3" using p(1) by auto
  then show ?thesis using read_qualified_join[of ?vs 3] quoted_parts_Inr[OF p(2)] p(3) by metis
qed

text \<open>The name in a \<open>DESCRIBE\<close> statement reads back as exactly the parts of the identifier that are there, whatever
  characters they hold, so that two identifiers never produce the same name.\<close>

theorem qualified_name:
  assumes "qualifiedObject i = Inr q"
  shows "read_qualified 3 q = Some (filter (\<lambda>v. v \<noteq> []) [Catalog i, Database i, Object i]) \<and>
    (qualifiedObject j = Inr q \<longrightarrow> i = j)"
proof -
  have shape: "Object x \<noteq> [] \<and> (Catalog x \<noteq> [] \<longrightarrow> Database x \<noteq> [])" if "qualifiedObject x = Inr q" for x
    using that by (auto simp: qualifiedObject_def split: if_splits)
  have "i = j" if j: "qualifiedObject j = Inr q"
    using qualifiedObject_parts[OF assms] qualifiedObject_parts[OF j] shape[OF assms] shape[OF j]
    by (auto intro!: sql_ident.equality split: if_splits)
  then show ?thesis using qualifiedObject_parts[OF assms] by blast
qed

theorem qualified_name_witness:
  "qualifiedObject \<lparr>Catalog = [], Database = ''d'', Object = ''a`.`b''\<rparr> = Inr ''`d`.`a``.``b`'' \<and>
    read_qualified 3 ''`d`.`a``.``b`'' = Some [''d'', ''a`.`b'']"
proof -
  have "trim_space ''d'' = ''d''" by (rule trim_space_ascii_id) (simp_all add: byte_def is_space_def)
  moreover have "trim_space ''a`.`b'' = ''a`.`b''" by (rule trim_space_ascii_id) (simp_all add: byte_def is_space_def)
  ultimately have t: "trim_space ''d'' \<noteq> []" "trim_space ''a`.`b'' \<noteq> []" by simp_all
  have "qualifiedObject \<lparr>Catalog = [], Database = ''d'', Object = ''a`.`b''\<rparr> = Inr ''`d`.`a``.``b`''"
    by (simp add: qualifiedObject_def QuoteIdentifier_ok[OF t(1)] QuoteIdentifier_ok[OF t(2)] quote_ident_def)
  with conjunct1[OF qualified_name[OF this]] show ?thesis by simp
qed

end
