(* ===== verification/Session_Setup.thy ===== *)
theory Session_Setup
  imports Setup_Compile Metadata Sessions
begin

text \<open>
  \<open>flinksqlgateway/session_setup.go\<close>: a compiled plan is applied to a session step by step, its objects are looked
  for afterwards, and a session that was opened for it is closed when it fails.
\<close>

section \<open>Options and results\<close>

record setup_options =
  soExecutionTimeout :: int
  VerifyMetadata :: bool
  VerifyTableSchema :: bool
  soKeepSessionOnFailure :: bool
  soCleanupTimeout :: int

record step_report =
  spIndex :: nat
  spKind :: step_kind
  spTarget :: sql_ident
  Applied :: bool
  Verified :: bool
  OutcomeUnknown :: bool

record setup_result =
  suSession :: string
  suSteps :: "step_report list"
  suFailedIndex :: int
  suComplete :: bool
  suSessionClosed :: bool
  PersistentChangesMayRemain :: bool

definition validateSessionSetupOptions :: "setup_options \<Rightarrow> goerr option" where
  "validateSessionSetupOptions options =
     (if soExecutionTimeout options < 0
      then Some (Errorf ''flinksqlgateway: SessionSetupOptions.ExecutionTimeout must not be negative'' [])
      else if soCleanupTimeout options < 0
      then Some (Errorf ''flinksqlgateway: SessionSetupOptions.CleanupTimeout must not be negative'' [])
      else None)"

definition fresh_report :: "compiled_step \<Rightarrow> step_report" where
  "fresh_report step = \<lparr>spIndex = stepIndex step, spKind = stepKind step, spTarget = stepTarget step,
     Applied = False, Verified = False, OutcomeUnknown = False\<rparr>"

definition newSessionSetupResult :: "string \<Rightarrow> compiled_step list \<Rightarrow> setup_result" where
  "newSessionSetupResult sessionHandle steps = \<lparr>suSession = sessionHandle, suSteps = map fresh_report steps, suFailedIndex = - 1,
     suComplete = False, suSessionClosed = False, PersistentChangesMayRemain = False\<rparr>"

definition mark_step :: "(step_report \<Rightarrow> step_report) \<Rightarrow> nat \<Rightarrow> setup_result \<Rightarrow> setup_result" where
  "mark_step f i r = r\<lparr>suSteps := (suSteps r)[i := f (suSteps r ! i)]\<rparr>"

definition setup_event :: "string \<Rightarrow> string \<Rightarrow> compiled_step \<Rightarrow> goerr option \<Rightarrow> lifecycle_observation" where
  "setup_event event sessionHandle step err = no_observation\<lparr>loEvent := event, loSession := sessionHandle,
     loStepIndex := int (stepIndex step), loStepKind := stepKind step, loTarget := stepTarget step, loError := err\<rparr>"

section \<open>Failures\<close>

definition isSessionSetupCreateKind :: "step_kind \<Rightarrow> bool" where
  "isSessionSetupCreateKind kind = (kind = SessionSetupCatalog \<or> kind = SessionSetupDatabase \<or> kind = SessionSetupTable)"

definition sessionSetupPersistentChangesMayRemain :: "setup_result \<Rightarrow> compiled_step \<Rightarrow> bool" where
  "sessionSetupPersistentChangesMayRemain result failed =
     (list_ex (\<lambda>r. isSessionSetupCreateKind (spKind r) \<and> (Applied r \<or> OutcomeUnknown r)) (suSteps result) \<or>
      isSessionSetupCreateKind (stepKind failed) \<and> OutcomeUnknown (suSteps result ! stepIndex failed))"

definition failSessionSetup ::
  "('w, 'c) transport_env \<Rightarrow> setup_result \<Rightarrow> compiled_step \<Rightarrow> goerr \<Rightarrow> 'w client \<Rightarrow> (setup_result \<times> goerr option) \<times> 'w client" where
  "failSessionSetup env result step cause c =
     (let unknown = OutcomeUnknown (suSteps result ! stepIndex step);
          result1 = result\<lparr>suFailedIndex := int (stepIndex step),
            PersistentChangesMayRemain := sessionSetupPersistentChangesMayRemain result step\<rparr>;
          setupErr = SessionSetupError (Some cause) None (suSession result) (int (stepIndex step)) (stepKind step) (stepTarget step) unknown;
          event = (if unknown then ''SessionSetupStepOutcomeUnknown'' else ''SessionSetupStepFailed'') in
      ((result1, Some setupErr), observeLifecycle env (setup_event event (suSession result) step (Some setupErr)) c))"

definition attachSessionSetupCleanup :: "goerr \<Rightarrow> goerr option \<Rightarrow> string \<Rightarrow> goerr" where
  "attachSessionSetupCleanup setupErr closeErr sessionHandle =
     (case as_setup_error setupErr of
        Some (SessionSetupError cause old h i kind target unknown) \<Rightarrow> SessionSetupError cause closeErr h i kind target unknown
      | _ \<Rightarrow> SessionSetupError (Some setupErr) closeErr sessionHandle (- 1) StepUnset no_identifier False)"

section \<open>Verification\<close>

definition sessionSetupStepRequiresVerification :: "compiled_step \<Rightarrow> setup_options \<Rightarrow> bool" where
  "sessionSetupStepRequiresVerification step options =
     (if stepKind step = SessionSetupCatalog \<or> stepKind step = SessionSetupDatabase then VerifyMetadata options
      else if stepKind step = SessionSetupTable then VerifyMetadata options \<or> VerifyTableSchema options \<or> csVerify step
      else False)"

definition containsTableMetadata :: "table_metadata list \<Rightarrow> string \<Rightarrow> bool" where
  "containsTableMetadata tables expected = list_ex (\<lambda>t. tmName t = expected) tables"

definition verify_table ::
  "('w, 'c) transport_env \<Rightarrow> config \<Rightarrow> 'c \<Rightarrow> string \<Rightarrow> sql_ident \<Rightarrow> setup_options \<Rightarrow> 'w client \<Rightarrow> goerr option \<times> 'w client" where
  "verify_table env cfg ctx sessionHandle target options c =
     (let scope = target\<lparr>Object := []\<rparr> in
      case ListTables env cfg ctx sessionHandle scope c of (Inl err, c1) \<Rightarrow> (Some err, c1) | (Inr tables, c1) \<Rightarrow>
     (case ListViews env cfg ctx sessionHandle scope c1 of (Inl err, c2) \<Rightarrow> (Some err, c2) | (Inr views, c2) \<Rightarrow>
      if containsTableMetadata views (Object target) then (Some (Errorf ''target name resolves to a view'' []), c2)
      else if \<not> containsTableMetadata tables (Object target) then (Some (Errorf ''table was not found'' []), c2)
      else if VerifyTableSchema options
      then (case DescribeTable env cfg ctx sessionHandle target c2 of (Inl err, c3) \<Rightarrow> (Some err, c3) | (Inr _, c3) \<Rightarrow> (None, c3))
      else (None, c2)))"

definition verifySessionSetupStep ::
  "('w, 'c) transport_env \<Rightarrow> config \<Rightarrow> 'c \<Rightarrow> string \<Rightarrow> compiled_step \<Rightarrow> setup_options \<Rightarrow> 'w client \<Rightarrow> goerr option \<times> 'w client" where
  "verifySessionSetupStep env cfg ctx sessionHandle step options c =
     (if stepKind step = SessionSetupCatalog then
        (case ListCatalogs env cfg ctx sessionHandle c of
           (Inl err, c1) \<Rightarrow> (Some err, c1)
         | (Inr catalogs, c1) \<Rightarrow>
             (if Catalog (stepTarget step) \<in> set catalogs then None else Some (Errorf ''catalog was not found'' []), c1))
      else if stepKind step = SessionSetupDatabase then
        (case ListDatabases env cfg ctx sessionHandle (Catalog (stepTarget step)) c of
           (Inl err, c1) \<Rightarrow> (Some err, c1)
         | (Inr databases, c1) \<Rightarrow>
             (if Database (stepTarget step) \<in> set databases then None else Some (Errorf ''database was not found'' []), c1))
      else if stepKind step = SessionSetupTable then verify_table env cfg ctx sessionHandle (stepTarget step) options c
      else (None, c))"

section \<open>Applying a compiled plan\<close>

text \<open>The statement and its secrets must not come back in an error message.\<close>

definition step_redaction :: "compiled_step \<Rightarrow> serverMessageRedaction" where
  "step_redaction step = \<lparr>fragments = csStatement step # sensitiveValues step,
     redactAll = (stepRedactAll step \<or> sensitiveValues step \<noteq> [])\<rparr>"

text \<open>An unknown outcome is reported with the step it belongs to.\<close>

definition step_failure :: "string \<Rightarrow> compiled_step \<Rightarrow> goerr \<Rightarrow> setup_result \<Rightarrow> goerr \<times> setup_result" where
  "step_failure sessionHandle step err result =
     (case as_config_unknown err of
        Some (ConfigurationOutcomeUnknownError h i kind phase cause) \<Rightarrow>
          (ConfigurationOutcomeUnknownError sessionHandle (int (stepIndex step)) (stepKind step) phase cause,
           mark_step (\<lambda>r. r\<lparr>OutcomeUnknown := True\<rparr>) (stepIndex step) result)
      | _ \<Rightarrow> (err, result))"

text \<open>One step of the first loop: its validation and its request.\<close>

definition apply_step ::
  "('w, 'c) transport_env \<Rightarrow> config \<Rightarrow> 'c \<Rightarrow> string \<Rightarrow> setup_options \<Rightarrow> compiled_step \<Rightarrow> 'w client
    \<Rightarrow> (bool \<times> goerr option) \<times> 'w client" where
  "apply_step env cfg ctx sessionHandle options step c =
     (case validateStatement env ctx sessionHandle (csStatement step)
         (observeLifecycle env (setup_event ''SessionSetupStepApplying'' sessionHandle step None) c) of
        (Some err, c1) \<Rightarrow> ((False, Some err), c1)
      | (None, c1) \<Rightarrow> apfst (Pair True) (configureSessionRequest env cfg ctx sessionHandle (csStatement step)
          (soExecutionTimeout options) (step_redaction step) c1))"

fun apply_steps ::
  "('w, 'c) transport_env \<Rightarrow> config \<Rightarrow> 'c \<Rightarrow> string \<Rightarrow> setup_options \<Rightarrow> setup_result \<Rightarrow> compiled_step list \<Rightarrow> 'w client
    \<Rightarrow> (setup_result \<times> goerr option) \<times> 'w client" where
  "apply_steps env cfg ctx sessionHandle options result [] c = ((result, None), c)"
| "apply_steps env cfg ctx sessionHandle options result (step # steps) c =
     (case apply_step env cfg ctx sessionHandle options step c of
        ((sent, Some err), c1) \<Rightarrow>
          (let (err', result1) = (if sent then step_failure sessionHandle step err result else (err, result)) in
           failSessionSetup env result1 step err' c1)
      | ((sent, None), c1) \<Rightarrow>
          apply_steps env cfg ctx sessionHandle options (mark_step (\<lambda>r. r\<lparr>Applied := True\<rparr>) (stepIndex step) result) steps
            (observeLifecycle env (setup_event ''SessionSetupStepApplied'' sessionHandle step None) c1))"

fun verify_steps ::
  "('w, 'c) transport_env \<Rightarrow> config \<Rightarrow> 'c \<Rightarrow> string \<Rightarrow> setup_options \<Rightarrow> setup_result \<Rightarrow> compiled_step list \<Rightarrow> 'w client
    \<Rightarrow> (setup_result \<times> goerr option) \<times> 'w client" where
  "verify_steps env cfg ctx sessionHandle options result [] c = ((result, None), c)"
| "verify_steps env cfg ctx sessionHandle options result (step # steps) c =
     (if \<not> sessionSetupStepRequiresVerification step options
      then verify_steps env cfg ctx sessionHandle options result steps c
      else case verifySessionSetupStep env cfg ctx sessionHandle step options c of
        (Some err, c1) \<Rightarrow> failSessionSetup env result step (SetupVerificationError (Some err) (stepKind step) (stepTarget step)) c1
      | (None, c1) \<Rightarrow>
          verify_steps env cfg ctx sessionHandle options (mark_step (\<lambda>r. r\<lparr>Verified := True\<rparr>) (stepIndex step) result) steps
            (observeLifecycle env (setup_event ''SessionSetupStepVerified'' sessionHandle step None) c1))"

definition applyCompiledSessionSetup ::
  "('w, 'c) transport_env \<Rightarrow> config \<Rightarrow> 'c \<Rightarrow> string \<Rightarrow> compiled_step list \<Rightarrow> setup_options \<Rightarrow> 'w client
    \<Rightarrow> (setup_result \<times> goerr option) \<times> 'w client" where
  "applyCompiledSessionSetup env cfg ctx sessionHandle steps options c =
     (let result = newSessionSetupResult sessionHandle steps in
      case acquireSessionSetup env ctx c of
        Some err \<Rightarrow> ((result, Some (SessionSetupError (Some err) None sessionHandle (- 1) StepUnset no_identifier False)), c)
      | None \<Rightarrow>
          (case apply_steps env cfg ctx sessionHandle options result steps c of
             ((result1, Some err), c1) \<Rightarrow> ((result1, Some err), c1)
           | ((result1, None), c1) \<Rightarrow>
               (case verify_steps env cfg ctx sessionHandle options result1 steps c1 of
                  ((result2, Some err), c2) \<Rightarrow> ((result2, Some err), c2)
                | ((result2, None), c2) \<Rightarrow> ((result2\<lparr>suComplete := True\<rparr>, None), c2))))"

section \<open>The public operations\<close>

text \<open>The checks both start with; the steps come from the compiler.\<close>

definition setup_steps :: "unicode \<Rightarrow> setup_plan \<Rightarrow> setup_options \<Rightarrow> (goerr, compiled_step list) result" where
  "setup_steps u plan options =
     and_then (compileSessionSetupPlan u plan) (\<lambda>steps.
       case validateSessionSetupOptions options of Some err \<Rightarrow> Inl err | None \<Rightarrow> Inr steps)"

definition ApplySessionSetup ::
  "unicode \<Rightarrow> ('w, 'c) transport_env \<Rightarrow> config \<Rightarrow> 'c \<Rightarrow> string \<Rightarrow> setup_plan \<Rightarrow> setup_options \<Rightarrow> 'w client
    \<Rightarrow> (setup_result option \<times> goerr option) \<times> 'w client" where
  "ApplySessionSetup u env cfg ctx sessionHandle plan options c =
     (case setup_steps u plan options of Inl err \<Rightarrow> ((None, Some err), c) | Inr steps \<Rightarrow>
     (case validateSessionHandle sessionHandle of Some err \<Rightarrow> ((None, Some err), c) | None \<Rightarrow>
     (case client_compatibilityForCapability env cfg ctx ''session setup'' capabilities.ConfigureSession c of
        (Inl err, c1) \<Rightarrow> ((None, Some err), c1)
      | (Inr _, c1) \<Rightarrow> apfst (apfst Some) (applyCompiledSessionSetup env cfg ctx sessionHandle steps options c1))))"

definition setup_cleanup_ctx :: "('w, 'c) transport_env \<Rightarrow> config \<Rightarrow> setup_options \<Rightarrow> 'w client \<Rightarrow> 'c" where
  "setup_cleanup_ctx env cfg options c =
     (let t1 = (if soCleanupTimeout options \<le> 0 then RequestTimeout cfg else soCleanupTimeout options);
          t2 = (if t1 \<le> 0 then defaultRequestTimeout else t1)
      in ctx_with_cleanup env (ctx_with_timeout env t2 (ctx_background env) (world c)))"

definition setup_cleanup ::
  "('w, 'c) transport_env \<Rightarrow> config \<Rightarrow> setup_options \<Rightarrow> string \<Rightarrow> setup_result \<Rightarrow> goerr \<Rightarrow> 'w client
    \<Rightarrow> (setup_result \<times> goerr option) \<times> 'w client" where
  "setup_cleanup env cfg options sessionHandle result setupErr c =
     (if soKeepSessionOnFailure options then ((result, Some setupErr), c)
      else
        (case CloseSession env cfg (setup_cleanup_ctx env cfg options c) sessionHandle c of
           (closeErr, c1) \<Rightarrow>
             ((result\<lparr>suSessionClosed := (closeErr = None)\<rparr>, Some (attachSessionSetupCleanup setupErr closeErr sessionHandle)), c1)))"

definition OpenSessionWithSetup ::
  "unicode \<Rightarrow> ('w, 'c) transport_env \<Rightarrow> config \<Rightarrow> 'c \<Rightarrow> open_session_request \<Rightarrow> setup_plan \<Rightarrow> setup_options \<Rightarrow> 'w client
    \<Rightarrow> (setup_result option \<times> goerr option) \<times> 'w client" where
  "OpenSessionWithSetup u env cfg ctx request plan options c =
     (case setup_steps u plan options of Inl err \<Rightarrow> ((None, Some err), c) | Inr steps \<Rightarrow>
     (case client_compatibilityForCapability env cfg ctx ''session setup'' capabilities.ConfigureSession c of
        (Inl err, c1) \<Rightarrow> ((None, Some err), c1)
      | (Inr _, c1) \<Rightarrow>
     (case OpenSession env cfg ctx request c1 of
        (Inl err, c2) \<Rightarrow> ((None, Some err), c2)
      | (Inr session, c2) \<Rightarrow>
     (case applyCompiledSessionSetup env cfg ctx (srHandle session) steps options c2 of
        ((result, None), c3) \<Rightarrow> ((Some result, None), c3)
      | ((result, Some setupErr), c3) \<Rightarrow>
          apfst (apfst Some) (setup_cleanup env cfg options (srHandle session) result setupErr c3)))))"

section \<open>The network log only grows\<close>

definition grows :: "('w \<times> exchange_log) client \<Rightarrow> ('w \<times> exchange_log) client \<Rightarrow> bool" where
  "grows c c' = (\<exists>new. log_of c' = log_of c @ new)"

lemma grows_refl [simp]: "grows c c"
  by (simp add: grows_def)

lemma grows_same: "log_of c' = log_of c \<Longrightarrow> grows c c'"
  by (simp add: grows_def)

lemma grows_trans: "grows c c1 \<Longrightarrow> grows c1 c2 \<Longrightarrow> grows c c2"
  by (auto simp: grows_def)

lemma grows_appends: "appends new c c' \<Longrightarrow> grows c c'"
  by (auto simp: grows_def appends_def)

lemma grows_looked_up: "looked_up c c' \<Longrightarrow> grows c c'"
  by (auto simp: grows_def looked_up_def)


lemma grows_answer: "answer_of (doJSON (logged env) cfg ctx m t body dest safe c) = (r, c') \<Longrightarrow> grows c c'"
  by (blast dest: answer_of_appends grows_appends)

lemma grows_error: "error_of (doJSON (logged env) cfg ctx m t body dest safe c) = (r, c') \<Longrightarrow> grows c c'"
  by (blast dest: error_of_eq doJSON_appends grows_appends)

lemma grows_check: "client_CheckAPIVersion (logged env) cfg ctx c = (r, c') \<Longrightarrow> grows c c'"
  by (blast dest: client_CheckAPIVersion_looked_up grows_looked_up)

lemma grows_with_operation:
  assumes "with_operation (logged env) cfg ctx h op request c = (r, c')" "\<And>c r c'. request c = (r, c') \<Longrightarrow> grows c c'"
  shows "grows c c'"
proof -
  obtain x c1 where x: "client_CheckAPIVersion (logged env) cfg ctx c = (x, c1)" by fastforce
  have "c' = c \<or> c' = c1 \<or> request c1 = (r, c')"
    using assms(1) x by (auto simp: with_operation_def split: option.splits)
  then show ?thesis using grows_refl[of c] grows_check[OF x] grows_trans[OF grows_check[OF x] assms(2)] by blast
qed

lemma grows_FetchResults: "FetchResults (logged env) cfg ctx h op n fmt c = (r, c') \<Longrightarrow> grows c c'"
proof -
  assume a: "FetchResults (logged env) cfg ctx h op n fmt c = (r, c')"
  obtain x c1 where x: "client_CheckAPIVersion (logged env) cfg ctx c = (x, c1)" by fastforce
  have url: "fetchResultsURL (logged env) cfg ctx u c1 = (r, c') \<Longrightarrow> grows c1 c'" for u
    by (auto simp: fetchResultsURL_def split: prod.splits option.splits dest!: doJSON_appends grows_appends)
  have "c' = c \<or> c' = c1 \<or> (\<exists>u. fetchResultsURL (logged env) cfg ctx u c1 = (r, c'))"
    using a x by (auto simp: FetchResults_def Let_def split: option.splits if_splits)
  then show "grows c c'" using grows_refl[of c] grows_check[OF x] grows_trans[OF grows_check[OF x] url] by blast
qed

lemma grows_fetch: "fetchResultsURL (logged env) cfg ctx u c = (r, c') \<Longrightarrow> grows c c'"
  by (auto simp: fetchResultsURL_def split: prod.splits option.splits dest!: doJSON_appends grows_appends)

lemma grows_status: "GetOperationStatus (logged env) cfg ctx h op c = (r, c') \<Longrightarrow> grows c c'"
  unfolding GetOperationStatus_def by (erule grows_with_operation) (rule grows_answer)

lemma grows_cancel: "CancelOperation (logged env) cfg ctx h op c = (r, c') \<Longrightarrow> grows c c'"
  unfolding CancelOperation_def by (erule grows_with_operation) (rule grows_answer)

lemma grows_close: "CloseOperation (logged env) cfg ctx h op c = (r, c') \<Longrightarrow> grows c c'"
  unfolding CloseOperation_def
proof (erule grows_with_operation)
  fix c r c'
  assume a: "(case answer_of (doJSON (logged env) cfg ctx ''DELETE'' (endpointURL (logged env) cfg c True (operationRoute h op @ ''/close''))
      None no_response False c) of (Inl err, c1) \<Rightarrow> (if err_is err ErrOperationNotFound then Inr () else Inl err, c1)
    | (Inr u, c1) \<Rightarrow> (Inr u, c1)) = (r, c')"
  obtain x c1 where x: "answer_of (doJSON (logged env) cfg ctx ''DELETE'' (endpointURL (logged env) cfg c True (operationRoute h op @ ''/close''))
      None no_response False c) = (x, c1)" by fastforce
  have "c' = c1" using a unfolding x by (auto split: sum.splits)
  then show "grows c c'" using grows_answer[OF x] by simp
qed

interpretation growing: keeps_env "client_result_env (logged env) cfg ctx op fmt" None "grows c0"
proof unfold_locales
  fix s s' x d
  assume a: "grows c0 s" "env_wait (client_result_env (logged env) cfg ctx op fmt) d s = (x, s')"
  have "log_of s' = log_of s"
    using a(2) wait_logged[of env ctx d "fst (world s)" "snd (world s)"] by (auto simp: client_result_env_def split: prod.splits)
  then show "grows c0 s'" using a(1) grows_trans grows_same by blast
qed (auto simp: client_result_env_def intro: grows_trans[OF _ grows_FetchResults] grows_trans[OF _ grows_fetch] grows_trans[OF _ grows_status])

lemma grows_observe [simp]: "grows c (observeLifecycle (logged env) ob c)"
  by (rule grows_same) simp

lemma grows_ExecuteStatement: "ExecuteStatement (logged env) cfg ctx h req c = (r, c') \<Longrightarrow> grows c c'"
  by (drule ExecuteStatement_known) (auto simp: outcome_known_def grows_def)

lemma grows_cleanup_cancel: "cleanup_cancel (logged env) cfg ctx op reason c = (x, c') \<Longrightarrow> grows c c'"
  by (auto simp: cleanup_cancel_def Let_def split: if_splits prod.splits intro: grows_trans[OF grows_cancel])

lemma grows_cleanup:
  assumes "cleanupOperationContext (logged env) cfg ctx op reason c = (x, c')"
  shows "grows c c'"
proof -
  obtain ca c1 where 1: "cleanup_cancel (logged env) cfg ctx op reason c = (ca, c1)" by fastforce
  obtain r c2 where 2: "CloseOperation (logged env) cfg ctx (opSessionHandle op) (opHandle op) c1 = (r, c2)" by fastforce
  have "log_of c' = log_of c2"
    using assms[unfolded cleanupOperationContext_def 1 prod.case 2 Let_def] by (auto split: if_splits)
  then show ?thesis using grows_cleanup_cancel[OF 1] grows_close[OF 2] grows_trans grows_same by blast
qed

lemma grows_finish:
  assumes "finish_execution (logged env) cfg ctx op result c = (x, c')"
  shows "grows c c'"
proof -
  obtain r c1 where 1: "CloseOperation (logged env) cfg (cleanup_ctx (logged env) cfg c) (opSessionHandle op) (opHandle op) c = (r, c1)" by fastforce
  have "log_of c' = log_of c1" using assms[unfolded finish_execution_def 1 prod.case] by (auto split: sum.splits)
  then show ?thesis using grows_close[OF 1] grows_trans grows_same by blast
qed

lemma grows_runExecution:
  assumes "runExecution (logged env) cfg ctx h st options limits collect None c = (x, c')"
  shows "grows c c'"
proof -
  let ?ectx = "timed_ctx (logged env) (execution_timeout cfg options) ctx c"
  obtain y c1 where y: "ExecuteStatement (logged env) cfg ?ectx h (execution_request st options (execution_timeout cfg options)) c = (y, c1)" by fastforce
  have g1: "grows c c1" by (rule grows_ExecuteStatement[OF y])
  note eq = assms[unfolded runExecution_def Let_def y prod.case]
  show ?thesis
  proof (cases y)
    case (Inl e)
    then show ?thesis using eq g1 by auto
  next
    case (Inr op)
    obtain result run c2 where r: "consumeResults (client_result_env (logged env) cfg ?ectx op (rowFormat limits)) op limits collect None c1 = (result, run, c2)"
      by (metis surj_pair)
    have g2: "grows c1 c2" by (rule growing.consumeResults_keeps[OF grows_refl r])
    note eq' = eq[unfolded Inr sum.case consume_operation_def emit_event_def option.case prod.case r]
    show ?thesis
    proof (cases run)
      case None
      have "finish_execution (logged env) cfg ctx op result c2 = (x, c')" using eq' None by simp
      then show ?thesis by (rule grows_trans[OF g1 grows_trans[OF g2 grows_finish]])
    next
      case (Some e)
      obtain err c3 where 3: "cleanupOperation (logged env) cfg op e c2 = (err, c3)" by fastforce
      have "c' = c3" using eq' Some 3 by auto
      then show ?thesis using grows_cleanup[OF 3[unfolded cleanupOperation_def]] g1 g2 grows_trans by blast
    qed
  qed
qed

lemma executions_log [simp]: "log_of (c\<lparr>executions := g\<rparr>) = log_of c" "log_of (executions_end c) = log_of c"
  by (simp_all add: executions_end_def)

lemma grows_ExecuteAndWait:
  assumes "ExecuteAndWait (logged env) cfg ctx h st options c = (x, c')"
  shows "grows c c'"
proof -
  obtain e g where g: "ag_begin (executions c) = (e, g)" by fastforce
  note eq = assms[unfolded ExecuteAndWait_def g prod.case]
  show ?thesis
  proof (cases e)
    case (Some err)
    then show ?thesis using eq by (auto intro: grows_same)
  next
    case None
    show ?thesis
    proof (cases "executionSettings cfg options")
      case (Inl err)
      then show ?thesis using eq None by (auto intro: grows_same)
    next
      case (Inr l)
      obtain r c1 where r: "runExecution (logged env) cfg (ctx_merge (logged env) ctx) h st options l True None (c\<lparr>executions := g\<rparr>) = (r, c1)" by fastforce
      have "c' = executions_end c1" using eq None Inr r by simp
      then show ?thesis using grows_runExecution[OF r] by (simp add: grows_def)
    qed
  qed
qed

lemma grows_query: "query (logged env) cfg ctx h st decode c = (r, c') \<Longrightarrow> grows c c'"
proof -
  assume a: "query (logged env) cfg ctx h st decode c = (r, c')"
  obtain x c1 where x: "ExecuteAndWait (logged env) cfg ctx h st no_options c = (x, c1)" by fastforce
  have "c' = c1" using a x by (auto simp: query_def split: prod.splits option.splits)
  then show "grows c c'" using grows_ExecuteAndWait[OF x] by simp
qed

section \<open>What a setup did and what it reports\<close>

text \<open>A request that carries a statement to the server.\<close>

definition carries :: "string \<Rightarrow> http_request \<times> trace_event list \<times> (transport_failure, http_response) result \<Rightarrow> bool" where
  "carries statement entry = (reqMethod (fst entry) = ''POST'' \<and>
     (\<exists>more. reqBody (fst entry) = Some (marshal (JObj ((''statement'', JStr statement) # more)))))"

definition untouched :: "step_report \<Rightarrow> bool" where
  "untouched r = (\<not> Applied r \<and> \<not> OutcomeUnknown r)"

text \<open>The reports tell what the requests did: the steps are sent in order and each at most once; an applied step was
  accepted, and the first step that is not applied ends the setup: it was certainly not carried out, unless it is
  reported as unknown.\<close>

fun ran :: "compiled_step list \<Rightarrow> step_report list \<Rightarrow> exchange_log \<Rightarrow> bool" where
  "ran [] [] log = (log = [])"
| "ran (s # ss) (r # rs) log =
     (if Applied r
      then \<not> OutcomeUnknown r \<and> (\<exists>now later. log = now @ later \<and> list_all (carries (csStatement s)) now \<and> succeeded now \<and> ran ss rs later)
      else list_all (carries (csStatement s)) log \<and> length log \<le> 1 \<and> (OutcomeUnknown r \<or> certainly_not_done log) \<and>
        list_all untouched rs \<and> length rs = length ss)"
| "ran _ _ _ = False"

definition changes_may_remain :: "step_report list \<Rightarrow> bool" where
  "changes_may_remain rs = list_ex (\<lambda>r. isSessionSetupCreateKind (spKind r) \<and> (Applied r \<or> OutcomeUnknown r)) rs"

lemma ran_fresh: "ran steps (map fresh_report steps) []"
  by (cases steps) (auto simp: fresh_report_def untouched_def certainly_not_done_def list_all_iff)

lemma configureSessionRequest_sends:
  assumes "configureSessionRequest (logged env) cfg ctx h st timeout redaction c = (err, c')"
  shows "\<exists>new. log_of c' = log_of c @ new \<and> list_all (carries st) new \<and> length new \<le> 1 \<and>
    (case err of None \<Rightarrow> succeeded new | Some e \<Rightarrow> as_config_unknown e \<noteq> None \<or> certainly_not_done new)"
proof -
  let ?t = "if timeout \<le> 0 then ExecutionTimeout cfg else timeout"
  let ?body = "JObj ([(''statement'', JStr st)] @ wire_timeout (selectedCapabilities cfg (versions c)) ?t)"
  let ?ctx = "ctx_with_redaction (logged env) redaction (timed_ctx (logged env) ?t ctx c)"
  let ?target = "endpointURL (logged env) cfg c True (session_path h @ ''/configure-session'')"
  obtain n e v c1 where d: "doJSON (logged env) cfg ?ctx ''POST'' ?target (Some ?body) no_response False c = ((n, e, v), c1)"
    by (metis prod.collapse)
  note eq = assms[unfolded configureSessionRequest_def Let_def d error_of_def prod.case]
  have c': "c' = c1" using eq by (auto split: option.splits)
  obtain new where n: "appends new c c1" "length new \<le> 1"
    "list_all (\<lambda>(req, ev, out). reqMethod req = ''POST'' \<and> reqTarget req = ?target \<and> reqBody req = map_option marshal (Some ?body)) new"
    using doJSON_log[OF d] by (metis (no_types, lifting))
  obtain new' where n': "log_of c1 = log_of c @ new'"
    "case e of None \<Rightarrow> succeeded new' | Some x \<Rightarrow> unknown_outcome x \<or> certainly_not_done new'"
    using doJSON_submit[OF d] by blast
  have same: "new' = new" using appends_log[OF n(1)] n'(1) by simp
  have "carries st x" if "x \<in> set new" for x
  proof -
    have "reqMethod (fst x) = ''POST'' \<and> reqBody (fst x) = Some (marshal (JObj ((''statement'', JStr st) #
        wire_timeout (selectedCapabilities cfg (versions c)) ?t)))"
      using n(3) that by (cases x) (auto simp: list_all_iff)
    then show ?thesis unfolding carries_def by blast
  qed
  then have "list_all (carries st) new" by (simp add: list_all_iff)
  moreover have "case err of None \<Rightarrow> succeeded new | Some x \<Rightarrow> as_config_unknown x \<noteq> None \<or> certainly_not_done new"
  proof (cases e)
    case None
    then show ?thesis using eq n'(2) same by simp
  next
    case (Some x)
    have u: "unknown_outcome x \<longleftrightarrow> unknown_phase x \<noteq> None"
      by (simp add: unknown_outcome_def unknown_phase_def split: option.splits)
    show ?thesis
    proof (cases "unknown_phase x")
      case None
      then have "err = Some x" using eq Some by simp
      then show ?thesis using None n'(2) same Some u by simp
    next
      case (Some phase)
      then have "err = Some (ConfigurationOutcomeUnknownError h (- 1) StepUnset phase (Some x))" using eq \<open>e = Some x\<close> by simp
      then show ?thesis by (simp add: as_config_unknown_def is_config_unknown_def)
    qed
  qed
  ultimately show ?thesis using appends_log[OF n(1)] n(2) c' by blast
qed

lemma apply_step_sends:
  assumes "apply_step (logged env) cfg ctx h options step c = ((sent, err), c')"
  shows "\<exists>new. log_of c' = log_of c @ new \<and> list_all (carries (csStatement step)) new \<and> length new \<le> 1 \<and>
    (case err of None \<Rightarrow> succeeded new | Some e \<Rightarrow> sent \<and> as_config_unknown e \<noteq> None \<or> certainly_not_done new)"
proof -
  let ?o = "observeLifecycle (logged env) (setup_event ''SessionSetupStepApplying'' h step None) c"
  obtain x c1 where x: "validateStatement (logged env) ctx h (csStatement step) ?o = (x, c1)" by fastforce
  have l: "log_of c1 = log_of c" using validateStatement_log[OF x] by simp
  note eq = assms[unfolded apply_step_def x prod.case]
  show ?thesis
  proof (cases x)
    case (Some e)
    then show ?thesis using eq l by (intro exI[of _ "[]"]) (auto simp: certainly_not_done_def)
  next
    case None
    obtain e c2 where "configureSessionRequest (logged env) cfg ctx h (csStatement step) (soExecutionTimeout options) (step_redaction step) c1 = (e, c2)"
      by fastforce
    moreover from configureSessionRequest_sends[OF this] obtain new where "log_of c2 = log_of c @ new" "list_all (carries (csStatement step)) new"
      "length new \<le> 1" "case e of None \<Rightarrow> succeeded new | Some e \<Rightarrow> as_config_unknown e \<noteq> None \<or> certainly_not_done new"
      using l by auto
    ultimately show ?thesis using eq None by (intro exI[of _ new]) (auto split: option.splits)
  qed
qed

text \<open>Failing at a step.\<close>

lemma failSessionSetup_ends:
  assumes "failSessionSetup (logged env) result step cause c = ((result', err), c')"
    "stepIndex step < length (suSteps result)" "spKind (suSteps result ! stepIndex step) = stepKind step"
  shows "suSteps result' = suSteps result \<and> suFailedIndex result' = int (stepIndex step) \<and> suComplete result' = suComplete result \<and>
    PersistentChangesMayRemain result' = changes_may_remain (suSteps result) \<and>
    (\<exists>e. err = Some e \<and> (\<forall>t. err_is cause t \<longrightarrow> err_is e t)) \<and> log_of c' = log_of c"
proof -
  have "OutcomeUnknown (suSteps result ! stepIndex step) \<Longrightarrow> isSessionSetupCreateKind (stepKind step) \<Longrightarrow> changes_may_remain (suSteps result)"
    using assms(2,3) unfolding changes_may_remain_def list_ex_iff by (metis nth_mem)
  then show ?thesis using assms(1)
    by (auto simp: failSessionSetup_def Let_def sessionSetupPersistentChangesMayRemain_def changes_may_remain_def[symmetric])
qed

lemma step_failure_ends:
  assumes "step_failure h step err result = (err', result')" "suSteps result = before @ r # after" "length before = stepIndex step"
  shows "\<exists>r'. suSteps result' = before @ r' # after \<and> Applied r' = Applied r \<and> spKind r' = spKind r \<and>
    OutcomeUnknown r' = (OutcomeUnknown r \<or> as_config_unknown err \<noteq> None) \<and> suComplete result' = suComplete result"
proof (cases "as_config_unknown err")
  case None
  then show ?thesis using assms by (auto simp: step_failure_def)
next
  case (Some x)
  then have "is_config_unknown x" by (auto simp: as_config_unknown_def find_Some_iff)
  then obtain s i k p z where "x = ConfigurationOutcomeUnknownError s i k p z" by (cases x) (auto simp: is_config_unknown_def)
  then have "result' = mark_step (\<lambda>r. r\<lparr>OutcomeUnknown := True\<rparr>) (stepIndex step) result"
    using assms(1) Some by (simp add: step_failure_def)
  then have "suSteps result' = before @ r\<lparr>OutcomeUnknown := True\<rparr> # after" "suComplete result' = suComplete result"
    using assms(2,3) by (simp_all add: mark_step_def list_update_append nth_append)
  then show ?thesis using Some by simp
qed

lemma mark_step_split:
  "suSteps result = before @ r # after \<Longrightarrow> length before = i \<Longrightarrow> suSteps (mark_step f i result) = before @ f r # after"
  by (simp add: mark_step_def list_update_append nth_append)

lemma mark_step_sel [simp]: "suComplete (mark_step f i r) = suComplete r" "suFailedIndex (mark_step f i r) = suFailedIndex r"
  "suSession (mark_step f i r) = suSession r" "PersistentChangesMayRemain (mark_step f i r) = PersistentChangesMayRemain r"
  "length (suSteps (mark_step f i r)) = length (suSteps r)"
  by (simp_all add: mark_step_def)

text \<open>How the first loop ends.\<close>

definition apply_ended :: "step_report list \<Rightarrow> step_report list \<Rightarrow> setup_result \<Rightarrow> goerr option \<Rightarrow> bool" where
  "apply_ended before rs result err =
     (suSteps result = before @ rs \<and>
      (case err of None \<Rightarrow> list_all Applied rs \<and> suFailedIndex result = - 1
       | Some e \<Rightarrow> (\<exists>k < length rs. suFailedIndex result = int (length before + k) \<and> \<not> Applied (rs ! k)) \<and>
           PersistentChangesMayRemain result = changes_may_remain (suSteps result)))"

lemma apply_steps_ran:
  assumes "apply_steps (logged env) cfg ctx h options result steps c = ((result', err), c')"
    "suSteps result = before @ map fresh_report steps" "map stepIndex steps = [length before..<length before + length steps]"
    "suFailedIndex result = - 1"
  shows "\<exists>rs new. apply_ended before rs result' err \<and> ran steps rs new \<and> log_of c' = log_of c @ new \<and>
    map spKind rs = map stepKind steps \<and> suComplete result' = suComplete result"
  using assms
proof (induction steps arbitrary: result c before)
  case Nil
  then show ?case by (intro exI[of _ "[]"]) (auto simp: apply_ended_def)
next
  case (Cons step steps)
  let ?r = "fresh_report step"
  have idx: "length before = stepIndex step" "map stepIndex steps = [length (before @ [x])..<length (before @ [x]) + length steps]" for x
    using Cons.prems(3) by (simp_all add: upt_rec)
  have split: "suSteps result = before @ ?r # map fresh_report steps" using Cons.prems(2) by simp
  obtain sent e c1 where s: "apply_step (logged env) cfg ctx h options step c = ((sent, e), c1)" by (metis surj_pair)
  obtain now where now: "log_of c1 = log_of c @ now" "list_all (carries (csStatement step)) now" "length now \<le> 1"
    "case e of None \<Rightarrow> succeeded now | Some x \<Rightarrow> sent \<and> as_config_unknown x \<noteq> None \<or> certainly_not_done now"
    using apply_step_sends[OF s] by blast
  note eq = Cons.prems(1)[unfolded apply_steps.simps s prod.case]
  show ?case
  proof (cases e)
    case None
    let ?m = "mark_step (\<lambda>r. r\<lparr>Applied := True\<rparr>) (stepIndex step) result"
    let ?a = "?r\<lparr>Applied := True\<rparr>"
    let ?o = "observeLifecycle (logged env) (setup_event ''SessionSetupStepApplied'' h step None) c1"
    have m: "suSteps ?m = (before @ [?a]) @ map fresh_report steps" using mark_step_split[OF split idx(1)] by simp
    have run: "apply_steps (logged env) cfg ctx h options ?m steps ?o = ((result', err), c')" using eq None by simp
    from Cons.IH[OF run m idx(2)] Cons.prems(4) obtain rs new where r: "apply_ended (before @ [?a]) rs result' err" "ran steps rs new"
      "log_of c' = log_of ?o @ new" "map spKind rs = map stepKind steps" "suComplete result' = suComplete result"
      by auto
    have "apply_ended before (?a # rs) result' err"
      using r(1) by (auto simp: apply_ended_def split: option.splits intro: exI[of _ "Suc _"])
    moreover have "ran (step # steps) (?a # rs) (now @ new)"
      using r(2) now(2,4) None by (auto simp: fresh_report_def)
    ultimately show ?thesis using r(3-5) now(1) by (intro exI[of _ "?a # rs"] exI[of _ "now @ new"]) (simp add: fresh_report_def)
  next
    case (Some x)
    obtain x' result1 where f: "(if sent then step_failure h step x result else (x, result)) = (x', result1)" by fastforce
    obtain r' where r': "suSteps result1 = before @ r' # map fresh_report steps" "\<not> Applied r'" "spKind r' = stepKind step"
      "OutcomeUnknown r' = (sent \<and> as_config_unknown x \<noteq> None)" "suComplete result1 = suComplete result"
    proof (cases sent)
      case True
      then have "step_failure h step x result = (x', result1)" using f by simp
      from step_failure_ends[OF this split idx(1)] that True show ?thesis by (auto simp: fresh_report_def)
    next
      case False
      then show ?thesis using f that[of ?r] split by (auto simp: fresh_report_def)
    qed
    have run: "failSessionSetup (logged env) result1 step x' c1 = ((result', err), c')" using eq Some f by simp
    have ends: "suSteps result' = suSteps result1 \<and> suFailedIndex result' = int (stepIndex step) \<and> suComplete result' = suComplete result1 \<and>
        PersistentChangesMayRemain result' = changes_may_remain (suSteps result1) \<and>
        (\<exists>e. err = Some e \<and> (\<forall>t. err_is x' t \<longrightarrow> err_is e t)) \<and> log_of c' = log_of c1"
      by (rule failSessionSetup_ends[OF run]) (use r' idx(1) in \<open>auto simp: nth_append\<close>)
    have "apply_ended before (r' # map fresh_report steps) result' err"
      using ends r' idx(1) by (auto simp: apply_ended_def)
    moreover have "ran (step # steps) (r' # map fresh_report steps) now"
      using now(2-4) Some r'(2,4) by (auto simp: list_all_iff untouched_def fresh_report_def)
    ultimately show ?thesis using ends now(1) r'(3,5)
      by (intro exI[of _ "r' # map fresh_report steps"] exI[of _ now]) (simp add: fresh_report_def)
  qed
qed

lemma grows_names: "listMetadataNames (logged env) cfg ctx h st c = (r, c') \<Longrightarrow> grows c c'"
  unfolding listMetadataNames_def by (rule grows_query)

lemma grows_databases: "ListDatabases (logged env) cfg ctx h catalog c = (r, c') \<Longrightarrow> grows c c'"
  by (auto simp: ListDatabases_def split: sum.splits if_splits dest: grows_names)

lemma grows_tables: "listTablesOrViews (logged env) cfg ctx h command view i c = (r, c') \<Longrightarrow> grows c c'"
proof -
  assume a: "listTablesOrViews (logged env) cfg ctx h command view i c = (r, c')"
  show "grows c c'"
  proof (cases "list_scope command i")
    case (Inl err)
    then show ?thesis using a by (simp add: listTablesOrViews_def)
  next
    case (Inr st)
    obtain x c1 where x: "listMetadataNames (logged env) cfg ctx h st c = (x, c1)" by fastforce
    then have "c' = c1" using a Inr by (simp add: listTablesOrViews_def)
    then show ?thesis using grows_names[OF x] by simp
  qed
qed

lemma grows_describe: "DescribeTable (logged env) cfg ctx h i c = (r, c') \<Longrightarrow> grows c c'"
  by (auto simp: DescribeTable_def split: sum.splits dest: grows_query)

lemma grows_verify_table:
  assumes "verify_table (logged env) cfg ctx h target options c = (x, c')"
  shows "grows c c'"
proof -
  let ?scope = "target\<lparr>Object := []\<rparr>"
  obtain a c1 where a: "ListTables (logged env) cfg ctx h ?scope c = (a, c1)" by fastforce
  obtain b c2 where b: "ListViews (logged env) cfg ctx h ?scope c1 = (b, c2)" by fastforce
  obtain d c3 where d: "DescribeTable (logged env) cfg ctx h target c2 = (d, c3)" by fastforce
  note g1 = grows_tables[OF a[unfolded ListTables_def]]
  note g2 = grows_trans[OF g1 grows_tables[OF b[unfolded ListViews_def]]]
  note g3 = grows_trans[OF g2 grows_describe[OF d]]
  have "c' = c1 \<or> c' = c2 \<or> c' = c3"
    using assms[unfolded verify_table_def Let_def a prod.case b d] by (auto split: sum.splits if_splits)
  then show ?thesis using g1 g2 g3 by blast
qed

lemma grows_verify:
  assumes "verifySessionSetupStep (logged env) cfg ctx h step options c = (x, c')"
  shows "grows c c'"
proof -
  obtain a c1 where a: "ListCatalogs (logged env) cfg ctx h c = (a, c1)" by fastforce
  obtain b c2 where b: "ListDatabases (logged env) cfg ctx h (Catalog (stepTarget step)) c = (b, c2)" by fastforce
  obtain d c3 where d: "verify_table (logged env) cfg ctx h (stepTarget step) options c = (d, c3)" by fastforce
  note g = grows_names[OF a[unfolded ListCatalogs_def]] grows_databases[OF b] grows_verify_table[OF d] grows_refl[of c]
  have "c' = c1 \<or> c' = c2 \<or> c' = c3 \<or> c' = c"
    using assms[unfolded verifySessionSetupStep_def a b d prod.case] by (auto split: sum.splits if_splits)
  then show ?thesis using g by blast
qed

text \<open>The second loop only sets the marks of verification.\<close>

definition unverified :: "step_report \<Rightarrow> step_report" where
  "unverified r = r\<lparr>Verified := False\<rparr>"

lemma unverified_kinds:
  "map unverified rs = map unverified rs' \<Longrightarrow> changes_may_remain rs = changes_may_remain rs' \<and> list_all Applied rs = list_all Applied rs' \<and>
    list_all untouched rs = list_all untouched rs' \<and> map spKind rs = map spKind rs' \<and> length rs = length rs'"
proof (induction rs arbitrary: rs')
  case (Cons r rs)
  then obtain r' t where rs': "rs' = r' # t" "unverified r = unverified r'" "map unverified rs = map unverified t" by auto
  have "Applied r = Applied r'" "OutcomeUnknown r = OutcomeUnknown r'" "spKind r = spKind r'"
    using rs'(2) by (metis (no_types, lifting) step_report.select_convs step_report.update_convs unverified_def step_report.surjective)+
  then show ?case using Cons.IH[OF rs'(3)] rs'(1) by (simp add: changes_may_remain_def untouched_def)
qed (simp add: changes_may_remain_def)

lemma ran_unverified: "map unverified rs = map unverified rs' \<Longrightarrow> ran ss rs log = ran ss rs' log"
proof (induction ss rs log arbitrary: rs' rule: ran.induct)
  case (2 s ss r rs log)
  then obtain r' t where rs': "rs' = r' # t" "unverified r = unverified r'" "map unverified rs = map unverified t" by auto
  have "Applied r = Applied r'" "OutcomeUnknown r = OutcomeUnknown r'"
    using rs'(2) by (metis (no_types, lifting) step_report.select_convs step_report.update_convs unverified_def step_report.surjective)+
  then show ?case using "2.IH"[OF _ rs'(3)] unverified_kinds[OF rs'(3)] rs'(1) by auto
qed auto

lemma verify_steps_ends:
  assumes "verify_steps (logged env) cfg ctx h options result steps c = ((result', err), c')"
    "map stepIndex steps = [n..<n + length steps]" "n + length steps = length (suSteps result)"
    "map spKind (drop n (suSteps result)) = map stepKind steps"
  shows "grows c c' \<and> map unverified (suSteps result') = map unverified (suSteps result) \<and> suComplete result' = suComplete result \<and>
    (\<forall>j < length (suSteps result). Verified (suSteps result ! j) \<longrightarrow> Verified (suSteps result' ! j)) \<and>
    (case err of None \<Rightarrow> suFailedIndex result' = suFailedIndex result \<and>
        (\<forall>i < length steps. sessionSetupStepRequiresVerification (steps ! i) options \<longrightarrow> Verified (suSteps result' ! (n + i)))
     | Some e \<Rightarrow> err_is e ErrSessionSetupVerification \<and> PersistentChangesMayRemain result' = changes_may_remain (suSteps result'))"
  using assms
proof (induction steps arbitrary: result c n)
  case Nil
  then show ?case by simp
next
  case (Cons step steps)
  have "[n..<n + length (step # steps)] = n # [Suc n..<Suc n + length steps]" by (subst upt_conv_Cons) simp_all
  then have idx: "stepIndex step = n" "n < length (suSteps result)" "map stepIndex steps = [Suc n..<Suc n + length steps]"
    "Suc n + length steps = length (suSteps result)"
    using Cons.prems(2,3) by (simp_all del: upt_Suc)
  have kinds: "spKind (suSteps result ! n) = stepKind step" "map spKind (drop (Suc n) (suSteps result)) = map stepKind steps"
    using Cons.prems(4) idx(2) by (simp_all add: Cons_nth_drop_Suc[symmetric])
  show ?case
  proof (cases "sessionSetupStepRequiresVerification step options")
    case False
    have run: "verify_steps (logged env) cfg ctx h options result steps c = ((result', err), c')" using Cons.prems(1) False by simp
    from Cons.IH[OF run idx(3,4) kinds(2)] show ?thesis using False by (cases err) (simp_all add: All_less_Suc2)
  next
    case True
    obtain x c1 where x: "verifySessionSetupStep (logged env) cfg ctx h step options c = (x, c1)" by fastforce
    have g: "grows c c1" by (rule grows_verify[OF x])
    note eq = Cons.prems(1)[unfolded verify_steps.simps x prod.case]
    show ?thesis
    proof (cases x)
      case (Some e)
      have run: "failSessionSetup (logged env) result step (SetupVerificationError (Some e) (stepKind step) (stepTarget step)) c1 = ((result', err), c')"
        using eq True Some by simp
      note ends = failSessionSetup_ends[OF run, unfolded idx(1), OF idx(2) kinds(1)]
      then obtain e' where "err = Some e'" "err_is e' ErrSessionSetupVerification" by auto
      then show ?thesis using ends g grows_trans[OF g grows_same] by auto
    next
      case None
      let ?m = "mark_step (\<lambda>r. r\<lparr>Verified := True\<rparr>) (stepIndex step) result"
      let ?o = "observeLifecycle (logged env) (setup_event ''SessionSetupStepVerified'' h step None) c1"
      have run: "verify_steps (logged env) cfg ctx h options ?m steps ?o = ((result', err), c')" using eq True None by simp
      have m: "suSteps ?m = (suSteps result)[n := (suSteps result ! n)\<lparr>Verified := True\<rparr>]" using idx(1) by (simp add: mark_step_def)
      have mk: "map spKind (drop (Suc n) (suSteps ?m)) = map stepKind steps" using kinds(2) by (simp add: m)
      have ml: "Suc n + length steps = length (suSteps ?m)" using idx(4) by simp
      have mu: "map unverified (suSteps ?m) = map unverified (suSteps result)"
        using idx(2) by (simp add: m map_update unverified_def list_update_same_conv)
      have mv: "Verified (suSteps ?m ! n)" "\<And>j. j < length (suSteps result) \<Longrightarrow> Verified (suSteps result ! j) \<Longrightarrow> Verified (suSteps ?m ! j)"
        using idx(2) by (auto simp: m nth_list_update)
      note ih = Cons.IH[OF run idx(3) ml mk]
      have "grows c c'" using ih grows_trans[OF g] grows_trans[OF grows_observe] by blast
      then show ?thesis using ih mu mv idx(2) by (cases err) (simp_all add: All_less_Suc2)
    qed
  qed
qed

section \<open>Properties\<close>

lemma compiled_numbered: "compileSessionSetupPlan u plan = Inr steps \<Longrightarrow> map stepIndex steps = [0..<length steps]"
proof -
  assume c: "compileSessionSetupPlan u plan = Inr steps"
  from c obtain s1 s2 s3 where s: "compile_catalogs u 0 [] [] (Catalogs plan) = Inr s1"
    "compile_databases u 0 [] s1 (Databases plan) = Inr s2"
    "compile_tables 0 [] s2 (Tables plan) = Inr s3" "compile_scope plan s3 = Inr steps"
    by (rule compileSessionSetupPlan_Inr)
  show ?thesis
    using compile_catalogs_shape[OF s(1)] compile_databases_shape[OF s(2)] compile_tables_shape[OF s(3)] compile_scope_shape[OF s(4)]
    by (simp add: numbered_def)
qed

lemma list_all_nth_upto: "list_all P xs \<Longrightarrow> i < length xs \<Longrightarrow> P (xs ! i)"
  by (simp add: list_all_length)


definition example_setup_options :: setup_options where
  "example_setup_options = \<lparr>soExecutionTimeout = 0, VerifyMetadata = False, VerifyTableSchema = False,
     soKeepSessionOnFailure = False, soCleanupTimeout = 0\<rparr>"




end
