(* ===== verification/Session_Recipe.thy ===== *)
theory Session_Recipe
  imports Session_Setup
begin

text \<open>
  \<open>flinksqlgateway/session_recipe.go\<close>: a session is opened and the statements of a recipe are executed on it one after the
  other.  The result names statements by their position only.
\<close>

record session_recipe =
  recName :: string
  recProperties :: "(string \<times> string) list"
  SetupStatements :: "string list"

record recipe_options =
  roExecuteOptions :: execute_options
  roKeepSessionOnFailure :: bool
  roCleanupTimeout :: int

record statement_result =
  stIndex :: nat
  stOperation :: string
  stStatus :: string
  stResultKind :: string
  stJobID :: string

record replay_result =
  rpSession :: string
  rpApplied :: "statement_result list"
  rpFailedIndex :: int
  rpComplete :: bool

text \<open>An execution without an error has a result.\<close>

definition statement_result_of :: "nat \<Rightarrow> execution_result option \<Rightarrow> statement_result" where
  "statement_result_of index execution =
     (case execution of
        None \<Rightarrow> \<lparr>stIndex = index, stOperation = [], stStatus = [], stResultKind = [], stJobID = []\<rparr>
      | Some r \<Rightarrow> \<lparr>stIndex = index, stOperation = opHandle (resOperation r), stStatus = resStatus r,
          stResultKind = resResultKind r, stJobID = resJobID r\<rparr>)"

definition recipe_cleanup ::
  "('w, 'c) transport_env \<Rightarrow> config \<Rightarrow> recipe_options \<Rightarrow> string \<Rightarrow> 'w client \<Rightarrow> goerr option \<times> 'w client" where
  "recipe_cleanup env cfg options sessionHandle c =
     (if roKeepSessionOnFailure options then (None, c)
      else CloseSession env cfg (ctx_with_cleanup env (ctx_with_timeout env (roCleanupTimeout options) (ctx_background env) (world c)))
        sessionHandle c)"

fun replay ::
  "('w, 'c) transport_env \<Rightarrow> config \<Rightarrow> 'c \<Rightarrow> recipe_options \<Rightarrow> nat \<Rightarrow> replay_result \<Rightarrow> string list \<Rightarrow> 'w client
    \<Rightarrow> (replay_result \<times> goerr option) \<times> 'w client" where
  "replay env cfg ctx options index result [] c = ((result\<lparr>rpComplete := True\<rparr>, None), c)"
| "replay env cfg ctx options index result (statement # statements) c =
     (case ExecuteAndWait env cfg ctx (rpSession result) statement (roExecuteOptions options) c of
        ((execution, Some executeErr), c1) \<Rightarrow>
          (case recipe_cleanup env cfg options (rpSession result) c1 of
             (closeErr, c2) \<Rightarrow> ((result\<lparr>rpFailedIndex := int index\<rparr>,
                Some (RecipeReplayError (Some executeErr) closeErr (rpSession result) (int index))), c2))
      | ((execution, None), c1) \<Rightarrow>
          replay env cfg ctx options (Suc index) (result\<lparr>rpApplied := rpApplied result @ [statement_result_of index execution]\<rparr>)
            statements c1)"

definition OpenSessionFromRecipeWithOptions ::
  "('w, 'c) transport_env \<Rightarrow> config \<Rightarrow> 'c \<Rightarrow> session_recipe \<Rightarrow> recipe_options \<Rightarrow> 'w client
    \<Rightarrow> (replay_result option \<times> goerr option) \<times> 'w client" where
  "OpenSessionFromRecipeWithOptions env cfg ctx recipe options c =
     (let options = (if roCleanupTimeout options \<le> 0 then options\<lparr>roCleanupTimeout := RequestTimeout cfg\<rparr> else options) in
      case OpenSession env cfg ctx \<lparr>osName = recName recipe, osProperties = recProperties recipe\<rparr> c of
        (Inl err, c1) \<Rightarrow> ((None, Some err), c1)
      | (Inr session, c1) \<Rightarrow>
          apfst (apfst Some) (replay env cfg ctx options 0
            \<lparr>rpSession = srHandle session, rpApplied = [], rpFailedIndex = - 1, rpComplete = False\<rparr> (SetupStatements recipe) c1))"

definition OpenSessionFromRecipe ::
  "('w, 'c) transport_env \<Rightarrow> config \<Rightarrow> 'c \<Rightarrow> session_recipe \<Rightarrow> 'w client \<Rightarrow> (replay_result option \<times> goerr option) \<times> 'w client" where
  "OpenSessionFromRecipe env cfg ctx recipe =
     OpenSessionFromRecipeWithOptions env cfg ctx recipe
       \<lparr>roExecuteOptions = no_options, roKeepSessionOnFailure = False, roCleanupTimeout = 0\<rparr>"

section \<open>Progress of a recipe\<close>

lemma replay_progress:
  assumes "replay env cfg ctx options index result statements c = ((result', err), c')"
    "map stIndex (rpApplied result) = [0..<index]" "\<not> rpComplete result" "rpFailedIndex result = - 1"
  shows "map stIndex (rpApplied result') = [0..<length (rpApplied result')] \<and>
    (case err of
       None \<Rightarrow> rpComplete result' \<and> length (rpApplied result') = index + length statements \<and> rpFailedIndex result' = - 1
     | Some e \<Rightarrow> \<not> rpComplete result' \<and> length (rpApplied result') < index + length statements \<and>
         rpFailedIndex result' = int (length (rpApplied result')))"
  using assms
proof (induction statements arbitrary: index result c)
  case Nil
  have "length (rpApplied result) = index" using Nil.prems(2) by (metis length_map length_upt minus_nat.diff_0)
  then show ?case using Nil.prems by auto
next
  case (Cons st sts)
  have len: "length (rpApplied result) = index" using Cons.prems(2) by (metis length_map length_upt minus_nat.diff_0)
  obtain execution e c1 where x: "ExecuteAndWait env cfg ctx (rpSession result) st (roExecuteOptions options) c = ((execution, e), c1)"
    by (metis surj_pair)
  note eq = Cons.prems(1)[unfolded replay.simps x prod.case]
  show ?case
  proof (cases e)
    case None
    let ?r = "result\<lparr>rpApplied := rpApplied result @ [statement_result_of index execution]\<rparr>"
    have run: "replay env cfg ctx options (Suc index) ?r sts c1 = ((result', err), c')" using eq None by simp
    have "map stIndex (rpApplied ?r) = [0..<Suc index]"
      using Cons.prems(2) by (simp add: statement_result_of_def split: option.splits)
    from Cons.IH[OF run this] Cons.prems(3,4) show ?thesis by (simp split: option.splits)
  next
    case (Some z)
    obtain ce c2 where r: "recipe_cleanup env cfg options (rpSession result) c1 = (ce, c2)" by fastforce
    then show ?thesis using eq Some Cons.prems(2-4) len by (auto simp: r)
  qed
qed

text \<open>Replaying a recipe applies a prefix of its statements, in order: every one when it reports success, and otherwise
  the ones before the statement it names as failed.\<close>

lemma recipe_progress:
  assumes "OpenSessionFromRecipeWithOptions env cfg ctx recipe options c = ((Some result, err), c')"
  shows "map stIndex (rpApplied result) = [0..<length (rpApplied result)] \<and>
    (case err of
       None \<Rightarrow> rpComplete result \<and> length (rpApplied result) = length (SetupStatements recipe) \<and> rpFailedIndex result = - 1
     | Some e \<Rightarrow> \<not> rpComplete result \<and> length (rpApplied result) < length (SetupStatements recipe) \<and>
         rpFailedIndex result = int (length (rpApplied result)))"
proof -
  obtain x c1 where o: "OpenSession env cfg ctx \<lparr>osName = recName recipe, osProperties = recProperties recipe\<rparr> c = (x, c1)" by fastforce
  let ?o = "if roCleanupTimeout options \<le> 0 then options\<lparr>roCleanupTimeout := RequestTimeout cfg\<rparr> else options"
  note eq = assms[unfolded OpenSessionFromRecipeWithOptions_def Let_def o prod.case]
  then obtain session where s: "x = Inr session" by (cases x) auto
  let ?r = "\<lparr>rpSession = srHandle session, rpApplied = [], rpFailedIndex = - 1, rpComplete = False\<rparr>"
  obtain r e c2 where r: "replay env cfg ctx ?o 0 ?r (SetupStatements recipe) c1 = ((r, e), c2)" by (metis surj_pair)
  have "r = result" "e = err" using eq[unfolded s sum.case r] by simp_all
  then show ?thesis using replay_progress[OF r] by (cases err) simp_all
qed

end
