(* ===== verification/Session_Gate.thy ===== *)
theory Session_Gate
  imports Tokens
begin

text \<open>
  \<open>acquireSessionSetup\<close> and \<open>releaseSessionSetupGateRef\<close> of \<open>flinksqlgateway/session_setup.go\<close> with any number of callers at
  once.  A step is one section under \<open>stateMu\<close>, one channel operation or one look at a context.  A gate is known by
  a number; \<open>gates\<close> is the map of the client, \<open>heap\<close> the gates that were made.
\<close>

record setup_gate =
  gateToken :: nat
  gateRefs :: nat

text \<open>Where a caller is: before and after, waiting in the \<open>select\<close>, with the token before the second look at its context, in
  the configure flow, and on its way to \<open>releaseSessionSetupGateRef\<close>.\<close>

datatype gate_place = Outside | Waiting nat | Looking nat | Inside nat | Leaving nat

fun place_gate :: "gate_place \<Rightarrow> nat option" where
  "place_gate Outside = None"
| "place_gate (Waiting g) = Some g"
| "place_gate (Looking g) = Some g"
| "place_gate (Inside g) = Some g"
| "place_gate (Leaving g) = Some g"

fun gate_holds :: "nat \<Rightarrow> gate_place \<Rightarrow> bool" where
  "gate_holds g (Looking k) = (k = g)"
| "gate_holds g (Inside k) = (k = g)"
| "gate_holds g _ = False"

record gate_state =
  gates :: "string \<Rightarrow> nat option"
  gateHeap :: "nat \<Rightarrow> setup_gate"
  nextGate :: nat
  gatePlaces :: "gate_place list"
  gatesClosed :: bool

definition put_place :: "nat \<Rightarrow> gate_place \<Rightarrow> gate_state \<Rightarrow> gate_state" where
  "put_place i p s = s\<lparr>gatePlaces := (gatePlaces s)[i := p]\<rparr>"

definition put_gate :: "nat \<Rightarrow> setup_gate \<Rightarrow> gate_state \<Rightarrow> gate_state" where
  "put_gate g x s = s\<lparr>gateHeap := (gateHeap s)(g := x)\<rparr>"

text \<open>The section of \<open>acquireSessionSetup\<close> under the lock, for a client that is open.\<close>

definition enter_gate :: "string \<Rightarrow> nat \<Rightarrow> gate_state \<Rightarrow> gate_state" where
  "enter_gate h i s =
     (case gates s h of
        None \<Rightarrow> (let g = nextGate s in
          put_place i (Waiting g) (put_gate g \<lparr>gateToken = 1, gateRefs = 1\<rparr> (s\<lparr>gates := (gates s)(h := Some g), nextGate := g + 1\<rparr>)))
      | Some g \<Rightarrow> put_place i (Waiting g) (put_gate g ((gateHeap s g)\<lparr>gateRefs := gateRefs (gateHeap s g) + 1\<rparr>) s))"

definition releaseSessionSetupGateRef :: "string \<Rightarrow> nat \<Rightarrow> nat \<Rightarrow> gate_state \<Rightarrow> gate_state" where
  "releaseSessionSetupGateRef h g i s =
     (let refs = gateRefs (gateHeap s g) - 1;
          s1 = put_place i Outside (put_gate g ((gateHeap s g)\<lparr>gateRefs := refs\<rparr>) s) in
      if refs = 0 \<and> gates s h = Some g then s1\<lparr>gates := (gates s)(h := None)\<rparr> else s1)"

definition take_token :: "nat \<Rightarrow> nat \<Rightarrow> gate_state \<Rightarrow> gate_state" where
  "take_token g i s = put_place i (Looking g) (put_gate g ((gateHeap s g)\<lparr>gateToken := gateToken (gateHeap s g) - 1\<rparr>) s)"

definition return_token :: "nat \<Rightarrow> nat \<Rightarrow> gate_state \<Rightarrow> gate_state" where
  "return_token g i s = put_place i (Leaving g) (put_gate g ((gateHeap s g)\<lparr>gateToken := gateToken (gateHeap s g) + 1\<rparr>) s)"

text \<open>The callers' session handles are \<open>hs\<close>.  A context may end at any time; the channel holds one token, so that putting a
  token back waits for room.\<close>

inductive gate_step :: "string list \<Rightarrow> gate_state \<Rightarrow> gate_state \<Rightarrow> bool" for hs where
  close_client: "gate_step hs s (s\<lparr>gatesClosed := True\<rparr>)"
| enter: "i < length hs \<Longrightarrow> gatePlaces s ! i = Outside \<Longrightarrow> \<not> gatesClosed s \<Longrightarrow> gate_step hs s (enter_gate (hs ! i) i s)"
| take: "i < length hs \<Longrightarrow> gatePlaces s ! i = Waiting g \<Longrightarrow> 0 < gateToken (gateHeap s g) \<Longrightarrow> gate_step hs s (take_token g i s)"
| give_up: "i < length hs \<Longrightarrow> gatePlaces s ! i = Waiting g \<Longrightarrow> gate_step hs s (put_place i (Leaving g) s)"
| look: "i < length hs \<Longrightarrow> gatePlaces s ! i = Looking g \<Longrightarrow> gate_step hs s (put_place i (Inside g) s)"
| too_late: "i < length hs \<Longrightarrow> gatePlaces s ! i = Looking g \<Longrightarrow> gateToken (gateHeap s g) < 1 \<Longrightarrow> gate_step hs s (return_token g i s)"
| release: "i < length hs \<Longrightarrow> gatePlaces s ! i = Inside g \<Longrightarrow> gateToken (gateHeap s g) < 1 \<Longrightarrow> gate_step hs s (return_token g i s)"
| drop_ref: "i < length hs \<Longrightarrow> gatePlaces s ! i = Leaving g \<Longrightarrow> gate_step hs s (releaseSessionSetupGateRef (hs ! i) g i s)"

definition gates_new :: "string list \<Rightarrow> gate_state" where
  "gates_new hs = \<lparr>gates = (\<lambda>_. None), gateHeap = (\<lambda>_. \<lparr>gateToken = 0, gateRefs = 0\<rparr>), nextGate = 0,
     gatePlaces = replicate (length hs) Outside, gatesClosed = False\<rparr>"

inductive gate_reach :: "string list \<Rightarrow> gate_state \<Rightarrow> bool" for hs where
  gate_start: "gate_reach hs (gates_new hs)"
| gate_next: "gate_reach hs s \<Longrightarrow> gate_step hs s s' \<Longrightarrow> gate_reach hs s'"

section \<open>The invariant\<close>

abbreviation refers :: "nat \<Rightarrow> gate_place \<Rightarrow> bool" where
  "refers g p \<equiv> place_gate p = Some g"

definition gate_inv :: "string list \<Rightarrow> gate_state \<Rightarrow> bool" where
  "gate_inv hs s =
     (length (gatePlaces s) = length hs \<and>
      (\<forall>g < nextGate s. gateToken (gateHeap s g) + count_at (gate_holds g) (gatePlaces s) = 1 \<and>
         gateRefs (gateHeap s g) = count_at (refers g) (gatePlaces s)) \<and>
      (\<forall>h g. gates s h = Some g \<longrightarrow> g < nextGate s \<and> 0 < count_at (refers g) (gatePlaces s)) \<and>
      (\<forall>i g. i < length hs \<longrightarrow> refers g (gatePlaces s ! i) \<longrightarrow> gates s (hs ! i) = Some g) \<and>
      (\<forall>h h' g. gates s h = Some g \<longrightarrow> gates s h' = Some g \<longrightarrow> h = h'))"


lemma place_sel [simp]: "gatePlaces (put_place i p s) = (gatePlaces s)[i := p]" "gateHeap (put_place i p s) = gateHeap s"
  "gates (put_place i p s) = gates s" "nextGate (put_place i p s) = nextGate s"
  by (simp_all add: put_place_def)

lemma gate_sel [simp]: "gatePlaces (put_gate g x s) = gatePlaces s" "gateHeap (put_gate g x s) = (gateHeap s)(g := x)"
  "gates (put_gate g x s) = gates s" "nextGate (put_gate g x s) = nextGate s"
  by (simp_all add: put_gate_def)

lemma gate_inv_place:
  assumes "gate_inv hs s" "i < length hs" "refers g (gatePlaces s ! i)"
  shows "g < nextGate s" "gates s (hs ! i) = Some g" "gateRefs (gateHeap s g) = count_at (refers g) (gatePlaces s)"
    "0 < count_at (refers g) (gatePlaces s)"
proof -
  show some: "gates s (hs ! i) = Some g" using assms by (simp add: gate_inv_def)
  show lt: "g < nextGate s" using some assms(1) unfolding gate_inv_def by blast
  show "gateRefs (gateHeap s g) = count_at (refers g) (gatePlaces s)" using lt assms(1) unfolding gate_inv_def by blast
  show "0 < count_at (refers g) (gatePlaces s)" using some assms(1) unfolding gate_inv_def by blast
qed

lemma gate_inv_gate:
  assumes "gate_inv hs s" "g < nextGate s"
  shows "gateToken (gateHeap s g) + count_at (gate_holds g) (gatePlaces s) = 1" "gateRefs (gateHeap s g) = count_at (refers g) (gatePlaces s)"
  using assms unfolding gate_inv_def by blast+

lemma gate_inv_known:
  assumes "gate_inv hs s" "gates s h = Some g"
  shows "g < nextGate s" "0 < count_at (refers g) (gatePlaces s)"
  using assms unfolding gate_inv_def by blast+

lemma gate_inv_length: "gate_inv hs s \<Longrightarrow> length (gatePlaces s) = length hs"
  unfolding gate_inv_def by blast

lemma gate_inv_inj: "gate_inv hs s \<Longrightarrow> gates s h = Some g \<Longrightarrow> gates s h' = Some g \<Longrightarrow> h = h'"
  unfolding gate_inv_def by blast

lemma gate_invI:
  assumes "length (gatePlaces s) = length hs"
    "\<And>g. g < nextGate s \<Longrightarrow> gateToken (gateHeap s g) + count_at (gate_holds g) (gatePlaces s) = 1"
    "\<And>g. g < nextGate s \<Longrightarrow> gateRefs (gateHeap s g) = count_at (refers g) (gatePlaces s)"
    "\<And>h g. gates s h = Some g \<Longrightarrow> g < nextGate s" "\<And>h g. gates s h = Some g \<Longrightarrow> 0 < count_at (refers g) (gatePlaces s)"
    "\<And>i g. i < length hs \<Longrightarrow> refers g (gatePlaces s ! i) \<Longrightarrow> gates s (hs ! i) = Some g"
    "\<And>h h' g. gates s h = Some g \<Longrightarrow> gates s h' = Some g \<Longrightarrow> h = h'"
  shows "gate_inv hs s"
  using assms unfolding gate_inv_def by blast

text \<open>A caller that moves on while it refers to the same gate: the token goes where the caller's hold goes.\<close>

lemma move_inv:
  assumes "gate_inv hs s" "i < length hs" "refers g (gatePlaces s ! i)" "refers g p"
    "token + (if gate_holds g p then 1 else 0) = gateToken (gateHeap s g) + (if gate_holds g (gatePlaces s ! i) then 1 else 0)"
  shows "gate_inv hs (put_place i p (put_gate g ((gateHeap s g)\<lparr>gateToken := token\<rparr>) s))"
proof -
  have len: "i < length (gatePlaces s)" using assms(1,2) by (simp add: gate_inv_def)
  note h = count_at_update[OF len, of "gate_holds k" p for k] and r = count_at_update[OF len, of "refers k" p for k]
  have other: "gate_holds k p = False \<and> gate_holds k (gatePlaces s ! i) = False" if "k \<noteq> g" for k
    using that assms(3,4) by (cases p; cases "gatePlaces s ! i") auto
  have places: "count_at (refers k) ((gatePlaces s)[i := p]) = count_at (refers k) (gatePlaces s)" for k
    using r[of k] assms(3,4) by (auto split: if_splits)
  show ?thesis
  proof (rule gate_invI)
    fix k assume "k < nextGate (put_place i p (put_gate g ((gateHeap s g)\<lparr>gateToken := token\<rparr>) s))"
    then have k: "k < nextGate s" by simp
    show "gateToken (gateHeap (put_place i p (put_gate g ((gateHeap s g)\<lparr>gateToken := token\<rparr>) s)) k) +
        count_at (gate_holds k) (gatePlaces (put_place i p (put_gate g ((gateHeap s g)\<lparr>gateToken := token\<rparr>) s))) = 1"
      using h[of k] gate_inv_gate(1)[OF assms(1) k] assms(5) other[of k] by (cases "k = g") (auto split: if_splits)
  next
    fix j k assume "j < length hs" "refers k (gatePlaces (put_place i p (put_gate g ((gateHeap s g)\<lparr>gateToken := token\<rparr>) s)) ! j)"
    then show "gates (put_place i p (put_gate g ((gateHeap s g)\<lparr>gateToken := token\<rparr>) s)) (hs ! j) = Some k"
      using gate_inv_place(2)[OF assms(1), of j k] gate_inv_place(2)[OF assms(1,2,3)] assms(4) len by (cases "j = i") auto
  qed (use gate_inv_length[OF assms(1)] gate_inv_gate[OF assms(1)] gate_inv_known[OF assms(1)] gate_inv_inj[OF assms(1)] places in auto)
qed

lemma move_only_inv:
  assumes "gate_inv hs s" "i < length hs" "refers g (gatePlaces s ! i)" "refers g p" "gate_holds g p = gate_holds g (gatePlaces s ! i)"
  shows "gate_inv hs (put_place i p s)"
proof -
  have "put_gate g ((gateHeap s g)\<lparr>gateToken := gateToken (gateHeap s g)\<rparr>) s = s" by (simp add: put_gate_def)
  then show ?thesis using move_inv[OF assms(1-4), of "gateToken (gateHeap s g)"] assms(5) by simp
qed

lemma enter_inv:
  assumes "gate_inv hs s" "i < length hs" "gatePlaces s ! i = Outside"
  shows "gate_inv hs (enter_gate (hs ! i) i s)"
proof -
  have len: "i < length (gatePlaces s)" using assms(1,2) by (simp add: gate_inv_def)
  note h = count_at_update[OF len, of "gate_holds k" "Waiting g" for k g] and r = count_at_update[OF len, of "refers k" "Waiting g" for k g]
  have holds: "count_at (gate_holds k) ((gatePlaces s)[i := Waiting g]) = count_at (gate_holds k) (gatePlaces s)" for k g
    using h[of k g] assms(3) by simp
  have refs: "count_at (refers k) ((gatePlaces s)[i := Waiting g]) = count_at (refers k) (gatePlaces s) + (if k = g then 1 else 0)" for k g
    using r[of k g] assms(3) by (auto split: if_splits)
  show ?thesis
  proof (cases "gates s (hs ! i)")
    case (Some g)
    note known = gate_inv_known[OF assms(1)] and gate = gate_inv_gate[OF assms(1)] and place = gate_inv_place[OF assms(1)]
    let ?s = "put_place i (Waiting g) (put_gate g ((gateHeap s g)\<lparr>gateRefs := gateRefs (gateHeap s g) + 1\<rparr>) s)"
    have "gate_inv hs ?s"
    proof (rule gate_invI)
      fix j k assume "j < length hs" "refers k (gatePlaces ?s ! j)"
      then show "gates ?s (hs ! j) = Some k" using place(2)[of j k] Some len by (cases "j = i") auto
    qed (use gate_inv_length[OF assms(1)] gate_inv_inj[OF assms(1)] Some known gate in \<open>auto simp: holds refs\<close>)
    then show ?thesis using Some by (simp add: enter_gate_def)
  next
    case None
    let ?g = "nextGate s"
    have none: "\<not> refers ?g p \<and> \<not> gate_holds ?g p" if place: "p \<in> set (gatePlaces s)" for p
    proof -
      obtain j where j: "j < length (gatePlaces s)" "gatePlaces s ! j = p" using place unfolding in_set_conv_nth by blast
      then have "\<not> refers ?g p" using gate_inv_place(1)[OF assms(1), of j ?g] gate_inv_length[OF assms(1)] by auto
      then show ?thesis by (cases p) auto
    qed
    have "count_at (refers ?g) (gatePlaces s) = 0" "count_at (gate_holds ?g) (gatePlaces s) = 0"
      using none by (auto intro: count_at_none)
    moreover have "\<not> refers g (gatePlaces s ! j)" if "j < length hs" "hs ! j = hs ! i" for j g
      using that gate_inv_place(2)[OF assms(1), of j g] None by auto
    moreover note known = gate_inv_known[OF assms(1)] and gate = gate_inv_gate[OF assms(1)] and place = gate_inv_place[OF assms(1)]
    let ?s = "put_place i (Waiting ?g) (put_gate ?g \<lparr>gateToken = 1, gateRefs = 1\<rparr>
      (s\<lparr>gates := (gates s)(hs ! i := Some ?g), nextGate := ?g + 1\<rparr>))"
    have "gate_inv hs ?s"
    proof (rule gate_invI)
      fix j k assume j: "j < length hs" "refers k (gatePlaces ?s ! j)"
      show "gates ?s (hs ! j) = Some k"
      proof (cases "j = i")
        case True
        then show ?thesis using j len by simp
      next
        case False
        then show ?thesis using place(2)[of j k] j None by auto
      qed
    next
      fix h h' k assume "gates ?s h = Some k" "gates ?s h' = Some k"
      then show "h = h'" using gate_inv_inj[OF assms(1), of h k h'] known(1)[of h k] known(1)[of h' k] by (auto split: if_splits)
    next
      fix h k assume h: "gates ?s h = Some k"
      then show "k < nextGate ?s" using known(1)[of h k] by (auto split: if_splits)
      show "0 < count_at (refers k) (gatePlaces ?s)" using known(2)[of h k] h by (auto simp: refs split: if_splits)
    qed (use gate_inv_length[OF assms(1)] gate calculation in \<open>auto simp: holds refs less_Suc_eq\<close>)
    then show ?thesis using None by (simp add: enter_gate_def Let_def)
  qed
qed

lemma drop_inv:
  assumes "gate_inv hs s" "i < length hs" "gatePlaces s ! i = Leaving g"
  shows "gate_inv hs (releaseSessionSetupGateRef (hs ! i) g i s)"
proof -
  have len: "i < length (gatePlaces s)" using assms(1,2) by (simp add: gate_inv_def)
  note h = count_at_update[OF len, of "gate_holds k" Outside for k] and r = count_at_update[OF len, of "refers k" Outside for k]
  have holds: "count_at (gate_holds k) ((gatePlaces s)[i := Outside]) = count_at (gate_holds k) (gatePlaces s)" for k
    using h[of k] assms(3) by simp
  have refs: "count_at (refers k) ((gatePlaces s)[i := Outside]) = count_at (refers k) (gatePlaces s) - (if k = g then 1 else 0)" for k
    using r[of k] assms(3) by (auto split: if_splits)
  have lt: "g < nextGate s" and some: "gates s (hs ! i) = Some g"
    and count: "gateRefs (gateHeap s g) = count_at (refers g) (gatePlaces s)" "0 < count_at (refers g) (gatePlaces s)"
    using gate_inv_place[OF assms(1,2), of g] assms(3) by simp_all
  have gone: "\<not> refers g (gatePlaces s ! j)" if last: "count_at (refers g) (gatePlaces s) - 1 = 0" and j: "j < length hs" "j \<noteq> i" for j
  proof
    assume r: "refers g (gatePlaces s ! j)"
    have "j < length (gatePlaces s)" using j assms(1) by (simp add: gate_inv_def)
    then have "2 \<le> count_at (refers g) (gatePlaces s)"
      using count_at_two[OF len _ j(2)[symmetric], of "refers g"] r assms(3) by simp
    then show False using last by simp
  qed
  have only: "h = hs ! i" if "gates s h = Some g" for h using gate_inv_inj[OF assms(1) that some] .
  show ?thesis
  proof (cases "count_at (refers g) (gatePlaces s) - 1 = 0")
    case True
    let ?s = "put_place i Outside (put_gate g ((gateHeap s g)\<lparr>gateRefs := 0\<rparr>) s)\<lparr>gates := (gates s)(hs ! i := None)\<rparr>"
    have "gate_inv hs ?s"
    proof (rule gate_invI)
      fix j k assume j: "j < length hs" "refers k (gatePlaces ?s ! j)"
      then have ij: "j \<noteq> i" using len by auto
      then have "k \<noteq> g" using j gone[OF True] by auto
      moreover have "gates s (hs ! j) = Some k" using gate_inv_place(2)[OF assms(1) j(1), of k] j ij by simp
      ultimately show "gates ?s (hs ! j) = Some k" using some by auto
    next
      fix h k assume k: "gates ?s h = Some k"
      then have hk: "gates s h = Some k" "h \<noteq> hs ! i" by (auto split: if_splits)
      then have "k \<noteq> g" using only by blast
      then show "0 < count_at (refers k) (gatePlaces ?s)" using gate_inv_known(2)[OF assms(1) hk(1)] refs[of k] by simp
      show "k < nextGate ?s" using gate_inv_known(1)[OF assms(1) hk(1)] by simp
    next
      fix h h' k assume "gates ?s h = Some k" "gates ?s h' = Some k"
      then show "h = h'" using gate_inv_inj[OF assms(1), of h k h'] by (auto split: if_splits)
    qed (use gate_inv_gate[OF assms(1)] gate_inv_length[OF assms(1)] True holds refs in auto)
    then show ?thesis using True some count by (simp add: releaseSessionSetupGateRef_def Let_def)
  next
    case False
    let ?s = "put_place i Outside (put_gate g ((gateHeap s g)\<lparr>gateRefs := count_at (refers g) (gatePlaces s) - 1\<rparr>) s)"
    have "gate_inv hs ?s"
    proof (rule gate_invI)
      fix j k assume j: "j < length hs" "refers k (gatePlaces ?s ! j)"
      then have "j \<noteq> i" using len by auto
      then show "gates ?s (hs ! j) = Some k" using gate_inv_place(2)[OF assms(1) j(1), of k] j by simp
    next
      fix h k assume k: "gates ?s h = Some k"
      then show "0 < count_at (refers k) (gatePlaces ?s)" using gate_inv_known(2)[OF assms(1), of h k] refs[of k] False by simp
      show "k < nextGate ?s" using gate_inv_known(1)[OF assms(1), of h k] k by simp
    next
      fix h h' k assume "gates ?s h = Some k" "gates ?s h' = Some k"
      then show "h = h'" using gate_inv_inj[OF assms(1), of h k h'] by auto
    qed (use gate_inv_gate[OF assms(1)] gate_inv_length[OF assms(1)] holds refs in auto)
    then show ?thesis using False some count by (simp add: releaseSessionSetupGateRef_def Let_def)
  qed
qed

lemma gate_step_inv:
  assumes "gate_step hs s s'" "gate_inv hs s"
  shows "gate_inv hs s'"
  using assms
proof (induction rule: gate_step.induct)
  case (close_client s)
  then show ?case by (simp add: gate_inv_def)
next
  case (enter i s)
  then show ?case by (blast intro: enter_inv)
next
  case (take i s g)
  then show ?case unfolding take_token_def by (intro move_inv) auto
next
  case (give_up i s g)
  then show ?case by (intro move_only_inv[of hs s i g]) auto
next
  case (look i s g)
  then show ?case by (intro move_only_inv[of hs s i g]) auto
next
  case (too_late i s g)
  then show ?case unfolding return_token_def by (intro move_inv) auto
next
  case (release i s g)
  then show ?case unfolding return_token_def by (intro move_inv) auto
next
  case (drop_ref i s g)
  then show ?case by (blast intro: drop_inv)
qed

lemma gate_reach_inv: "gate_reach hs s \<Longrightarrow> gate_inv hs s"
proof (induction rule: gate_reach.induct)
  case gate_start
  then show ?case by (simp add: gate_inv_def gates_new_def)
qed (blast dest: gate_step_inv)

interpretation gate: token_lock "gate_reach hs" "\<lambda>s g. g < nextGate s" "\<lambda>s g. gateToken (gateHeap s g)" gatePlaces gate_holds
  by unfold_locales (use gate_reach_inv in \<open>auto simp: gate_inv_def\<close>)

text \<open>However many callers configure sessions at the same time, at most one of them is in the configure flow of a session;
  putting its token back never blocks; a session nobody configures can be entered at once; and a client nobody is
  configuring sessions of keeps no gate.\<close>

theorem gate_exclusive:
  assumes "gate_reach hs s"
  shows "(\<forall>i < length hs. \<forall>j < length hs. \<forall>g k. hs ! i = hs ! j \<longrightarrow> gatePlaces s ! i = Inside g \<longrightarrow> gatePlaces s ! j = Inside k \<longrightarrow> i = j) \<and>
    (\<forall>i < length hs. \<forall>g. gate_holds g (gatePlaces s ! i) \<longrightarrow> gateToken (gateHeap s g) = 0) \<and>
    (\<forall>i < length hs. \<forall>g. gatePlaces s ! i = Waiting g \<longrightarrow> (\<forall>p \<in> set (gatePlaces s). \<not> gate_holds g p) \<longrightarrow>
       gate_step hs s (take_token g i s)) \<and>
    (list_all (\<lambda>p. p = Outside) (gatePlaces s) \<longrightarrow> gates s = (\<lambda>_. None))"
proof -
  note inv = gate_reach_inv[OF assms]
  have len: "length (gatePlaces s) = length hs" using inv by (simp add: gate_inv_def)
  have live: "g < nextGate s" if "i < length hs" "refers g (gatePlaces s ! i)" for i g using gate_inv_place(1)[OF inv that] .
  have "i = j" if "i < length hs" "j < length hs" "hs ! i = hs ! j" "gatePlaces s ! i = Inside g" "gatePlaces s ! j = Inside k" for i j g k
  proof -
    have "g = k" using gate_inv_place(2)[OF inv that(1), of g] gate_inv_place(2)[OF inv that(2), of k] that(3-5) by simp
    then show ?thesis using gate.exclusive[OF assms live[OF that(1), of g], of i j] that len by simp
  qed
  moreover have "gateToken (gateHeap s g) = 0" if "i < length hs" "gate_holds g (gatePlaces s ! i)" for i g
    using gate.room[OF assms live[OF that(1)], of g i] that len by (cases "gatePlaces s ! i") auto
  moreover have "gate_step hs s (take_token g i s)" if "i < length hs" "gatePlaces s ! i = Waiting g" "\<forall>p \<in> set (gatePlaces s). \<not> gate_holds g p" for i g
  proof -
    have "g < nextGate s" using live[OF that(1), of g] that(2) by simp
    then have "gateToken (gateHeap s g) = 1" using gate.free[OF assms] that(3) by blast
    then show ?thesis using gate_step.take[OF that(1,2)] by simp
  qed
  moreover have "gates s = (\<lambda>_. None)" if all: "list_all (\<lambda>p. p = Outside) (gatePlaces s)"
  proof
    fix h
    have "gates s h \<noteq> Some g" for g
    proof
      assume "gates s h = Some g"
      then have "0 < count_at (refers g) (gatePlaces s)" using inv by (auto simp: gate_inv_def)
      moreover have "count_at (refers g) (gatePlaces s) = 0" using all by (intro count_at_none) (auto simp: list_all_iff)
      ultimately show False by simp
    qed
    then show "gates s h = None" by (cases "gates s h") auto
  qed
  ultimately show ?thesis by blast
qed

theorem gate_exclusive_witness:
  "\<exists>s. gate_reach [''s'', ''s''] s \<and> gatePlaces s = [Inside 0, Waiting 0] \<and> gateToken (gateHeap s 0) = 0"
proof -
  let ?hs = "[''s'', ''s'']"
  let ?s0 = "gates_new ?hs"
  let ?s1 = "enter_gate ''s'' 0 ?s0"
  let ?s2 = "enter_gate ''s'' 1 ?s1"
  let ?s3 = "take_token 0 0 ?s2"
  let ?s4 = "put_place 0 (Inside 0) ?s3"
  note defs = gates_new_def enter_gate_def Let_def put_place_def put_gate_def take_token_def
  have "gate_reach ?hs ?s0" by (rule gate_start)
  moreover have "gate_step ?hs ?s0 ?s1" using enter[of 0 ?hs ?s0] by (simp add: defs)
  moreover have "gate_step ?hs ?s1 ?s2" using enter[of 1 ?hs ?s1] by (simp add: defs)
  moreover have "gate_step ?hs ?s2 ?s3" using take[of 0 ?hs ?s2 0] by (simp add: defs)
  moreover have "gate_step ?hs ?s3 ?s4" using look[of 0 ?hs ?s3 0] by (simp add: defs)
  ultimately have r: "gate_reach ?hs ?s4" by (blast intro: gate_next)
  have p: "gatePlaces ?s4 = [Inside 0, Waiting 0]" by (simp add: defs)
  from gate_exclusive[OF r] p have "gateToken (gateHeap ?s4 0) = 0" by force
  with r p show ?thesis by blast
qed

end
