(* ===== verification/Single_Flight.thy ===== *)
theory Single_Flight
  imports Compatibility Tokens
begin

text \<open>
  One call that many callers share: the compatibility check of \<open>client.go\<close> and the closing of a session in
  \<open>session.go\<close>, \<open>serialized_session.go\<close> and \<open>managed_session.go\<close> all publish a call record under a mutex, let later
  callers wait for its \<open>done\<close> channel, and remember an outcome that settles the question.  They differ in the outcomes
  that are remembered, in whether the waiters ask again, and in whether the memory is bounded.
\<close>

record flight_mode =
  keeps :: "goerr option \<Rightarrow> bool"
  retries :: "goerr option \<Rightarrow> sentinel option \<Rightarrow> bool"
  forgets :: bool

text \<open>\<open>callOwner\<close> is a history variable.  A call is in \<open>calls\<close> once its \<open>done\<close> channel is closed.\<close>

record flight_call =
  callErr :: "goerr option"
  retryForWaiters :: bool
  callOwner :: nat

datatype flight_caller = Arriving | Owning nat | Joined nat | Answered "goerr option"

record flight =
  answer :: "goerr option option"
  inFlight :: "nat option"
  calls :: "nat \<Rightarrow> flight_call option"
  nextCall :: nat
  callers :: "flight_caller list"
  ctxErrs :: "sentinel option list"

definition put_caller :: "nat \<Rightarrow> flight_caller \<Rightarrow> flight \<Rightarrow> flight" where
  "put_caller i p s = s\<lparr>callers := (callers s)[i := p]\<rparr>"

text \<open>The first section under the mutex.\<close>

definition flight_enter :: "nat \<Rightarrow> flight \<Rightarrow> flight" where
  "flight_enter i s =
     (case answer s of
        Some err \<Rightarrow> put_caller i (Answered err) s
      | None \<Rightarrow>
          (case inFlight s of
             Some k \<Rightarrow> put_caller i (Joined k) s
           | None \<Rightarrow> put_caller i (Owning (nextCall s)) (s\<lparr>inFlight := Some (nextCall s), nextCall := nextCall s + 1\<rparr>)))"

text \<open>The owner's second section, with the outcome of the work and the state of the owner's context.\<close>

definition flight_finish :: "flight_mode \<Rightarrow> nat \<Rightarrow> nat \<Rightarrow> goerr option \<Rightarrow> flight \<Rightarrow> flight" where
  "flight_finish m i k err s =
     put_caller i (Answered err)
       (s\<lparr>answer := if keeps m err then Some err else answer s,
          calls := (calls s)(k := Some \<lparr>callErr = err, retryForWaiters = retries m err (ctxErrs s ! i), callOwner = i\<rparr>),
          inFlight := None\<rparr>)"

definition flight_wake :: "nat \<Rightarrow> flight_call \<Rightarrow> flight \<Rightarrow> flight" where
  "flight_wake i call s = put_caller i (if retryForWaiters call then Arriving else Answered (callErr call)) s"

definition flight_leave :: "nat \<Rightarrow> sentinel \<Rightarrow> flight \<Rightarrow> flight" where
  "flight_leave i e s = put_caller i (Answered (Some (Sentinel e))) s"

inductive flight_step :: "flight_mode \<Rightarrow> flight \<Rightarrow> flight \<Rightarrow> bool" for m where
  ctx_ends: "i < length (ctxErrs s) \<Longrightarrow> ctxErrs s ! i = None \<Longrightarrow> e = ContextCanceled \<or> e = ContextDeadlineExceeded \<Longrightarrow>
     flight_step m s (s\<lparr>ctxErrs := (ctxErrs s)[i := Some e]\<rparr>)"
| flight_arrive: "i < length (callers s) \<Longrightarrow> callers s ! i = Arriving \<Longrightarrow> flight_step m s (flight_enter i s)"
| flight_settle: "i < length (callers s) \<Longrightarrow> callers s ! i = Owning k \<Longrightarrow> flight_step m s (flight_finish m i k err s)"
| flight_woken: "i < length (callers s) \<Longrightarrow> callers s ! i = Joined k \<Longrightarrow> calls s k = Some call \<Longrightarrow> flight_step m s (flight_wake i call s)"
| flight_gives_up: "i < length (callers s) \<Longrightarrow> callers s ! i = Joined k \<Longrightarrow> ctxErrs s ! i = Some e \<Longrightarrow> flight_step m s (flight_leave i e s)"
| flight_evict: "forgets m \<Longrightarrow> flight_step m s (s\<lparr>answer := None\<rparr>)"

definition flight_new :: "nat \<Rightarrow> flight" where
  "flight_new n = \<lparr>answer = None, inFlight = None, calls = (\<lambda>_. None), nextCall = 0,
     callers = replicate n Arriving, ctxErrs = replicate n None\<rparr>"

inductive flight_reach :: "flight_mode \<Rightarrow> nat \<Rightarrow> flight \<Rightarrow> bool" for m n where
  flight_start: "flight_reach m n (flight_new n)"
| flight_next: "flight_reach m n s \<Longrightarrow> flight_step m s s' \<Longrightarrow> flight_reach m n s'"

section \<open>The four users\<close>

text \<open>\<open>CheckAPIVersion\<close> remembers a success and every error that is not a failed detection; its waiters ask again when the
  owner failed because of its own context.\<close>

definition version_mode :: flight_mode where
  "version_mode = \<lparr>keeps = (\<lambda>err. case err of None \<Rightarrow> True | Some e \<Rightarrow> \<not> err_is e ErrCompatibilityDetection),
     retries = (\<lambda>err ctx. case ctx of None \<Rightarrow> False | Some c \<Rightarrow> err_is_opt err c), forgets = False\<rparr>"

text \<open>\<open>SerializedSession.Close\<close> and the managed session remember a success.\<close>

definition serialized_close_mode :: flight_mode where
  "serialized_close_mode = \<lparr>keeps = (\<lambda>err. err = None), retries = (\<lambda>_ _. False), forgets = False\<rparr>"

definition managed_close_mode :: flight_mode where
  "managed_close_mode = \<lparr>keeps = (\<lambda>err. err = None), retries = (\<lambda>_ _. False), forgets = False\<rparr>"

text \<open>\<open>GatewayClient.CloseSession\<close> keeps the last 1024 closed handles only.\<close>

definition client_close_mode :: flight_mode where
  "client_close_mode = \<lparr>keeps = (\<lambda>err. err = None), retries = (\<lambda>_ _. False), forgets = True\<rparr>"

section \<open>The invariant\<close>

fun owning :: "flight_caller \<Rightarrow> bool" where
  "owning (Owning k) = True"
| "owning _ = False"

text \<open>Where an answer may come from: the caller's own context, its own work, or the finished work of another caller that
  the caller's context had no part in.\<close>

definition answer_from :: "flight_mode \<Rightarrow> flight \<Rightarrow> nat \<Rightarrow> goerr option \<Rightarrow> bool" where
  "answer_from m s i v =
     ((\<exists>e. ctxErrs s ! i = Some e \<and> v = Some (Sentinel e)) \<or>
      (\<exists>k call. calls s k = Some call \<and> callErr call = v \<and> (callOwner call = i \<or> \<not> retryForWaiters call \<or> keeps m v)))"

definition caller_ok :: "flight_mode \<Rightarrow> flight \<Rightarrow> nat \<Rightarrow> bool" where
  "caller_ok m s i =
     (case callers s ! i of
        Arriving \<Rightarrow> True
      | Owning k \<Rightarrow> inFlight s = Some k
      | Joined k \<Rightarrow> inFlight s = Some k \<or> calls s k \<noteq> None
      | Answered v \<Rightarrow> answer_from m s i v)"

definition flight_inv :: "flight_mode \<Rightarrow> nat \<Rightarrow> flight \<Rightarrow> bool" where
  "flight_inv m n s =
     (length (callers s) = n \<and> length (ctxErrs s) = n \<and>
      (if inFlight s = None then 1 else 0) + count_at owning (callers s) = 1 \<and>
      (\<forall>k \<ge> nextCall s. calls s k = None \<and> inFlight s \<noteq> Some k) \<and>
      (\<forall>k. inFlight s = Some k \<longrightarrow> calls s k = None \<and> answer s = None) \<and>
      (\<forall>v. answer s = Some v \<longrightarrow> keeps m v \<and> (\<exists>k call. calls s k = Some call \<and> callErr call = v)) \<and>
      (\<forall>i < n. caller_ok m s i))"

lemma put_caller_sel [simp]: "callers (put_caller i p s) = (callers s)[i := p]" "answer (put_caller i p s) = answer s"
  "inFlight (put_caller i p s) = inFlight s" "calls (put_caller i p s) = calls s" "nextCall (put_caller i p s) = nextCall s"
  "ctxErrs (put_caller i p s) = ctxErrs s"
  by (simp_all add: put_caller_def)

lemma flight_invI:
  assumes "length (callers s) = n" "length (ctxErrs s) = n" "(if inFlight s = None then 1 else 0) + count_at owning (callers s) = 1"
    "\<And>k. nextCall s \<le> k \<Longrightarrow> calls s k = None \<and> inFlight s \<noteq> Some k"
    "\<And>k. inFlight s = Some k \<Longrightarrow> calls s k = None \<and> answer s = None"
    "\<And>v. answer s = Some v \<Longrightarrow> keeps m v \<and> (\<exists>k call. calls s k = Some call \<and> callErr call = v)"
    "\<And>i. i < n \<Longrightarrow> caller_ok m s i"
  shows "flight_inv m n s"
  using assms unfolding flight_inv_def by blast

lemma flight_inv_D:
  assumes "flight_inv m n s"
  shows "length (callers s) = n" "length (ctxErrs s) = n" "(if inFlight s = None then 1 else 0) + count_at owning (callers s) = 1"
    "nextCall s \<le> k \<Longrightarrow> calls s k = None \<and> inFlight s \<noteq> Some k"
    "inFlight s = Some k \<Longrightarrow> calls s k = None \<and> answer s = None"
    "answer s = Some v \<Longrightarrow> keeps m v \<and> (\<exists>k call. calls s k = Some call \<and> callErr call = v)"
    "i < n \<Longrightarrow> caller_ok m s i"
  using assms unfolding flight_inv_def by blast+

lemma caller_ok_mono:
  assumes "caller_ok m s j" "callers s' ! j = callers s ! j" "\<And>e. ctxErrs s ! j = Some e \<Longrightarrow> ctxErrs s' ! j = Some e"
    "\<And>k call. calls s k = Some call \<Longrightarrow> calls s' k = Some call"
    "\<And>k. inFlight s = Some k \<Longrightarrow> inFlight s' = Some k \<or> (calls s' k \<noteq> None \<and> callers s ! j \<noteq> Owning k)"
  shows "caller_ok m s' j"
proof (cases "callers s ! j")
  case (Joined k)
  then show ?thesis using assms by (cases "calls s k") (auto simp: caller_ok_def)
next
  case (Answered v)
  then have "answer_from m s j v" using assms(1) by (simp add: caller_ok_def)
  then have "answer_from m s' j v" using assms(3,4) unfolding answer_from_def by blast
  then show ?thesis using Answered assms(2) by (simp add: caller_ok_def)
qed (use assms in \<open>auto simp: caller_ok_def\<close>)

text \<open>A caller that moves while the shared call stays as it is.\<close>

lemma moved_caller:
  assumes "flight_inv m n s" "i < n" "\<not> owning (callers s ! i)" "\<not> owning p" "caller_ok m (put_caller i p s) i"
  shows "flight_inv m n (put_caller i p s)"
proof (rule flight_invI)
  note D = flight_inv_D[OF assms(1)]
  have len: "i < length (callers s)" using assms(2) D(1) by simp
  show "(if inFlight (put_caller i p s) = None then 1 else 0) + count_at owning (callers (put_caller i p s)) = 1"
    using D(3) count_at_update[OF len, of owning p] assms(3,4) by simp
  fix j assume j: "j < n"
  show "caller_ok m (put_caller i p s) j"
    by (cases "j = i") (use assms(5) caller_ok_mono[OF D(7)[OF j], of "put_caller i p s"] in auto)
qed (use flight_inv_D[OF assms(1)] in auto)

lemma flight_enter_inv:
  assumes "flight_inv m n s" "i < n" "callers s ! i = Arriving"
  shows "flight_inv m n (flight_enter i s)"
proof (cases "answer s")
  case (Some v)
  then have "answer_from m s i v" using flight_inv_D(6)[OF assms(1) Some] unfolding answer_from_def by blast
  then have "caller_ok m (put_caller i (Answered v) s) i"
    using assms(2) flight_inv_D(1)[OF assms(1)] by (simp add: caller_ok_def answer_from_def)
  then show ?thesis using moved_caller[OF assms(1,2)] assms(3) Some by (simp add: flight_enter_def)
next
  case None
  note D = flight_inv_D[OF assms(1)]
  have len: "i < length (callers s)" using assms(2) D(1) by simp
  show ?thesis
  proof (cases "inFlight s")
    case (Some k)
    then have "caller_ok m (put_caller i (Joined k) s) i" using len by (simp add: caller_ok_def)
    then show ?thesis using moved_caller[OF assms(1,2)] assms(3) None Some by (simp add: flight_enter_def)
  next
    case idle: None
    let ?s = "put_caller i (Owning (nextCall s)) (s\<lparr>inFlight := Some (nextCall s), nextCall := nextCall s + 1\<rparr>)"
    have "flight_inv m n ?s"
    proof (rule flight_invI)
      show "(if inFlight ?s = None then 1 else 0) + count_at owning (callers ?s) = 1"
        using D(3) count_at_update[OF len, of owning "Owning (nextCall s)"] assms(3) idle by simp
      fix j assume j: "j < n"
      show "caller_ok m ?s j"
      proof (cases "j = i")
        case True
        then show ?thesis using len by (simp add: caller_ok_def)
      next
        case False
        then show ?thesis using idle by (intro caller_ok_mono[OF D(7)[OF j]]) simp_all
      qed
    qed (use D None idle in auto)
    then show ?thesis using None idle by (simp add: flight_enter_def)
  qed
qed

lemma flight_finish_inv:
  assumes "flight_inv m n s" "i < n" "callers s ! i = Owning k"
  shows "flight_inv m n (flight_finish m i k err s)"
proof (rule flight_invI)
  note D = flight_inv_D[OF assms(1)]
  have len: "i < length (callers s)" using assms(2) D(1) by simp
  have k: "inFlight s = Some k" using D(7)[OF assms(2)] assms(3) by (simp add: caller_ok_def)
  have one: "count_at owning (callers s) = 1" using D(3) k by simp
  let ?s = "flight_finish m i k err s"
  show "(if inFlight ?s = None then 1 else 0) + count_at owning (callers ?s) = 1"
    using one count_at_update[OF len, of owning "Answered err"] assms(3) by (simp add: flight_finish_def)
  show "calls ?s j = None \<and> inFlight ?s \<noteq> Some j" if "nextCall ?s \<le> j" for j
  proof -
    have "j \<noteq> k" using that D(4)[of j] k by (auto simp: flight_finish_def)
    then show ?thesis using that D(4)[of j] by (simp add: flight_finish_def)
  qed
  show "keeps m v \<and> (\<exists>k call. calls ?s k = Some call \<and> callErr call = v)" if "answer ?s = Some v" for v
  proof -
    have "answer s = None" using D(5)[OF k] by simp
    then have v: "keeps m err" "v = err" using that by (auto simp: flight_finish_def split: if_splits)
    have "\<exists>call. calls ?s k = Some call \<and> callErr call = err" by (simp add: flight_finish_def)
    then show ?thesis using v by blast
  qed
  fix j assume j: "j < n"
  show "caller_ok m ?s j"
  proof (cases "j = i")
    case True
    have "\<exists>call. calls ?s k = Some call \<and> callErr call = err \<and> callOwner call = i" by (simp add: flight_finish_def)
    then have "answer_from m ?s i err" unfolding answer_from_def by blast
    then show ?thesis using True len by (simp add: caller_ok_def flight_finish_def)
  next
    case False
    have "callers s ! j \<noteq> Owning k'" for k'
      using count_at_two[OF len, of j owning] one assms(3) False j D(1) by auto
    moreover have "calls s k = None" using D(5)[OF k] by simp
    ultimately show ?thesis using False k by (intro caller_ok_mono[OF D(7)[OF j]]) (auto simp: flight_finish_def)
  qed
qed (use flight_inv_D[OF assms(1)] in \<open>auto simp: flight_finish_def\<close>)

lemma flight_step_inv [go_inv]:
  assumes "flight_step m s s'" "flight_inv m n s"
  shows "flight_inv m n s'"
  using assms
proof (induction rule: flight_step.induct)
  case (ctx_ends i s e)
  note D = flight_inv_D[OF ctx_ends.prems]
  show ?case
  proof (rule flight_invI)
    fix j assume "j < n"
    then show "caller_ok m (s\<lparr>ctxErrs := (ctxErrs s)[i := Some e]\<rparr>) j"
      using D(7) ctx_ends.hyps by (intro caller_ok_mono[OF D(7)]) (auto simp: nth_list_update)
  qed (use D in auto)
next
  case (flight_arrive i s)
  then show ?case using flight_enter_inv flight_inv_D(1) by metis
next
  case (flight_settle i s k err)
  then show ?case using flight_finish_inv flight_inv_D(1) by metis
next
  case (flight_woken i s k call)
  note D = flight_inv_D[OF flight_woken.prems]
  have i: "i < n" using flight_woken.hyps(1) D(1) by simp
  have "caller_ok m (put_caller i (if retryForWaiters call then Arriving else Answered (callErr call)) s) i"
    using flight_woken.hyps by (auto simp: caller_ok_def answer_from_def)
  then show ?case unfolding flight_wake_def
    by (intro moved_caller[OF flight_woken.prems i]) (use flight_woken.hyps in auto)
next
  case (flight_gives_up i s k e)
  have i: "i < n" using flight_gives_up.hyps(1) flight_inv_D(1)[OF flight_gives_up.prems] by simp
  have "caller_ok m (put_caller i (Answered (Some (Sentinel e))) s) i"
    using flight_gives_up.hyps by (auto simp: caller_ok_def answer_from_def)
  then show ?case unfolding flight_leave_def
    by (intro moved_caller[OF flight_gives_up.prems i]) (use flight_gives_up.hyps in auto)
next
  case (flight_evict s)
  note D = flight_inv_D[OF flight_evict.prems]
  show ?case
  proof (rule flight_invI)
    fix j assume "j < n"
    then show "caller_ok m (s\<lparr>answer := None\<rparr>) j" by (intro caller_ok_mono[OF D(7)]) auto
  qed (use D in auto)
qed

lemma flight_new_inv: "flight_inv m n (flight_new n)"
proof (rule flight_invI)
  have "count_at owning (replicate n Arriving) = 0" by (intro count_at_none) auto
  then show "(if inFlight (flight_new n) = None then 1 else 0) + count_at owning (callers (flight_new n)) = 1"
    by (simp add: flight_new_def)
qed (auto simp: flight_new_def caller_ok_def)

lemma flight_reach_inv: "flight_reach m n s \<Longrightarrow> flight_inv m n s"
  by (induction rule: flight_reach.induct) (auto intro: flight_new_inv flight_step_inv)

interpretation flight: token_lock "flight_reach m n" "\<lambda>_ _. True" "\<lambda>s _. if inFlight s = None then 1 else 0" callers "\<lambda>(_ :: unit). owning"
  by unfold_locales (rule flight_inv_D(3)[OF flight_reach_inv])

text \<open>A remembered answer stays, unless the memory is bounded.\<close>

lemma flight_step_answer:
  assumes "flight_step m s s'" "\<not> forgets m" "flight_inv m n s" "answer s = Some v"
  shows "answer s' = Some v"
  using assms
proof (induction rule: flight_step.induct)
  case (flight_settle i s k err)
  then have "caller_ok m s i" using flight_inv_D(1,7) by metis
  then have "inFlight s = Some k" using flight_settle.hyps by (simp add: caller_ok_def)
  then show ?case using flight_inv_D(5)[OF flight_settle.prems(2)] flight_settle.prems(3) by simp
qed (simp_all add: flight_enter_def flight_wake_def flight_leave_def split: option.splits)

text \<open>A caller that waits is woken once the call it waits for is over, and that call is then on its way or over.\<close>

lemma flight_waiting:
  assumes "flight_reach m n s" "i < n" "callers s ! i = Joined k"
  shows "(\<exists>j < n. callers s ! j = Owning k) \<or> (\<exists>call. calls s k = Some call \<and> flight_step m s (flight_wake i call s))"
proof (cases "calls s k")
  case None
  note D = flight_inv_D[OF flight_reach_inv[OF assms(1)]]
  have k: "inFlight s = Some k" using D(7)[OF assms(2)] assms(3) None by (simp add: caller_ok_def)
  then have "count_at owning (callers s) \<noteq> 0" using D(3) by simp
  then obtain p where "p \<in> set (callers s)" "owning p" using count_at_none[of "callers s" owning] by metis
  then obtain j where j: "j < n" "owning (callers s ! j)" using D(1) by (metis in_set_conv_nth)
  then obtain k' where "callers s ! j = Owning k'" by (cases "callers s ! j") auto
  then show ?thesis using j D(7)[OF j(1)] k by (auto simp: caller_ok_def)
next
  case (Some call)
  then show ?thesis using flight_woken[of i s k call m] assms flight_inv_D(1)[OF flight_reach_inv[OF assms(1)]] by simp
qed



end
