(* ===== verification/Spec2Isabelle.thy ===== *)
theory Spec2Isabelle
  imports Error_Methods Copies Event_Channel Build_Info Contexts Close_Race Observers Snapshots Serialized_Session Client_Life Decoder_Round Job_Client Error_Text Changelog Stream_Results Session_Recipe Session_Gate Single_Flight Lifecycle
begin

text \<open>
  A verification development of flink-sql-go, a Go client of the Apache Flink SQL Gateway (\<open>src/flinksqlgateway\<close>, with the
  package \<open>changelog\<close>) and of the REST API of the JobManager (\<open>src/flinkrest\<close>).

  \<^bold>\<open>The program.\<close>  A \<open>GatewayClient\<close> is configured once (\<open>config.go\<close>), finds out which Flink release and REST API version it talks
  to (\<open>compatibility.go\<close>, \<open>capability.go\<close>), opens sessions (\<open>session.go\<close>), submits statements (\<open>operation.go\<close>, \<open>script.go\<close>,
  \<open>materialized_table.go\<close>) and reads their results page by page, either collecting them (\<open>poller.go\<close>, \<open>result.go\<close>) or as an
  iterator (\<open>result_stream.go\<close>).  Every request goes through \<open>doJSON\<close> (\<open>transport.go\<close>), which retries safe requests once, tells
  how far a failed request got, and filters every server text.  On top of that are metadata queries (\<open>metadata.go\<close>), declarative
  session setups (\<open>session_setup.go\<close>, \<open>session_setup_compile.go\<close>), recipes (\<open>session_recipe.go\<close>), sessions that run one statement at
  a time (\<open>serialized_session.go\<close>), sessions with a heartbeat (\<open>heartbeat.go\<close>, \<open>managed_session.go\<close>), the shutdown of all of them
  (\<open>lifecycle.go\<close>, \<open>activity.go\<close>), decoding of fields by their logical type (\<open>decoder.go\<close>) and the table a changelog describes
  (\<open>changelog/materializer.go\<close>).

  \<^bold>\<open>Conventions.\<close>  A Go string or byte slice is a \<open>string\<close>, one \<open>char\<close> per byte.  A result with an error is a sum, \<open>Inl\<close> the error.
  A struct is a record, an error type a constructor of \<open>goerr\<close>, a map an association list, \<open>int64\<close> an \<open>int\<close> with the wrap-around
  written out where the code computes (\<open>wrap64\<close>, \<open>succ64\<close>).  State is passed explicitly; the client is the record \<open>client\<close> whose last
  field is the world.  What is not in the repository is a field of the record \<open>transport_env\<close> or an argument: the HTTP exchange
  with its trace callbacks, contexts and their clock, the URL parser, the user's observers, validators and callbacks.  A
  context is a value, and \<open>Contexts\<close> gives Go's; an environment is wrapped (\<open>logged\<close>, \<open>watched\<close>) to keep the exchanges it made as a history.

  \<^bold>\<open>Libraries.\<close>
  \<^item> \<open>Prelude\<close>, \<open>GoStrings\<close>: the error monad; UTF-8, \<open>strings\<close>, \<open>strconv\<close>.  \<open>GoErrors\<close>: \<open>errors.go\<close> with \<open>errors.Is\<close> and \<open>As\<close>;
    \<open>Error_Text\<close>: its \<open>Error()\<close> methods; \<open>Error_Methods\<close>: the methods on the structs, and \<open>errors.Is\<close> and \<open>As\<close> over them.  \<open>GoTime\<close>: \<open>time.Parse\<close>.
  \<^item> \<open>Json\<close>: \<open>encoding/json\<close> and \<open>canonicalJSON\<close>: the parser runs on fuel twice the length plus two, \<open>parse_enough\<close> shows that
    more never changes the answer; the nesting limit is the library's 10000.  What \<open>Marshal\<close> writes is read back, and two texts have
    the same canonical form exactly when their values are equal.
  \<^item> \<open>Tokens\<close>: the one-token channel used as a lock (locale \<open>token_lock\<close>).  \<open>Activity\<close>: \<open>activity.go\<close> under any order of calls.

  \<^bold>\<open>Components.\<close>
  \<^item> \<open>Security\<close>, \<open>Messages\<close>: handles, paging URIs, route segments, SQL quoting, sanitising and redacting server texts.  An accepted
    paging URI has the configured origin; a quoted name is one token that reads back; no secret survives redaction.
  \<^item> \<open>Config\<close>, \<open>Compatibility\<close>: \<open>normalize\<close> gives complete configurations; the selected API version is the best one both sides
    support; what was determined once never changes.
  \<^item> \<open>Transport\<close>: at most one request, or two if declared safe; the error tells whether the server may have acted.
    \<open>Operations\<close>: submissions reach the server at most once.
  \<^item> \<open>Page_Decoding\<close>, \<open>Rows\<close>: result pages and raw fields.  \<open>Decoder\<close>, \<open>Decoder_Round\<close>: decoded values have the column's type, and
    the wire form of every scalar is read back.
  \<^item> \<open>Results\<close>: the paging loop as a function that ends within its row and poll limits; what it delivers is what was
    fetched, in order; complete streams are read completely.  \<open>Stream_Results\<close>: the iterator as a state machine with the invariant of
    every sequence of calls; the clean-up runs once; draining it equals collecting.
  \<^item> \<open>Execution\<close>: a whole execution over the client: its operation is closed exactly once and the first failure is kept.
    \<open>Event_Channel\<close>: the goroutine of \<open>StreamResults\<close>, its channels and their consumer as a step relation.
  \<^item> \<open>Metadata\<close>, \<open>Setup_Compile\<close>, \<open>Session_Setup\<close>, \<open>Session_Recipe\<close>: queries; plans compiled to ordered statements whose options read
    back; the report of a setup against the requests it made; recipes.
  \<^item> \<open>Sessions\<close>: the session tables and their bounded memory.  \<open>Single_Flight\<close>, \<open>Session_Gate\<close>, \<open>Serializer\<close>, \<open>Heartbeats\<close>: step
    relations of any number of goroutines over the shared state of \<open>CheckAPIVersion\<close> and \<open>CloseSession\<close>, the configure gate, the
    serialised session and the heartbeat with its monitor; invariants by rule induction on the reachable states.
    \<open>Managed_Session\<close>, \<open>Lifecycle\<close>: the sequential composition: managed sessions, their streams and the shutdown.
    \<open>Serialized_Session\<close>: serialized sessions and the wrapper that keeps their gate while a stream is open.  \<open>Client_Life\<close>:
    \<open>NewClient\<close> and an invariant of every client that any sequence of calls leads to.  \<open>Close_Race\<close>: an execution that ends while
    the client is closed.  \<open>Contexts\<close>: Go's contexts, when they end and what they carry, with the client's functions on them: closing
    the client ends every context derived from a caller's and spares those of marked clean-ups.  \<open>Build_Info\<close>: \<open>version.go\<close> and the compatibility matrix.
  \<^item> \<open>Snapshots\<close>: the deep copies of \<open>snapshot.go\<close> and \<open>decoder.go\<close> over values with addresses: a copy means the same and shares
    nothing; \<open>Copies\<close>: those of sessions, capabilities and row accessors.  \<open>Observers\<close>: \<open>runObserver\<close> with its slot channel and any number of callbacks at once.
  \<^item> \<open>Changelog\<close>: the materializer refines a table indexed by keys, and keeps its order, limits and pending updates consistent.
  \<^item> \<open>Job_Types\<close>, \<open>Job_Client\<close>: the JobManager client: one request per operation, the right one, to the configured origin.

  \<^bold>\<open>Interfaces.\<close>  Locales state what a client relies on and are interpreted on the models: the token lock on the configure gate and the
  serialiser, the ordered store of the materializer, the environment of the paging loop and of the iterator on the gateway client, the values
  and times of contexts on Go's.

  \<^bold>\<open>Bounds.\<close>  The paging loop and the iterator recurse on the polls that are left, the reader of a compiled option list and of a
  quoted name on the length of the text; each has a lemma that its fuel is enough.  Redaction replaces the longer fragments first, as the stable sort of
  the source does.

  \<^bold>\<open>Not modelled.\<close>  The interface declarations, enumerations of string constants and getters; \<open>doc.go\<close>; sharing of
  memory outside \<open>Snapshots\<close> and \<open>Copies\<close>.  Of the standard library, \<open>net/http\<close>, \<open>net/url\<close>,
  \<open>strconv.ParseFloat\<close> and \<open>unicode.IsPrint\<close> are parameters, and the errors of decoders keep what they are about, not their wording.
  Goroutines are modelled where state is shared between calls (above); elsewhere one call is one step.
\<close>

end
